(* ===== verification/Prelude.thy ===== *)
theory Prelude
  imports Main "HOL-Library.Word" "HOL-Library.Char_ord" "HOL-Library.List_Lexorder"
    "HOL-Library.Sublist" "HOL-Library.AList"
begin

text \<open>
  Shared ground of the development: Go's machine integers, instants and byte strings with the
  functions of the standard library that the sources call on them, and the lemmas about them
  that the component theories use.

  \<^item> \<open>int64\<close> and \<open>int\<close> are \<open>64 word\<close>, read as two's complement by \<open>sint\<close>.
  \<^item> A string is its list of bytes.
  \<^item> A \<open>time.Time\<close> is the number of nanoseconds since Go's zero time; \<open>UTC()\<close> changes the
    location only, so it does not appear.
\<close>

named_theorems int64_simps \<open>signed reading of 64-bit words\<close>

section \<open>Lists\<close>

lemma filter_key_le_1: "distinct (map f xs) \<Longrightarrow> length (filter (\<lambda>x. f x = k \<and> P x) xs) \<le> 1"
proof (induction xs)
  case (Cons x xs)
  have "filter (\<lambda>y. f y = k \<and> P y) xs = []" if "f x = k"
    using that Cons.prems by (auto simp: filter_empty_conv image_iff)
  with Cons show ?case by auto
qed simp

section \<open>Machine integers\<close>

type_synonym int64 = "64 word"
type_synonym int32 = "32 word"
type_synonym int16 = "16 word"

definition MaxInt64 :: int64 where
  "MaxInt64 = 9223372036854775807"

definition MinInt64 :: int64 where
  "MinInt64 = 9223372036854775808"

definition in_int64 :: "int \<Rightarrow> bool" where
  "in_int64 i \<longleftrightarrow> - 9223372036854775808 \<le> i \<and> i \<le> 9223372036854775807"

abbreviation int64_of :: "int \<Rightarrow> int64" where
  "int64_of \<equiv> word_of_int"

lemma sint_in_int64 [simp]: "in_int64 (sint (w :: int64))"
  using sint_ge [of w] sint_lt [of w] by (simp add: in_int64_def)

lemma sint_bounds:
  "- 9223372036854775808 \<le> sint (w :: int64)" "sint w \<le> 9223372036854775807"
  using sint_in_int64 [of w] by (simp_all add: in_int64_def)

lemma signed_take_bit_int64: "in_int64 i \<Longrightarrow> signed_take_bit 63 i = i"
  by (rule signed_take_bit_int_eq_self) (simp_all add: in_int64_def)

lemma sint_int64_of [simp]: "in_int64 i \<Longrightarrow> sint (int64_of i) = i"
  by (simp add: signed_take_bit_int64 sint_sbintrunc')

lemma sint_add_exact: "in_int64 (sint a + sint b) \<Longrightarrow> sint (a + b :: int64) = sint a + sint b"
  by (simp add: sint_word_add signed_take_bit_int64)

lemma sint_diff_exact: "in_int64 (sint a - sint b) \<Longrightarrow> sint (a - b :: int64) = sint a - sint b"
  by (simp add: sint_word_diff signed_take_bit_int64)

lemma sint_minus_exact: "in_int64 (- sint a) \<Longrightarrow> sint (- a :: int64) = - sint a"
  by (simp add: sint_word_minus signed_take_bit_int64)

lemma sint_MaxInt64 [int64_simps]: "sint MaxInt64 = 9223372036854775807"
  by (simp add: MaxInt64_def)

lemma sint_MinInt64 [int64_simps]: "sint MinInt64 = - 9223372036854775808"
  by (simp add: MinInt64_def)

lemma int64_eq_iff: "(a :: int64) = b \<longleftrightarrow> sint a = sint b"
  by (auto intro: signed_word_eqI)

lemmas int64_order [int64_simps] = word_sless_alt word_sle_eq


text \<open>Go's \<open>len\<close>; no slice is long enough to leave the range of \<open>int\<close>.\<close>

abbreviation len :: "'a list \<Rightarrow> int" where
  "len xs \<equiv> int (length xs)"

section \<open>Instants\<close>

type_synonym gotime = int

definition IsZero :: "gotime \<Rightarrow> bool" where
  "IsZero t \<longleftrightarrow> t = 0"

section \<open>Byte strings\<close>

text \<open>
  \<open>for _, c := range s\<close> walks over code points; every byte of a code point outside ASCII, and
  every byte that is no valid UTF-8, makes it yield a value of at least 128. A loop that accepts
  ASCII ranges only and fails on the first other value therefore decides byte by byte.
\<close>

definition visible :: "char \<Rightarrow> bool" where
  "visible c \<longleftrightarrow> CHR ''!'' \<le> c \<and> c \<le> CHR ''~''"

definition is_lower :: "char \<Rightarrow> bool" where
  "is_lower c \<longleftrightarrow> CHR ''a'' \<le> c \<and> c \<le> CHR ''z''"

definition is_upper :: "char \<Rightarrow> bool" where
  "is_upper c \<longleftrightarrow> CHR ''A'' \<le> c \<and> c \<le> CHR ''Z''"

definition is_digit :: "char \<Rightarrow> bool" where
  "is_digit c \<longleftrightarrow> CHR ''0'' \<le> c \<and> c \<le> CHR ''9''"

definition is_hex :: "char \<Rightarrow> bool" where
  "is_hex c \<longleftrightarrow> is_digit c \<or> CHR ''a'' \<le> c \<and> c \<le> CHR ''f'' \<or> CHR ''A'' \<le> c \<and> c \<le> CHR ''F''"

lemmas char_class_defs = visible_def is_lower_def is_upper_def is_digit_def is_hex_def

lemma char_le_code: "c \<le> d \<longleftrightarrow> (of_char c :: nat) \<le> of_char d"
  by (simp add: less_eq_char_def)

subsection \<open>\<open>strings.TrimSpace\<close>\<close>

text \<open>
  The UTF-8 encodings of the code points for which \<open>unicode.IsSpace\<close> holds. None of them is a
  proper suffix or prefix of a longer valid code point, so decoding the first (or last) code point
  of a string yields one of them exactly when its encoding is a prefix (or suffix) of the string.
\<close>

definition space_runes :: "string list" where
  "space_runes =
     [[CHR 0x09], [CHR 0x0A], [CHR 0x0B], [CHR 0x0C], [CHR 0x0D], [CHR 0x20],
      [CHR 0xC2, CHR 0x85], [CHR 0xC2, CHR 0xA0], [CHR 0xE1, CHR 0x9A, CHR 0x80],
      [CHR 0xE2, CHR 0x80, CHR 0x80], [CHR 0xE2, CHR 0x80, CHR 0x81],
      [CHR 0xE2, CHR 0x80, CHR 0x82], [CHR 0xE2, CHR 0x80, CHR 0x83],
      [CHR 0xE2, CHR 0x80, CHR 0x84], [CHR 0xE2, CHR 0x80, CHR 0x85],
      [CHR 0xE2, CHR 0x80, CHR 0x86], [CHR 0xE2, CHR 0x80, CHR 0x87],
      [CHR 0xE2, CHR 0x80, CHR 0x88], [CHR 0xE2, CHR 0x80, CHR 0x89],
      [CHR 0xE2, CHR 0x80, CHR 0x8A], [CHR 0xE2, CHR 0x80, CHR 0xA8],
      [CHR 0xE2, CHR 0x80, CHR 0xA9], [CHR 0xE2, CHR 0x80, CHR 0xAF],
      [CHR 0xE2, CHR 0x81, CHR 0x9F], [CHR 0xE3, CHR 0x80, CHR 0x80]]"

function strip :: "string list \<Rightarrow> string \<Rightarrow> string" where
  "strip ws s =
     (case find (\<lambda>w. w \<noteq> [] \<and> prefix w s) ws of
        None \<Rightarrow> s
      | Some w \<Rightarrow> strip ws (drop (length w) s))"
  by pat_completeness auto
termination
  by (relation "measure (\<lambda>(ws, s). length s)")
    (auto simp: find_Some_iff prefix_def)

declare strip.simps [simp del]

definition TrimSpace :: "string \<Rightarrow> string" where
  "TrimSpace s = rev (strip (map rev space_runes) (rev (strip space_runes s)))"

lemma strip_fixed:
  "(\<And>w. w \<in> set ws \<Longrightarrow> w \<noteq> [] \<Longrightarrow> \<not> prefix w s) \<Longrightarrow> strip ws s = s"
  by (subst strip.simps) (auto split: option.split simp: find_Some_iff)

lemma strip_stripped: "w \<in> set ws \<Longrightarrow> w \<noteq> [] \<Longrightarrow> \<not> prefix w (strip ws s)"
proof (induction ws s rule: strip.induct)
  case (1 ws s)
  show ?case
  proof (cases "find (\<lambda>w. w \<noteq> [] \<and> prefix w s) ws")
    case None
    then have "strip ws s = s" by (subst strip.simps) simp
    with None "1.prems" show ?thesis by (auto simp: find_None_iff)
  next
    case (Some v)
    with "1.IH" [OF Some] "1.prems" show ?thesis by (subst strip.simps) auto
  qed
qed

lemma strip_suffix: "suffix (strip ws s) s"
proof (induction ws s rule: strip.induct)
  case (1 ws s)
  show ?case
  proof (cases "find (\<lambda>w. w \<noteq> [] \<and> prefix w s) ws")
    case None
    then show ?thesis by (subst strip.simps) simp
  next
    case (Some v)
    then show ?thesis
      using "1.IH" [OF Some] suffix_drop [of "length v" s]
      by (subst strip.simps) (auto intro: suffix_order.trans)
  qed
qed

lemma strip_idem [simp]: "strip ws (strip ws s) = strip ws s"
  by (rule strip_fixed) (rule strip_stripped)

lemma TrimSpace_idem [simp]: "TrimSpace (TrimSpace s) = TrimSpace s"
proof -
  let ?l = "strip space_runes s" and ?r = "strip (map rev space_runes)"
  have "prefix (rev (?r (rev ?l))) ?l"
    using strip_suffix [of "map rev space_runes" "rev ?l"]
    by (metis rev_rev_ident suffix_to_prefix)
  then have "strip space_runes (rev (?r (rev ?l))) = rev (?r (rev ?l))"
    by (intro strip_fixed) (metis prefix_order.trans strip_stripped)
  then show ?thesis by (simp add: TrimSpace_def)
qed

lemma space_runes_not_visible:
  "w \<in> set space_runes \<Longrightarrow> w \<noteq> [] \<and> \<not> visible (hd w) \<and> \<not> visible (last w)"
  by (auto simp: space_runes_def visible_def)

lemma TrimSpace_ends:
  assumes "visible (hd s)" "visible (last s)" "s \<noteq> []"
  shows "TrimSpace s = s"
proof -
  have "strip space_runes s = s"
  proof (rule strip_fixed)
    fix w assume w: "w \<in> set space_runes" "w \<noteq> []"
    show "\<not> prefix w s"
    proof
      assume "prefix w s"
      then have "hd w = hd s" using w(2) by (auto simp: prefix_def)
      with assms(1) space_runes_not_visible [OF w(1)] show False by simp
    qed
  qed
  moreover have "strip (map rev space_runes) (rev s) = rev s"
  proof (rule strip_fixed)
    fix w assume w: "w \<in> set (map rev space_runes)" "w \<noteq> []"
    then have nv: "\<not> visible (hd w)"
      using space_runes_not_visible [of "rev w"] by (auto simp: last_rev)
    show "\<not> prefix w (rev s)"
    proof
      assume "prefix w (rev s)"
      then have "hd w = hd (rev s)" using w(2) by (auto simp: prefix_def)
      with assms(2,3) nv show False by (simp add: hd_rev)
    qed
  qed
  ultimately show ?thesis by (simp add: TrimSpace_def)
qed

lemma TrimSpace_Nil [simp]: "TrimSpace [] = []"
  by (simp add: TrimSpace_def strip_fixed)

lemma TrimSpace_visible: "list_all visible s \<Longrightarrow> TrimSpace s = s"
  by (cases "s = []") (simp_all add: TrimSpace_ends list_all_iff)

subsection \<open>\<open>strings.ToLower\<close> on ASCII, \<open>hex.DecodeString\<close> and \<open>utf8.ValidString\<close>\<close>

definition lower_char :: "char \<Rightarrow> char" where
  "lower_char c = (if is_upper c then char_of ((of_char c :: nat) + 32) else c)"

definition ToLower :: "string \<Rightarrow> string" where
  "ToLower s = map lower_char s"

definition hex_DecodeString_ok :: "string \<Rightarrow> bool" where
  "hex_DecodeString_ok s \<longleftrightarrow> even (length s) \<and> list_all is_hex s"

lemma char_code_less_256: "(of_char c :: nat) < 256"
  by (fact nat_of_char_less_256)

lemma of_char_lower: "is_upper c \<Longrightarrow> (of_char (lower_char c) :: nat) = of_char c + 32"
  by (simp add: lower_char_def is_upper_def char_le_code)

lemma lower_char_idem [simp]: "lower_char (lower_char c) = lower_char c"
proof (cases "is_upper c")
  case True
  then have "\<not> is_upper (lower_char c)"
    using of_char_lower [OF True] by (simp add: is_upper_def char_le_code)
  then show ?thesis by (simp add: lower_char_def)
qed (simp add: lower_char_def)

lemma lower_char_hex [simp]: "is_hex c \<Longrightarrow> is_hex (lower_char c)"
proof (cases "is_upper c")
  case True
  assume "is_hex c"
  then show ?thesis
    using of_char_lower [OF True] True
    by (auto simp: is_hex_def is_digit_def is_upper_def char_le_code)
qed (simp add: lower_char_def)

lemma lower_char_dash [simp]: "lower_char c = CHR ''-'' \<longleftrightarrow> c = CHR ''-''"
proof (cases "is_upper c")
  case True
  then have "(of_char (lower_char c) :: nat) \<noteq> of_char (CHR ''-'')"
    using of_char_lower [OF True] by (simp add: is_upper_def char_le_code)
  moreover have "c \<noteq> CHR ''-''" using True by (auto simp: is_upper_def)
  ultimately show ?thesis by auto
qed (simp add: lower_char_def)

lemma is_hex_visible: "is_hex c \<Longrightarrow> visible c"
  by (auto simp: is_hex_def is_digit_def visible_def char_le_code)

lemma length_ToLower [simp]: "length (ToLower s) = length s"
  by (simp add: ToLower_def)

lemma ToLower_idem [simp]: "ToLower (ToLower s) = ToLower s"
  by (simp add: ToLower_def o_def)

definition hex_digit :: "nat \<Rightarrow> char" where
  "hex_digit n = (if n < 10 then char_of (48 + n) else char_of (87 + n))"

lemma hex_digit_hex:
  assumes "n < 16"
  shows "is_hex (hex_digit n)" "lower_char (hex_digit n) = hex_digit n" "hex_digit n \<noteq> CHR ''-''"
proof -
  have "list_all (\<lambda>n. is_hex (hex_digit n) \<and> lower_char (hex_digit n) = hex_digit n \<and>
      hex_digit n \<noteq> CHR ''-'') [0..<16]"
    by code_simp
  moreover have "n \<in> set [0..<16]" using assms by simp
  ultimately have "is_hex (hex_digit n) \<and> lower_char (hex_digit n) = hex_digit n \<and> hex_digit n \<noteq> CHR ''-''"
    unfolding list_all_iff by (rule bspec)
  then show "is_hex (hex_digit n)" "lower_char (hex_digit n) = hex_digit n" "hex_digit n \<noteq> CHR ''-''"
    by simp_all
qed

text \<open>\<open>rune_tail s\<close>: how many continuation bytes follow the non-ASCII lead byte \<open>b\<close> in a valid encoding.\<close>

definition cont_byte :: "nat \<Rightarrow> bool" where
  "cont_byte b \<longleftrightarrow> 128 \<le> b \<and> b \<le> 191"

fun rune_tail :: "nat \<Rightarrow> nat list \<Rightarrow> nat option" where
  "rune_tail b (b1 # bs) =
     (if 194 \<le> b \<and> b \<le> 223 then (if cont_byte b1 then Some 1 else None)
      else if 224 \<le> b \<and> b \<le> 239 then
        (if cont_byte b1 \<and> (b = 224 \<longrightarrow> 160 \<le> b1) \<and> (b = 237 \<longrightarrow> b1 \<le> 159)
            \<and> bs \<noteq> [] \<and> cont_byte (hd bs) then Some 2 else None)
      else if 240 \<le> b \<and> b \<le> 244 then
        (if cont_byte b1 \<and> (b = 240 \<longrightarrow> 144 \<le> b1) \<and> (b = 244 \<longrightarrow> b1 \<le> 143)
            \<and> 2 \<le> length bs \<and> list_all cont_byte (take 2 bs) then Some 3 else None)
      else None)"
| "rune_tail b [] = None"

fun valid_utf8 :: "nat list \<Rightarrow> bool" where
  "valid_utf8 [] \<longleftrightarrow> True"
| "valid_utf8 (b # bs) \<longleftrightarrow>
     (if b < 128 then valid_utf8 bs
      else case rune_tail b bs of None \<Rightarrow> False | Some n \<Rightarrow> valid_utf8 (drop n bs))"

definition utf8_ValidString :: "string \<Rightarrow> bool" where
  "utf8_ValidString s \<longleftrightarrow> valid_utf8 (map of_char s)"

lemma utf8_ValidString_visible: "list_all visible s \<Longrightarrow> utf8_ValidString s"
proof (induction s)
  case (Cons c s)
  then have "(of_char c :: nat) < 128"
    by (simp add: visible_def char_le_code)
  with Cons show ?case by (simp add: utf8_ValidString_def)
qed (simp add: utf8_ValidString_def)

text \<open>\<open>strings.SplitSeq\<close> with a separator of one byte.\<close>

fun split_at :: "char \<Rightarrow> string \<Rightarrow> string list" where
  "split_at d [] = [[]]"
| "split_at d (c # cs) =
     (if c = d then [] # split_at d cs
      else case split_at d cs of [] \<Rightarrow> [[c]] | p # ps \<Rightarrow> (c # p) # ps)"

section \<open>Decimal text\<close>

text \<open>The decimal rendering of \<open>strconv\<close>, \<open>encoding/json\<close> and of PostgreSQL's casts to text.\<close>

fun nat_text :: "nat \<Rightarrow> string" where
  "nat_text n =
     (if n < 10 then [char_of (48 + n)] else nat_text (n div 10) @ [char_of (48 + n mod 10)])"

declare nat_text.simps [simp del]

definition int_text :: "int \<Rightarrow> string" where
  "int_text i = (if i < 0 then CHR ''-'' # nat_text (nat (- i)) else nat_text (nat i))"

definition text_nat :: "string \<Rightarrow> nat" where
  "text_nat s = foldl (\<lambda>n c. 10 * n + (of_char c - 48)) 0 s"

lemma text_nat_snoc: "text_nat (s @ [c]) = 10 * text_nat s + (of_char c - 48)"
  by (simp add: text_nat_def)

lemma digit_char_code [simp]: "d < 10 \<Longrightarrow> of_char (char_of (48 + d) :: char) = 48 + (d :: nat)"
  by simp

lemma nat_text_digits: "list_all is_digit (nat_text n) \<and> nat_text n \<noteq> []"
proof (induction n rule: nat_text.induct)
  case (1 n)
  have d: "is_digit (char_of (48 + k))" if "k < 10" for k :: nat
    using that by (simp add: is_digit_def char_le_code)
  from 1 show ?case
    by (subst (1 2) nat_text.simps) (simp add: d)
qed

lemma text_nat_text [simp]: "text_nat (nat_text n) = n"
proof (induction n rule: nat_text.induct)
  case (1 n)
  show ?case
  proof (cases "n < 10")
    case True
    then show ?thesis by (subst nat_text.simps) (simp add: text_nat_def)
  next
    case False
    with 1 show ?thesis by (subst nat_text.simps) (simp add: text_nat_snoc)
  qed
qed

lemma nat_text_inject [simp]: "nat_text m = nat_text n \<longleftrightarrow> m = n"
  by (metis text_nat_text)

lemma hd_nat_text: "hd (nat_text n) \<noteq> CHR ''-''"
  using nat_text_digits [of n] by (cases "nat_text n") (auto simp: is_digit_def)

lemma int_text_inject [simp]: "int_text i = int_text j \<longleftrightarrow> i = j"
proof -
  have "CHR ''-'' # s \<noteq> nat_text n" "nat_text n \<noteq> CHR ''-'' # s" for s n
    using hd_nat_text [of n] by (metis list.sel(1))+
  then show ?thesis by (auto simp: int_text_def)
qed

text \<open>The same digits computed on binary integers, for evaluation.\<close>

function int_digits :: "int \<Rightarrow> string" where
  "int_digits i =
     (if i < 10 then [char_of (nat (48 + i))]
      else int_digits (i div 10) @ [char_of (nat (48 + i mod 10))])"
  by pat_completeness auto
termination
  by (relation "measure nat") auto

declare int_digits.simps [simp del]

lemma nat_text_digits_of: "nat_text n = int_digits (int n)"
proof (induction n rule: nat_text.induct)
  case (1 n)
  have "nat (48 + int n) = 48 + n" "nat (48 + int n mod 10) = 48 + n mod 10"
    by (simp_all add: nat_add_distrib nat_mod_distrib)
  with 1 show ?case
    by (subst nat_text.simps, subst int_digits.simps) (simp add: zdiv_int)
qed

lemma int_text_code [code]:
  "int_text i = (if i < 0 then CHR ''-'' # int_digits (- i) else int_digits i)"
  by (simp add: int_text_def nat_text_digits_of)

section \<open>Increments\<close>

lemma sint_Suc_exact: "w \<noteq> MaxInt64 \<Longrightarrow> sint (w + 1 :: int64) = sint w + 1"
proof -
  assume "w \<noteq> MaxInt64"
  then have "in_int64 (sint w + sint (1 :: int64))"
    using sint_bounds [of w] by (auto simp: in_int64_def int64_eq_iff sint_MaxInt64)
  then show ?thesis by (simp add: sint_add_exact)
qed

lemma sint_Suc_positive: "0 < sint (w + 1 :: int64) \<Longrightarrow> sint (w + 1) = sint w + 1"
  by (cases "w = MaxInt64") (simp_all add: sint_Suc_exact MaxInt64_def)

end
