(* ===== verification/Results.thy ===== *)
theory Results
  imports Prelude
begin

text \<open>
  Errors as values and the control flow that propagates them.

  \<^item> \<open>cause\<close> is one error of a wrapping tree: a package's sentinel variable (\<open>E package name\<close>), a
    PostgreSQL error response (code and constraint name), the end of a cancelled context, or an
    opaque failure of a driver. \<open>error\<close> is the list of the causes in the tree, so \<open>errors.Is\<close> is
    membership and \<open>errors.AsType[*pgconn.PgError]\<close> finds the first PostgreSQL response.
  \<^item> \<open>'a result\<close> is a Go \<open>(T, error)\<close> pair; \<open>andThen\<close> is the \<open>if err != nil { return ... }\<close> step and
    \<open>wrap\<close> the \<open>fmt.Errorf\<close> around it.
  \<^item> \<open>('db, 'a) tx\<close> is code that runs inside an open transaction: it returns a result and the
    transaction's view of the database, on the error paths too. \<open>run_tx\<close> brackets it with begin,
    commit and rollback, and \<open>retry\<close> is the bounded retry loop of the repositories.
\<close>

named_theorems result_simps \<open>inversion of the result and transaction combinators\<close>

section \<open>Errors\<close>

datatype package =
    LedgerDomain | LedgerRepository | TransferDomain | TransferRepository | RiskDomain
  | Event | OutboxRepository | Outbox | InboxRepository | QuarantineRepository
  | AuditRepository | WalletDomain | WalletRepository | RiskRedis | RiskWorker
  | TransactionWorker | ReviewCase | Investigator | ReviewDecision | Oidc

datatype sentinel =
    ErrInvalidCurrency | ErrCurrencyMismatch | ErrAmountOverflow | ErrInvalidPosting
  | ErrInvalidJournalEntry | ErrUnbalancedJournalEntry
  | ErrInvalidArgument | ErrNotFound | ErrAlreadyExists | ErrAlreadyReversed
  | ErrInsufficientFunds | ErrInvalidReversal | ErrCorruptData | ErrSerializationFailure
  | ErrInvalidTransfer | ErrInvalidLifecycle | ErrInvalidTransition
  | ErrUnauthorized | ErrInactiveAccount | ErrNonCustomerAccount | ErrIdempotencyConflict
  | ErrStateConflict | ErrInvalidPolicy | ErrInvalidInput | ErrInvalidEnvelope | ErrClaimLost
  | ErrInvalidStatus | ErrUnknownPolicy | ErrUnsupportedEventType | ErrInvalidRateLimit
  | ErrInvalidConfig | ErrInvalidToken

datatype cause =
    E package sentinel
  | PgError (pg_code: string) (pg_constraint: string)
  | RetryableReplay
  | ContextDone
  | Opaque string

type_synonym error = "cause list"

definition errors_Is :: "error \<Rightarrow> cause \<Rightarrow> bool" where
  "errors_Is err target \<longleftrightarrow> target \<in> set err"

fun is_PgError :: "cause \<Rightarrow> bool" where
  "is_PgError (PgError c n) = True"
| "is_PgError _ = False"

definition as_PgError :: "error \<Rightarrow> cause option" where
  "as_PgError err = find is_PgError err"

lemma as_PgError_None [simp]: "as_PgError err = None \<longleftrightarrow> (\<forall>c \<in> set err. \<not> is_PgError c)"
  by (auto simp: as_PgError_def find_None_iff)

section \<open>Results\<close>

type_synonym 'a result = "error + 'a"

abbreviation fail :: "package \<Rightarrow> sentinel \<Rightarrow> 'a result" where
  "fail p s \<equiv> Inl [E p s]"

definition andThen :: "'a result \<Rightarrow> ('a \<Rightarrow> 'b result) \<Rightarrow> 'b result" where
  "andThen m k = (case m of Inl e \<Rightarrow> Inl e | Inr x \<Rightarrow> k x)"

definition wrap :: "error \<Rightarrow> 'a result \<Rightarrow> 'a result" where
  "wrap es m = (case m of Inl e \<Rightarrow> Inl (es @ e) | Inr x \<Rightarrow> Inr x)"

text \<open>A validation method returns only an error; \<open>checked\<close> passes a value on when there is none.\<close>

definition checked :: "error option \<Rightarrow> 'a \<Rightarrow> 'a result" where
  "checked err x = (case err of None \<Rightarrow> Inr x | Some e \<Rightarrow> Inl e)"

lemma andThen_simps [simp]: "andThen (Inl e) k = Inl e" "andThen (Inr x) k = k x"
  by (simp_all add: andThen_def)

lemma wrap_simps [simp]: "wrap es (Inl e) = Inl (es @ e)" "wrap es (Inr x) = Inr x"
  by (simp_all add: wrap_def)

lemma checked_simps [simp]: "checked None x = Inr x" "checked (Some e) x = Inl e"
  by (simp_all add: checked_def)

lemma andThen_Inr [result_simps]: "andThen m k = Inr y \<longleftrightarrow> (\<exists>x. m = Inr x \<and> k x = Inr y)"
  by (cases m) simp_all

lemma andThen_Inl [result_simps]:
  "andThen m k = Inl e \<longleftrightarrow> m = Inl e \<or> (\<exists>x. m = Inr x \<and> k x = Inl e)"
  by (cases m) simp_all

lemma wrap_Inr [result_simps]: "wrap es m = Inr y \<longleftrightarrow> m = Inr y"
  by (cases m) simp_all

lemma wrap_Inl [result_simps]: "wrap es m = Inl e \<longleftrightarrow> (\<exists>e'. m = Inl e' \<and> e = es @ e')"
  by (cases m) auto

lemma checked_Inr [result_simps]: "checked err x = Inr y \<longleftrightarrow> err = None \<and> y = x"
  by (cases err) auto

lemma checked_Inl [result_simps]: "checked err x = Inl e \<longleftrightarrow> err = Some e"
  by (cases err) auto

text \<open>A chain of validations reports no error exactly when none of them does.\<close>

lemma first_error_None [simp]:
  "(case a of None \<Rightarrow> b | Some e \<Rightarrow> Some (f e)) = None \<longleftrightarrow> a = None \<and> b = None"
  by (cases a) simp_all

text \<open>A loop that maps a fallible function over a slice and stops at the first error.\<close>

fun map_result :: "('a \<Rightarrow> 'b result) \<Rightarrow> 'a list \<Rightarrow> 'b list result" where
  "map_result f [] = Inr []"
| "map_result f (x # xs) = andThen (f x) (\<lambda>y. andThen (map_result f xs) (\<lambda>ys. Inr (y # ys)))"

lemma map_result_Inr: "map_result f xs = Inr ys \<longleftrightarrow> list_all2 (\<lambda>x y. f x = Inr y) xs ys"
  by (induction xs arbitrary: ys) (auto simp: result_simps list_all2_Cons1)

lemma map_result_total: "(\<And>x. x \<in> set xs \<Longrightarrow> f x = Inr (g x)) \<Longrightarrow> map_result f xs = Inr (map g xs)"
  by (induction xs) simp_all

section \<open>Transactions\<close>

type_synonym ('db, 'a) tx = "'db \<Rightarrow> 'a result \<times> 'db"

definition tx_return :: "'a \<Rightarrow> ('db, 'a) tx" where
  "tx_return x db = (Inr x, db)"

definition tx_lift :: "'a result \<Rightarrow> ('db, 'a) tx" where
  "tx_lift r db = (r, db)"

definition tx_read :: "('db \<Rightarrow> 'a result) \<Rightarrow> ('db, 'a) tx" where
  "tx_read f db = (f db, db)"

definition tx_bind :: "('db, 'a) tx \<Rightarrow> ('a \<Rightarrow> ('db, 'b) tx) \<Rightarrow> ('db, 'b) tx" where
  "tx_bind m k db = (case m db of (Inl e, db') \<Rightarrow> (Inl e, db') | (Inr x, db') \<Rightarrow> k x db')"

lemma tx_bind_Inr [result_simps]:
  "tx_bind m k db = (Inr y, db'') \<longleftrightarrow> (\<exists>x db'. m db = (Inr x, db') \<and> k x db' = (Inr y, db''))"
  by (auto simp: tx_bind_def split: prod.splits sum.splits)

lemma tx_bind_Inl [result_simps]:
  "tx_bind m k db = (Inl e, db'') \<longleftrightarrow>
     m db = (Inl e, db'') \<or> (\<exists>x db'. m db = (Inr x, db') \<and> k x db' = (Inl e, db''))"
  by (auto simp: tx_bind_def split: prod.splits sum.splits)

lemma tx_return_eq [result_simps]: "tx_return x db = (r, db') \<longleftrightarrow> r = Inr x \<and> db' = db"
  by (auto simp: tx_return_def)

lemma tx_lift_eq [result_simps]: "tx_lift r db = (r', db') \<longleftrightarrow> r = r' \<and> db' = db"
  by (auto simp: tx_lift_def)

lemma tx_read_eq [result_simps]: "tx_read f db = (r', db') \<longleftrightarrow> f db = r' \<and> db' = db"
  by (auto simp: tx_read_def)

fun tx_each :: "('a \<Rightarrow> ('db, unit) tx) \<Rightarrow> 'a list \<Rightarrow> ('db, unit) tx" where
  "tx_each f [] = tx_return ()"
| "tx_each f (x # xs) = tx_bind (f x) (\<lambda>_. tx_each f xs)"

text \<open>A statement with several effects has all of them or none.\<close>

definition tx_atomic :: "('db, 'a) tx \<Rightarrow> ('db, 'a) tx" where
  "tx_atomic m db = (case m db of (Inl e, _) \<Rightarrow> (Inl e, db) | (Inr x, db') \<Rightarrow> (Inr x, db'))"

lemma tx_atomic_Inr [result_simps]: "tx_atomic m db = (Inr x, db') \<longleftrightarrow> m db = (Inr x, db')"
  by (auto simp: tx_atomic_def split: prod.splits sum.splits)

text \<open>
  What the driver and the server do to one transaction: opening it may fail, one of its statements
  may fail for a reason outside the statement (connection, serialization failure, deadlock), the
  commit may be refused, or it may succeed and its acknowledgement be lost with the connection, and
  a rollback may fail. Where in the body the statement fails does not matter: the transaction is
  rolled back as a whole.
\<close>

datatype commit_outcome = Committed | CommitRefused error | CommitAckLost string

datatype rollback_outcome = RolledBack | TxClosed | RollbackFailed error

record tx_env =
  tx_begin :: "error option"
  tx_stmt :: "error option"
  tx_commit :: commit_outcome
  tx_rollback :: rollback_outcome

definition quiet :: tx_env where
  "quiet = \<lparr>tx_begin = None, tx_stmt = None, tx_commit = Committed, tx_rollback = RolledBack\<rparr>"

text \<open>
  The deferred \<open>finishTransaction\<close> of the repositories: a rollback error other than
  \<open>pgx.ErrTxClosed\<close> is joined to the returned error.
\<close>

fun finishTransaction :: "rollback_outcome \<Rightarrow> 'a result \<Rightarrow> 'a result" where
  "finishTransaction RolledBack r = r"
| "finishTransaction TxClosed r = r"
| "finishTransaction (RollbackFailed e) (Inl err) = Inl (err @ e)"
| "finishTransaction (RollbackFailed e) (Inr x) = Inl e"

lemma finishTransaction_not_Inr [simp]:
  "finishTransaction ro (Inl e) \<noteq> Inr x" "Inr x \<noteq> finishTransaction ro (Inl e)"
  by (cases ro; simp)+

text \<open>
  The bracket around a transaction's body. Once \<open>Commit\<close> was attempted the transaction is closed, and
  the deferred rollback finds it so.
\<close>

definition run_tx :: "tx_env \<Rightarrow> ('db, 'a) tx \<Rightarrow> ('db, 'a) tx" where
  "run_tx env body db =
     (case tx_begin env of
        Some e \<Rightarrow> (Inl e, db)
      | None \<Rightarrow>
          (case (case tx_stmt env of Some e \<Rightarrow> (Inl e, db) | None \<Rightarrow> body db) of
             (Inl e, db') \<Rightarrow> (finishTransaction (tx_rollback env) (Inl e), db)
           | (Inr x, db') \<Rightarrow>
               (case tx_commit env of
                  Committed \<Rightarrow> (finishTransaction TxClosed (Inr x), db')
                | CommitRefused e \<Rightarrow> (finishTransaction TxClosed (Inl e), db)
                | CommitAckLost e \<Rightarrow> (finishTransaction TxClosed (Inl [Opaque e]), db'))))"

lemma run_tx_Inr:
  "run_tx env body db = (Inr x, db') \<longleftrightarrow>
     tx_begin env = None \<and> tx_stmt env = None \<and> tx_commit env = Committed \<and> body db = (Inr x, db')"
  by (auto simp: run_tx_def split: option.splits prod.splits sum.splits commit_outcome.splits)

lemma run_tx_Inl:
  "run_tx env body db = (Inl e, db') \<Longrightarrow>
     db' = db \<or> (\<exists>x s. body db = (Inr x, db') \<and> tx_commit env = CommitAckLost s \<and> e = [Opaque s])"
  by (auto simp: run_tx_def split: option.splits prod.splits sum.splits commit_outcome.splits)

lemma run_tx_state: "snd (run_tx env body db) = db \<or> snd (run_tx env body db) = snd (body db)"
  by (auto simp: run_tx_def split: option.splits prod.splits sum.splits commit_outcome.splits)

lemma run_tx_cong: "m db = m' db \<Longrightarrow> run_tx env m db = run_tx env m' db"
  unfolding run_tx_def by (erule ssubst) (rule refl)

lemma run_tx_quiet:
  "run_tx quiet body db = (case body db of (Inl e, _) \<Rightarrow> (Inl e, db) | (Inr x, db') \<Rightarrow> (Inr x, db'))"
  by (auto simp: run_tx_def quiet_def split: prod.splits sum.splits)

text \<open>
  The retry loop: \<open>ctx i\<close> is \<open>ctx.Err()\<close> before attempt \<open>i\<close>, \<open>once i\<close> the attempt. A retryable
  error starts the next attempt, any other one is classified and returned, and after the last
  attempt the retryable error is wrapped in the package's \<open>ErrSerializationFailure\<close>.
\<close>

fun retry ::
  "(nat \<Rightarrow> error option) \<Rightarrow> (nat \<Rightarrow> ('db, 'a) tx) \<Rightarrow> (error \<Rightarrow> bool) \<Rightarrow> (error \<Rightarrow> error) \<Rightarrow> cause
     \<Rightarrow> nat \<Rightarrow> nat \<Rightarrow> error \<Rightarrow> ('db, 'a) tx" where
  "retry ctx once retryable classify exhausted i 0 lastErr db = (Inl (exhausted # lastErr), db)"
| "retry ctx once retryable classify exhausted i (Suc n) lastErr db =
     (case ctx i of
        Some e \<Rightarrow> (Inl e, db)
      | None \<Rightarrow>
          (case once i db of
             (Inr x, db') \<Rightarrow> (Inr x, db')
           | (Inl e, db') \<Rightarrow>
               if retryable e
               then retry ctx once retryable classify exhausted (Suc i) n e db'
               else (Inl (classify e), db')))"

text \<open>
  What the loop needs of an attempt: a retryable failure means that nothing was committed. Then the
  whole loop commits at most one attempt, and that attempt starts from the database the loop was
  called with.
\<close>

locale retried =
  fixes once :: "nat \<Rightarrow> ('db, 'a) tx"
    and retryable :: "error \<Rightarrow> bool"
  assumes retryable_clean: "once i db = (Inl e, db') \<Longrightarrow> retryable e \<Longrightarrow> db' = db"
begin

lemma retry_Inr:
  "retry ctx once retryable classify exhausted i n lastErr db = (Inr x, db') \<Longrightarrow>
     \<exists>j. i \<le> j \<and> j < i + n \<and> once j db = (Inr x, db')"
proof (induction n arbitrary: i lastErr)
  case 0
  then show ?case by simp
next
  case (Suc n)
  show ?case
  proof (cases "once i db")
    case (Pair r db1)
    show ?thesis
    proof (cases r)
      case (Inr y)
      with Pair Suc.prems show ?thesis by (intro exI [of _ i]) (auto split: option.splits)
    next
      case (Inl e)
      with Pair Suc.prems have re: "retryable e" by (auto split: option.splits if_splits)
      with Pair Inl have "db1 = db" by (auto intro: retryable_clean)
      with Pair Inl re Suc.prems
      have "retry ctx once retryable classify exhausted (Suc i) n e db = (Inr x, db')"
        by (auto split: option.splits)
      then obtain j where "Suc i \<le> j" "j < Suc i + n" "once j db = (Inr x, db')"
        using Suc.IH by blast
      then show ?thesis by (intro exI [of _ j]) auto
    qed
  qed
qed

lemma retry_Inl:
  "retry ctx once retryable classify exhausted i n lastErr db = (Inl e, db') \<Longrightarrow>
     db' = db \<or> (\<exists>j e'. i \<le> j \<and> j < i + n \<and> once j db = (Inl e', db') \<and> \<not> retryable e')"
proof (induction n arbitrary: i lastErr)
  case 0
  then show ?case by simp
next
  case (Suc n)
  show ?case
  proof (cases "once i db")
    case (Pair r db1)
    show ?thesis
    proof (cases r)
      case (Inr y)
      with Pair Suc.prems show ?thesis by (auto split: option.splits)
    next
      case (Inl e1)
      show ?thesis
      proof (cases "retryable e1")
        case False
        with Pair Inl Suc.prems show ?thesis by (auto split: option.splits intro!: exI [of _ i])
      next
        case True
        with Pair Inl have "db1 = db" by (auto intro: retryable_clean)
        with Pair Inl True Suc.prems
        have "db' = db \<or> retry ctx once retryable classify exhausted (Suc i) n e1 db = (Inl e, db')"
          by (auto split: option.splits)
        then show ?thesis using Suc.IH [of "Suc i" e1] by fastforce
      qed
    qed
  qed
qed

end

end
