(* ===== verification/Uuid.thy ===== *)
theory Uuid
  imports Results
begin

text \<open>
  Canonical UUID texts. \<open>normalizeUUID\<close> is the transfer domain's parser (\<open>internal/transfer/domain\<close>).

  The repositories parse identifiers with the driver's \<open>pgtype.UUID.Scan\<close>, which is not part of this
  repository: it is the argument \<open>scan\<close> of every definition that uses it. A \<open>pgtype.UUID\<close> is
  represented by its canonical text, which is what \<open>UUID.String()\<close> and PostgreSQL's \<open>::text\<close> print;
  \<open>scan s\<close> is \<open>None\<close> when the driver refuses \<open>s\<close>. The locale \<open>uuid_scanner\<close> states what the
  code relies on: a canonical text is accepted as itself, and what is accepted prints canonically.
\<close>

type_synonym uuid = string

section \<open>\<open>normalizeUUID\<close>\<close>

definition normalizeUUID :: "string \<Rightarrow> string \<times> bool" where
  "normalizeUUID value =
     (let value = TrimSpace value in
      if length value \<noteq> 36 \<or> value ! 8 \<noteq> CHR ''-'' \<or> value ! 13 \<noteq> CHR ''-'' \<or>
         value ! 18 \<noteq> CHR ''-'' \<or> value ! 23 \<noteq> CHR ''-'' then ([], False)
      else let hexValue = filter (\<lambda>c. c \<noteq> CHR ''-'') value in
        if length hexValue \<noteq> 32 then ([], False)
        else if \<not> hex_DecodeString_ok hexValue then ([], False)
        else (ToLower value, True))"

definition isCanonicalUUID :: "string \<Rightarrow> bool" where
  "isCanonicalUUID value \<longleftrightarrow>
     (case normalizeUUID value of (canonical, valid) \<Rightarrow> valid \<and> canonical = value)"

text \<open>The shape of a UUID text: 36 bytes, four dashes at fixed places, hexadecimal digits elsewhere.\<close>

definition uuid_shape :: "string \<Rightarrow> bool" where
  "uuid_shape s \<longleftrightarrow>
     length s = 36 \<and> s ! 8 = CHR ''-'' \<and> s ! 13 = CHR ''-'' \<and> s ! 18 = CHR ''-'' \<and>
     s ! 23 = CHR ''-'' \<and> length (filter (\<lambda>c. c \<noteq> CHR ''-'') s) = 32 \<and>
     list_all is_hex (filter (\<lambda>c. c \<noteq> CHR ''-'') s)"

lemma normalizeUUID_eq:
  "normalizeUUID v = (if uuid_shape (TrimSpace v) then (ToLower (TrimSpace v), True) else ([], False))"
  by (auto simp: normalizeUUID_def uuid_shape_def hex_DecodeString_ok_def Let_def)

lemma uuid_shape_visible: "uuid_shape s \<Longrightarrow> list_all visible s"
proof -
  have "visible (CHR ''-'')" by (simp add: visible_def)
  then show "uuid_shape s \<Longrightarrow> list_all visible s"
    by (auto simp: uuid_shape_def list_all_iff) (metis is_hex_visible)
qed

lemma filter_ToLower:
  "filter (\<lambda>c. c \<noteq> CHR ''-'') (ToLower s) = ToLower (filter (\<lambda>c. c \<noteq> CHR ''-'') s)"
  by (induction s) (simp_all add: ToLower_def)

lemma uuid_shape_ToLower: "uuid_shape s \<Longrightarrow> uuid_shape (ToLower s)"
  unfolding uuid_shape_def filter_ToLower
  by (auto simp: ToLower_def list_all_iff)

lemma isCanonicalUUID_iff: "isCanonicalUUID s \<longleftrightarrow> uuid_shape s \<and> ToLower s = s"
proof
  assume "isCanonicalUUID s"
  then have t: "uuid_shape (TrimSpace s)" "ToLower (TrimSpace s) = s"
    by (auto simp: isCanonicalUUID_def normalizeUUID_eq split: if_splits)
  then have "uuid_shape s" using uuid_shape_ToLower by metis
  moreover have "ToLower s = s" using t(2) by (metis ToLower_idem)
  ultimately show "uuid_shape s \<and> ToLower s = s" ..
next
  assume s: "uuid_shape s \<and> ToLower s = s"
  then have "TrimSpace s = s" using TrimSpace_visible uuid_shape_visible by blast
  with s show "isCanonicalUUID s" by (simp add: isCanonicalUUID_def normalizeUUID_eq)
qed

lemma canonical_visible: "isCanonicalUUID s \<Longrightarrow> list_all visible s"
  by (simp add: isCanonicalUUID_iff uuid_shape_visible)

lemma canonical_TrimSpace [simp]: "isCanonicalUUID s \<Longrightarrow> TrimSpace s = s"
  by (simp add: TrimSpace_visible canonical_visible)

lemma canonical_nonempty [simp]: "isCanonicalUUID s \<Longrightarrow> s \<noteq> []"
  by (auto simp: isCanonicalUUID_iff uuid_shape_def)

lemma canonical_not_Nil [simp]: "\<not> isCanonicalUUID []"
  by (auto simp: isCanonicalUUID_iff uuid_shape_def)

lemma normalizeUUID_canonical: "isCanonicalUUID s \<Longrightarrow> normalizeUUID s = (s, True)"
  by (simp add: normalizeUUID_eq isCanonicalUUID_iff TrimSpace_visible uuid_shape_visible)

lemma normalizeUUID_valid: "normalizeUUID v = (s, True) \<Longrightarrow> isCanonicalUUID s"
  by (auto simp: normalizeUUID_eq isCanonicalUUID_iff uuid_shape_ToLower split: if_splits)

lemma fst_normalizeUUID_canonical [simp]: "isCanonicalUUID s \<Longrightarrow> fst (normalizeUUID s) = s"
  by (simp add: normalizeUUID_canonical)

lemma canonical_fst_normalizeUUID:
  "isCanonicalUUID (fst (normalizeUUID v)) \<longleftrightarrow> snd (normalizeUUID v)"
  by (simp add: normalizeUUID_eq isCanonicalUUID_iff uuid_shape_ToLower)

section \<open>The driver's UUID scanner\<close>

locale uuid_scanner =
  fixes scan :: "string \<Rightarrow> uuid option"
  assumes scan_canonical: "isCanonicalUUID s \<Longrightarrow> scan s = Some s"
    and scan_prints_canonical: "scan s = Some u \<Longrightarrow> isCanonicalUUID u"
begin

lemma scan_scan: "scan s = Some u \<Longrightarrow> scan u = Some u"
  by (simp add: scan_canonical scan_prints_canonical)

lemma scan_trimmed: "scan s = Some u \<Longrightarrow> TrimSpace u = u"
  by (simp add: scan_prints_canonical)

end

text \<open>
  A scanner with the documented behaviour of the driver: 32 hexadecimal digits, or 36 bytes of which
  those at the places of the dashes are skipped.
\<close>

definition dashed :: "string \<Rightarrow> string" where
  "dashed h =
     take 8 h @ CHR ''-'' # take 4 (drop 8 h) @ CHR ''-'' # take 4 (drop 12 h) @
     CHR ''-'' # take 4 (drop 16 h) @ CHR ''-'' # drop 20 h"

definition undashed :: "string \<Rightarrow> string" where
  "undashed s = take 8 s @ take 4 (drop 9 s) @ take 4 (drop 14 s) @ take 4 (drop 19 s) @ drop 24 s"

definition reference_scan :: "string \<Rightarrow> uuid option" where
  "reference_scan s =
     (let h = (if length s = 36 then undashed s else s)
      in if length h = 32 \<and> list_all is_hex h then Some (ToLower (dashed h)) else None)"

lemma take_drop_step: "n = m + k \<Longrightarrow> take k (drop m xs) @ drop n xs = drop m xs"
  by (simp add: add.commute flip: drop_drop)

lemma nth_drop_step: "m < length xs \<Longrightarrow> n = Suc m \<Longrightarrow> xs ! m # drop n xs = drop m xs"
  by (simp add: Cons_nth_drop_Suc)

lemma dashed_undashed:
  assumes "length s = 36" "s ! 8 = CHR ''-''" "s ! 13 = CHR ''-''" "s ! 18 = CHR ''-''"
    "s ! 23 = CHR ''-''"
  shows "s = take 8 s @ CHR ''-'' # take 4 (drop 9 s) @ CHR ''-'' # take 4 (drop 14 s) @
     CHR ''-'' # take 4 (drop 19 s) @ CHR ''-'' # drop 24 s" (is "s = ?r")
proof -
  have "CHR ''-'' # drop 24 s = drop 23 s" using assms nth_drop_step [of 23 s 24] by simp
  then have "CHR ''-'' # take 4 (drop 19 s) @ CHR ''-'' # drop 24 s = drop 18 s"
    using assms nth_drop_step [of 18 s 19] take_drop_step [of 23 19 4 s] by simp
  then have "CHR ''-'' # take 4 (drop 14 s) @ CHR ''-'' # take 4 (drop 19 s) @ CHR ''-'' # drop 24 s
      = drop 13 s"
    using assms nth_drop_step [of 13 s 14] take_drop_step [of 18 14 4 s] by simp
  then have "?r = s"
    using assms nth_drop_step [of 8 s 9] take_drop_step [of 13 9 4 s] by simp
  then show ?thesis by simp
qed

lemma dashed_of_undashed:
  assumes "uuid_shape s"
  shows "dashed (undashed s) = s" "length (undashed s) = 32" "list_all is_hex (undashed s)"
proof -
  from assms have l: "length s = 36" by (simp add: uuid_shape_def)
  from assms have s: "s = take 8 s @ CHR ''-'' # take 4 (drop 9 s) @ CHR ''-'' # take 4 (drop 14 s) @
     CHR ''-'' # take 4 (drop 19 s) @ CHR ''-'' # drop 24 s"
    by (intro dashed_undashed) (auto simp: uuid_shape_def)
  show len: "length (undashed s) = 32" using l by (simp add: undashed_def)
  have "filter (\<lambda>c. c \<noteq> CHR ''-'') s = filter (\<lambda>c. c \<noteq> CHR ''-'') (undashed s)"
    by (subst s) (simp add: undashed_def)
  moreover have "length (filter (\<lambda>c. c \<noteq> CHR ''-'') s) = 32"
    and h: "list_all is_hex (filter (\<lambda>c. c \<noteq> CHR ''-'') s)"
    using assms by (auto simp: uuid_shape_def)
  ultimately have "filter (\<lambda>c. c \<noteq> CHR ''-'') s = undashed s"
    using len by (metis filter_id_conv length_filter_less less_irrefl)
  with h show "list_all is_hex (undashed s)" by simp
  have "dashed (undashed s) = take 8 s @ CHR ''-'' # take 4 (drop 9 s) @ CHR ''-'' #
     take 4 (drop 14 s) @ CHR ''-'' # take 4 (drop 19 s) @ CHR ''-'' # drop 24 s"
    using l by (simp add: dashed_def undashed_def)
  with s show "dashed (undashed s) = s" by simp
qed

lemma uuid_shape_dashed:
  assumes "length h = 32" "list_all is_hex h"
  shows "uuid_shape (dashed h)"
proof -
  have nd: "c \<in> set h \<Longrightarrow> c \<noteq> CHR ''-''" for c
    using assms(2) by (auto simp: list_all_iff is_hex_def is_digit_def)
  have keep: "filter (\<lambda>c. c \<noteq> CHR ''-'') xs = xs" if "set xs \<subseteq> set h" for xs
    using that nd by (auto intro: filter_True)
  have "take 8 h @ take 4 (drop 8 h) @ take 4 (drop 12 h) @ take 4 (drop 16 h) @ drop 20 h = h"
    using take_drop_step [of 20 16 4 h] take_drop_step [of 16 12 4 h] take_drop_step [of 12 8 4 h]
    by simp
  then have f: "filter (\<lambda>c. c \<noteq> CHR ''-'') (dashed h) = h"
    by (simp add: dashed_def keep set_take_subset set_drop_subset
        order_trans [OF set_take_subset set_drop_subset])
  have "length (dashed h) = 36" "dashed h ! 8 = CHR ''-''" "dashed h ! 13 = CHR ''-''"
    "dashed h ! 18 = CHR ''-''" "dashed h ! 23 = CHR ''-''"
    using assms(1) by (simp_all add: dashed_def nth_append)
  with f assms show ?thesis by (simp add: uuid_shape_def)
qed

interpretation reference: uuid_scanner reference_scan
proof unfold_locales
  show "reference_scan s = Some s" if "isCanonicalUUID s" for s
    using that dashed_of_undashed [of s]
    by (simp add: reference_scan_def isCanonicalUUID_iff uuid_shape_def [of s] Let_def)
  show "isCanonicalUUID u" if "reference_scan s = Some u" for s u
    using that uuid_shape_ToLower [OF uuid_shape_dashed]
    by (auto simp: reference_scan_def isCanonicalUUID_iff Let_def split: if_splits)
qed

section \<open>Properties\<close>

text \<open>
  \<open>normalizeUUID\<close> is a retraction onto the canonical texts: what it accepts comes back as a
  canonical lower-case UUID text of 36 bytes that is accepted as itself, and surrounding white space
  or the case of the digits make no difference.
\<close>

theorem normalizeUUID_retract:
  assumes "normalizeUUID v = (s, True)"
  shows "isCanonicalUUID s \<and> normalizeUUID s = (s, True) \<and> length s = 36 \<and>
    s = ToLower (TrimSpace v) \<and> normalizeUUID (TrimSpace v) = (s, True)"
proof -
  have s: "isCanonicalUUID s" by (rule normalizeUUID_valid [OF assms])
  moreover have "length s = 36" using s by (simp add: isCanonicalUUID_iff uuid_shape_def)
  moreover have "s = ToLower (TrimSpace v)" "uuid_shape (TrimSpace v)"
    using assms by (auto simp: normalizeUUID_eq split: if_splits)
  ultimately show ?thesis using normalizeUUID_canonical [OF s] by (simp add: normalizeUUID_eq)
qed

theorem normalizeUUID_retract_witness:
  "normalizeUUID '' 6F9619FF-8B86-4011-B42D-00CF4FC964FF '' =
     (''6f9619ff-8b86-4011-b42d-00cf4fc964ff'', True) \<and>
   isCanonicalUUID ''6f9619ff-8b86-4011-b42d-00cf4fc964ff''"
proof -
  have "normalizeUUID '' 6F9619FF-8B86-4011-B42D-00CF4FC964FF '' =
     (''6f9619ff-8b86-4011-b42d-00cf4fc964ff'', True)" by code_simp
  with normalizeUUID_retract [OF this] show ?thesis by blast
qed

end
