(* ===== verification/Schema.thy ===== *)
theory Schema
  imports Uuid
begin

text \<open>
  The PostgreSQL schema of \<open>migrations/\<close> as far as the modelled repositories use it: the rows of a
  table as a record, a table as a list of rows in insertion order, and the statements' constraint
  checks. A statement that violates a constraint changes nothing and reports the constraint's
  SQLSTATE and name: \<open>CHECK\<close> constraints first (in the order of their names), then unique indexes,
  then foreign keys. \<open>NOT NULL\<close> is carried by the column types. \<open>clock\<close> is \<open>CURRENT_TIMESTAMP\<close>,
  the instant at which the running transaction began.
\<close>

section \<open>Constraints\<close>

definition violated :: "string \<Rightarrow> (string \<times> bool) list \<Rightarrow> error option" where
  "violated code constraints =
     map_option (\<lambda>(name, holds). [PgError code name]) (find (\<lambda>(name, holds). \<not> holds) constraints)"

definition check_violation :: string where "check_violation = ''23514''"
definition unique_violation :: string where "unique_violation = ''23505''"
definition foreign_key_violation :: string where "foreign_key_violation = ''23503''"

definition constrained ::
  "(string \<times> bool) list \<Rightarrow> (string \<times> bool) list \<Rightarrow> (string \<times> bool) list \<Rightarrow> ('db \<Rightarrow> 'db)
     \<Rightarrow> ('db, unit) tx" where
  "constrained checks uniques fks upd db =
     (case violated check_violation checks of
        Some e \<Rightarrow> (Inl e, db)
      | None \<Rightarrow>
          (case violated unique_violation uniques of
             Some e \<Rightarrow> (Inl e, db)
           | None \<Rightarrow>
               (case violated foreign_key_violation fks of
                  Some e \<Rightarrow> (Inl e, db)
                | None \<Rightarrow> (Inr (), upd db))))"

lemma violated_None [simp]: "violated code cs = None \<longleftrightarrow> list_all snd cs"
  by (induction cs) (auto simp: violated_def)

lemma violated_Some: "violated code cs = Some e \<Longrightarrow> \<not> list_all snd cs"
  by (metis option.distinct(1) violated_None)

lemma constrained_Inr [result_simps]:
  "constrained checks uniques fks upd db = (Inr u, db') \<longleftrightarrow>
     list_all snd checks \<and> list_all snd uniques \<and> list_all snd fks \<and> db' = upd db"
  by (auto simp: constrained_def dest!: violated_Some split: option.splits)

lemma constrained_pass:
  "list_all snd checks \<Longrightarrow> list_all snd uniques \<Longrightarrow> list_all snd fks \<Longrightarrow>
     constrained checks uniques fks upd db = (Inr (), upd db)"
  by (simp add: constrained_Inr)

lemma constrained_Inl: "constrained checks uniques fks upd db = (Inl e, db') \<Longrightarrow> db' = db"
  by (auto simp: constrained_def split: option.splits)

text \<open>The regular expression \<open>^[A-Z]{3}$\<close> of the currency columns.\<close>

definition sql_currency :: "string \<Rightarrow> bool" where
  "sql_currency s \<longleftrightarrow> length s = 3 \<and> list_all is_upper s"

definition sql_status :: "string \<Rightarrow> bool" where
  "sql_status s \<longleftrightarrow> s = ''active'' \<or> s = ''frozen'' \<or> s = ''closed''"

definition sql_account_type :: "string \<Rightarrow> bool" where
  "sql_account_type s \<longleftrightarrow> s = ''customer'' \<or> s = ''system''"

section \<open>Tables\<close>

record wallet_row =
  w_id :: uuid
  w_owner_id :: uuid
  w_status :: string
  w_created_at :: gotime
  w_updated_at :: gotime

record account_row =
  a_id :: uuid
  a_wallet_id :: uuid
  a_currency :: string
  a_status :: string
  a_created_at :: gotime
  a_updated_at :: gotime
  a_account_type :: string

record balance_row =
  b_account_id :: uuid
  b_currency :: string
  b_balance_minor :: int64
  b_version :: int64
  b_updated_at :: gotime
  b_account_type :: string

record entry_row =
  e_id :: uuid
  e_entry_type :: string
  e_reverses_entry_id :: "uuid option"
  e_recorded_at :: gotime

record posting_row =
  r_journal_entry_id :: uuid
  r_position :: nat
  r_account_id :: uuid
  r_currency :: string
  r_amount_minor :: int64

text \<open>The \<open>payload\<close> of an outbox event is the text that PostgreSQL prints for the stored JSONB value.\<close>

record outbox_row =
  o_event_id :: uuid
  o_sequence :: int64
  o_event_type :: string
  o_event_version :: int16
  o_aggregate_type :: string
  o_aggregate_id :: uuid
  o_aggregate_version :: int64
  o_correlation_id :: uuid
  o_causation_id :: "uuid option"
  o_occurred_at :: gotime
  o_payload :: string
  o_created_at :: gotime
  o_available_at :: gotime
  o_publish_attempts :: int32
  o_claimed_by :: "uuid option"
  o_claimed_until :: "gotime option"
  o_last_error :: "string option"
  o_published_at :: "gotime option"

record inbox_row =
  i_consumer_name :: string
  i_event_id :: uuid
  i_event_type :: string
  i_event_version :: int16
  i_processed_at :: gotime

record quarantine_row =
  q_consumer_name :: string
  q_topic :: string
  q_partition :: int32
  q_record_offset :: int64
  q_reason_code :: string
  q_value_excerpt :: string
  q_value_sha256 :: string
  q_value_size :: int64
  q_value_truncated :: bool
  q_quarantined_at :: gotime

text \<open>
  The generated \<open>id\<close> columns of the risk assessments, review cases and audit records are left out: no statement of the program reads or
  chooses them.
\<close>

record transfer_row =
  tr_id :: uuid
  tr_requester_id :: uuid
  tr_idempotency_key :: string
  tr_source_account_id :: uuid
  tr_destination_account_id :: uuid
  tr_currency :: string
  tr_amount_minor :: int64
  tr_requested_at :: gotime
  tr_status :: string
  tr_state_version :: int64
  tr_risk_policy_version :: "string option"
  tr_journal_entry_id :: "uuid option"
  tr_failure_reason :: "string option"

record assessment_row =
  ra_transfer_id :: uuid
  ra_lifecycle_version :: int64
  ra_causation_event_id :: uuid
  ra_policy_version :: string
  ra_captured_input :: string
  ra_score :: int16
  ra_decision :: string
  ra_signals :: string
  ra_assessed_at :: gotime
  ra_created_at :: gotime

record review_row =
  rc_transfer_id :: uuid
  rc_assessment_lifecycle_version :: int64
  rc_status :: string
  rc_opened_at :: gotime
  rc_created_at :: gotime
  rc_decision :: "string option"
  rc_decided_by :: "string option"
  rc_decided_at :: "gotime option"

record audit_row =
  au_transfer_id :: uuid
  au_lifecycle_version :: int64
  au_decision :: string
  au_actor_subject :: string
  au_occurred_at :: gotime
  au_created_at :: gotime

record database =
  clock :: gotime
  wallets :: "wallet_row list"
  accounts :: "account_row list"
  account_balances :: "balance_row list"
  journal_entries :: "entry_row list"
  postings :: "posting_row list"
  outbox_events :: "outbox_row list"
  consumer_inbox :: "inbox_row list"
  consumer_quarantine :: "quarantine_row list"
  transfers :: "transfer_row list"
  transfer_risk_assessments :: "assessment_row list"
  transfer_review_cases :: "review_row list"
  transfer_review_audit_records :: "audit_row list"

definition empty_db :: database where
  "empty_db =
     \<lparr>clock = 1, wallets = [], accounts = [], account_balances = [], journal_entries = [],
      postings = [], outbox_events = [], consumer_inbox = [], consumer_quarantine = [],
      transfers = [], transfer_risk_assessments = [], transfer_review_cases = [],
      transfer_review_audit_records = []\<rparr>"

section \<open>Statements\<close>

definition insert_wallet_row :: "wallet_row \<Rightarrow> (database, unit) tx" where
  "insert_wallet_row w db =
     constrained
       [(''wallets_status_check'', sql_status (w_status w)),
        (''wallets_timestamps_check'', w_created_at w \<le> w_updated_at w)]
       [(''wallets_pkey'', w_id w \<notin> w_id ` set (wallets db))]
       []
       (\<lambda>db. db\<lparr>wallets := wallets db @ [w]\<rparr>) db"

definition insert_account_row :: "account_row \<Rightarrow> (database, unit) tx" where
  "insert_account_row a db =
     constrained
       [(''accounts_currency_check'', sql_currency (a_currency a)),
        (''accounts_status_check'', sql_status (a_status a)),
        (''accounts_timestamps_check'', a_created_at a \<le> a_updated_at a),
        (''accounts_type_check'', sql_account_type (a_account_type a))]
       [(''accounts_pkey'', a_id a \<notin> a_id ` set (accounts db)),
        (''accounts_wallet_currency_key'',
          (a_wallet_id a, a_currency a) \<notin> (\<lambda>x. (a_wallet_id x, a_currency x)) ` set (accounts db))]
       [(''accounts_wallet_id_fkey'', a_wallet_id a \<in> w_id ` set (wallets db))]
       (\<lambda>db. db\<lparr>accounts := accounts db @ [a]\<rparr>) db"

definition balance_checks :: "balance_row \<Rightarrow> (string \<times> bool) list" where
  "balance_checks b =
     [(''account_balances_currency_check'', sql_currency (b_currency b)),
      (''account_balances_nonnegative_customer_check'',
        b_account_type b = ''system'' \<or> 0 \<le> sint (b_balance_minor b)),
      (''account_balances_type_check'', sql_account_type (b_account_type b)),
      (''account_balances_version_check'', 0 \<le> sint (b_version b))]"

definition account_key :: "account_row \<Rightarrow> uuid \<times> string \<times> string" where
  "account_key a = (a_id a, a_currency a, a_account_type a)"

definition insert_balance_row :: "balance_row \<Rightarrow> (database, unit) tx" where
  "insert_balance_row b db =
     constrained (balance_checks b)
       [(''account_balances_pkey'', b_account_id b \<notin> b_account_id ` set (account_balances db))]
       [(''account_balances_account_currency_type_fkey'',
          (b_account_id b, b_currency b, b_account_type b) \<in> account_key ` set (accounts db))]
       (\<lambda>db. db\<lparr>account_balances := account_balances db @ [b]\<rparr>) db"

text \<open>
  \<open>UPDATE account_balances SET balance_minor, version, updated_at WHERE account_id\<close>: the checks run
  on every row the condition selects, and the number of those rows is returned.
\<close>

definition update_balance_row :: "uuid \<Rightarrow> int64 \<Rightarrow> int64 \<Rightarrow> (database, nat) tx" where
  "update_balance_row account balance version db =
     (let hit = (\<lambda>b. b_account_id b = account);
          new = (\<lambda>b. b\<lparr>b_balance_minor := balance, b_version := version, b_updated_at := clock db\<rparr>)
      in tx_bind
           (constrained (concat (map (balance_checks \<circ> new) (filter hit (account_balances db)))) [] []
              (\<lambda>db. db\<lparr>account_balances :=
                 map (\<lambda>b. if hit b then new b else b) (account_balances db)\<rparr>))
           (\<lambda>_. tx_return (length (filter hit (account_balances db)))) db)"

definition insert_entry_row :: "entry_row \<Rightarrow> (database, unit) tx" where
  "insert_entry_row e db =
     constrained
       [(''journal_entries_reversal_shape_check'',
          e_entry_type e = ''standard'' \<and> e_reverses_entry_id e = None \<or>
          e_entry_type e = ''reversal'' \<and> e_reverses_entry_id e \<noteq> None \<and>
          e_reverses_entry_id e \<noteq> Some (e_id e)),
        (''journal_entries_type_check'',
          e_entry_type e = ''standard'' \<or> e_entry_type e = ''reversal'')]
       [(''journal_entries_pkey'', e_id e \<notin> e_id ` set (journal_entries db)),
        (''journal_entries_one_reversal_idx'',
          e_reverses_entry_id e = None \<or>
          e_reverses_entry_id e \<notin> e_reverses_entry_id ` set (journal_entries db))]
       [(''journal_entries_reverses_entry_fkey'',
          case e_reverses_entry_id e of None \<Rightarrow> True
          | Some src \<Rightarrow> src = e_id e \<or> src \<in> e_id ` set (journal_entries db))]
       (\<lambda>db. db\<lparr>journal_entries := journal_entries db @ [e]\<rparr>) db"

definition posting_key :: "posting_row \<Rightarrow> uuid \<times> nat" where
  "posting_key r = (r_journal_entry_id r, r_position r)"

definition insert_posting_row :: "posting_row \<Rightarrow> (database, unit) tx" where
  "insert_posting_row r db =
     constrained
       [(''postings_amount_nonzero_check'', r_amount_minor r \<noteq> 0),
        (''postings_amount_reversible_check'', r_amount_minor r \<noteq> MinInt64),
        (''postings_currency_check'', sql_currency (r_currency r)),
        (''postings_position_check'', r_position r \<le> 1023)]
       [(''postings_pkey'', posting_key r \<notin> posting_key ` set (postings db))]
       [(''postings_account_currency_fkey'',
          (r_account_id r, r_currency r) \<in> (\<lambda>a. (a_id a, a_currency a)) ` set (accounts db)),
        (''postings_entry_fkey'', r_journal_entry_id r \<in> e_id ` set (journal_entries db))]
       (\<lambda>db. db\<lparr>postings := postings db @ [r]\<rparr>) db"

section \<open>The constraints as an invariant\<close>

definition accounts_ok :: "database \<Rightarrow> bool" where
  "accounts_ok db \<longleftrightarrow>
     distinct (map w_id (wallets db)) \<and> distinct (map a_id (accounts db)) \<and>
     (\<forall>a \<in> set (accounts db). sql_currency (a_currency a) \<and> a_wallet_id a \<in> w_id ` set (wallets db))"

definition balances_ok :: "database \<Rightarrow> bool" where
  "balances_ok db \<longleftrightarrow>
     distinct (map b_account_id (account_balances db)) \<and>
     (\<forall>b \<in> set (account_balances db). list_all snd (balance_checks b) \<and>
        (b_account_id b, b_currency b, b_account_type b) \<in> account_key ` set (accounts db))"

definition entries_ok :: "database \<Rightarrow> bool" where
  "entries_ok db \<longleftrightarrow>
     distinct (map e_id (journal_entries db)) \<and>
     distinct (filter (\<lambda>x. x \<noteq> None) (map e_reverses_entry_id (journal_entries db))) \<and>
     (\<forall>e \<in> set (journal_entries db).
        (e_reverses_entry_id e = None \<longrightarrow> e_entry_type e = ''standard'') \<and>
        (\<forall>src \<in> set_option (e_reverses_entry_id e).
           e_entry_type e = ''reversal'' \<and> src \<noteq> e_id e \<and> src \<in> e_id ` set (journal_entries db)))"

definition postings_ok :: "database \<Rightarrow> bool" where
  "postings_ok db \<longleftrightarrow>
     distinct (map posting_key (postings db)) \<and>
     (\<forall>r \<in> set (postings db).
        r_amount_minor r \<noteq> 0 \<and> r_amount_minor r \<noteq> MinInt64 \<and> sql_currency (r_currency r) \<and>
        (r_account_id r, r_currency r) \<in> (\<lambda>a. (a_id a, a_currency a)) ` set (accounts db) \<and>
        r_journal_entry_id r \<in> e_id ` set (journal_entries db))"

definition schema_ok :: "database \<Rightarrow> bool" where
  "schema_ok db \<longleftrightarrow> accounts_ok db \<and> balances_ok db \<and> entries_ok db \<and> postings_ok db"

lemmas schema_defs = schema_ok_def accounts_ok_def balances_ok_def entries_ok_def postings_ok_def

lemma insert_entry_row_schema:
  assumes "insert_entry_row e db = (Inr u, db')" "schema_ok db"
  shows "schema_ok db'"
  using assms
  by (auto simp: insert_entry_row_def result_simps schema_defs split: option.splits)

lemma insert_posting_row_schema:
  assumes "insert_posting_row r db = (Inr u, db')" "schema_ok db"
  shows "schema_ok db'"
  using assms by (auto simp: insert_posting_row_def result_simps schema_defs)

lemma insert_wallet_row_schema:
  assumes "insert_wallet_row w db = (Inr u, db')" "schema_ok db"
  shows "schema_ok db'"
  using assms by (auto simp: insert_wallet_row_def result_simps schema_defs)

lemma insert_account_row_schema:
  assumes "insert_account_row a db = (Inr u, db')" "schema_ok db"
  shows "schema_ok db'"
  using assms by (auto simp: insert_account_row_def result_simps schema_defs)

lemma insert_balance_row_schema:
  assumes "insert_balance_row b db = (Inr u, db')" "schema_ok db"
  shows "schema_ok db'"
  using assms by (auto simp: insert_balance_row_def result_simps schema_defs)

lemma update_balance_row_Inr:
  "update_balance_row acc bal ver db = (Inr n, db') \<longleftrightarrow>
     (\<forall>b \<in> set (account_balances db). b_account_id b = acc \<longrightarrow>
        list_all snd (balance_checks (b\<lparr>b_balance_minor := bal, b_version := ver,
          b_updated_at := clock db\<rparr>))) \<and>
     n = length (filter (\<lambda>b. b_account_id b = acc) (account_balances db)) \<and>
     db' = db\<lparr>account_balances := map (\<lambda>b. if b_account_id b = acc
        then b\<lparr>b_balance_minor := bal, b_version := ver, b_updated_at := clock db\<rparr> else b)
        (account_balances db)\<rparr>"
  by (auto simp: update_balance_row_def Let_def result_simps list_all_iff)

lemma update_balance_row_schema:
  assumes "update_balance_row acc bal ver db = (Inr n, db')" "schema_ok db"
  shows "schema_ok db'"
proof -
  let ?f = "\<lambda>b. if b_account_id b = acc
        then b\<lparr>b_balance_minor := bal, b_version := ver, b_updated_at := clock db\<rparr> else b"
  have "map b_account_id (map ?f (account_balances db)) = map b_account_id (account_balances db)"
    by simp
  with assms show ?thesis
    by (auto simp: update_balance_row_Inr schema_defs simp del: map_map)
qed

end
