(* ===== verification/Transfer_Tables.thy ===== *)
theory Transfer_Tables
  imports Schema
begin

text \<open>
  The tables of transfers (\<open>migrations/000003\<close>, \<open>000005\<close> and \<open>000007\<close> to \<open>000010\<close>): transfers with their
  lifecycle columns, risk assessments, review cases and audit records, with the statements that the
  repositories run on them.

  The foreign keys of \<open>transfers\<close> are \<open>DEFERRABLE INITIALLY DEFERRED\<close>: \<open>transfers_deferred\<close> is the check that
  the server makes at the commit, and \<open>run_deferred\<close> the bracket of a transaction with it.
\<close>

section \<open>Column checks\<close>

text \<open>\<open>^[!-~]+$\<close> of at most the given length\<close>

definition sql_visible :: "nat \<Rightarrow> string \<Rightarrow> bool" where
  "sql_visible limit s \<longleftrightarrow> 1 \<le> length s \<and> length s \<le> limit \<and> list_all visible s"

text \<open>\<open>^[a-z0-9_-]+$\<close>\<close>

definition sql_code :: "string \<Rightarrow> bool" where
  "sql_code s \<longleftrightarrow>
     1 \<le> length s \<and> length s \<le> 64 \<and>
     list_all (\<lambda>c. is_lower c \<or> is_digit c \<or> c = CHR ''_'' \<or> c = CHR ''-'') s"

definition optional :: "('a \<Rightarrow> bool) \<Rightarrow> 'a option \<Rightarrow> bool" where
  "optional p v = (case v of None \<Rightarrow> True | Some x \<Rightarrow> p x)"

definition lifecycle_shape :: "transfer_row \<Rightarrow> bool" where
  "lifecycle_shape r \<longleftrightarrow>
     tr_status r = ''pending_risk'' \<and> sint (tr_state_version r) = 1 \<and> tr_risk_policy_version r \<noteq> None \<and>
       tr_journal_entry_id r = None \<and> tr_failure_reason r = None \<or>
     tr_status r \<in> {''approved'', ''review_required'', ''declined''} \<and> 2 \<le> sint (tr_state_version r) \<and>
       tr_risk_policy_version r \<noteq> None \<and> tr_journal_entry_id r = None \<and> tr_failure_reason r = None \<or>
     tr_status r = ''completed'' \<and> tr_journal_entry_id r = Some (tr_id r) \<and> tr_failure_reason r = None \<and>
       (sint (tr_state_version r) = 1 \<or> tr_risk_policy_version r \<noteq> None) \<or>
     tr_status r = ''failed'' \<and> 2 \<le> sint (tr_state_version r) \<and> tr_risk_policy_version r \<noteq> None \<and>
       tr_journal_entry_id r = None \<and> tr_failure_reason r \<noteq> None"

definition transfer_checks :: "transfer_row \<Rightarrow> (string \<times> bool) list" where
  "transfer_checks r =
     [(''transfers_amount_positive_check'', 0 < sint (tr_amount_minor r)),
      (''transfers_currency_check'', sql_currency (tr_currency r)),
      (''transfers_distinct_accounts_check'', tr_source_account_id r \<noteq> tr_destination_account_id r),
      (''transfers_failure_reason_check'', optional sql_code (tr_failure_reason r)),
      (''transfers_idempotency_key_check'', sql_visible 128 (tr_idempotency_key r)),
      (''transfers_lifecycle_shape_check'', lifecycle_shape r),
      (''transfers_risk_policy_version_check'', optional (sql_visible 64) (tr_risk_policy_version r)),
      (''transfers_state_version_check'', 0 < sint (tr_state_version r)),
      (''transfers_status_check'',
        tr_status r \<in> {''pending_risk'', ''approved'', ''review_required'', ''declined'', ''completed'', ''failed''})]"

section \<open>Transfers\<close>

definition transfer_key :: "transfer_row \<Rightarrow> uuid \<times> string" where
  "transfer_key r = (tr_requester_id r, tr_idempotency_key r)"

text \<open>\<open>INSERT ... ON CONFLICT (requester_id, idempotency_key) DO NOTHING RETURNING id\<close>\<close>

definition insert_transfer_row :: "transfer_row \<Rightarrow> (database, uuid option) tx" where
  "insert_transfer_row r =
     tx_bind (constrained (transfer_checks r) [] [] id) (\<lambda>_ db.
       if transfer_key r \<in> transfer_key ` set (transfers db) then (Inr None, db)
       else tx_bind
         (constrained [] [(''transfers_pkey'', tr_id r \<notin> tr_id ` set (transfers db))] []
            (\<lambda>db. db\<lparr>transfers := transfers db @ [r]\<rparr>))
         (\<lambda>_. tx_return (Some (tr_id r))) db)"

text \<open>\<open>UPDATE transfers SET ... WHERE ...\<close>: the number of the rows that the condition selects.\<close>

definition update_transfer_rows ::
  "(transfer_row \<Rightarrow> bool) \<Rightarrow> (transfer_row \<Rightarrow> transfer_row) \<Rightarrow> (database, nat) tx" where
  "update_transfer_rows hit new db =
     (let rows = filter hit (transfers db) in
      tx_bind
        (constrained (concat (map (transfer_checks \<circ> new) rows)) [] []
           (\<lambda>db. db\<lparr>transfers := map (\<lambda>r. if hit r then new r else r) (transfers db)\<rparr>))
        (\<lambda>_. tx_return (length rows)) db)"

definition transfer_fks :: "database \<Rightarrow> transfer_row \<Rightarrow> (string \<times> bool) list" where
  "transfer_fks db r =
     [(''transfers_destination_account_currency_fkey'',
        (tr_destination_account_id r, tr_currency r) \<in> (\<lambda>a. (a_id a, a_currency a)) ` set (accounts db)),
      (''transfers_journal_entry_fkey'',
        optional (\<lambda>i. i \<in> e_id ` set (journal_entries db)) (tr_journal_entry_id r)),
      (''transfers_source_account_currency_fkey'',
        (tr_source_account_id r, tr_currency r) \<in> (\<lambda>a. (a_id a, a_currency a)) ` set (accounts db))]"

definition transfers_deferred :: "database \<Rightarrow> error option" where
  "transfers_deferred db = violated foreign_key_violation (concat (map (transfer_fks db) (transfers db)))"

text \<open>The commit of a transaction that leaves a deferred constraint violated is refused.\<close>

definition run_deferred :: "tx_env \<Rightarrow> (database, 'a) tx \<Rightarrow> (database, 'a) tx" where
  "run_deferred env body db =
     run_tx
       (case body db of
          (Inl e, _) \<Rightarrow> env
        | (Inr x, db') \<Rightarrow>
            (case transfers_deferred db' of None \<Rightarrow> env | Some e \<Rightarrow> env\<lparr>tx_commit := CommitRefused e\<rparr>))
       body db"

section \<open>Assessments, review cases and audit records\<close>

definition max_jsonb_octets :: int where "max_jsonb_octets = 65536"

definition insert_assessment_row :: "assessment_row \<Rightarrow> (database, unit) tx" where
  "insert_assessment_row r db =
     constrained
       [(''transfer_risk_assessments_decision_check'', ra_decision r \<in> {''approve'', ''review'', ''decline''}),
        (''transfer_risk_assessments_input_check'',
          take 1 (ra_captured_input r) = ''{'' \<and> len (ra_captured_input r) \<le> max_jsonb_octets),
        (''transfer_risk_assessments_lifecycle_version_check'', 2 \<le> sint (ra_lifecycle_version r)),
        (''transfer_risk_assessments_policy_version_check'', sql_visible 64 (ra_policy_version r)),
        (''transfer_risk_assessments_score_check'', 0 \<le> sint (ra_score r) \<and> sint (ra_score r) \<le> 1000),
        (''transfer_risk_assessments_signals_check'',
          take 1 (ra_signals r) = ''['' \<and> len (ra_signals r) \<le> max_jsonb_octets)]
       [(''transfer_risk_assessments_transfer_lifecycle_key'',
          (ra_transfer_id r, ra_lifecycle_version r) \<notin>
            (\<lambda>x. (ra_transfer_id x, ra_lifecycle_version x)) ` set (transfer_risk_assessments db)),
        (''transfer_risk_assessments_causation_event_key'',
          ra_causation_event_id r \<notin> ra_causation_event_id ` set (transfer_risk_assessments db))]
       [(''transfer_risk_assessments_transfer_fkey'', ra_transfer_id r \<in> tr_id ` set (transfers db))]
       (\<lambda>db. db\<lparr>transfer_risk_assessments := transfer_risk_assessments db @ [r]\<rparr>) db"

text \<open>A check whose condition is unknown because of a \<open>NULL\<close> is satisfied.\<close>

definition review_checks :: "review_row \<Rightarrow> (string \<times> bool) list" where
  "review_checks r =
     [(''transfer_review_cases_assessment_version_check'', 2 \<le> sint (rc_assessment_lifecycle_version r)),
      (''transfer_review_cases_decision_check'',
        rc_status r = ''open'' \<and> rc_decision r = None \<and> rc_decided_by r = None \<and> rc_decided_at r = None \<or>
        rc_status r \<in> {''approved'', ''declined''} \<and> optional (\<lambda>d. d = rc_status r) (rc_decision r) \<and>
          optional (sql_visible 128) (rc_decided_by r) \<and> rc_decided_at r \<noteq> None),
      (''transfer_review_cases_status_check'', rc_status r \<in> {''open'', ''approved'', ''declined''})]"

definition insert_review_row :: "review_row \<Rightarrow> (database, unit) tx" where
  "insert_review_row r db =
     constrained (review_checks r)
       [(''transfer_review_cases_transfer_key'', rc_transfer_id r \<notin> rc_transfer_id ` set (transfer_review_cases db))]
       [(''transfer_review_cases_assessment_fkey'',
          (rc_transfer_id r, rc_assessment_lifecycle_version r) \<in>
            (\<lambda>x. (ra_transfer_id x, ra_lifecycle_version x)) ` set (transfer_risk_assessments db)),
        (''transfer_review_cases_transfer_fkey'', rc_transfer_id r \<in> tr_id ` set (transfers db))]
       (\<lambda>db. db\<lparr>transfer_review_cases := transfer_review_cases db @ [r]\<rparr>) db"

definition update_review_rows :: "(review_row \<Rightarrow> bool) \<Rightarrow> (review_row \<Rightarrow> review_row) \<Rightarrow> (database, nat) tx" where
  "update_review_rows hit new db =
     (let rows = filter hit (transfer_review_cases db) in
      tx_bind
        (constrained (concat (map (review_checks \<circ> new) rows)) [] []
           (\<lambda>db. db\<lparr>transfer_review_cases := map (\<lambda>r. if hit r then new r else r) (transfer_review_cases db)\<rparr>))
        (\<lambda>_. tx_return (length rows)) db)"

definition insert_audit_row :: "audit_row \<Rightarrow> (database, unit) tx" where
  "insert_audit_row r db =
     constrained
       [(''transfer_review_audit_records_actor_subject_check'', sql_visible 128 (au_actor_subject r)),
        (''transfer_review_audit_records_decision_check'', au_decision r \<in> {''approved'', ''declined''}),
        (''transfer_review_audit_records_version_check'', 3 \<le> sint (au_lifecycle_version r))]
       [(''transfer_review_audit_records_transfer_version_key'',
          (au_transfer_id r, au_lifecycle_version r) \<notin>
            (\<lambda>x. (au_transfer_id x, au_lifecycle_version x)) ` set (transfer_review_audit_records db))]
       [(''transfer_review_audit_records_transfer_fkey'', au_transfer_id r \<in> tr_id ` set (transfers db))]
       (\<lambda>db. db\<lparr>transfer_review_audit_records := transfer_review_audit_records db @ [r]\<rparr>) db"

section \<open>Statements and constraints\<close>

lemma optional_simps [simp]: "optional p None" "optional p (Some x) = p x"
  by (simp_all add: optional_def)

lemma insert_transfer_row_Inr:
  "insert_transfer_row r db = (Inr i, db') \<longleftrightarrow>
     list_all snd (transfer_checks r) \<and>
     (if transfer_key r \<in> transfer_key ` set (transfers db) then i = None \<and> db' = db
      else tr_id r \<notin> tr_id ` set (transfers db) \<and> i = Some (tr_id r) \<and>
        db' = db\<lparr>transfers := transfers db @ [r]\<rparr>)"
  by (auto simp: insert_transfer_row_def result_simps split: if_splits)

lemma insert_transfer_row_Inl: "insert_transfer_row r db = (Inl e, db') \<Longrightarrow> db' = db"
  by (auto simp: insert_transfer_row_def result_simps split: if_splits dest!: constrained_Inl)

lemma update_transfer_rows_Inr:
  "update_transfer_rows hit new db = (Inr n, db') \<longleftrightarrow>
     (\<forall>r \<in> set (transfers db). hit r \<longrightarrow> list_all snd (transfer_checks (new r))) \<and>
     n = length (filter hit (transfers db)) \<and>
     db' = db\<lparr>transfers := map (\<lambda>r. if hit r then new r else r) (transfers db)\<rparr>"
  by (auto simp: update_transfer_rows_def Let_def result_simps list_all_iff)

lemma update_review_rows_Inr:
  "update_review_rows hit new db = (Inr n, db') \<longleftrightarrow>
     (\<forall>r \<in> set (transfer_review_cases db). hit r \<longrightarrow> list_all snd (review_checks (new r))) \<and>
     n = length (filter hit (transfer_review_cases db)) \<and>
     db' = db\<lparr>transfer_review_cases := map (\<lambda>r. if hit r then new r else r) (transfer_review_cases db)\<rparr>"
  by (auto simp: update_review_rows_def Let_def result_simps list_all_iff)

lemma transfers_deferred_None:
  "transfers_deferred db = None \<longleftrightarrow> (\<forall>r \<in> set (transfers db). list_all snd (transfer_fks db r))"
  by (auto simp: transfers_deferred_def list_all_iff)

lemma run_deferred_Inr:
  "run_deferred env body db = (Inr x, db') \<longleftrightarrow>
     tx_begin env = None \<and> tx_stmt env = None \<and> tx_commit env = Committed \<and> body db = (Inr x, db') \<and>
     transfers_deferred db' = None"
  by (auto simp: run_deferred_def run_tx_Inr split: prod.splits sum.splits option.splits)

lemma run_deferred_Inl:
  "run_deferred env body db = (Inl e, db') \<Longrightarrow>
     db' = db \<or> (\<exists>x s. body db = (Inr x, db') \<and> tx_commit env = CommitAckLost s \<and> e = [Opaque s])"
  by (auto simp: run_deferred_def split: prod.splits sum.splits option.splits dest!: run_tx_Inl)

lemma run_deferred_effect:
  "run_deferred env body db = (r, db') \<Longrightarrow>
     db' = db \<or> (\<exists>x. body db = (Inr x, db') \<and> transfers_deferred db' = None)"
  by (auto simp: run_deferred_def run_tx_def split: prod.splits sum.splits option.splits commit_outcome.splits)

lemma run_deferred_quiet:
  assumes "\<And>x db'. body db = (Inr x, db') \<Longrightarrow> transfers_deferred db' = None"
  shows "run_deferred quiet body db =
    (case body db of (Inl e, _) \<Rightarrow> (Inl e, db) | (Inr x, db') \<Rightarrow> (Inr x, db'))"
  using assms by (auto simp: run_deferred_def run_tx_quiet split: prod.splits sum.splits option.splits)

text \<open>The constraints of the transfers as an invariant.\<close>

definition transfers_ok :: "database \<Rightarrow> bool" where
  "transfers_ok db \<longleftrightarrow>
     distinct (map tr_id (transfers db)) \<and> distinct (map transfer_key (transfers db)) \<and>
     (\<forall>r \<in> set (transfers db). list_all snd (transfer_checks r) \<and> list_all snd (transfer_fks db r))"

end
