(* ===== verification/Json.thy ===== *)
theory Json
  imports Prelude
begin

text \<open>
  The scanner of Go's \<open>encoding/json\<close>, as far as \<open>json.Valid\<close> and \<open>json.Compact\<close> use it: a push-down
  automaton over the bytes of the input, with the library's states, its stack of open objects and
  arrays, and its nesting limit.

  The lemmas show that compacting a valid text yields a valid text without insignificant white space
  which compacts to itself.
\<close>

section \<open>The automaton\<close>

datatype parse_context = parseObjectKey | parseObjectValue | parseArrayValue

datatype jstate =
    BeginValue | BeginValueOrEmpty | BeginString | BeginStringOrEmpty | EndValue | EndTop
  | InString | InStringEsc | InStringEscU nat
  | Neg | Num1 | Num0 | Dot | Dot0 | NumE | NumESign | NumE0
  | Literal string | JError

text \<open>A scanner: the current step and the stack of open contexts, innermost first.\<close>

record scanner =
  sc_step :: jstate
  sc_stack :: "parse_context list"

definition maxNestingDepth :: int where "maxNestingDepth = 10000"

definition isSpace :: "char \<Rightarrow> bool" where
  "isSpace c \<longleftrightarrow> c = CHR 0x20 \<or> c = CHR 0x09 \<or> c = CHR 0x0D \<or> c = CHR 0x0A"

text \<open>A step returns whether the byte is skipped, and the next scanner.\<close>

definition goto :: "jstate \<Rightarrow> scanner \<Rightarrow> bool \<times> scanner" where
  "goto st s = (False, s\<lparr>sc_step := st\<rparr>)"

definition skip :: "scanner \<Rightarrow> bool \<times> scanner" where
  "skip s = (True, s)"

definition jfail :: "scanner \<Rightarrow> bool \<times> scanner" where
  "jfail s = (False, s\<lparr>sc_step := JError\<rparr>)"

definition pushParseState :: "parse_context \<Rightarrow> jstate \<Rightarrow> scanner \<Rightarrow> bool \<times> scanner" where
  "pushParseState ctx st s =
     (if len (sc_stack s) < maxNestingDepth
      then (False, \<lparr>sc_step = st, sc_stack = ctx # sc_stack s\<rparr>) else jfail s)"

definition popParseState :: "parse_context list \<Rightarrow> bool \<times> scanner" where
  "popParseState rest =
     (False, \<lparr>sc_step = (if rest = [] then EndTop else EndValue), sc_stack = rest\<rparr>)"

definition endTop :: "scanner \<Rightarrow> char \<Rightarrow> bool \<times> scanner" where
  "endTop s c = (if isSpace c then (True, s\<lparr>sc_step := EndTop\<rparr>) else jfail s)"

definition endValue :: "scanner \<Rightarrow> char \<Rightarrow> bool \<times> scanner" where
  "endValue s c =
     (case sc_stack s of
        [] \<Rightarrow> endTop s c
      | ctx # rest \<Rightarrow>
          if isSpace c then (True, s\<lparr>sc_step := EndValue\<rparr>)
          else case ctx of
            parseObjectKey \<Rightarrow>
              if c = CHR '':'' then (False, \<lparr>sc_step = BeginValue, sc_stack = parseObjectValue # rest\<rparr>)
              else jfail s
          | parseObjectValue \<Rightarrow>
              if c = CHR '','' then (False, \<lparr>sc_step = BeginString, sc_stack = parseObjectKey # rest\<rparr>)
              else if c = CHR ''}'' then popParseState rest
              else jfail s
          | parseArrayValue \<Rightarrow>
              if c = CHR '','' then goto BeginValue s
              else if c = CHR '']'' then popParseState rest
              else jfail s)"

definition beginValue :: "scanner \<Rightarrow> char \<Rightarrow> bool \<times> scanner" where
  "beginValue s c =
     (if isSpace c then skip s
      else if c = CHR ''{'' then pushParseState parseObjectKey BeginStringOrEmpty s
      else if c = CHR ''['' then pushParseState parseArrayValue BeginValueOrEmpty s
      else if c = CHR 0x22 then goto InString s
      else if c = CHR ''-'' then goto Neg s
      else if c = CHR ''0'' then goto Num0 s
      else if c = CHR ''t'' then goto (Literal ''rue'') s
      else if c = CHR ''f'' then goto (Literal ''alse'') s
      else if c = CHR ''n'' then goto (Literal ''ull'') s
      else if is_digit c then goto Num1 s
      else jfail s)"

definition beginString :: "scanner \<Rightarrow> char \<Rightarrow> bool \<times> scanner" where
  "beginString s c =
     (if isSpace c then skip s else if c = CHR 0x22 then goto InString s else jfail s)"

definition num0 :: "scanner \<Rightarrow> char \<Rightarrow> bool \<times> scanner" where
  "num0 s c =
     (if c = CHR ''.'' then goto Dot s
      else if c = CHR ''e'' \<or> c = CHR ''E'' then goto NumE s
      else endValue s c)"

fun literal :: "string \<Rightarrow> scanner \<Rightarrow> char \<Rightarrow> bool \<times> scanner" where
  "literal [d] s c = (if c = d then goto EndValue s else jfail s)"
| "literal (d # ds) s c = (if c = d then goto (Literal ds) s else jfail s)"
| "literal [] s c = jfail s"

definition jstep :: "scanner \<Rightarrow> char \<Rightarrow> bool \<times> scanner" where
  "jstep s c =
     (case sc_step s of
        BeginValue \<Rightarrow> beginValue s c
      | BeginValueOrEmpty \<Rightarrow>
          if isSpace c then skip s else if c = CHR '']'' then endValue s c else beginValue s c
      | BeginString \<Rightarrow> beginString s c
      | BeginStringOrEmpty \<Rightarrow>
          if isSpace c then skip s
          else if c = CHR ''}''
          then endValue (s\<lparr>sc_stack := parseObjectValue # tl (sc_stack s)\<rparr>) c
          else beginString s c
      | EndValue \<Rightarrow> endValue s c
      | EndTop \<Rightarrow> endTop s c
      | InString \<Rightarrow>
          if c = CHR 0x22 then goto EndValue s
          else if c = CHR 0x5C then goto InStringEsc s
          else if (of_char c :: nat) < 32 then jfail s
          else goto InString s
      | InStringEsc \<Rightarrow>
          if c \<in> set [CHR ''b'', CHR ''f'', CHR ''n'', CHR ''r'', CHR ''t'', CHR 0x5C, CHR ''/'', CHR 0x22]
          then goto InString s
          else if c = CHR ''u'' then goto (InStringEscU 3) s
          else jfail s
      | InStringEscU n \<Rightarrow>
          if is_hex c then goto (if n = 0 then InString else InStringEscU (n - 1)) s else jfail s
      | Neg \<Rightarrow>
          if c = CHR ''0'' then goto Num0 s else if is_digit c then goto Num1 s else jfail s
      | Num1 \<Rightarrow> if is_digit c then goto Num1 s else num0 s c
      | Num0 \<Rightarrow> num0 s c
      | Dot \<Rightarrow> if is_digit c then goto Dot0 s else jfail s
      | Dot0 \<Rightarrow>
          if is_digit c then goto Dot0 s
          else if c = CHR ''e'' \<or> c = CHR ''E'' then goto NumE s
          else endValue s c
      | NumE \<Rightarrow>
          if c = CHR ''+'' \<or> c = CHR ''-'' then goto NumESign s
          else if is_digit c then goto NumE0 s else jfail s
      | NumESign \<Rightarrow> if is_digit c then goto NumE0 s else jfail s
      | NumE0 \<Rightarrow> if is_digit c then goto NumE0 s else endValue s c
      | Literal ds \<Rightarrow> literal ds s c
      | JError \<Rightarrow> jfail s)"

definition new_scanner :: scanner where
  "new_scanner = \<lparr>sc_step = BeginValue, sc_stack = []\<rparr>"

text \<open>At the end of the input a value must be complete: a pending number ends as if a space followed.\<close>

definition at_eof :: "scanner \<Rightarrow> bool" where
  "at_eof s \<longleftrightarrow> sc_step s = EndTop \<or> sc_step (snd (jstep s (CHR 0x20))) = EndTop"

text \<open>The scanner after the input, together with the bytes that were not skipped.\<close>

fun scan_from :: "scanner \<Rightarrow> string \<Rightarrow> string \<times> scanner" where
  "scan_from s [] = ([], s)"
| "scan_from s (c # cs) =
     (let (skipped, s') = jstep s c; (kept, s'') = scan_from s' cs
      in (if skipped then kept else c # kept, s''))"

definition json_Valid :: "string \<Rightarrow> bool" where
  "json_Valid data \<longleftrightarrow> at_eof (snd (scan_from new_scanner data))"

definition json_Compact :: "string \<Rightarrow> string option" where
  "json_Compact data =
     (let (kept, s) = scan_from new_scanner data in if at_eof s then Some kept else None)"

section \<open>Compaction\<close>

lemmas jstep_defs = jstep_def endValue_def endTop_def beginValue_def beginString_def num0_def
  pushParseState_def popParseState_def goto_def skip_def jfail_def

text \<open>
  \<open>behind s t\<close>: the scanner \<open>s\<close> has not yet seen the white space that \<open>t\<close> skipped after a complete value.
\<close>

definition ended :: "jstate \<Rightarrow> bool" where
  "ended st \<longleftrightarrow> st \<in> {Num1, Num0, Dot0, NumE0, EndValue}"

definition behind :: "scanner \<Rightarrow> scanner \<Rightarrow> bool" where
  "behind s t \<longleftrightarrow>
     s = t \<or> ended (sc_step s) \<and>
       t = s\<lparr>sc_step := (if sc_stack s = [] then EndTop else EndValue)\<rparr>"

lemma literal_no_skip [simp]: "literal ds s c \<noteq> (True, t)"
  by (induction ds s c rule: literal.induct) (simp_all add: goto_def jfail_def)

lemma jstep_skipped:
  assumes "jstep t c = (True, t')"
  shows "t' = t \<or> ended (sc_step t) \<and> t' = t\<lparr>sc_step := (if sc_stack t = [] then EndTop else EndValue)\<rparr>"
  using assms
  by (cases "sc_step t")
    (auto simp: jstep_defs ended_def split: if_splits list.splits parse_context.splits)

definition delimiter :: "char \<Rightarrow> bool" where
  "delimiter c \<longleftrightarrow> c \<in> {CHR '':'', CHR '','', CHR ''}'', CHR '']''}"

lemma delimiter_plain:
  assumes "delimiter c"
  shows "\<not> is_digit c" "c \<noteq> CHR ''.''" "c \<noteq> CHR ''e''" "c \<noteq> CHR ''E''"
proof -
  consider "c = CHR '':''" | "c = CHR '',''" | "c = CHR ''}''" | "c = CHR '']''"
    using assms unfolding delimiter_def by blast
  then show "\<not> is_digit c" "c \<noteq> CHR ''.''" "c \<noteq> CHR ''e''" "c \<noteq> CHR ''E''"
    by (cases; simp add: is_digit_def)+
qed

lemma endTop_final: "endTop t c = (False, t') \<Longrightarrow> sc_step t' = JError"
  by (auto simp: endTop_def jfail_def split: if_split_asm)

lemma endValue_accepts:
  assumes e: "endValue t c = (False, t')" and n: "sc_step t' \<noteq> JError"
  shows "delimiter c" "endValue (t\<lparr>sc_step := st\<rparr>) c = (False, t')"
proof -
  have "delimiter c \<and> endValue (t\<lparr>sc_step := st\<rparr>) c = (False, t')"
  proof (cases "sc_stack t")
    case Nil
    with e have "endTop t c = (False, t')" by (simp add: endValue_def)
    with n show ?thesis by (simp add: endTop_final)
  next
    case (Cons ctx rest)
    with e n show ?thesis
      by (cases ctx)
        (force simp: endValue_def jfail_def goto_def popParseState_def delimiter_def split: if_split_asm)+
  qed
  then show "delimiter c" "endValue (t\<lparr>sc_step := st\<rparr>) c = (False, t')" by simp_all
qed

lemma jstep_delimiter:
  assumes "ended (sc_step s)" "delimiter c"
  shows "jstep s c = endValue s c"
proof -
  consider "sc_step s = Num1" | "sc_step s = Num0" | "sc_step s = Dot0" | "sc_step s = NumE0"
    | "sc_step s = EndValue"
    using assms(1) unfolding ended_def by blast
  then show ?thesis using delimiter_plain [OF assms(2)] by cases (simp_all add: jstep_def num0_def)
qed

lemma jstep_ended:
  assumes "ended (sc_step s)" "t = s\<lparr>sc_step := (if sc_stack s = [] then EndTop else EndValue)\<rparr>"
    and "jstep t c = (False, t')" "sc_step t' \<noteq> JError"
  shows "jstep s c = (False, t')"
proof (cases "sc_stack s = []")
  case True
  with assms(2,3) have "endTop t c = (False, t')" by (simp add: jstep_def)
  with assms(4) show ?thesis by (simp add: endTop_final)
next
  case False
  with assms(2,3) have e: "endValue t c = (False, t')" by (simp add: jstep_def)
  have "s = t\<lparr>sc_step := sc_step s\<rparr>" using assms(2) by simp
  with endValue_accepts [OF e assms(4)] jstep_delimiter [OF assms(1)] show ?thesis by metis
qed

lemma behind_step:
  assumes "behind s t" "jstep t c = (sk, t')" "sc_step t' \<noteq> JError"
  shows "if sk then behind s t' else jstep s c = (False, t')"
proof (cases sk)
  case True
  with assms jstep_skipped [of t c t'] show ?thesis by (auto simp: behind_def ended_def split: if_splits)
next
  case False
  with assms jstep_ended show ?thesis by (auto simp: behind_def)
qed

lemma scan_error: "sc_step t = JError \<Longrightarrow> sc_step (snd (scan_from t d)) = JError"
  by (induction d arbitrary: t) (simp_all add: jstep_def jfail_def Let_def split_beta)

lemma not_at_eof_error: "sc_step t = JError \<Longrightarrow> \<not> at_eof t"
  by (simp add: at_eof_def jstep_def jfail_def)

lemma scan_compacted:
  assumes "behind s t" "scan_from t d = (k, t')" "at_eof t'"
  shows "\<exists>s'. scan_from s k = (k, s') \<and> behind s' t'"
  using assms
proof (induction d arbitrary: s t k)
  case Nil
  then show ?case by simp
next
  case (Cons c d)
  obtain sk u where u: "jstep t c = (sk, u)" by fastforce
  obtain k' where k': "scan_from u d = (k', t')" "k = (if sk then k' else c # k')"
    using Cons.prems(2) u by (auto simp: Let_def split_beta prod_eq_iff)
  have "sc_step u \<noteq> JError"
    using k'(1) Cons.prems(3) scan_error [of u d] not_at_eof_error by auto
  note step = behind_step [OF Cons.prems(1) u this]
  show ?case
  proof (cases sk)
    case True
    with step k' Cons.IH [OF _ k'(1) Cons.prems(3)] show ?thesis by simp
  next
    case False
    have "behind u u" by (simp add: behind_def)
    with False step k' Cons.IH [OF this k'(1) Cons.prems(3)] show ?thesis by auto
  qed
qed

lemma jstep_space:
  assumes "ended (sc_step s)"
  shows "jstep s (CHR 0x20) = endValue s (CHR 0x20)"
proof -
  consider "sc_step s = Num1" | "sc_step s = Num0" | "sc_step s = Dot0" | "sc_step s = NumE0"
    | "sc_step s = EndValue"
    using assms unfolding ended_def by blast
  then show ?thesis by cases (simp_all add: jstep_def num0_def is_digit_def)
qed

lemma at_eof_ended:
  assumes "ended (sc_step s)"
  shows "at_eof s \<longleftrightarrow> sc_stack s = []"
proof -
  have "sc_step s \<noteq> EndTop" using assms by (auto simp: ended_def)
  then show ?thesis
    by (cases "sc_stack s")
      (simp_all add: at_eof_def jstep_space [OF assms] endValue_def endTop_def isSpace_def)
qed

lemma at_eof_behind:
  assumes "behind s t" "at_eof t"
  shows "at_eof s"
proof (cases "s = t")
  case False
  then have s: "ended (sc_step s)" "t = s\<lparr>sc_step := (if sc_stack s = [] then EndTop else EndValue)\<rparr>"
    using assms(1) by (auto simp: behind_def)
  have "sc_stack s = []"
  proof (rule ccontr)
    assume ne: "sc_stack s \<noteq> []"
    then have "ended (sc_step t)" "sc_stack t \<noteq> []" using s(2) by (simp_all add: ended_def)
    then show False using at_eof_ended assms(2) by blast
  qed
  then show ?thesis using at_eof_ended [OF s(1)] by simp
qed (use assms in simp)

lemma json_Compact_compacted:
  assumes "json_Compact d = Some k"
  shows "json_Compact k = Some k" "json_Valid k" "json_Valid d"
proof -
  obtain t where t: "scan_from new_scanner d = (k, t)" "at_eof t"
    using assms by (auto simp: json_Compact_def Let_def split: if_splits prod.splits)
  have "behind new_scanner new_scanner" by (simp add: behind_def)
  from scan_compacted [OF this t] obtain s where s: "scan_from new_scanner k = (k, s)" "behind s t" by blast
  with t(2) at_eof_behind have "at_eof s" by blast
  with s t show "json_Compact k = Some k" "json_Valid k" "json_Valid d"
    by (simp_all add: json_Compact_def json_Valid_def)
qed

lemma json_Compact_None: "json_Compact d = None \<longleftrightarrow> \<not> json_Valid d"
  by (simp add: json_Compact_def json_Valid_def split_beta Let_def)

text \<open>What is left out is white space, so the rest starts with the first significant byte.\<close>

lemma scan_from_length: "length (fst (scan_from s d)) \<le> length d"
  by (induction d arbitrary: s) (auto simp: Let_def split_beta le_SucI)

lemma json_Compact_length: "json_Compact d = Some k \<Longrightarrow> length k \<le> length d"
  using scan_from_length [of new_scanner d] by (auto simp: json_Compact_def Let_def split_beta split: if_splits)

lemma json_Compact_object:
  assumes "json_Compact (CHR ''{'' # d) = Some k"
  obtains k' where "k = CHR ''{'' # k'"
  using assms
  by (auto simp: json_Compact_def Let_def split_beta new_scanner_def jstep_def beginValue_def isSpace_def
      pushParseState_def maxNestingDepth_def split: if_splits)

text \<open>
  Inside an opened object or array the stack is not empty until the bracket that closes the whole
  text, after which only white space is accepted. So the last kept byte of a text that starts with
  a bracket is a bracket.
\<close>

definition enclosed :: "scanner \<Rightarrow> bool" where
  "enclosed s \<longleftrightarrow> (if sc_stack s = [] then sc_step s \<in> {EndTop, JError} else sc_step s \<noteq> EndTop)"

lemma enclosed_literal: "sc_stack s \<noteq> [] \<Longrightarrow> enclosed (snd (literal ds s c))"
  by (induction ds s c rule: literal.induct) (simp_all add: enclosed_def goto_def jfail_def)

lemma enclosed_goto [simp]: "sc_stack s \<noteq> [] \<Longrightarrow> st \<noteq> EndTop \<Longrightarrow> enclosed (snd (goto st s))"
  by (simp add: enclosed_def goto_def)

lemma enclosed_jfail [simp]: "enclosed (snd (jfail s))"
  by (simp add: enclosed_def jfail_def)

lemma enclosed_skip [simp]: "enclosed s \<Longrightarrow> enclosed (snd (skip s))"
  by (simp add: skip_def)

lemma enclosed_push [simp]: "sc_stack s \<noteq> [] \<Longrightarrow> st \<noteq> EndTop \<Longrightarrow> enclosed (snd (pushParseState ctx st s))"
  by (simp add: pushParseState_def) (simp add: enclosed_def)

lemma enclosed_pop [simp]: "enclosed (snd (popParseState rest))"
  by (simp add: popParseState_def enclosed_def)

lemma enclosed_endValue: "sc_stack s \<noteq> [] \<Longrightarrow> enclosed (snd (endValue s c))"
  by (auto simp: endValue_def neq_Nil_conv split: parse_context.split) (auto simp: enclosed_def)

lemma enclosed_begin:
  "enclosed s \<Longrightarrow> sc_stack s \<noteq> [] \<Longrightarrow> enclosed (snd (beginValue s c))"
  "enclosed s \<Longrightarrow> sc_stack s \<noteq> [] \<Longrightarrow> enclosed (snd (beginString s c))"
  by (simp_all add: beginValue_def beginString_def)

lemma enclosed_jstep:
  assumes "enclosed s"
  shows "enclosed (snd (jstep s c))"
proof (cases "sc_stack s = []")
  case True
  with assms consider "sc_step s = EndTop" | "sc_step s = JError" by (auto simp: enclosed_def)
  then show ?thesis using True
    by cases (simp_all add: jstep_def endTop_def enclosed_def jfail_def)
next
  case False
  then show ?thesis using assms
    by (cases "sc_step s")
      (simp_all add: jstep_def num0_def enclosed_endValue enclosed_begin enclosed_literal,
       simp_all add: enclosed_def)
qed

lemma literal_stack [simp]: "sc_stack (snd (literal ds s c)) = sc_stack s"
  by (induction ds s c rule: literal.induct) (simp_all add: goto_def jfail_def)

lemma space_stack: "sc_stack (snd (jstep s (CHR 0x20))) = sc_stack s"
proof -
  have e: "sc_stack (snd (endValue s (CHR 0x20))) = sc_stack s"
    by (cases "sc_stack s") (simp_all add: endValue_def endTop_def isSpace_def)
  show ?thesis
    by (cases "sc_step s")
      (simp_all add: jstep_def num0_def e, simp_all add: beginValue_def beginString_def isSpace_def
        endTop_def goto_def skip_def jfail_def is_digit_def)
qed

lemma at_eof_enclosed:
  assumes "enclosed s" "at_eof s"
  shows "sc_stack s = []" "sc_step s = EndTop"
proof -
  have "sc_stack s = [] \<and> sc_step s = EndTop"
  proof (cases "sc_stack s = []")
    case True
    with assms show ?thesis using not_at_eof_error [of s] by (auto simp: enclosed_def)
  next
    case False
    then have "sc_step (snd (jstep s (CHR 0x20))) \<noteq> EndTop" "sc_step s \<noteq> EndTop"
      using enclosed_jstep [OF assms(1), of "CHR 0x20"] assms(1) by (simp_all add: enclosed_def space_stack)
    with assms(2) show ?thesis by (simp add: at_eof_def)
  qed
  then show "sc_stack s = []" "sc_step s = EndTop" by simp_all
qed

text \<open>Only a closing bracket empties the stack.\<close>

definition closing :: "char \<Rightarrow> bool" where
  "closing c \<longleftrightarrow> c = CHR ''}'' \<or> c = CHR '']''"

lemma endValue_closing:
  assumes "sc_stack s \<noteq> []" "sc_stack (snd (endValue s c)) = []"
  shows "closing c"
  using assms
  by (auto simp: endValue_def goto_def jfail_def closing_def neq_Nil_conv split: if_splits parse_context.splits)

lemma jstep_closing:
  assumes "sc_stack s \<noteq> []" "sc_stack (snd (jstep s c)) = []"
  shows "closing c"
proof (rule ccontr)
  assume n: "\<not> closing c"
  have e: "sc_stack (snd (endValue s c)) \<noteq> []"
    using n assms(1) endValue_closing by blast
  have b: "sc_stack (snd (beginValue s c)) \<noteq> []" "sc_stack (snd (beginString s c)) \<noteq> []"
    using assms(1) by (simp_all add: beginValue_def beginString_def goto_def skip_def jfail_def pushParseState_def)
  have c: "c \<noteq> CHR ''}''" "c \<noteq> CHR '']''" using n by (simp_all add: closing_def)
  have "sc_stack (snd (jstep s c)) \<noteq> []"
    using assms(1)
    by (cases "sc_step s")
      (simp_all add: jstep_def num0_def e b c, simp_all add: endTop_def goto_def skip_def jfail_def)
  with assms(2) show False by simp
qed

lemma scan_kept:
  assumes "scan_from s (c # d) = (c # d, t)"
  obtains u where "jstep s c = (False, u)" "scan_from u d = (d, t)"
proof -
  obtain sk u where u: "jstep s c = (sk, u)" by (cases "jstep s c")
  obtain k v where k: "scan_from u d = (k, v)" by (cases "scan_from u d")
  have "length k \<le> length d" using scan_from_length [of u d] k by simp
  with assms u k that show ?thesis by (cases sk) auto
qed

lemma scan_after_top:
  assumes "sc_stack s = []" "enclosed s" "scan_from s d = (d, t)" "at_eof t"
  shows "d = []"
proof (cases d)
  case (Cons c d')
  with assms(3) obtain u where u: "jstep s c = (False, u)" "scan_from u d' = (d', t)"
    using scan_kept by metis
  have "sc_step s = EndTop \<or> sc_step s = JError" using assms(1,2) by (simp add: enclosed_def)
  with u(1) have "sc_step u = JError" by (auto simp: jstep_def jfail_def dest: endTop_final)
  then have "\<not> at_eof t" using scan_error [of u d'] u(2) not_at_eof_error by simp
  with assms(4) show ?thesis by contradiction
qed

lemma scan_closing:
  assumes "enclosed s" "sc_stack s \<noteq> []" "scan_from s d = (d, t)" "at_eof t"
  shows "d \<noteq> [] \<and> closing (last d)"
  using assms
proof (induction d arbitrary: s)
  case Nil
  then show ?case using at_eof_enclosed by auto
next
  case (Cons c d)
  from Cons.prems(3) obtain u where u: "jstep s c = (False, u)" "scan_from u d = (d, t)"
    by (rule scan_kept)
  have en: "enclosed u" using enclosed_jstep [OF Cons.prems(1), of c] u by simp
  show ?case
  proof (cases "sc_stack u = []")
    case True
    then have "closing c" using jstep_closing [OF Cons.prems(2)] u by simp
    moreover have "d = []" by (rule scan_after_top [OF True en u(2) Cons.prems(4)])
    ultimately show ?thesis by simp
  next
    case False
    from Cons.IH [OF en False u(2) Cons.prems(4)] show ?thesis by simp
  qed
qed

lemma Compact_object_last:
  assumes "json_Compact k = Some k" "k = CHR ''{'' # k'"
  shows "k' \<noteq> [] \<and> closing (last k')"
proof -
  obtain t where t: "scan_from new_scanner k = (k, t)" "at_eof t"
    using assms(1) by (auto simp: json_Compact_def Let_def split: if_splits prod.splits)
  let ?s = "\<lparr>sc_step = BeginStringOrEmpty, sc_stack = [parseObjectKey]\<rparr>"
  have "jstep new_scanner (CHR ''{'') = (False, ?s)"
    by (simp add: new_scanner_def jstep_def beginValue_def isSpace_def pushParseState_def maxNestingDepth_def)
  moreover obtain u where "jstep new_scanner (CHR ''{'') = (False, u)" "scan_from u k' = (k', t)"
    using t(1) scan_kept unfolding assms(2) by metis
  ultimately have "scan_from ?s k' = (k', t)" by simp
  then show ?thesis using scan_closing [of ?s k' t] t(2) by (simp add: enclosed_def)
qed

end
