(* ===== verification/Envelope.thy ===== *)
theory Envelope
  imports Json Uuid
begin

text \<open>
  Integration event envelopes (\<open>internal/event/envelope.go\<close>): drafts, their validation and the
  normalisation of their JSON payload, and envelopes. The package's \<open>normalizeUUID\<close> and
  \<open>isCanonicalUUID\<close> are those of theory \<open>Uuid\<close>: the two packages have the same text of them.

  The lemmas show that an accepted payload is a fixed point of the normalisation, and so an accepted
  draft of \<open>NewDraft\<close>.
\<close>

section \<open>Data\<close>

definition maxEventTypeBytes :: int where "maxEventTypeBytes = 128"
definition maxAggregateTypeBytes :: int where "maxAggregateTypeBytes = 64"
definition maxPayloadBytes :: int where "maxPayloadBytes = 65536"

record draftParams =
  dp_EventType :: string
  dp_EventVersion :: int16
  dp_AggregateType :: string
  dp_AggregateID :: string
  dp_AggregateVersion :: int64
  dp_CorrelationID :: string
  dp_CausationID :: string
  dp_OccurredAt :: gotime
  dp_Payload :: string

record draft =
  dr_eventType :: string
  dr_eventVersion :: int16
  dr_aggregateType :: string
  dr_aggregateID :: string
  dr_aggregateVersion :: int64
  dr_correlationID :: string
  dr_causationID :: string
  dr_occurredAt :: gotime
  dr_payload :: string

record envelope =
  en_eventID :: string
  en_draft :: draft

section \<open>Validation\<close>

text \<open>A loop over the bytes of a name: the first byte is a lower-case letter, later bytes may also be others.\<close>

fun name_bytes :: "(char \<Rightarrow> bool) \<Rightarrow> nat \<Rightarrow> string \<Rightarrow> bool" where
  "name_bytes later index [] \<longleftrightarrow> True"
| "name_bytes later index (c # cs) \<longleftrightarrow>
     (is_lower c \<or> 0 < index \<and> is_digit c \<or> 0 < index \<and> later c) \<and> name_bytes later (Suc index) cs"

definition validEventPart :: "string \<Rightarrow> bool" where
  "validEventPart value \<longleftrightarrow> name_bytes (\<lambda>c. c = CHR ''_'') 0 value \<and> value \<noteq> []"

definition validLowerName :: "string \<Rightarrow> bool \<Rightarrow> bool" where
  "validLowerName value separators \<longleftrightarrow>
     name_bytes (\<lambda>c. separators \<and> (c = CHR ''_'' \<or> c = CHR ''-'')) 0 value \<and> value \<noteq> []"

definition validEventType :: "string \<Rightarrow> bool" where
  "validEventType value \<longleftrightarrow>
     value \<noteq> [] \<and> len value \<le> maxEventTypeBytes \<and>
     list_all validEventPart (split_at (CHR ''.'') value)"

definition validAggregateType :: "string \<Rightarrow> bool" where
  "validAggregateType value \<longleftrightarrow>
     value \<noteq> [] \<and> len value \<le> maxAggregateTypeBytes \<and> validLowerName value True"

definition validPayload :: "string \<Rightarrow> bool" where
  "validPayload payload \<longleftrightarrow>
     2 \<le> length payload \<and> len payload \<le> maxPayloadBytes \<and> payload ! 0 = CHR ''{'' \<and>
     json_Valid payload"

definition draft_validate :: "draft \<Rightarrow> error option" where
  "draft_validate d =
     (if \<not> validEventType (dr_eventType d) then Some [E Event ErrInvalidEnvelope]
      else if sint (dr_eventVersion d) \<le> 0 then Some [E Event ErrInvalidEnvelope]
      else if \<not> validAggregateType (dr_aggregateType d) then Some [E Event ErrInvalidEnvelope]
      else if \<not> isCanonicalUUID (dr_aggregateID d) then Some [E Event ErrInvalidEnvelope]
      else if sint (dr_aggregateVersion d) \<le> 0 then Some [E Event ErrInvalidEnvelope]
      else if \<not> isCanonicalUUID (dr_correlationID d) then Some [E Event ErrInvalidEnvelope]
      else if dr_causationID d \<noteq> [] \<and> \<not> isCanonicalUUID (dr_causationID d)
      then Some [E Event ErrInvalidEnvelope]
      else if IsZero (dr_occurredAt d) then Some [E Event ErrInvalidEnvelope]
      else if \<not> validPayload (dr_payload d) then Some [E Event ErrInvalidEnvelope]
      else None)"

section \<open>Payloads\<close>

text \<open>
  The inner loop of \<open>postgresJSONBTextSize\<close> over the bytes after the first one of a number: \<open>None\<close> on an
  exponent, otherwise the rest from the delimiter on, which the outer loop reads again.
\<close>

fun skip_number :: "string \<Rightarrow> string option" where
  "skip_number [] = Some []"
| "skip_number (c # cs) =
     (if c = CHR ''e'' \<or> c = CHR ''E'' then None
      else if c = CHR '','' \<or> c = CHR '']'' \<or> c = CHR ''}'' then Some (c # cs)
      else skip_number cs)"

lemma skip_number_length: "skip_number cs = Some rest \<Longrightarrow> length rest \<le> length cs"
  by (induction cs) (auto split: if_splits)

function text_size :: "bool \<Rightarrow> bool \<Rightarrow> int \<Rightarrow> string \<Rightarrow> int option" where
  "text_size inString escaped storedSize [] = Some storedSize"
| "text_size inString escaped storedSize (c # cs) =
     (if inString then
        if escaped then text_size True False storedSize cs
        else if c = CHR 0x5C then text_size True True storedSize cs
        else if c = CHR 0x22 then text_size False escaped storedSize cs
        else text_size True escaped storedSize cs
      else if c = CHR 0x22 then text_size True escaped storedSize cs
      else if c = CHR '','' \<or> c = CHR '':'' then text_size False escaped (storedSize + 1) cs
      else if c = CHR ''-'' \<or> is_digit c then
        (case skip_number cs of None \<Rightarrow> None | Some rest \<Rightarrow> text_size False escaped storedSize rest)
      else text_size False escaped storedSize cs)"
  by pat_completeness auto
termination
  by (relation "measure (\<lambda>(_, _, _, cs). length cs)")
    (auto simp: less_Suc_eq_le skip_number_length)

text \<open>The result is at most twice the length of a slice in memory: the source's \<open>int\<close> does not wrap.\<close>

definition postgresJSONBTextSize :: "string \<Rightarrow> int option" where
  "postgresJSONBTextSize payload = text_size False False (len payload) payload"

definition normalizePayload :: "string \<Rightarrow> string result" where
  "normalizePayload payload =
     (let trimmed = TrimSpace payload in
      if length trimmed < 2 \<or> trimmed ! 0 \<noteq> CHR ''{'' then fail Event ErrInvalidEnvelope
      else case json_Compact trimmed of
        None \<Rightarrow> fail Event ErrInvalidEnvelope
      | Some compact \<Rightarrow>
          (case postgresJSONBTextSize compact of
             None \<Rightarrow> fail Event ErrInvalidEnvelope
           | Some storedSize \<Rightarrow>
               if maxPayloadBytes < storedSize then fail Event ErrInvalidEnvelope else Inr compact))"

section \<open>Drafts and envelopes\<close>

definition NewDraft :: "draftParams \<Rightarrow> draft result" where
  "NewDraft params =
     andThen (normalizePayload (dp_Payload params)) (\<lambda>payload.
     let aggregateID = fst (normalizeUUID (dp_AggregateID params));
         correlationID = fst (normalizeUUID (dp_CorrelationID params))
     in andThen
       (if dp_CausationID params \<noteq> [] then
          (case normalizeUUID (dp_CausationID params) of (causationID, valid) \<Rightarrow>
             if \<not> valid then fail Event ErrInvalidEnvelope else Inr causationID)
        else Inr []) (\<lambda>causationID.
     let d = \<lparr>dr_eventType = dp_EventType params, dr_eventVersion = dp_EventVersion params,
               dr_aggregateType = dp_AggregateType params, dr_aggregateID = aggregateID,
               dr_aggregateVersion = dp_AggregateVersion params, dr_correlationID = correlationID,
               dr_causationID = causationID, dr_occurredAt = dp_OccurredAt params,
               dr_payload = payload\<rparr>
     in checked (draft_validate d) d))"

definition NewEnvelope :: "string \<Rightarrow> draft \<Rightarrow> envelope result" where
  "NewEnvelope eventID d =
     (case normalizeUUID eventID of (canonicalID, valid) \<Rightarrow>
        if \<not> valid then fail Event ErrInvalidEnvelope
        else checked (draft_validate d) \<lparr>en_eventID = canonicalID, en_draft = d\<rparr>)"

text \<open>What the accessors of a draft hand to a later \<open>NewDraft\<close>.\<close>

definition params_of :: "draft \<Rightarrow> draftParams" where
  "params_of d =
     \<lparr>dp_EventType = dr_eventType d, dp_EventVersion = dr_eventVersion d,
      dp_AggregateType = dr_aggregateType d, dp_AggregateID = dr_aggregateID d,
      dp_AggregateVersion = dr_aggregateVersion d, dp_CorrelationID = dr_correlationID d,
      dp_CausationID = dr_causationID d, dp_OccurredAt = dr_occurredAt d,
      dp_Payload = dr_payload d\<rparr>"

section \<open>Normalised payloads\<close>

lemma text_size_grows: "text_size i e n cs = Some m \<Longrightarrow> n \<le> m"
proof (induction "length cs" arbitrary: i e n cs rule: less_induct)
  case less
  show ?case
  proof (cases cs)
    case (Cons c ds)
    have IH: "n' \<le> m" if "text_size i' e' n' ds' = Some m" "length ds' \<le> length ds" for i' e' n' ds'
      using less.hyps that Cons by (simp add: less_Suc_eq_le)
    have IH': "n \<le> m" if "text_size i' e' (n + 1) ds = Some m" for i' e'
      using IH [OF that] by simp
    show ?thesis
      using less.prems IH [of _ _ n ds] IH' IH [OF _ skip_number_length]
      by (simp add: Cons split: if_split_asm option.split_asm)
  qed (use less.prems in simp)
qed

lemma normalizePayload_valid:
  assumes "normalizePayload p = Inr k"
  shows "validPayload k" "normalizePayload k = Inr k"
proof -
  obtain c d n where t: "TrimSpace p = c # d" "c = CHR ''{''" "json_Compact (c # d) = Some k"
      "postgresJSONBTextSize k = Some n" "n \<le> maxPayloadBytes"
    using assms
    by (cases "TrimSpace p") (auto simp: normalizePayload_def Let_def split: if_splits option.splits)
  note k = json_Compact_compacted [OF t(3)]
  obtain k' where k': "k = CHR ''{'' # k'" using t(2,3) json_Compact_object by metis
  have l: "k' \<noteq> []" "closing (last k')" using Compact_object_last [OF k(1) k'] by simp_all
  have "len k \<le> n" using t(4) text_size_grows by (auto simp: postgresJSONBTextSize_def)
  with t(5) k(2) k' l(1) show "validPayload k"
    by (cases k') (simp_all add: validPayload_def)
  have "visible (CHR ''{'')" by (simp add: visible_def)
  moreover have "visible (last k')" using l(2) by (auto simp: closing_def visible_def)
  ultimately have "TrimSpace k = k" using k' l(1) by (intro TrimSpace_ends) simp_all
  with k(1) k' l(1) t(4,5) show "normalizePayload k = Inr k"
    by (cases k') (simp_all add: normalizePayload_def)
qed

section \<open>Drafts\<close>

lemma draft_validate_None:
  "draft_validate d = None \<longleftrightarrow>
     validEventType (dr_eventType d) \<and> 0 < sint (dr_eventVersion d) \<and>
     validAggregateType (dr_aggregateType d) \<and> isCanonicalUUID (dr_aggregateID d) \<and>
     0 < sint (dr_aggregateVersion d) \<and> isCanonicalUUID (dr_correlationID d) \<and>
     (dr_causationID d = [] \<or> isCanonicalUUID (dr_causationID d)) \<and> dr_occurredAt d \<noteq> 0 \<and>
     validPayload (dr_payload d)"
  by (auto simp: draft_validate_def IsZero_def not_le)

lemma NewDraft_Inr:
  "NewDraft ps = Inr d \<longleftrightarrow>
     draft_validate d = None \<and>
     normalizePayload (dp_Payload ps) = Inr (dr_payload d) \<and>
     (dr_causationID d, True) =
       (if dp_CausationID ps = [] then ([], True) else normalizeUUID (dp_CausationID ps)) \<and>
     d = \<lparr>dr_eventType = dp_EventType ps, dr_eventVersion = dp_EventVersion ps,
          dr_aggregateType = dp_AggregateType ps,
          dr_aggregateID = fst (normalizeUUID (dp_AggregateID ps)),
          dr_aggregateVersion = dp_AggregateVersion ps,
          dr_correlationID = fst (normalizeUUID (dp_CorrelationID ps)),
          dr_causationID = dr_causationID d, dr_occurredAt = dp_OccurredAt ps,
          dr_payload = dr_payload d\<rparr>"
  by (auto simp: NewDraft_def result_simps Let_def split_beta prod_eq_iff split: if_splits)

lemma NewDraft_params_of:
  assumes "NewDraft ps = Inr d"
  shows "NewDraft (params_of d) = Inr d"
proof -
  have v: "draft_validate d = None" and p: "normalizePayload (dp_Payload ps) = Inr (dr_payload d)"
    using assms by (simp_all add: NewDraft_Inr)
  have "normalizePayload (dr_payload d) = Inr (dr_payload d)" by (rule normalizePayload_valid [OF p])
  with v show ?thesis
    by (auto simp: NewDraft_Inr params_of_def draft_validate_None normalizeUUID_canonical)
qed

lemma NewEnvelope_Inr:
  "NewEnvelope i d = Inr e \<longleftrightarrow>
     snd (normalizeUUID i) \<and> draft_validate d = None \<and>
     e = \<lparr>en_eventID = fst (normalizeUUID i), en_draft = d\<rparr>"
  by (auto simp: NewEnvelope_def result_simps split_beta)

section \<open>Properties\<close>

text \<open>
  C33: An accepted draft is in normal form. Building a draft from the values an accepted draft reports
  gives the same draft, so a draft read back and validated again never changes; its payload is a
  JSON object whose stored text fits PostgreSQL's limit; and attaching any well-formed event
  identifier to it succeeds.
\<close>

theorem NewDraft_normal_form:
  assumes "NewDraft ps = Inr d"
  shows "NewDraft (params_of d) = Inr d \<and> validPayload (dr_payload d) \<and>
     (\<exists>n. postgresJSONBTextSize (dr_payload d) = Some n \<and> n \<le> maxPayloadBytes) \<and>
     (\<forall>eventID. NewEnvelope eventID d =
        (case normalizeUUID eventID of (canonicalID, valid) \<Rightarrow>
           if valid then Inr \<lparr>en_eventID = canonicalID, en_draft = d\<rparr>
           else Inl [E Event ErrInvalidEnvelope]))"
proof -
  have v: "draft_validate d = None" and p: "normalizePayload (dp_Payload ps) = Inr (dr_payload d)"
    using assms by (simp_all add: NewDraft_Inr)
  obtain n where "postgresJSONBTextSize (dr_payload d) = Some n" "n \<le> maxPayloadBytes"
    using p by (auto simp: normalizePayload_def Let_def split: if_splits option.splits)
  with v NewDraft_params_of [OF assms] normalizePayload_valid(1) [OF p] show ?thesis
    by (auto simp: NewEnvelope_def split: prod.split)
qed

definition sample_params :: draftParams where
  "sample_params =
     \<lparr>dp_EventType = ''transfer.requested'', dp_EventVersion = 1, dp_AggregateType = ''transfer'',
      dp_AggregateID = '' 0190A000-0000-7000-8000-000000000001'', dp_AggregateVersion = 1,
      dp_CorrelationID = ''0190a000-0000-7000-8000-000000000002'', dp_CausationID = [],
      dp_OccurredAt = 5, dp_Payload = '' { }''\<rparr>"

definition sample_draft :: draft where
  "sample_draft =
     \<lparr>dr_eventType = ''transfer.requested'', dr_eventVersion = 1, dr_aggregateType = ''transfer'',
      dr_aggregateID = ''0190a000-0000-7000-8000-000000000001'', dr_aggregateVersion = 1,
      dr_correlationID = ''0190a000-0000-7000-8000-000000000002'', dr_causationID = [],
      dr_occurredAt = 5, dr_payload = ''{}''\<rparr>"

lemma sample_draft_new: "NewDraft sample_params = Inr sample_draft"
  by code_simp

theorem NewDraft_normal_form_witness:
  "NewDraft sample_params = Inr sample_draft \<and> NewDraft (params_of sample_draft) = Inr sample_draft"
  using NewDraft_normal_form [OF sample_draft_new] sample_draft_new by simp

end
