(* ===== verification/Envelope_Json.thy ===== *)
theory Envelope_Json
  imports Envelope
begin

text \<open>
  The transport text of an envelope: \<open>Envelope.MarshalJSON\<close> (\<open>internal/event/envelope.go\<close>) with the parts
  of \<open>encoding/json\<close> and \<open>time\<close> that it uses, namely the encoding of strings with HTML escaping, the
  compaction of a marshaler's output, and the RFC 3339 form of an instant.
\<close>

section \<open>Strings\<close>

definition hex_byte :: "nat \<Rightarrow> string" where
  "hex_byte b = [hex_digit (b div 16), hex_digit (b mod 16)]"

text \<open>\<open>\u00XY\<close>\<close>

definition u_escape :: "char \<Rightarrow> string" where
  "u_escape c = CHR 0x5C # ''u00'' @ hex_byte (of_char c)"

definition html_byte :: "char \<Rightarrow> bool" where
  "html_byte c \<longleftrightarrow> c = CHR ''<'' \<or> c = CHR ''>'' \<or> c = CHR ''&''"

text \<open>The line and paragraph separators \<open>U+2028\<close> and \<open>U+2029\<close>.\<close>

definition line_separator :: "char \<Rightarrow> string \<Rightarrow> bool" where
  "line_separator c cs \<longleftrightarrow>
     c = CHR 0xE2 \<and> 2 \<le> length cs \<and> cs ! 0 = CHR 0x80 \<and> (cs ! 1 = CHR 0xA8 \<or> cs ! 1 = CHR 0xA9)"

definition separator_escape :: "string \<Rightarrow> string" where
  "separator_escape cs = CHR 0x5C # ''u202'' @ [if cs ! 1 = CHR 0xA8 then CHR ''8'' else CHR ''9'']"

definition ascii_escape :: "char \<Rightarrow> string" where
  "ascii_escape c =
     (if c = CHR 0x22 \<or> c = CHR 0x5C then [CHR 0x5C, c]
      else if c = CHR 0x08 then CHR 0x5C # ''b''
      else if c = CHR 0x0C then CHR 0x5C # ''f''
      else if c = CHR 0x0A then CHR 0x5C # ''n''
      else if c = CHR 0x0D then CHR 0x5C # ''r''
      else if c = CHR 0x09 then CHR 0x5C # ''t''
      else if (of_char c :: nat) < 32 \<or> html_byte c then u_escape c
      else [c])"

function string_body :: "string \<Rightarrow> string" where
  "string_body [] = []"
| "string_body (c # cs) =
     (if (of_char c :: nat) < 128 then ascii_escape c @ string_body cs
      else case rune_tail (of_char c) (map of_char cs) of
        None \<Rightarrow> (CHR 0x5C # ''ufffd'') @ string_body cs
      | Some n \<Rightarrow>
          (if line_separator c cs then separator_escape cs else c # take n cs) @ string_body (drop n cs))"
  by pat_completeness auto
termination
  by (relation "measure length") auto

definition appendString :: "string \<Rightarrow> string" where
  "appendString s = CHR 0x22 # string_body s @ [CHR 0x22]"

text \<open>\<open>appendCompact\<close> with HTML escaping, which encoding a \<open>json.Marshaler\<close> applies to its output.\<close>

fun html_escape :: "string \<Rightarrow> string" where
  "html_escape [] = []"
| "html_escape (c # cs) =
     (if html_byte c then u_escape c @ html_escape cs
      else if line_separator c cs then separator_escape cs @ html_escape (drop 2 cs)
      else c # html_escape cs)"

definition marshaler :: "string \<Rightarrow> string result" where
  "marshaler b =
     (case json_Compact b of None \<Rightarrow> Inl [Opaque ''json: error calling MarshalJSON''] | Some k \<Rightarrow> Inr (html_escape k))"

section \<open>Instants\<close>

definition leap_year :: "int \<Rightarrow> bool" where
  "leap_year y \<longleftrightarrow> y mod 4 = 0 \<and> (y mod 100 \<noteq> 0 \<or> y mod 400 = 0)"

definition month_lengths :: "int \<Rightarrow> int list" where
  "month_lengths y = [31, if leap_year y then 29 else 28, 31, 30, 31, 30, 31, 31, 30, 31, 30, 31]"

text \<open>The year and the zero-based day in it, from the number of days since 1 January of the year 1.\<close>

definition civil_year :: "int \<Rightarrow> int \<times> int" where
  "civil_year days =
     (let n400 = days div 146097; r400 = days mod 146097;
          n100 = min 3 (r400 div 36524); r100 = r400 - n100 * 36524;
          n4 = r100 div 1461; r4 = r100 mod 1461;
          n1 = min 3 (r4 div 365)
      in (400 * n400 + 100 * n100 + 4 * n4 + n1 + 1, r4 - n1 * 365))"

fun civil_month :: "int list \<Rightarrow> int \<Rightarrow> int \<Rightarrow> int \<times> int" where
  "civil_month [] month day = (month, day + 1)"
| "civil_month (l # ls) month day =
     (if day < l then (month, day + 1) else civil_month ls (month + 1) (day - l))"

definition padded :: "nat \<Rightarrow> int \<Rightarrow> string" where
  "padded width n = (let s = int_text n in replicate (width - length s) (CHR ''0'') @ s)"

definition nanoseconds :: "int \<Rightarrow> string" where
  "nanoseconds n =
     (if n = 0 then [] else CHR ''.'' # rev (dropWhile (\<lambda>c. c = CHR ''0'') (rev (padded 9 n))))"

text \<open>The year of an instant and the zero-based day in it.\<close>

definition year_day :: "gotime \<Rightarrow> int \<times> int" where
  "year_day t = civil_year (t div 1000000000 div 86400)"

text \<open>\<open>time.RFC3339Nano\<close> of an instant in UTC, whose year is printed with four digits at least.\<close>

definition format_RFC3339Nano :: "gotime \<Rightarrow> string" where
  "format_RFC3339Nano t =
     (let clk = t div 1000000000 mod 86400;
          (year, yday) = year_day t;
          (month, day) = civil_month (month_lengths year) 1 yday
      in (if year < 0 then CHR ''-'' # padded 4 (- year) else padded 4 year) @ ''-'' @
         padded 2 month @ ''-'' @ padded 2 day @ ''T'' @
         padded 2 (clk div 3600) @ '':'' @ padded 2 (clk div 60 mod 60) @ '':'' @ padded 2 (clk mod 60) @
         nanoseconds (t mod 1000000000) @ ''Z'')"

text \<open>\<open>time.Time.MarshalJSON\<close> refuses the years outside 0 to 9999.\<close>

definition time_MarshalJSON :: "gotime \<Rightarrow> string result" where
  "time_MarshalJSON t =
     (if fst (year_day t) < 0 \<or> 9999 < fst (year_day t)
      then Inl [Opaque ''Time.MarshalJSON: year outside of range [0,9999]'']
      else Inr (CHR 0x22 # format_RFC3339Nano t @ [CHR 0x22]))"

section \<open>Envelopes\<close>

definition member :: "string \<Rightarrow> string \<Rightarrow> string" where
  "member name v = appendString name @ '':'' @ v"

definition comma_separated :: "string list \<Rightarrow> string" where
  "comma_separated xs = concat (case xs of [] \<Rightarrow> [] | x # ys \<Rightarrow> x # map ((#) (CHR '','')) ys)"

text \<open>The fields of \<open>envelopeJSON\<close> in order; an empty \<open>causation_id\<close> is omitted.\<close>

definition marshal_envelopeJSON :: "envelope \<Rightarrow> string result" where
  "marshal_envelopeJSON e =
     (let d = en_draft e in
      andThen (andThen (time_MarshalJSON (dr_occurredAt d)) marshaler) (\<lambda>occurredAt.
      andThen (marshaler (dr_payload d)) (\<lambda>payload.
      Inr (''{'' @ comma_separated
        ([member ''event_id'' (appendString (en_eventID e)),
          member ''event_type'' (appendString (dr_eventType d)),
          member ''event_version'' (int_text (sint (dr_eventVersion d))),
          member ''aggregate_type'' (appendString (dr_aggregateType d)),
          member ''aggregate_id'' (appendString (dr_aggregateID d)),
          member ''aggregate_version'' (int_text (sint (dr_aggregateVersion d))),
          member ''correlation_id'' (appendString (dr_correlationID d))] @
         (if dr_causationID d = [] then [] else [member ''causation_id'' (appendString (dr_causationID d))]) @
         [member ''occurred_at'' occurredAt, member ''payload'' payload]) @ ''}''))))"

definition MarshalJSON :: "envelope \<Rightarrow> string result" where
  "MarshalJSON e =
     (if \<not> isCanonicalUUID (en_eventID e) \<or> draft_validate (en_draft e) \<noteq> None
      then fail Event ErrInvalidEnvelope else marshal_envelopeJSON e)"

definition json_Marshal_envelope :: "envelope \<Rightarrow> string result" where
  "json_Marshal_envelope e = andThen (MarshalJSON e) marshaler"

end
