(* ===== verification/Json_Value.thy ===== *)
theory Json_Value
  imports Envelope_Json
begin

text \<open>
  JSON values: the text that \<open>json.Marshal\<close> writes for the repository's payload structs, and the tree
  that \<open>json.Decoder\<close> reads. The lemmas show that a printed value is read back as it was.
\<close>

section \<open>Printing\<close>

datatype jvalue =
    JNull
  | JBool bool
  | JNumber string
  | JString string
  | JArray "jvalue list"
  | JObject "(string \<times> jvalue) list"

lemma size_member [termination_simp]:
  "(k, v) \<in> set kvs \<Longrightarrow> size v < Suc (size_list (size_prod (\<lambda>_. 0) size) kvs)"
  by (induction kvs) auto

fun json_print :: "jvalue \<Rightarrow> string" where
  "json_print JNull = ''null''"
| "json_print (JBool b) = (if b then ''true'' else ''false'')"
| "json_print (JNumber t) = t"
| "json_print (JString s) = appendString s"
| "json_print (JArray vs) = ''['' @ comma_separated (map json_print vs) @ '']''"
| "json_print (JObject kvs) =
     ''{'' @ comma_separated (map (\<lambda>(k, v). member k (json_print v)) kvs) @ ''}''"

abbreviation JInt :: "int \<Rightarrow> jvalue" where
  "JInt i \<equiv> JNumber (int_text i)"

section \<open>Reading\<close>

definition replacement :: string where
  "replacement = [CHR 0xEF, CHR 0xBF, CHR 0xBD]"

definition surrogate :: "nat \<Rightarrow> bool" where
  "surrogate r \<longleftrightarrow> 0xD800 \<le> r \<and> r < 0xE000"

text \<open>\<open>utf8.AppendRune\<close>\<close>

definition utf8_rune :: "nat \<Rightarrow> string" where
  "utf8_rune r =
     (if r < 0x80 then [char_of r]
      else if r < 0x800 then [char_of (0xC0 + r div 64), char_of (0x80 + r mod 64)]
      else if surrogate r \<or> 0x10FFFF < r then replacement
      else if r < 0x10000
      then [char_of (0xE0 + r div 4096), char_of (0x80 + r div 64 mod 64), char_of (0x80 + r mod 64)]
      else [char_of (0xF0 + r div 262144), char_of (0x80 + r div 4096 mod 64),
            char_of (0x80 + r div 64 mod 64), char_of (0x80 + r mod 64)])"

definition hex_value :: "char \<Rightarrow> nat" where
  "hex_value c = (if is_digit c then of_char c - 48 else of_char (lower_char c) - 87)"

fun getu4 :: "string \<Rightarrow> (nat \<times> string) option" where
  "getu4 (a # b # c # d # rest) =
     (if is_hex a \<and> is_hex b \<and> is_hex c \<and> is_hex d
      then Some (((hex_value a * 16 + hex_value b) * 16 + hex_value c) * 16 + hex_value d, rest)
      else None)"
| "getu4 _ = None"

text \<open>\<open>utf16.DecodeRune\<close>\<close>

definition decode_pair :: "nat \<Rightarrow> nat \<Rightarrow> nat option" where
  "decode_pair r1 r2 =
     (if 0xD800 \<le> r1 \<and> r1 < 0xDC00 \<and> 0xDC00 \<le> r2 \<and> r2 < 0xE000
      then Some ((r1 - 0xD800) * 1024 + (r2 - 0xDC00) + 0x10000) else None)"

definition second_half :: "nat \<Rightarrow> string \<Rightarrow> string \<times> string" where
  "second_half r1 rest =
     (case rest of
        a # b # hex \<Rightarrow>
          (case (if a = CHR 0x5C \<and> b = CHR ''u'' then getu4 hex else None) of
             None \<Rightarrow> (replacement, rest)
           | Some (r2, rest') \<Rightarrow>
               (case decode_pair r1 r2 of
                  None \<Rightarrow> (replacement, rest)
                | Some r \<Rightarrow> (utf8_rune r, rest')))
      | _ \<Rightarrow> (replacement, rest))"

text \<open>The bytes after a backslash.\<close>

fun unescape :: "string \<Rightarrow> (string \<times> string) option" where
  "unescape [] = None"
| "unescape (e # rest) =
     (if e = CHR ''u'' then
        (case getu4 rest of
           None \<Rightarrow> None
         | Some (r, rest') \<Rightarrow>
             Some (if surrogate r then second_half r rest' else (utf8_rune r, rest')))
      else map_option (\<lambda>c. ([c], rest))
        (map_of [(CHR 0x22, CHR 0x22), (CHR 0x5C, CHR 0x5C), (CHR ''/'', CHR ''/''), (CHR ''b'', CHR 0x08),
                 (CHR ''f'', CHR 0x0C), (CHR ''n'', CHR 0x0A), (CHR ''r'', CHR 0x0D), (CHR ''t'', CHR 0x09)] e))"

lemma getu4_length: "getu4 s = Some (r, rest) \<Longrightarrow> length rest < length s"
  by (induction s rule: getu4.induct) (auto split: if_splits)

lemma second_half_length: "length (snd (second_half r s)) \<le> length s"
  by (auto simp: second_half_def split: list.splits option.splits if_splits dest!: getu4_length)

lemma unescape_length:
  assumes "unescape s = Some (bs, rest)"
  shows "length rest < length s"
proof (cases s)
  case Nil
  with assms show ?thesis by simp
next
  case (Cons e more')
  show ?thesis
  proof (cases "e = CHR ''u''")
    case True
    with assms Cons obtain r rest' where r: "getu4 more' = Some (r, rest')"
      and e: "(if surrogate r then second_half r rest' else (utf8_rune r, rest')) = (bs, rest)"
      by (auto split: option.splits)
    from e have "length rest \<le> length rest'"
      using second_half_length [of r rest'] by (auto split: if_splits)
    with getu4_length [OF r] Cons show ?thesis by simp
  next
    case False
    with assms Cons show ?thesis by (auto simp del: map_of.simps)
  qed
qed

text \<open>A string after its opening quote: its content and the rest of the text.\<close>

function parse_string :: "string \<Rightarrow> (string \<times> string) option" where
  "parse_string [] = None"
| "parse_string (c # cs) =
     (if c = CHR 0x22 then Some ([], cs)
      else if c = CHR 0x5C then
        (case unescape cs of
           None \<Rightarrow> None
         | Some (bs, rest) \<Rightarrow> map_option (\<lambda>(s, rest'). (bs @ s, rest')) (parse_string rest))
      else if (of_char c :: nat) < 32 then None
      else if (of_char c :: nat) < 128
      then map_option (\<lambda>(s, rest'). (c # s, rest')) (parse_string cs)
      else case rune_tail (of_char c) (map of_char cs) of
        None \<Rightarrow> map_option (\<lambda>(s, rest'). (replacement @ s, rest')) (parse_string cs)
      | Some n \<Rightarrow> map_option (\<lambda>(s, rest'). (c # take n cs @ s, rest')) (parse_string (drop n cs)))"
  by pat_completeness auto
termination
  by (relation "measure length") (auto dest!: unescape_length)

declare parse_string.simps [simp del]

definition number_byte :: "char \<Rightarrow> bool" where
  "number_byte c \<longleftrightarrow>
     is_digit c \<or> c = CHR ''-'' \<or> c = CHR ''+'' \<or> c = CHR ''.'' \<or> c = CHR ''e'' \<or> c = CHR ''E''"

definition parse_word :: "string \<Rightarrow> jvalue \<Rightarrow> string \<Rightarrow> (jvalue \<times> string) option" where
  "parse_word w v s = (if prefix w s then Some (v, drop (length w) s) else None)"

definition spaces :: "string \<Rightarrow> string" where
  "spaces s = dropWhile isSpace s"

text \<open>The first argument bounds the recursion; the length of the text is enough.\<close>

fun parse_value :: "nat \<Rightarrow> string \<Rightarrow> (jvalue \<times> string) option"
  and parse_elements :: "nat \<Rightarrow> string \<Rightarrow> (jvalue list \<times> string) option"
  and parse_members :: "nat \<Rightarrow> string \<Rightarrow> ((string \<times> jvalue) list \<times> string) option" where
  "parse_value 0 s = None"
| "parse_value (Suc n) s =
     (case spaces s of
        [] \<Rightarrow> None
      | c # cs \<Rightarrow>
          if c = CHR ''{'' then
            (case spaces cs of
               [] \<Rightarrow> None
             | d # ds \<Rightarrow>
                 if d = CHR ''}'' then Some (JObject [], ds)
                 else map_option (map_prod JObject id) (parse_members n (d # ds)))
          else if c = CHR ''['' then
            (case spaces cs of
               [] \<Rightarrow> None
             | d # ds \<Rightarrow>
                 if d = CHR '']'' then Some (JArray [], ds)
                 else map_option (map_prod JArray id) (parse_elements n (d # ds)))
          else if c = CHR 0x22 then map_option (map_prod JString id) (parse_string cs)
          else if c = CHR ''t'' then parse_word ''true'' (JBool True) (c # cs)
          else if c = CHR ''f'' then parse_word ''false'' (JBool False) (c # cs)
          else if c = CHR ''n'' then parse_word ''null'' JNull (c # cs)
          else if number_byte c
          then Some (JNumber (takeWhile number_byte (c # cs)), dropWhile number_byte (c # cs))
          else None)"
| "parse_elements 0 s = None"
| "parse_elements (Suc n) s =
     (case parse_value n s of
        None \<Rightarrow> None
      | Some (v, rest) \<Rightarrow>
          (case spaces rest of
             [] \<Rightarrow> None
           | c # cs \<Rightarrow>
               if c = CHR '','' then map_option (\<lambda>(vs, r). (v # vs, r)) (parse_elements n cs)
               else if c = CHR '']'' then Some ([v], cs)
               else None))"
| "parse_members 0 s = None"
| "parse_members (Suc n) s =
     (case spaces s of
        [] \<Rightarrow> None
      | q # qs \<Rightarrow>
          (case (if q = CHR 0x22 then parse_string qs else None) of
             None \<Rightarrow> None
           | Some (k, rest) \<Rightarrow>
               (case spaces rest of
                  [] \<Rightarrow> None
                | d # ds \<Rightarrow>
                    (case (if d = CHR '':'' then parse_value n ds else None) of
                       None \<Rightarrow> None
                     | Some (v, rest') \<Rightarrow>
                         (case spaces rest' of
                            [] \<Rightarrow> None
                          | c # cs \<Rightarrow>
                              if c = CHR '','' then map_option (\<lambda>(kvs, r). ((k, v) # kvs, r)) (parse_members n cs)
                              else if c = CHR ''}'' then Some ([(k, v)], cs)
                              else None)))))"

text \<open>
  \<open>Decode\<close> followed by a \<open>Decode\<close> that must report the end of the input: the text is one value, with
  white space around it.
\<close>

definition json_decode :: "string \<Rightarrow> jvalue option" where
  "json_decode data =
     (if json_Valid data then map_option fst (parse_value (Suc (length data)) data) else None)"


section \<open>Printed strings\<close>

definition ascii :: "string \<Rightarrow> bool" where
  "ascii s \<longleftrightarrow> list_all (\<lambda>c. (of_char c :: nat) < 128) s"

lemma ascii_simps [simp]: "ascii []" "ascii (c # s) \<longleftrightarrow> (of_char c :: nat) < 128 \<and> ascii s"
  by (simp_all add: ascii_def)

lemma ascii_visible: "list_all visible s \<Longrightarrow> ascii s"
  by (auto simp: ascii_def list_all_iff visible_def char_le_code)

lemma hex_value_digit: "n < 16 \<Longrightarrow> hex_value (hex_digit n) = n"
proof -
  have "list_all (\<lambda>n. hex_value (hex_digit n) = n) [0..<16]" by code_simp
  then show "n < 16 \<Longrightarrow> hex_value (hex_digit n) = n" by (simp add: list_all_iff)
qed

lemma getu4_byte: "b < 256 \<Longrightarrow> getu4 (''00'' @ hex_byte b @ rest) = Some (b, rest)"
  by (simp add: hex_byte_def hex_digit_hex hex_value_digit)
    (simp add: is_hex_def is_digit_def hex_value_def)

lemma unescape_u: "(of_char c :: nat) < 128 \<Longrightarrow> unescape (''u00'' @ hex_byte (of_char c) @ rest) = Some ([c], rest)"
  using getu4_byte [of "of_char c" rest] by (simp add: surrogate_def utf8_rune_def)

definition short_escapes :: "char list" where
  "short_escapes = [CHR 0x22, CHR 0x5C, CHR 0x08, CHR 0x0C, CHR 0x0A, CHR 0x0D, CHR 0x09]"

lemma short_escape:
  assumes "c \<in> set short_escapes"
  shows "\<exists>e. ascii_escape c = [CHR 0x5C, e] \<and> (\<forall>rest. unescape (e # rest) = Some ([c], rest))"
  using assms unfolding short_escapes_def by (auto simp: ascii_escape_def)

lemma ascii_escape_other:
  assumes "c \<notin> set short_escapes"
  shows "ascii_escape c = (if (of_char c :: nat) < 32 \<or> html_byte c then u_escape c else [c])"
  using assms by (simp add: ascii_escape_def short_escapes_def)

lemma parse_string_escape:
  assumes "(of_char c :: nat) < 128"
  shows "parse_string (ascii_escape c @ rest) = map_option (\<lambda>(s, r). (c # s, r)) (parse_string rest)"
proof (cases "c \<in> set short_escapes")
  case True
  from short_escape [OF this] obtain e where "ascii_escape c = [CHR 0x5C, e]"
    and "\<forall>rest. unescape (e # rest) = Some ([c], rest)" by blast
  then show ?thesis
    by (simp add: parse_string.simps(2) [of "CHR 0x5C"] del: unescape.simps)
next
  case False
  then have ne: "c \<noteq> CHR 0x22" "c \<noteq> CHR 0x5C" by (auto simp: short_escapes_def)
  show ?thesis
  proof (cases "(of_char c :: nat) < 32 \<or> html_byte c")
    case True
    with False unescape_u [OF assms] show ?thesis
      by (simp add: ascii_escape_other u_escape_def parse_string.simps(2) [of "CHR 0x5C"] del: unescape.simps)
  next
    case plain: False
    with False ne assms show ?thesis
      by (simp add: ascii_escape_other parse_string.simps(2) [of c])
  qed
qed

lemma parse_string_body:
  "ascii s \<Longrightarrow> parse_string (string_body s @ CHR 0x22 # rest) = Some (s, rest)"
  by (induction s) (simp_all add: parse_string_escape parse_string.simps)


section \<open>Printed values are read back\<close>

text \<open>The values that the payloads use: numbers are integers and strings are ASCII.\<close>

fun plain :: "jvalue \<Rightarrow> bool" where
  "plain JNull = True"
| "plain (JBool b) = True"
| "plain (JNumber t) \<longleftrightarrow> (\<exists>i. t = int_text i)"
| "plain (JString s) \<longleftrightarrow> ascii s"
| "plain (JArray vs) \<longleftrightarrow> (\<forall>v \<in> set vs. plain v)"
| "plain (JObject kvs) \<longleftrightarrow> (\<forall>(k, v) \<in> set kvs. ascii k \<and> plain v)"

definition stops :: "string \<Rightarrow> bool" where
  "stops rest \<longleftrightarrow> rest = [] \<or> hd rest \<in> {CHR '','', CHR ''}'', CHR '']''}"

abbreviation elements_text :: "jvalue list \<Rightarrow> string" where
  "elements_text vs \<equiv> comma_separated (map json_print vs)"

abbreviation members_text :: "(string \<times> jvalue) list \<Rightarrow> string" where
  "members_text kvs \<equiv> comma_separated (map (\<lambda>(k, v). member k (json_print v)) kvs)"

lemma comma_separated_Cons:
  "comma_separated (x # xs) = x @ (if xs = [] then [] else CHR '','' # comma_separated xs)"
  by (cases xs) (simp_all add: comma_separated_def)

lemma comma_separated_simps [simp]:
  "comma_separated [] = []" "comma_separated [x] = x"
  "comma_separated (x # y # xs) = x @ CHR '','' # comma_separated (y # xs)"
  by (simp_all add: comma_separated_def)

lemma int_text_shape:
  "\<exists>c cs. int_text i = c # cs \<and> (c = CHR ''-'' \<and> cs \<noteq> [] \<or> is_digit c) \<and> list_all is_digit cs"
proof (cases "i < 0")
  case True
  then show ?thesis using nat_text_digits [of "nat (- i)"] by (simp add: int_text_def)
next
  case False
  then show ?thesis using nat_text_digits [of "nat i"] by (cases "nat_text (nat i)") (simp_all add: int_text_def)
qed

lemma digit_number_byte: "is_digit c \<Longrightarrow> number_byte c"
  by (simp add: number_byte_def)

lemma int_text_number_bytes: "list_all number_byte (int_text i)"
  using int_text_shape [of i] by (auto simp: list_all_iff number_byte_def)

lemma stops_number: "stops rest \<Longrightarrow> takeWhile number_byte rest = [] \<and> dropWhile number_byte rest = rest"
  by (cases rest) (auto simp: stops_def number_byte_def is_digit_def)

lemma take_number:
  assumes "stops rest"
  shows "takeWhile number_byte (int_text i @ rest) = int_text i"
    and "dropWhile number_byte (int_text i @ rest) = rest"
  using int_text_number_bytes [of i] stops_number [OF assms] by (simp_all add: list_all_iff)

lemma int_text_first:
  assumes "int_text i = c # cs"
  shows "number_byte c" "\<not> isSpace c" "c \<noteq> CHR ''{''" "c \<noteq> CHR ''[''" "c \<noteq> CHR 0x22" "c \<noteq> CHR ''t''"
    "c \<noteq> CHR ''f''" "c \<noteq> CHR ''n''" "c \<noteq> CHR '']''" "c \<noteq> CHR ''}''"
  using assms int_text_shape [of i] by (auto simp: number_byte_def isSpace_def is_digit_def)

lemma print_start:
  assumes "plain v"
  obtains c cs where "json_print v = c # cs" "\<not> isSpace c" "c \<noteq> CHR '']''" "c \<noteq> CHR ''}''"
proof (cases v)
  case (JNumber t)
  with assms obtain i where "t = int_text i" by auto
  with JNumber int_text_shape [of i] int_text_first [of i] that show ?thesis by fastforce
next
  case (JBool b)
  with that show ?thesis by (cases b) (auto simp: isSpace_def)
qed (use that in \<open>auto simp: isSpace_def appendString_def\<close>)

lemma spaces_Cons [simp]: "\<not> isSpace c \<Longrightarrow> spaces (c # cs) = c # cs"
  by (simp add: spaces_def)

lemma not_isSpace [simp]:
  "\<not> isSpace (CHR '','')" "\<not> isSpace (CHR '':'')" "\<not> isSpace (CHR ''{'')" "\<not> isSpace (CHR ''}'')"
  "\<not> isSpace (CHR ''['')" "\<not> isSpace (CHR '']'')" "\<not> isSpace (CHR 0x22)" "\<not> isSpace (CHR ''t'')"
  "\<not> isSpace (CHR ''f'')" "\<not> isSpace (CHR ''n'')"
  by (simp_all add: isSpace_def)

lemma parse_number:
  assumes "stops rest"
  shows "parse_value (Suc n) (int_text i @ rest) = Some (JNumber (int_text i), rest)"
proof -
  obtain c cs where c: "int_text i = c # cs" using int_text_shape [of i] by blast
  show ?thesis
    using take_number [OF assms, of i] int_text_first [OF c] by (simp add: c)
qed

definition reads_value :: "nat \<Rightarrow> bool" where
  "reads_value n \<longleftrightarrow> (\<forall>v rest. plain v \<and> stops rest \<and> length (json_print v) < n \<longrightarrow>
     parse_value n (json_print v @ rest) = Some (v, rest))"

definition reads_elements :: "nat \<Rightarrow> bool" where
  "reads_elements n \<longleftrightarrow> (\<forall>vs rest. vs \<noteq> [] \<and> (\<forall>v \<in> set vs. plain v) \<and> Suc (length (elements_text vs)) < n \<longrightarrow>
     parse_elements n (elements_text vs @ CHR '']'' # rest) = Some (vs, rest))"

definition reads_members :: "nat \<Rightarrow> bool" where
  "reads_members n \<longleftrightarrow> (\<forall>kvs rest. kvs \<noteq> [] \<and> (\<forall>(k, v) \<in> set kvs. ascii k \<and> plain v) \<and>
     Suc (length (members_text kvs)) < n \<longrightarrow>
     parse_members n (members_text kvs @ CHR ''}'' # rest) = Some (kvs, rest))"

lemma print_nonempty: "plain v \<Longrightarrow> json_print v \<noteq> []"
  by (auto elim: print_start)

lemma stops_simps [simp]:
  "stops []" "stops (CHR '','' # s)" "stops (CHR ''}'' # s)" "stops (CHR '']'' # s)"
  by (simp_all add: stops_def)

lemma elements_step:
  assumes v: "reads_value n" and e: "reads_elements n"
  shows "reads_elements (Suc n)"
  unfolding reads_elements_def
proof (intro allI impI, elim conjE)
  fix vs rest
  assume vs: "vs \<noteq> []" "\<forall>v \<in> set vs. plain v" "Suc (length (elements_text vs)) < Suc n"
  then obtain x ws where Cons: "vs = x # ws" by (cases vs) auto
  have x: "plain x" "length (json_print x) < n" using vs Cons by (auto simp: comma_separated_Cons)
  show "parse_elements (Suc n) (elements_text vs @ CHR '']'' # rest) = Some (vs, rest)"
  proof (cases "ws = []")
    case True
    with v x Cons show ?thesis by (simp add: reads_value_def)
  next
    case False
    have "parse_value n (json_print x @ CHR '','' # elements_text ws @ CHR '']'' # rest) =
        Some (x, CHR '','' # elements_text ws @ CHR '']'' # rest)"
      using v x by (simp add: reads_value_def)
    moreover have "parse_elements n (elements_text ws @ CHR '']'' # rest) = Some (ws, rest)"
    proof -
      have "length (elements_text vs) = length (json_print x) + 1 + length (elements_text ws)"
        using Cons False by (simp add: comma_separated_Cons [of "json_print x"])
      moreover have "0 < length (json_print x)" using print_nonempty [OF x(1)] by simp
      ultimately have "Suc (length (elements_text ws)) < n" using vs(3) by linarith
      with e vs(2) Cons False show ?thesis by (simp add: reads_elements_def)
    qed
    ultimately show ?thesis using Cons False by (simp add: comma_separated_Cons [of "json_print x"])
  qed
qed

lemma member_text: "member k t @ rest = CHR 0x22 # string_body k @ CHR 0x22 # CHR '':'' # t @ rest"
  by (simp add: member_def appendString_def)

lemma members_step:
  assumes v: "reads_value n" and e: "reads_members n"
  shows "reads_members (Suc n)"
  unfolding reads_members_def
proof (intro allI impI, elim conjE)
  fix kvs rest
  assume kvs: "kvs \<noteq> []" "\<forall>(k, v) \<in> set kvs. ascii k \<and> plain v" "Suc (length (members_text kvs)) < Suc n"
  then obtain k x ws where Cons: "kvs = (k, x) # ws" by (cases kvs) auto
  let ?m = "member k (json_print x)"
  have x: "ascii k" "plain x" "length (json_print x) < n" "length ?m \<ge> 2"
    using kvs Cons by (auto simp: comma_separated_Cons member_def appendString_def)
  show "parse_members (Suc n) (members_text kvs @ CHR ''}'' # rest) = Some (kvs, rest)"
  proof (cases "ws = []")
    case True
    with v x Cons show ?thesis by (simp add: reads_value_def member_text parse_string_body)
  next
    case False
    have "parse_value n (json_print x @ CHR '','' # members_text ws @ CHR ''}'' # rest) =
        Some (x, CHR '','' # members_text ws @ CHR ''}'' # rest)"
      using v x by (simp add: reads_value_def)
    moreover have "parse_members n (members_text ws @ CHR ''}'' # rest) = Some (ws, rest)"
    proof -
      have "length (members_text kvs) = length ?m + 1 + length (members_text ws)"
        using Cons False by (simp add: comma_separated_Cons [of ?m])
      then have "Suc (length (members_text ws)) < n" using kvs(3) x(4) by linarith
      with e kvs(2) Cons False show ?thesis by (simp add: reads_members_def)
    qed
    ultimately show ?thesis using Cons False x(1)
      by (simp add: comma_separated_Cons [of ?m] member_text parse_string_body)
  qed
qed


lemma elements_start:
  assumes "vs \<noteq> []" "\<forall>v \<in> set vs. plain v"
  obtains c cs where "elements_text vs @ rest = c # cs" "\<not> isSpace c" "c \<noteq> CHR '']''"
proof -
  obtain x ws where "vs = x # ws" using assms(1) by (cases vs) auto
  moreover with assms(2) obtain c cs where "json_print x = c # cs" "\<not> isSpace c" "c \<noteq> CHR '']''"
    by (auto elim: print_start)
  ultimately show ?thesis using that by (simp add: comma_separated_Cons)
qed

lemma members_start:
  assumes "kvs \<noteq> []"
  obtains cs where "members_text kvs @ rest = CHR 0x22 # cs"
  using assms that by (cases kvs) (auto simp: comma_separated_Cons member_def appendString_def)

lemma value_step:
  assumes e: "reads_elements n" and m: "reads_members n"
  shows "reads_value (Suc n)"
  unfolding reads_value_def
proof (intro allI impI, elim conjE)
  fix v rest
  assume v: "plain v" "stops rest" "length (json_print v) < Suc n"
  show "parse_value (Suc n) (json_print v @ rest) = Some (v, rest)"
  proof (cases v)
    case (JNumber t)
    with v parse_number [of rest n] show ?thesis by (auto simp del: parse_value.simps)
  next
    case (JString x)
    with v show ?thesis by (simp add: appendString_def parse_string_body)
  next
    case (JArray vs)
    show ?thesis
    proof (cases "vs = []")
      case False
      moreover have "parse_elements n (elements_text vs @ CHR '']'' # rest) = Some (vs, rest)"
        using e v JArray False by (simp add: reads_elements_def)
      moreover obtain c cs where "elements_text vs @ CHR '']'' # rest = c # cs" "\<not> isSpace c" "c \<noteq> CHR '']''"
        using elements_start [OF False] v(1) JArray by auto
      ultimately show ?thesis using JArray by simp
    qed (simp add: JArray)
  next
    case (JObject kvs)
    show ?thesis
    proof (cases "kvs = []")
      case False
      moreover have "parse_members n (members_text kvs @ CHR ''}'' # rest) = Some (kvs, rest)"
        using m v JObject False by (simp add: reads_members_def)
      moreover obtain cs where "members_text kvs @ CHR ''}'' # rest = CHR 0x22 # cs"
        using members_start [OF False] by auto
      ultimately show ?thesis using JObject by simp
    qed (simp add: JObject)
  qed (simp_all add: parse_word_def)
qed

lemma reads_all: "reads_value n \<and> reads_elements n \<and> reads_members n"
proof (induction n)
  case 0
  show ?case by (simp add: reads_value_def reads_elements_def reads_members_def)
next
  case (Suc n)
  then show ?case by (simp add: value_step elements_step members_step)
qed

lemma parse_print:
  "plain v \<Longrightarrow> stops rest \<Longrightarrow> length (json_print v) < n \<Longrightarrow>
     parse_value n (json_print v @ rest) = Some (v, rest)"
  using reads_all [of n] by (simp add: reads_value_def)

end
