(* ===== verification/Json_Payload.thy ===== *)
theory Json_Payload
  imports Json_Value
begin

text \<open>
  Printed JSON values as payloads of events: the scanner accepts them without skipping a byte, so they
  are their own compact form, and they contain no exponent, so their stored size is defined.
\<close>

section \<open>The scanner accepts printed values\<close>

lemma scan_from_append:
  "scan_from s (a @ b) =
     (let (ka, s1) = scan_from s a; (kb, s2) = scan_from s1 b in (ka @ kb, s2))"
  by (induction a arbitrary: s) (simp_all add: split_beta Let_def)

text \<open>\<open>kept s t s'\<close>: the scanner reads \<open>t\<close> from \<open>s\<close> to \<open>s'\<close> without skipping a byte.\<close>

definition kept :: "scanner \<Rightarrow> string \<Rightarrow> scanner \<Rightarrow> bool" where
  "kept s t s' \<longleftrightarrow> scan_from s t = (t, s')"

lemma kept_Nil [simp]: "kept s [] s' \<longleftrightarrow> s' = s"
  by (auto simp: kept_def)

lemma kept_append: "kept s a s1 \<Longrightarrow> kept s1 b s2 \<Longrightarrow> kept s (a @ b) s2"
  by (simp add: kept_def scan_from_append)

lemma kept_Cons: "jstep s c = (False, s1) \<Longrightarrow> kept s1 cs s2 \<Longrightarrow> kept s (c # cs) s2"
  by (simp add: kept_def)

lemma kept_then: "kept s a s1 \<Longrightarrow> jstep s1 c = (False, s2) \<Longrightarrow> kept s2 b s3 \<Longrightarrow> kept s (a @ c # b) s3"
  by (blast intro: kept_append kept_Cons)

lemma kept_one: "jstep s c = (False, s1) \<Longrightarrow> kept s [c] s1"
  by (simp add: kept_def)

abbreviation scanner_at :: "jstate \<Rightarrow> parse_context list \<Rightarrow> scanner" where
  "scanner_at st stk \<equiv> \<lparr>sc_step = st, sc_stack = stk\<rparr>"

lemma kept_escape:
  assumes "(of_char c :: nat) < 128"
  shows "kept (scanner_at InString stk) (ascii_escape c) (scanner_at InString stk)"
proof (cases "c \<in> set short_escapes")
  case True
  then show ?thesis
    unfolding short_escapes_def
    by (auto simp: ascii_escape_def kept_def jstep_def goto_def)
next
  case False
  then have ne: "c \<noteq> CHR 0x22" "c \<noteq> CHR 0x5C" by (auto simp: short_escapes_def)
  show ?thesis
  proof (cases "(of_char c :: nat) < 32 \<or> html_byte c")
    case True
    have "is_hex (hex_digit (of_char c div 16))" "is_hex (hex_digit (of_char c mod 16))" "is_hex (CHR ''0'')"
      using assms by (simp_all add: hex_digit_hex) (simp add: is_hex_def is_digit_def)
    with True False show ?thesis
      by (simp add: ascii_escape_other u_escape_def hex_byte_def kept_def jstep_def goto_def)
  next
    case plain: False
    with False ne show ?thesis by (simp add: ascii_escape_other kept_def jstep_def goto_def)
  qed
qed

lemma kept_body: "ascii s \<Longrightarrow> kept (scanner_at InString stk) (string_body s) (scanner_at InString stk)"
  by (induction s) (auto intro: kept_append kept_escape)

lemma kept_string:
  assumes "ascii s" "st = BeginValue \<or> st = BeginValueOrEmpty \<or> st = BeginString \<or> st = BeginStringOrEmpty"
  shows "kept (scanner_at st stk) (appendString s) (scanner_at EndValue stk)"
proof -
  have "jstep (scanner_at st stk) (CHR 0x22) = (False, scanner_at InString stk)"
    using assms(2) by (auto simp: jstep_def beginValue_def beginString_def goto_def)
  moreover have "kept (scanner_at InString stk) (string_body s @ [CHR 0x22]) (scanner_at EndValue stk)"
    using assms(1) by (intro kept_append [OF kept_body] kept_one) (simp_all add: jstep_def goto_def)
  ultimately show ?thesis by (simp add: appendString_def kept_Cons)
qed


lemma nat_text_leading:
  "\<exists>c cs. nat_text n = c # cs \<and> is_digit c \<and> (c = CHR ''0'' \<longrightarrow> n = 0 \<and> cs = []) \<and> list_all is_digit cs"
proof (induction n rule: nat_text.induct)
  case (1 n)
  show ?case
  proof (cases "n < 10")
    case True
    have "char_of (48 + n) = CHR ''0'' \<Longrightarrow> n = 0"
      using digit_char_code [OF True] by (auto dest: arg_cong [of _ _ "of_char :: char \<Rightarrow> nat"])
    with True nat_text_digits [of n] show ?thesis by (subst (1) nat_text.simps) (auto simp: nat_text.simps [of n])
  next
    case False
    with "1.IH" obtain c cs where c: "nat_text (n div 10) = c # cs" "is_digit c"
      "c = CHR ''0'' \<longrightarrow> n div 10 = 0 \<and> cs = []" by blast
    have n: "nat_text n = c # cs @ [char_of (48 + n mod 10)]"
      using False c(1) by (subst nat_text.simps) simp
    have "c \<noteq> CHR ''0''" using c(3) False by auto
    with nat_text_digits [of n] c(2) show ?thesis by (intro exI [of _ c]) (simp add: n)
  qed
qed

lemma kept_digits:
  "list_all is_digit cs \<Longrightarrow> kept (scanner_at Num1 stk) cs (scanner_at Num1 stk)"
  by (induction cs) (auto simp: jstep_def goto_def intro: kept_Cons)

lemma digit_first:
  assumes "is_digit c"
  shows "\<not> isSpace c" "c \<noteq> CHR ''{''" "c \<noteq> CHR ''[''" "c \<noteq> CHR 0x22" "c \<noteq> CHR ''-''" "c \<noteq> CHR ''t''"
    "c \<noteq> CHR ''f''" "c \<noteq> CHR ''n''" "c \<noteq> CHR '']''"
  using assms by (auto simp: isSpace_def is_digit_def)

lemma kept_nat:
  assumes "st = BeginValue \<or> st = BeginValueOrEmpty \<or> st = Neg"
  shows "\<exists>st'. ended st' \<and> kept (scanner_at st stk) (nat_text n) (scanner_at st' stk)"
proof -
  obtain c cs where c: "nat_text n = c # cs" "is_digit c" "c = CHR ''0'' \<longrightarrow> cs = []" "list_all is_digit cs"
    using nat_text_leading by blast
  show ?thesis
  proof (cases "c = CHR ''0''")
    case True
    have "jstep (scanner_at st stk) (CHR ''0'') = (False, scanner_at Num0 stk)"
      using assms by (auto simp: jstep_def beginValue_def goto_def isSpace_def)
    with c True have "kept (scanner_at st stk) (nat_text n) (scanner_at Num0 stk)" by (simp add: kept_one)
    then show ?thesis by (intro exI [of _ Num0]) (simp add: ended_def)
  next
    case False
    have "jstep (scanner_at st stk) c = (False, scanner_at Num1 stk)"
      using assms
    proof (elim disjE)
      assume "st = Neg"
      with False c(2) show ?thesis by (simp add: jstep_def goto_def)
    qed (use False c(2) digit_first [OF c(2)] in \<open>simp_all add: jstep_def beginValue_def goto_def\<close>)
    with c(1,4) have "kept (scanner_at st stk) (nat_text n) (scanner_at Num1 stk)"
      by (simp add: kept_Cons kept_digits)
    then show ?thesis by (intro exI [of _ Num1]) (simp add: ended_def)
  qed
qed

lemma kept_int:
  assumes "st = BeginValue \<or> st = BeginValueOrEmpty"
  shows "\<exists>st'. ended st' \<and> kept (scanner_at st stk) (int_text i) (scanner_at st' stk)"
proof (cases "i < 0")
  case True
  obtain st' where "ended st'" "kept (scanner_at Neg stk) (nat_text (nat (- i))) (scanner_at st' stk)"
    using kept_nat by blast
  moreover have "jstep (scanner_at st stk) (CHR ''-'') = (False, scanner_at Neg stk)"
    using assms by (auto simp: jstep_def beginValue_def goto_def isSpace_def)
  ultimately show ?thesis using True by (auto simp: int_text_def intro: kept_Cons)
next
  case False
  with kept_nat [of st stk "nat i"] assms show ?thesis by (auto simp: int_text_def)
qed

text \<open>Arrays and objects nest at most \<open>d\<close> deep.\<close>

fun fits :: "nat \<Rightarrow> jvalue \<Rightarrow> bool" where
  "fits 0 (JArray vs) = False"
| "fits 0 (JObject kvs) = False"
| "fits (Suc d) (JArray vs) = (\<forall>v \<in> set vs. fits d v)"
| "fits (Suc d) (JObject kvs) = (\<forall>(k, v) \<in> set kvs. fits d v)"
| "fits d _ = True"

abbreviation value_start :: "jstate \<Rightarrow> bool" where
  "value_start st \<equiv> st = BeginValue \<or> st = BeginValueOrEmpty"

definition after_value :: "parse_context list \<Rightarrow> jstate \<Rightarrow> bool" where
  "after_value stk st \<longleftrightarrow> (if stk = [] then ended st \<or> st = EndTop else ended st)"

definition scans_value :: "nat \<Rightarrow> bool" where
  "scans_value d \<longleftrightarrow> (\<forall>v st stk. plain v \<and> fits d v \<and> len stk + int d \<le> maxNestingDepth \<and> value_start st \<longrightarrow>
     (\<exists>st'. after_value stk st' \<and> kept (scanner_at st stk) (json_print v) (scanner_at st' stk)))"

lemma jstep_after:
  assumes "ended st" "delimiter c" "stk \<noteq> []"
  shows "jstep (scanner_at st stk) c = endValue (scanner_at st stk) c"
  using jstep_delimiter [of "scanner_at st stk" c] assms by simp

lemma scans_valueD:
  assumes "scans_value d" "plain v" "fits d v" "len stk + int (Suc d) \<le> maxNestingDepth" "value_start st"
  shows "\<exists>st'. ended st' \<and> kept (scanner_at st (ctx # stk)) (json_print v) (scanner_at st' (ctx # stk))"
  using assms(1) [unfolded scans_value_def, rule_format, of v "ctx # stk" st] assms(2-)
  by (simp add: after_value_def)

lemma scans_elements:
  assumes "scans_value d" "\<forall>v \<in> set vs. plain v \<and> fits d v" "vs \<noteq> []" "len stk + int (Suc d) \<le> maxNestingDepth"
    "value_start st"
  shows "kept (scanner_at st (parseArrayValue # stk)) (elements_text vs @ '']'')
    (snd (popParseState stk))"
  using assms(2,3,5)
proof (induction vs arbitrary: st)
  case (Cons v vs)
  let ?stk = "parseArrayValue # stk"
  obtain st' where st': "ended st'" "kept (scanner_at st ?stk) (json_print v) (scanner_at st' ?stk)"
    using scans_valueD [OF assms(1) _ _ assms(4) Cons.prems(3)] Cons.prems(1) by force
  show ?case
  proof (cases "vs = []")
    case True
    have "jstep (scanner_at st' ?stk) (CHR '']'') = (False, snd (popParseState stk))"
      using st'(1) by (simp add: jstep_after delimiter_def endValue_def popParseState_def)
    with st'(2) True show ?thesis by (auto intro: kept_append kept_one)
  next
    case False
    have "jstep (scanner_at st' ?stk) (CHR '','') = (False, scanner_at BeginValue ?stk)"
      using st'(1) by (simp add: jstep_after delimiter_def endValue_def goto_def)
    with st'(2) False Cons.IH [of BeginValue] Cons.prems(1) show ?thesis
      by (simp add: comma_separated_Cons [of "json_print v"] kept_then)
  qed
qed simp

lemma kept_member:
  assumes "scans_value d" "ascii k" "plain v" "fits d v" "len stk + int (Suc d) \<le> maxNestingDepth"
    "st = BeginString \<or> st = BeginStringOrEmpty"
  shows "\<exists>st'. ended st' \<and>
    kept (scanner_at st (parseObjectKey # stk)) (member k (json_print v)) (scanner_at st' (parseObjectValue # stk))"
proof -
  have "kept (scanner_at st (parseObjectKey # stk)) (appendString k) (scanner_at EndValue (parseObjectKey # stk))"
    using assms(2,6) kept_string by blast
  moreover have "jstep (scanner_at EndValue (parseObjectKey # stk)) (CHR '':'') =
      (False, scanner_at BeginValue (parseObjectValue # stk))"
    by (simp add: jstep_def endValue_def)
  moreover obtain st' where "ended st'"
    "kept (scanner_at BeginValue (parseObjectValue # stk)) (json_print v) (scanner_at st' (parseObjectValue # stk))"
    using scans_valueD [OF assms(1,3,4,5)] by blast
  ultimately show ?thesis by (auto simp: member_def intro: kept_then)
qed

lemma scans_members:
  assumes "scans_value d" "\<forall>(k, v) \<in> set kvs. ascii k \<and> plain v \<and> fits d v" "kvs \<noteq> []"
    "len stk + int (Suc d) \<le> maxNestingDepth" "st = BeginString \<or> st = BeginStringOrEmpty"
  shows "kept (scanner_at st (parseObjectKey # stk)) (members_text kvs @ ''}'') (snd (popParseState stk))"
  using assms(2,3,5)
proof (induction kvs arbitrary: st)
  case (Cons kv kvs)
  obtain k v where kv: "kv = (k, v)" by fastforce
  let ?stk = "parseObjectValue # stk"
  obtain st' where st': "ended st'"
    "kept (scanner_at st (parseObjectKey # stk)) (member k (json_print v)) (scanner_at st' ?stk)"
    using kept_member [OF assms(1) _ _ _ assms(4)] Cons.prems kv by fastforce
  show ?case
  proof (cases "kvs = []")
    case True
    have "jstep (scanner_at st' ?stk) (CHR ''}'') = (False, snd (popParseState stk))"
      using st'(1) by (simp add: jstep_after delimiter_def endValue_def popParseState_def)
    with st'(2) True kv show ?thesis by (auto intro: kept_append kept_one)
  next
    case False
    have "jstep (scanner_at st' ?stk) (CHR '','') = (False, scanner_at BeginString (parseObjectKey # stk))"
      using st'(1) by (simp add: jstep_after delimiter_def endValue_def)
    with st'(2) False Cons.IH [of BeginString] Cons.prems(1) kv show ?thesis
      by (simp add: comma_separated_Cons [of "member k (json_print v)"] kept_then)
  qed
qed simp


lemma kept_word:
  "value_start st \<Longrightarrow> kept (scanner_at st stk) ''null'' (scanner_at EndValue stk)"
  "value_start st \<Longrightarrow> kept (scanner_at st stk) ''true'' (scanner_at EndValue stk)"
  "value_start st \<Longrightarrow> kept (scanner_at st stk) ''false'' (scanner_at EndValue stk)"
  by (elim disjE; simp add: kept_def jstep_def beginValue_def goto_def)+

lemma kept_open:
  assumes "value_start st" "len stk < maxNestingDepth"
  shows "jstep (scanner_at st stk) (CHR ''['') = (False, scanner_at BeginValueOrEmpty (parseArrayValue # stk))"
    and "jstep (scanner_at st stk) (CHR ''{'') = (False, scanner_at BeginStringOrEmpty (parseObjectKey # stk))"
  using assms by (auto simp: jstep_def beginValue_def pushParseState_def)

lemma after_pop: "\<exists>st'. after_value stk st' \<and> snd (popParseState stk) = scanner_at st' stk"
  by (simp add: popParseState_def after_value_def ended_def)

lemma after_ended: "ended st \<Longrightarrow> after_value stk st"
  by (simp add: after_value_def)

lemma ended_EndValue [simp]: "ended EndValue"
  by (simp add: ended_def)

lemma scans_array:
  assumes "\<And>d'. d = Suc d' \<Longrightarrow> scans_value d'" "plain (JArray vs)" "fits d (JArray vs)"
    "len stk + int d \<le> maxNestingDepth" "value_start st"
  shows "kept (scanner_at st stk) (json_print (JArray vs)) (snd (popParseState stk))"
proof -
  obtain d' where d: "d = Suc d'" using assms(3) by (cases d) auto
  have "kept (scanner_at BeginValueOrEmpty (parseArrayValue # stk)) (elements_text vs @ '']'') (snd (popParseState stk))"
  proof (cases "vs = []")
    case True
    then show ?thesis by (simp add: kept_def jstep_def endValue_def popParseState_def isSpace_def)
  next
    case False
    then show ?thesis using assms d by (intro scans_elements) auto
  qed
  with kept_open(1) [OF assms(5), of stk] assms(4) d show ?thesis by (simp add: kept_Cons)
qed

lemma scans_object:
  assumes "\<And>d'. d = Suc d' \<Longrightarrow> scans_value d'" "plain (JObject kvs)" "fits d (JObject kvs)"
    "len stk + int d \<le> maxNestingDepth" "value_start st"
  shows "kept (scanner_at st stk) (json_print (JObject kvs)) (snd (popParseState stk))"
proof -
  obtain d' where d: "d = Suc d'" using assms(3) by (cases d) auto
  have "kept (scanner_at BeginStringOrEmpty (parseObjectKey # stk)) (members_text kvs @ ''}'') (snd (popParseState stk))"
  proof (cases "kvs = []")
    case True
    then show ?thesis by (simp add: kept_def jstep_def endValue_def popParseState_def isSpace_def)
  next
    case False
    have "\<forall>(k, v) \<in> set kvs. ascii k \<and> plain v \<and> fits d' v" using assms(2,3) d by auto
    with False show ?thesis using assms(1,4) d by (intro scans_members) auto
  qed
  with kept_open(2) [OF assms(5), of stk] assms(4) d show ?thesis by (simp add: kept_Cons)
qed

lemma scans_all: "scans_value d"
proof (induction d rule: less_induct)
  case (less d)
  show ?case
    unfolding scans_value_def
  proof (intro allI impI, elim conjE)
    fix v st and stk :: "parse_context list"
    assume v: "plain v" "fits d v" "len stk + int d \<le> maxNestingDepth" "value_start st"
    have IH: "\<And>d'. d = Suc d' \<Longrightarrow> scans_value d'" using less by simp
    show "\<exists>st'. after_value stk st' \<and> kept (scanner_at st stk) (json_print v) (scanner_at st' stk)"
    proof (cases v)
      case (JArray vs)
      with scans_array [OF IH _ _ v(3,4)] v(1,2) after_pop [of stk] show ?thesis by metis
    next
      case (JObject kvs)
      with scans_object [OF IH _ _ v(3,4)] v(1,2) after_pop [of stk] show ?thesis by metis
    next
      case (JNumber t)
      with v(1) obtain i where "t = int_text i" by auto
      with JNumber kept_int [OF v(4), of stk i] show ?thesis by (auto intro: after_ended)
    next
      case (JString x)
      with v(1,4) kept_string [of x st stk] show ?thesis by (auto intro!: exI [of _ EndValue] after_ended)
    next
      case (JBool b)
      with kept_word [OF v(4)] show ?thesis by (auto intro!: exI [of _ EndValue] after_ended)
    next
      case JNull
      with kept_word [OF v(4)] show ?thesis by (auto intro!: exI [of _ EndValue] after_ended)
    qed
  qed
qed

lemma printed_compact:
  assumes "plain v" "fits d v" "int d \<le> maxNestingDepth"
  shows "json_Compact (json_print v) = Some (json_print v)" "json_Valid (json_print v)"
proof -
  obtain st where st: "after_value [] st" "kept new_scanner (json_print v) (scanner_at st [])"
    using scans_all [of d, unfolded scans_value_def, rule_format, of v "[]" BeginValue] assms
    by (auto simp: new_scanner_def)
  then have "at_eof (scanner_at st [])"
    using at_eof_ended [of "scanner_at st []"] by (auto simp: after_value_def at_eof_def)
  with st(2) show "json_Compact (json_print v) = Some (json_print v)" "json_Valid (json_print v)"
    by (simp_all add: json_Compact_def json_Valid_def kept_def)
qed

lemma json_decode_print:
  assumes "plain v" "fits d v" "int d \<le> maxNestingDepth"
  shows "json_decode (json_print v) = Some v"
  using parse_print [OF assms(1), of "[]" "Suc (length (json_print v))"] printed_compact(2) [OF assms]
  by (simp add: json_decode_def)


section \<open>The size of printed payloads\<close>

lemma hex_digit_plain: "k < 16 \<Longrightarrow> hex_digit k \<noteq> CHR 0x5C" "k < 16 \<Longrightarrow> hex_digit k \<noteq> CHR 0x22"
  using hex_digit_hex(1) [of k] by (auto simp: is_hex_def is_digit_def)

lemma text_size_escape: "text_size True False n (ascii_escape c @ rest) = text_size True False n rest"
proof (cases "c \<in> set short_escapes")
  case True
  then show ?thesis unfolding short_escapes_def by (auto simp: ascii_escape_def)
next
  case False
  have "(of_char c :: nat) div 16 < 16" using char_code_less_256 [of c] by linarith
  with False show ?thesis
    by (simp add: ascii_escape_other u_escape_def hex_byte_def hex_digit_plain short_escapes_def)
qed

lemma text_size_body:
  "ascii s \<Longrightarrow> text_size True False n (string_body s @ CHR 0x22 # rest) = text_size False False n rest"
  by (induction s) (simp_all add: text_size_escape del: text_size.simps(2), simp)

lemma text_size_quoted: "ascii s \<Longrightarrow> text_size False False n (appendString s @ rest) = text_size False False n rest"
  by (simp add: appendString_def text_size_body)

lemma skip_digits: "list_all is_digit cs \<Longrightarrow> stops rest \<Longrightarrow> skip_number (cs @ rest) = Some rest"
proof (induction cs)
  case Nil
  then show ?case by (cases rest) (auto simp: stops_def)
next
  case (Cons c cs)
  then show ?case by (auto simp: is_digit_def)
qed

lemma text_size_int:
  assumes "stops rest"
  shows "text_size False False n (int_text i @ rest) = text_size False False n rest"
proof -
  obtain c cs where c: "int_text i = c # cs" "c = CHR ''-'' \<or> is_digit c" "list_all is_digit cs"
    using int_text_shape by blast
  then have "c \<noteq> CHR '',''" "c \<noteq> CHR '':''" "c \<noteq> CHR 0x22" by (auto simp: is_digit_def)
  with c skip_digits [OF c(3) assms] show ?thesis by simp
qed

text \<open>The texts without exponents, whose stored size is defined.\<close>

definition sizes :: "string \<Rightarrow> bool" where
  "sizes t \<longleftrightarrow> (\<forall>n. text_size False False n t \<noteq> None)"

lemma shifted: "(\<forall>n. P (n + 1)) \<longleftrightarrow> (\<forall>n :: int. P n)"
  by (metis diff_add_cancel)

lemma sizes_simps [simp]:
  "sizes []" "sizes (CHR ''{'' # t) = sizes t" "sizes (CHR ''}'' # t) = sizes t"
  "sizes (CHR ''['' # t) = sizes t" "sizes (CHR '']'' # t) = sizes t"
  "sizes (CHR '','' # t) = sizes t" "sizes (CHR '':'' # t) = sizes t"
  using shifted [of "\<lambda>n. text_size False False n t \<noteq> None"] by (simp_all add: sizes_def is_digit_def)

lemma sizes_quoted: "ascii s \<Longrightarrow> sizes (appendString s @ t) = sizes t"
  by (simp add: sizes_def text_size_quoted)

lemma sizes_int: "stops t \<Longrightarrow> sizes (int_text i @ t) = sizes t"
  by (simp add: sizes_def text_size_int)

lemma sizes_word: "sizes (''null'' @ t) = sizes t" "sizes (''true'' @ t) = sizes t" "sizes (''false'' @ t) = sizes t"
  by (simp_all add: sizes_def is_digit_def)

lemma sizes_elements:
  assumes "\<And>v rest. v \<in> set vs \<Longrightarrow> stops rest \<Longrightarrow> sizes rest \<Longrightarrow> sizes (json_print v @ rest)"
    "stops rest" "sizes rest"
  shows "sizes (elements_text vs @ rest)"
  using assms
proof (induction vs)
  case (Cons v vs)
  then show ?case by (cases "vs = []") (simp_all add: comma_separated_Cons [of "json_print v"])
qed simp

lemma sizes_members:
  assumes "\<And>k v rest. (k, v) \<in> set kvs \<Longrightarrow> stops rest \<Longrightarrow> sizes rest \<Longrightarrow> sizes (json_print v @ rest)"
    "\<And>k v. (k, v) \<in> set kvs \<Longrightarrow> ascii k" "stops rest" "sizes rest"
  shows "sizes (members_text kvs @ rest)"
  using assms
proof (induction kvs)
  case (Cons kv kvs)
  obtain k v where kv: "kv = (k, v)" by fastforce
  have "ascii k" "\<And>rest. stops rest \<Longrightarrow> sizes rest \<Longrightarrow> sizes (json_print v @ rest)"
    using Cons.prems(1,2) [of k v] kv by auto
  moreover have "sizes (members_text kvs @ rest)"
    using Cons.prems by (intro Cons.IH) (meson list.set_intros(2))+
  ultimately show ?case
    using Cons.prems(3,4) kv
    by (cases "kvs = []") (simp_all add: comma_separated_Cons member_def sizes_quoted)
qed simp

lemma sizes_print: "plain v \<Longrightarrow> stops rest \<Longrightarrow> sizes rest \<Longrightarrow> sizes (json_print v @ rest)"
proof (induction v arbitrary: rest rule: json_print.induct)
  case (5 vs)
  then show ?case by (auto intro!: sizes_elements)
next
  case (6 kvs)
  then show ?case by (auto intro!: sizes_members)
qed (auto simp: sizes_quoted sizes_int sizes_word [simplified])

lemma text_size_bound: "text_size i e n cs = Some m \<Longrightarrow> m \<le> n + len cs"
proof (induction i e n cs rule: text_size.induct)
  case (2 i e n c cs)
  then show ?case by (auto split: if_splits option.splits dest!: skip_number_length)
qed simp

lemma printed_size:
  assumes "plain v"
  obtains m where "postgresJSONBTextSize (json_print v) = Some m" "m \<le> 2 * len (json_print v)"
proof -
  obtain m where m: "text_size False False (len (json_print v)) (json_print v) = Some m"
    using sizes_print [OF assms, of "[]"] by (auto simp: sizes_def)
  with text_size_bound [OF m] that show ?thesis by (simp add: postgresJSONBTextSize_def)
qed

lemma normalizePayload_print:
  assumes "plain (JObject kvs)" "fits d (JObject kvs)" "int d \<le> maxNestingDepth"
    "2 * len (json_print (JObject kvs)) \<le> maxPayloadBytes"
  shows "normalizePayload (json_print (JObject kvs)) = Inr (json_print (JObject kvs))"
proof -
  let ?t = "json_print (JObject kvs)"
  have "TrimSpace ?t = ?t" by (rule TrimSpace_ends) (simp_all add: visible_def)
  moreover obtain m where "postgresJSONBTextSize ?t = Some m" "m \<le> 2 * len ?t"
    by (rule printed_size [OF assms(1)])
  ultimately show ?thesis
    using printed_compact(1) [OF assms(1-3)] assms(4) by (simp add: normalizePayload_def)
qed

end
