(* ===== verification/Rfc3339.thy ===== *)
theory Rfc3339
  imports Envelope_Json
begin

text \<open>
  Reading instants: \<open>time.Parse(time.RFC3339Nano, ...)\<close> as the standard library defines it, and that it
  inverts the printed form of every instant in the years 0 to 9999.
\<close>

section \<open>Parsing\<close>

definition digit_value :: "char \<Rightarrow> int" where
  "digit_value c = int (of_char c) - 48"

fun decimal :: "int \<Rightarrow> string \<Rightarrow> int" where
  "decimal n [] = n"
| "decimal n (c # cs) = decimal (10 * n + digit_value c) cs"

text \<open>\<open>getnum\<close>: one or two digits, exactly two when \<open>fixed\<close>.\<close>

fun getnum :: "bool \<Rightarrow> string \<Rightarrow> (int \<times> string) option" where
  "getnum fixed [] = None"
| "getnum fixed [c] = (if is_digit c \<and> \<not> fixed then Some (digit_value c, []) else None)"
| "getnum fixed (c # d # cs) =
     (if \<not> is_digit c then None
      else if is_digit d then Some (10 * digit_value c + digit_value d, cs)
      else if fixed then None else Some (digit_value c, d # cs))"

definition ranged :: "int \<Rightarrow> int \<Rightarrow> (int \<times> string) option \<Rightarrow> (int \<times> string) option" where
  "ranged lo hi r = Option.bind r (\<lambda>(n, s). if lo \<le> n \<and> n \<le> hi then Some (n, s) else None)"

fun expect :: "char \<Rightarrow> string \<Rightarrow> string option" where
  "expect c [] = None"
| "expect c (d # ds) = (if d = c then Some ds else None)"

definition parse_year :: "string \<Rightarrow> (int \<times> string) option" where
  "parse_year s =
     (if 4 \<le> length s \<and> list_all is_digit (take 4 s) then Some (decimal 0 (take 4 s), drop 4 s) else None)"

text \<open>The optional fraction: nine digits count.\<close>

fun parse_fraction :: "string \<Rightarrow> int \<times> string" where
  "parse_fraction (c # d # cs) =
     (if (c = CHR ''.'' \<or> c = CHR '','') \<and> is_digit d
      then let digits = takeWhile is_digit (d # cs); kept = take 9 digits
           in (decimal 0 kept * 10 ^ (9 - length kept), dropWhile is_digit (d # cs))
      else (0, c # d # cs))"
| "parse_fraction s = (0, s)"

text \<open>The offset from UTC in seconds, after which nothing may follow.\<close>

fun parse_zone :: "string \<Rightarrow> int option" where
  "parse_zone [CHR ''Z''] = Some 0"
| "parse_zone [sign, h1, h2, colon, m1, m2] =
     (case (ranged 0 24 (getnum True [h1, h2]), ranged 0 60 (getnum True [m1, m2])) of
        (Some (hr, _), Some (mm, _)) \<Rightarrow>
          if colon \<noteq> CHR '':'' then None
          else if sign = CHR ''+'' then Some ((hr * 60 + mm) * 60)
          else if sign = CHR ''-'' then Some (- ((hr * 60 + mm) * 60))
          else None
      | _ \<Rightarrow> None)"
| "parse_zone _ = None"

definition days_before_year :: "int \<Rightarrow> int" where
  "days_before_year year = 365 * (year - 1) + (year - 1) div 4 - (year - 1) div 100 + (year - 1) div 400"

definition days_of_date :: "int \<Rightarrow> int \<Rightarrow> int \<Rightarrow> int" where
  "days_of_date year month day =
     days_before_year year + sum_list (take (nat (month - 1)) (month_lengths year)) + (day - 1)"

definition parse_RFC3339Nano :: "string \<Rightarrow> gotime option" where
  "parse_RFC3339Nano s =
     Option.bind (parse_year s) (\<lambda>(year, s).
     Option.bind (expect (CHR ''-'') s) (\<lambda>s.
     Option.bind (ranged 1 12 (getnum True s)) (\<lambda>(month, s).
     Option.bind (expect (CHR ''-'') s) (\<lambda>s.
     Option.bind (ranged 1 (month_lengths year ! nat (month - 1)) (getnum True s)) (\<lambda>(day, s).
     Option.bind (expect (CHR ''T'') s) (\<lambda>s.
     Option.bind (ranged 0 23 (getnum False s)) (\<lambda>(hour, s).
     Option.bind (expect (CHR '':'') s) (\<lambda>s.
     Option.bind (ranged 0 59 (getnum True s)) (\<lambda>(minute, s).
     Option.bind (expect (CHR '':'') s) (\<lambda>s.
     Option.bind (ranged 0 59 (getnum True s)) (\<lambda>(sec, s).
     case parse_fraction s of (nano, s) \<Rightarrow>
     Option.bind (parse_zone s) (\<lambda>offset.
     Some ((((days_of_date year month day * 24 + hour) * 60 + minute) * 60 + sec - offset) *
       1000000000 + nano)))))))))))))"

section \<open>Printed numbers\<close>

lemma digit_value_char: "0 \<le> d \<Longrightarrow> d < 10 \<Longrightarrow> digit_value (char_of (nat (48 + d))) = d"
  using digit_char_code [of "nat d"] by (simp add: digit_value_def nat_add_distrib)

lemma is_digit_char: "0 \<le> d \<Longrightarrow> d < 10 \<Longrightarrow> is_digit (char_of (nat (48 + d)))"
  using digit_char_code [of "nat d"] by (simp add: is_digit_def char_le_code nat_add_distrib)

lemma padded_2:
  assumes "0 \<le> n" "n < 100"
  shows "padded 2 n = [char_of (nat (48 + n div 10)), char_of (nat (48 + n mod 10))]"
proof -
  have "list_all (\<lambda>k. padded 2 (int k) = [char_of (nat (48 + int k div 10)), char_of (nat (48 + int k mod 10))])
      [0..<100]"
    by code_simp
  moreover have "nat n \<in> set [0..<100]" using assms by auto
  ultimately have "padded 2 (int (nat n)) =
      [char_of (nat (48 + int (nat n) div 10)), char_of (nat (48 + int (nat n) mod 10))]"
    unfolding list_all_iff by (rule bspec)
  with assms show ?thesis by simp
qed

lemma getnum_padded:
  assumes "0 \<le> n" "n < 100"
  shows "getnum fixed (padded 2 n @ rest) = Some (n, rest)"
  using assms by (simp add: padded_2 is_digit_char digit_value_char)


lemma decimal_append: "decimal n (s @ t) = decimal (decimal n s) t"
  by (induction s arbitrary: n) simp_all

lemma decimal_zeros: "decimal 0 (replicate k (CHR ''0'')) = 0"
  by (induction k) (simp_all add: digit_value_def)

lemma decimal_zeros_after: "decimal n (replicate k (CHR ''0'')) = n * 10 ^ k"
  by (induction k arbitrary: n) (simp_all add: digit_value_def)

lemma decimal_nat_text: "decimal 0 (nat_text n) = int n"
proof (induction n rule: nat_text.induct)
  case (1 n)
  then show ?case
    by (subst nat_text.simps) (simp add: decimal_append digit_value_def zdiv_int zmod_int)
qed

lemma length_nat_text: "n < 10 ^ Suc w \<Longrightarrow> length (nat_text n) \<le> Suc w"
proof (induction n arbitrary: w rule: nat_text.induct)
  case (1 n)
  show ?case
  proof (cases "n < 10")
    case False
    with "1.prems" obtain v where v: "w = Suc v" by (cases w) auto
    with "1.prems" have "n div 10 < 10 ^ Suc v" by (simp add: less_mult_imp_div_less mult.commute)
    with "1.IH" [OF False] False v show ?thesis by (subst nat_text.simps) simp
  qed (simp add: nat_text.simps [of n])
qed

lemma padded_props:
  assumes "0 \<le> n" "n < 10 ^ Suc w"
  shows "length (padded (Suc w) n) = Suc w" "list_all is_digit (padded (Suc w) n)"
    "decimal 0 (padded (Suc w) n) = n"
proof -
  have "nat n < 10 ^ Suc w" using assms by (simp add: nat_less_iff)
  then show "length (padded (Suc w) n) = Suc w"
    using assms(1) length_nat_text [of "nat n" w] by (simp add: padded_def Let_def int_text_def)
  show "list_all is_digit (padded (Suc w) n)"
    using assms(1) nat_text_digits [of "nat n"]
    by (auto simp: padded_def Let_def int_text_def list_all_iff is_digit_def)
  show "decimal 0 (padded (Suc w) n) = n"
    using assms(1) by (simp add: padded_def Let_def int_text_def decimal_append decimal_zeros decimal_nat_text)
qed

lemma parse_year_padded:
  assumes "0 \<le> y" "y \<le> 9999"
  shows "parse_year (padded 4 y @ rest) = Some (y, rest)"
  using padded_props [of y 3] assms by (simp add: parse_year_def eval_nat_numeral)

lemma dropWhile_rev_zeros:
  "\<exists>k. s = rev (dropWhile (\<lambda>c. c = z) (rev s)) @ replicate k z"
proof -
  let ?t = "takeWhile (\<lambda>c. c = z) (rev s)"
  have "?t = replicate (length ?t) z" by (rule replicate_eqI) (auto dest: set_takeWhileD)
  moreover have "rev s = ?t @ dropWhile (\<lambda>c. c = z) (rev s)" by simp
  ultimately have "s = rev (replicate (length ?t) z @ dropWhile (\<lambda>c. c = z) (rev s))"
    by (metis rev_rev_ident)
  then show ?thesis by (metis rev_append rev_replicate)
qed

lemma parse_fraction_printed:
  assumes "0 \<le> n" "n < 1000000000"
  shows "parse_fraction (nanoseconds n @ ''Z'') = (n, ''Z'')"
proof (cases "n = 0")
  case False
  let ?p = "padded 9 n"
  have p: "length ?p = 9" "list_all is_digit ?p" "decimal 0 ?p = n"
  proof -
    have nine: "Suc 8 = 9" "(10 :: int) ^ Suc 8 = 1000000000" by simp_all
    show "length ?p = 9" "list_all is_digit ?p" "decimal 0 ?p = n"
      using padded_props [of n 8, unfolded nine] assms by simp_all
  qed
  define s where "s = rev (dropWhile (\<lambda>c. c = CHR ''0'') (rev ?p))"
  obtain k where k: "?p = s @ replicate k (CHR ''0'')" 
    using dropWhile_rev_zeros [of ?p "CHR ''0''"] by (auto simp only: s_def [symmetric])
  have d: "list_all is_digit s" "length s + k = 9"
    using p(1,2) unfolding k by simp_all
  have v: "n = decimal 0 s * 10 ^ k" using p(3) unfolding k by (simp add: decimal_append decimal_zeros_after)
  with False obtain c cs where c: "s = c # cs" by (cases s) auto
  have z: "takeWhile is_digit (s @ ''Z'') = s" "dropWhile is_digit (s @ ''Z'') = ''Z''"
    using d(1) by (simp_all add: list_all_iff is_digit_def)
  have "9 - length s = k" "take 9 s = s" using d(2) by simp_all
  with z c d(1) have "parse_fraction ((CHR ''.'' # s) @ ''Z'') = (decimal 0 s * 10 ^ k, ''Z'')" by simp
  moreover have "nanoseconds n = CHR ''.'' # s" by (simp add: nanoseconds_def False s_def)
  ultimately show ?thesis using v by simp
qed (simp add: nanoseconds_def)


section \<open>The calendar\<close>

lemma civil_year_parts:
  obtains n400 n100 n4 n1 where
    "civil_year days = (400 * n400 + 100 * n100 + 4 * n4 + n1 + 1,
       days - 146097 * n400 - 36524 * n100 - 1461 * n4 - 365 * n1)"
    "0 \<le> n100" "n100 \<le> 3" "0 \<le> n4" "n4 \<le> 24" "0 \<le> n1" "n1 \<le> 3"
    "0 \<le> days - 146097 * n400 - 36524 * n100 - 1461 * n4 - 365 * n1"
    "days - 146097 * n400 - 36524 * n100 - 1461 * n4 - 365 * n1 \<le> (if n1 = 3 \<and> (n4 = 24 \<longrightarrow> n100 = 3) then 365 else 364)"
proof -
  define n400 r400 where q: "n400 = days div 146097" "r400 = days mod 146097"
  define n100 where n100: "n100 = min 3 (r400 div 36524)"
  define r100 where r100: "r100 = r400 - n100 * 36524"
  define n4 r4 where n4: "n4 = r100 div 1461" "r4 = r100 mod 1461"
  define n1 where n1: "n1 = min 3 (r4 div 365)"
  have days: "days = 146097 * n400 + r400" "0 \<le> r400" "r400 < 146097" using q by simp_all
  have b100: "0 \<le> n100" "n100 \<le> 3" "0 \<le> r100" "r100 \<le> (if n100 = 3 then 36524 else 36523)"
    using days(2,3) n100 r100 by (auto simp: min_def split: if_splits)
  have b4: "r100 = 1461 * n4 + r4" "0 \<le> r4" "r4 < 1461" "0 \<le> n4" "n4 \<le> 24"
    using n4 b100(3,4) by (auto split: if_splits)
  have b1: "0 \<le> n1" "n1 \<le> 3" "0 \<le> r4 - 365 * n1" "r4 - 365 * n1 \<le> (if n1 = 3 then 365 else 364)"
    using n1 b4(2,3) by (auto simp: min_def split: if_splits)
  have eq: "days - 146097 * n400 - 36524 * n100 - 1461 * n4 - 365 * n1 = r4 - 365 * n1"
    using days(1) r100 b4(1) by simp
  have "r4 - 365 * n1 \<le> (if n1 = 3 \<and> (n4 = 24 \<longrightarrow> n100 = 3) then 365 else 364)"
    using b1(4) b100(4) b4(1) by (auto split: if_splits)
  moreover have "civil_year days = (400 * n400 + 100 * n100 + 4 * n4 + n1 + 1, r4 - 365 * n1)"
    unfolding civil_year_def Let_def
    by (simp add: mult.commute flip: q n100 r100 n4 n1)
  ultimately show ?thesis using that [of n400 n100 n4 n1] b100(1,2) b4(4,5) b1(1-3) eq by simp
qed

lemma year_divisions:
  fixes n400 :: int
  assumes "0 \<le> n100" "n100 \<le> 3" "0 \<le> n4" "n4 \<le> 24" "0 \<le> n1" "n1 \<le> 3"
  shows "(400 * n400 + 100 * n100 + 4 * n4 + n1) div 4 = 100 * n400 + 25 * n100 + n4"
    "(400 * n400 + 100 * n100 + 4 * n4 + n1) div 100 = 4 * n400 + n100"
    "(400 * n400 + 100 * n100 + 4 * n4 + n1) div 400 = n400"
    "(400 * n400 + 100 * n100 + 4 * n4 + n1) mod 4 = n1"
    "(400 * n400 + 100 * n100 + 4 * n4 + n1) mod 100 = 4 * n4 + n1"
    "(400 * n400 + 100 * n100 + 4 * n4 + n1) mod 400 = 100 * n100 + 4 * n4 + n1"
  using assms
  by (auto intro: int_div_pos_eq int_mod_pos_eq [of _ 4 "100 * n400 + 25 * n100 + n4"]
      int_mod_pos_eq [of _ 100 "4 * n400 + n100"] int_mod_pos_eq [of _ 400 n400])

lemma mod_Suc_zero:
  fixes x :: int
  assumes "0 < k"
  shows "(x + 1) mod k = 0 \<longleftrightarrow> x mod k = k - 1"
  using mod_add_left_eq [of x k 1] pos_mod_bound [OF assms, of x] pos_mod_sign [OF assms, of x]
  by (cases "x mod k = k - 1") (auto simp: mod_pos_pos_trivial)

lemma year_leap:
  fixes n400 :: int
  assumes "0 \<le> n100" "n100 \<le> 3" "0 \<le> n4" "n4 \<le> 24" "0 \<le> n1" "n1 \<le> 3"
  shows "leap_year (400 * n400 + 100 * n100 + 4 * n4 + n1 + 1) \<longleftrightarrow> n1 = 3 \<and> (n4 = 24 \<longrightarrow> n100 = 3)"
  unfolding leap_year_def using year_divisions(4-6) [OF assms] assms
  by (simp add: mod_Suc_zero) linarith

lemma civil_year_inverse:
  assumes "civil_year days = (year, yday)"
  shows "days_before_year year + yday = days" "0 \<le> yday" "yday < (if leap_year year then 366 else 365)"
proof -
  have "days_before_year year + yday = days \<and> 0 \<le> yday \<and> yday < (if leap_year year then 366 else 365)"
  proof (rule civil_year_parts [of days])
    fix n400 n100 n4 n1 :: int
    let ?y = "400 * n400 + 100 * n100 + 4 * n4 + n1"
    let ?d = "days - 146097 * n400 - 36524 * n100 - 1461 * n4 - 365 * n1"
    assume c: "civil_year days = (?y + 1, ?d)"
      and b: "0 \<le> n100" "n100 \<le> 3" "0 \<le> n4" "n4 \<le> 24" "0 \<le> n1" "n1 \<le> 3"
      and d: "0 \<le> ?d" "?d \<le> (if n1 = 3 \<and> (n4 = 24 \<longrightarrow> n100 = 3) then 365 else 364)"
    from c assms have y: "year = ?y + 1" "yday = ?d" by simp_all
    have "days_before_year year + yday = days"
      using year_divisions(1-3) [OF b, of n400] by (simp add: days_before_year_def y)
    moreover have "yday < (if leap_year year then 366 else 365)"
    proof -
      define long where "long \<longleftrightarrow> n1 = 3 \<and> (n4 = 24 \<longrightarrow> n100 = 3)"
      show ?thesis
        unfolding y year_leap [OF b] using d(2) unfolding long_def [symmetric] by (cases long) simp_all
    qed
    ultimately show ?thesis using d(1) y(2) by simp
  qed
  then show "days_before_year year + yday = days" "0 \<le> yday" "yday < (if leap_year year then 366 else 365)"
    by simp_all
qed

lemma civil_month_inverse:
  assumes "civil_month ls m yday = (month, day)" "0 \<le> yday" "yday < sum_list ls"
  shows "\<exists>k < length ls. month = m + int k \<and> 1 \<le> day \<and> day \<le> ls ! k \<and> sum_list (take k ls) + (day - 1) = yday"
  using assms
proof (induction ls arbitrary: m yday)
  case (Cons l ls)
  show ?case
  proof (cases "yday < l")
    case True
    with Cons.prems show ?thesis by (intro exI [of _ 0]) auto
  next
    case False
    with Cons.prems Cons.IH [of "m + 1" "yday - l"] obtain k where "k < length ls" "month = m + 1 + int k"
      "1 \<le> day" "day \<le> ls ! k" "sum_list (take k ls) + (day - 1) = yday - l" by auto
    then show ?thesis by (intro exI [of _ "Suc k"]) auto
  qed
qed simp


lemma month_lengths_total: "sum_list (month_lengths y) = (if leap_year y then 366 else 365)"
  and length_month_lengths [simp]: "length (month_lengths y) = 12"
  by (simp_all add: month_lengths_def)

lemma month_lengths_bound: "k < 12 \<Longrightarrow> month_lengths y ! k \<le> 31"
  using nth_mem [of k "month_lengths y"] by (auto simp: month_lengths_def simp del: nth_mem)

text \<open>The years that the transport form of an envelope admits.\<close>

definition in_calendar :: "gotime \<Rightarrow> bool" where
  "in_calendar t \<longleftrightarrow> 0 \<le> fst (year_day t) \<and> fst (year_day t) \<le> 9999"

lemma date_inverse:
  assumes "year_day t = (year, yday)" "civil_month (month_lengths year) 1 yday = (month, day)"
  shows "days_of_date year month day = t div 1000000000 div 86400"
    "1 \<le> month" "month \<le> 12" "1 \<le> day" "day \<le> month_lengths year ! nat (month - 1)" "day \<le> 31"
proof -
  note year = civil_year_inverse [OF assms(1) [unfolded year_day_def]]
  obtain k where k: "k < 12" "month = 1 + int k" "1 \<le> day" "day \<le> month_lengths year ! k"
    "sum_list (take k (month_lengths year)) + (day - 1) = yday"
    using civil_month_inverse [OF assms(2) year(2)] year(3) by (auto simp: month_lengths_total)
  then have nat: "nat (month - 1) = k" by simp
  show "days_of_date year month day = t div 1000000000 div 86400"
    using year(1) k(5) by (simp add: days_of_date_def nat)
  show "1 \<le> month" "month \<le> 12" "1 \<le> day" "day \<le> month_lengths year ! nat (month - 1)" "day \<le> 31"
    using k month_lengths_bound [OF k(1), of year] by (simp_all add: nat)
qed

lemma clock_sum:
  "(h * 60 + mi) * 60 + s = c \<Longrightarrow> d * 86400 + c = (t :: int) \<Longrightarrow> ((d * 24 + h) * 60 + mi) * 60 + s = t"
  by simp

lemma clock_inverse:
  fixes t :: int
  defines "clk \<equiv> t div 1000000000 mod 86400"
  shows "((t div 1000000000 div 86400 * 24 + clk div 3600) * 60 + clk div 60 mod 60) * 60 + clk mod 60 =
      t div 1000000000"
    "0 \<le> clk div 3600" "clk div 3600 \<le> 23"
proof -
  have c: "0 \<le> clk" "clk < 86400" by (simp_all add: clk_def)
  have "clk div 60 div 60 = clk div 3600" using zdiv_zmult2_eq [of 60 clk 60] by simp
  then have "(clk div 3600 * 60 + clk div 60 mod 60) * 60 + clk mod 60 = clk"
    by (metis div_mult_mod_eq)
  moreover have "t div 1000000000 div 86400 * 86400 + clk = t div 1000000000" by (simp add: clk_def)
  ultimately show "((t div 1000000000 div 86400 * 24 + clk div 3600) * 60 + clk div 60 mod 60) * 60 + clk mod 60 =
      t div 1000000000"
    by (rule clock_sum)
  show "0 \<le> clk div 3600" "clk div 3600 \<le> 23" using c by simp_all
qed

lemma ranged_padded:
  assumes "0 \<le> lo" "lo \<le> n" "n \<le> hi" "n < 100"
  shows "ranged lo hi (getnum fixed (padded 2 n @ rest)) = Some (n, rest)"
  using getnum_padded [of n fixed rest] assms by (simp add: ranged_def)

lemma parse_printed_fields:
  assumes "0 \<le> year" "year \<le> 9999" "1 \<le> month" "month \<le> 12"
    "1 \<le> day" "day \<le> month_lengths year ! nat (month - 1)" "day \<le> 31"
    "0 \<le> hour" "hour \<le> 23" "0 \<le> minute" "minute < 60" "0 \<le> sec" "sec < 60"
    "parse_fraction rest = (nano, ''Z'')"
  shows "parse_RFC3339Nano (padded 4 year @ ''-'' @ padded 2 month @ ''-'' @ padded 2 day @ ''T'' @
      padded 2 hour @ '':'' @ padded 2 minute @ '':'' @ padded 2 sec @ rest) =
    Some ((((days_of_date year month day * 24 + hour) * 60 + minute) * 60 + sec) * 1000000000 + nano)"
  using assms by (simp add: parse_RFC3339Nano_def parse_year_padded ranged_padded)

lemma parse_format_RFC3339Nano:
  assumes "in_calendar t"
  shows "parse_RFC3339Nano (format_RFC3339Nano t) = Some t"
proof -
  obtain year yday where y: "year_day t = (year, yday)" by fastforce
  obtain month day where m: "civil_month (month_lengths year) 1 yday = (month, day)" by fastforce
  note date = date_inverse [OF y m]
  define clk where "clk = t div 1000000000 mod 86400"
  have year: "0 \<le> year" "year \<le> 9999" using assms y by (simp_all add: in_calendar_def)
  have frac: "parse_fraction (nanoseconds (t mod 1000000000) @ ''Z'') = (t mod 1000000000, ''Z'')"
    by (rule parse_fraction_printed) simp_all
  have "parse_RFC3339Nano (padded 4 year @ ''-'' @ padded 2 month @ ''-'' @ padded 2 day @ ''T'' @
      padded 2 (clk div 3600) @ '':'' @ padded 2 (clk div 60 mod 60) @ '':'' @ padded 2 (clk mod 60) @
      nanoseconds (t mod 1000000000) @ ''Z'') =
    Some ((((days_of_date year month day * 24 + clk div 3600) * 60 + clk div 60 mod 60) * 60 + clk mod 60) *
      1000000000 + t mod 1000000000)"
    using clock_inverse(2,3) [of t, folded clk_def] by (intro parse_printed_fields year date frac) simp_all
  also have "\<dots> = Some t"
    using clock_inverse(1) [of t, folded clk_def] date(1) by simp
  finally show ?thesis
    using year by (simp add: format_RFC3339Nano_def y m Let_def clk_def)
qed

end
