(* ===== verification/Json_Decode.thy ===== *)
theory Json_Decode
  imports Json_Payload Rfc3339
begin

text \<open>
  Decoding a JSON text into a struct with \<open>DisallowUnknownFields\<close>, followed by the check that nothing
  follows the value (\<open>encoding/json\<close>, as the event parsers use it). A struct is a record with a setter
  that dispatches on the name of the field; \<open>None\<close> is any decoding error.
\<close>

section \<open>Fields\<close>

text \<open>
  \<open>foldName\<close>: ASCII letters match without case, and the long s and the Kelvin sign fold to \<open>S\<close> and \<open>K\<close>.
  The bytes of other runes stay above ASCII and match no field.
\<close>

definition upper_char :: "char \<Rightarrow> char" where
  "upper_char c = (if is_lower c then char_of ((of_char c :: nat) - 32) else c)"

fun fold_name :: "string \<Rightarrow> string" where
  "fold_name [] = []"
| "fold_name (c # cs) =
     (if c = CHR 0xC5 \<and> take 1 cs = [CHR 0xBF] then CHR ''S'' # fold_name (drop 1 cs)
      else if c = CHR 0xE2 \<and> take 2 cs = [CHR 0x84, CHR 0xAA] then CHR ''K'' # fold_name (drop 2 cs)
      else upper_char c # fold_name cs)"

text \<open>The field that a key names: the exact one, or the first that matches without case.\<close>

definition field_of :: "string list \<Rightarrow> string \<Rightarrow> string option" where
  "field_of names key =
     (if key \<in> set names then Some key else find (\<lambda>n. fold_name n = fold_name key) names)"

fun decode_members ::
  "string list \<Rightarrow> (string \<Rightarrow> 'v \<Rightarrow> 'p \<Rightarrow> 'p option) \<Rightarrow> (string \<times> 'v) list \<Rightarrow> 'p \<Rightarrow> 'p option" where
  "decode_members names put [] p = Some p"
| "decode_members names put ((k, v) # kvs) p =
     (case field_of names k of
        None \<Rightarrow> None
      | Some n \<Rightarrow> Option.bind (put n v p) (decode_members names put kvs))"

definition decode_struct ::
  "string list \<Rightarrow> (string \<Rightarrow> jvalue \<Rightarrow> 'p \<Rightarrow> 'p option) \<Rightarrow> jvalue \<Rightarrow> 'p \<Rightarrow> 'p option" where
  "decode_struct names put v p =
     (case v of JObject kvs \<Rightarrow> decode_members names put kvs p | JNull \<Rightarrow> Some p | _ \<Rightarrow> None)"

definition decode_strict ::
  "string list \<Rightarrow> (string \<Rightarrow> jvalue \<Rightarrow> 'p \<Rightarrow> 'p option) \<Rightarrow> 'p \<Rightarrow> string \<Rightarrow> 'p option" where
  "decode_strict names put zero data = Option.bind (json_decode data) (\<lambda>v. decode_struct names put v zero)"

section \<open>Values\<close>

definition into_string :: "jvalue \<Rightarrow> string \<Rightarrow> string option" where
  "into_string v old = (case v of JString s \<Rightarrow> Some s | JNull \<Rightarrow> Some old | _ \<Rightarrow> None)"

definition text_digits :: "string \<Rightarrow> int option" where
  "text_digits s = (if s \<noteq> [] \<and> list_all is_digit s then Some (decimal 0 s) else None)"

text \<open>\<open>strconv.ParseInt\<close> of a JSON number\<close>

definition text_int :: "string \<Rightarrow> int option" where
  "text_int s = (if take 1 s = ''-'' then map_option uminus (text_digits (drop 1 s)) else text_digits s)"

definition into_int64 :: "jvalue \<Rightarrow> int64 \<Rightarrow> int64 option" where
  "into_int64 v old =
     (case v of
        JNumber t \<Rightarrow>
          (case text_int t of
             None \<Rightarrow> None
           | Some i \<Rightarrow> if in_int64 i then Some (int64_of i) else None)
      | JNull \<Rightarrow> Some old
      | _ \<Rightarrow> None)"

section \<open>Reading what was printed\<close>

lemma text_digits_nat: "text_digits (nat_text n) = Some (int n)"
  using nat_text_digits [of n] by (simp add: text_digits_def decimal_nat_text)

lemma text_int_text: "text_int (int_text i) = Some i"
proof (cases "i < 0")
  case True
  then show ?thesis by (simp add: text_int_def int_text_def text_digits_nat)
next
  case False
  moreover have "take 1 (nat_text (nat i)) \<noteq> ''-''"
    using hd_nat_text [of "nat i"] by (cases "nat_text (nat i)") auto
  ultimately show ?thesis by (simp add: text_int_def int_text_def text_digits_nat)
qed

lemma into_int64_printed [simp]: "into_int64 (JInt (sint w)) old = Some w"
  by (simp add: into_int64_def text_int_text)

lemma into_string_printed [simp]: "into_string (JString s) old = Some s"
  by (simp add: into_string_def)

lemma field_of_exact [simp]: "k \<in> set names \<Longrightarrow> field_of names k = Some k"
  by (simp add: field_of_def)

lemma decode_strict_print:
  assumes "plain v" "fits d v" "int d \<le> maxNestingDepth"
  shows "decode_strict names put zero (json_print v) = decode_struct names put v zero"
  using json_decode_print [OF assms] by (simp add: decode_strict_def)

section \<open>The length of printed values\<close>

lemma length_ascii_escape: "length (ascii_escape c) \<le> 6"
  by (simp add: ascii_escape_def u_escape_def hex_byte_def)

lemma length_string_body: "ascii s \<Longrightarrow> length (string_body s) \<le> 6 * length s"
proof (induction s)
  case (Cons c s)
  then show ?case using length_ascii_escape [of c] by simp
qed simp

lemma length_appendString: "ascii s \<Longrightarrow> length (appendString s) \<le> 6 * length s + 2"
  using length_string_body by (simp add: appendString_def)

lemma length_int_text: "in_int64 i \<Longrightarrow> length (int_text i) \<le> 20"
proof -
  assume "in_int64 i"
  then have b: "nat (- i) < 10 ^ Suc 18" "nat i < 10 ^ Suc 18"
    unfolding in_int64_def by auto
  from length_nat_text [OF b(1)] length_nat_text [OF b(2)] show ?thesis by (simp add: int_text_def)
qed

text \<open>The bytes of printed instants.\<close>

definition bare :: "string \<Rightarrow> bool" where
  "bare s \<longleftrightarrow> list_all (\<lambda>c. is_digit c \<or> c \<in> set ''-T:.Z'') s"

lemma bare_simps [simp]:
  "bare []" "bare (c # s) \<longleftrightarrow> (is_digit c \<or> c \<in> set ''-T:.Z'') \<and> bare s" "bare (s @ t) \<longleftrightarrow> bare s \<and> bare t"
  by (auto simp: bare_def)

lemma bare_visible: "bare s \<Longrightarrow> list_all visible s"
  by (induction s) (auto simp: is_digit_def visible_def char_le_code)

lemma bare_digits: "list_all is_digit s \<Longrightarrow> bare s"
  by (auto simp: bare_def list_all_iff)

lemma nanoseconds_shape:
  assumes "0 \<le> n" "n < 1000000000"
  shows "length (nanoseconds n) \<le> 10" "bare (nanoseconds n)"
proof -
  let ?p = "padded 9 n"
  have nine: "Suc 8 = 9" "(10 :: int) ^ Suc 8 = 1000000000" by simp_all
  have p: "length ?p = 9" "list_all is_digit ?p"
    using padded_props(1,2) [of n 8, unfolded nine] assms by simp_all
  show "length (nanoseconds n) \<le> 10"
    using p(1) length_dropWhile_le [of "\<lambda>c. c = CHR ''0''" "rev ?p"] by (simp add: nanoseconds_def)
  have "bare (rev (dropWhile (\<lambda>c. c = CHR ''0'') (rev ?p)))"
    using p(2) by (intro bare_digits) (auto simp: list_all_iff dest!: set_dropWhileD)
  then show "bare (nanoseconds n)" by (simp add: nanoseconds_def)
qed

lemma padded_bare: "0 \<le> n \<Longrightarrow> n < 10 ^ Suc w \<Longrightarrow> bare (padded (Suc w) n)"
  using padded_props(2) [of n w] by (simp add: bare_digits)

lemma padded_2_shape: "0 \<le> n \<Longrightarrow> n < 100 \<Longrightarrow> length (padded 2 n) = 2 \<and> bare (padded 2 n)"
  using padded_props(1) [of n 1] padded_bare [of n 1] by (simp add: numeral_2_eq_2)

lemma format_shape:
  assumes "in_calendar t"
  shows "length (format_RFC3339Nano t) \<le> 30" "bare (format_RFC3339Nano t)"
proof -
  obtain year yday where y: "year_day t = (year, yday)" by fastforce
  obtain month day where m: "civil_month (month_lengths year) 1 yday = (month, day)" by fastforce
  note date = date_inverse [OF y m]
  define clk where "clk = t div 1000000000 mod 86400"
  have year: "0 \<le> year" "year \<le> 9999" using assms y by (simp_all add: in_calendar_def)
  have four: "length (padded 4 year) = 4 \<and> bare (padded 4 year)"
    using padded_props(1) [of year 3] padded_bare [of year 3] year by (simp add: eval_nat_numeral)
  have hour: "0 \<le> clk div 3600" "clk div 3600 < 100" using clock_inverse(2,3) [of t, folded clk_def] by simp_all
  have month: "0 \<le> month" "month < 100" "0 \<le> day" "day < 100" using date by simp_all
  have minute: "0 \<le> clk div 60 mod 60" "clk div 60 mod 60 < 100" "0 \<le> clk mod 60" "clk mod 60 < 100"
    using pos_mod_bound [of 60 "clk div 60"] pos_mod_bound [of 60 clk] by simp_all
  note two = padded_2_shape [OF hour] padded_2_shape [OF month(1,2)] padded_2_shape [OF month(3,4)]
    padded_2_shape [OF minute(1,2)] padded_2_shape [OF minute(3,4)]
  note nano = nanoseconds_shape [of "t mod 1000000000"]
  show "length (format_RFC3339Nano t) \<le> 30" "bare (format_RFC3339Nano t)"
    using four two nano year by (simp_all add: format_RFC3339Nano_def y m Let_def flip: clk_def)
qed

end
