(* ===== verification/Envelope_Parse.thy ===== *)
theory Envelope_Parse
  imports Json_Decode
begin

text \<open>
  \<open>ParseEnvelope\<close> (\<open>internal/event/envelope.go\<close>): strict decoding of the transport form, with the raw
  bytes of \<open>json.RawMessage\<close> and \<open>time.Time\<close> members, followed by the validation of drafts.

  The property is the round trip with \<open>MarshalJSON\<close> for every payload that the program prints.
\<close>

section \<open>Raw members\<close>

definition raw_value :: "nat \<Rightarrow> string \<Rightarrow> ((jvalue \<times> string) \<times> string) option" where
  "raw_value n s =
     (case parse_value n (spaces s) of
        None \<Rightarrow> None
      | Some (v, rest) \<Rightarrow> Some ((v, take (length (spaces s) - length rest) (spaces s)), rest))"

text \<open>The members of the outermost object with the bytes of their values.\<close>

fun raw_members :: "nat \<Rightarrow> string \<Rightarrow> (string \<times> jvalue \<times> string) list option" where
  "raw_members 0 s = None"
| "raw_members (Suc n) s =
     (case spaces s of
        [] \<Rightarrow> None
      | q # qs \<Rightarrow>
          (case (if q = CHR 0x22 then parse_string qs else None) of
             None \<Rightarrow> None
           | Some (k, rest) \<Rightarrow>
               (case spaces rest of
                  [] \<Rightarrow> None
                | d # ds \<Rightarrow>
                    (case (if d = CHR '':'' then raw_value n ds else None) of
                       None \<Rightarrow> None
                     | Some (v, rest') \<Rightarrow>
                         (case spaces rest' of
                            [] \<Rightarrow> None
                          | c # cs \<Rightarrow>
                              if c = CHR '','' then map_option ((#) (k, v)) (raw_members n cs)
                              else if c = CHR ''}'' then Some [(k, v)]
                              else None)))))"

definition raw_object :: "string \<Rightarrow> (string \<times> jvalue \<times> string) list option" where
  "raw_object data =
     (if \<not> json_Valid data then None
      else case spaces data of
        [] \<Rightarrow> None
      | c # cs \<Rightarrow>
          if c = CHR ''{'' then
            (if take 1 (spaces cs) = ''}'' then Some [] else raw_members (length data) cs)
          else if c = CHR ''n'' then Some []
          else None)"

section \<open>Parsing envelopes\<close>

record envelopeJSON =
  ej_EventID :: string
  ej_EventType :: string
  ej_EventVersion :: int16
  ej_AggregateType :: string
  ej_AggregateID :: string
  ej_AggregateVersion :: int64
  ej_CorrelationID :: string
  ej_CausationID :: string
  ej_OccurredAt :: gotime
  ej_Payload :: string

definition zero_envelopeJSON :: envelopeJSON where
  "zero_envelopeJSON =
     \<lparr>ej_EventID = [], ej_EventType = [], ej_EventVersion = 0, ej_AggregateType = [], ej_AggregateID = [],
      ej_AggregateVersion = 0, ej_CorrelationID = [], ej_CausationID = [], ej_OccurredAt = 0, ej_Payload = []\<rparr>"

definition envelope_fields :: "string list" where
  "envelope_fields =
     [''event_id'', ''event_type'', ''event_version'', ''aggregate_type'', ''aggregate_id'',
      ''aggregate_version'', ''correlation_id'', ''causation_id'', ''occurred_at'', ''payload'']"

definition into_int16 :: "jvalue \<Rightarrow> int16 \<Rightarrow> int16 option" where
  "into_int16 v old =
     (case v of
        JNumber t \<Rightarrow>
          (case text_int t of
             None \<Rightarrow> None
           | Some i \<Rightarrow> if - 32768 \<le> i \<and> i \<le> 32767 then Some (word_of_int i) else None)
      | JNull \<Rightarrow> Some old
      | _ \<Rightarrow> None)"

text \<open>\<open>time.Time.UnmarshalJSON\<close> reads the bytes between the quotes as they are.\<close>

definition into_time :: "string \<Rightarrow> gotime \<Rightarrow> gotime option" where
  "into_time raw old =
     (if raw = ''null'' then Some old
      else if 2 \<le> length raw \<and> hd raw = CHR 0x22 \<and> last raw = CHR 0x22
      then parse_RFC3339Nano (butlast (tl raw)) else None)"

definition put_envelope :: "string \<Rightarrow> jvalue \<times> string \<Rightarrow> envelopeJSON \<Rightarrow> envelopeJSON option" where
  "put_envelope n vr p =
     (let v = fst vr; raw = snd vr in
      if n = ''event_id'' then map_option (\<lambda>x. p\<lparr>ej_EventID := x\<rparr>) (into_string v (ej_EventID p))
      else if n = ''event_type'' then
        map_option (\<lambda>x. p\<lparr>ej_EventType := x\<rparr>) (into_string v (ej_EventType p))
      else if n = ''event_version'' then
        map_option (\<lambda>x. p\<lparr>ej_EventVersion := x\<rparr>) (into_int16 v (ej_EventVersion p))
      else if n = ''aggregate_type'' then
        map_option (\<lambda>x. p\<lparr>ej_AggregateType := x\<rparr>) (into_string v (ej_AggregateType p))
      else if n = ''aggregate_id'' then
        map_option (\<lambda>x. p\<lparr>ej_AggregateID := x\<rparr>) (into_string v (ej_AggregateID p))
      else if n = ''aggregate_version'' then
        map_option (\<lambda>x. p\<lparr>ej_AggregateVersion := x\<rparr>) (into_int64 v (ej_AggregateVersion p))
      else if n = ''correlation_id'' then
        map_option (\<lambda>x. p\<lparr>ej_CorrelationID := x\<rparr>) (into_string v (ej_CorrelationID p))
      else if n = ''causation_id'' then
        map_option (\<lambda>x. p\<lparr>ej_CausationID := x\<rparr>) (into_string v (ej_CausationID p))
      else if n = ''occurred_at'' then
        map_option (\<lambda>x. p\<lparr>ej_OccurredAt := x\<rparr>) (into_time raw (ej_OccurredAt p))
      else Some (p\<lparr>ej_Payload := raw\<rparr>))"

definition ParseEnvelope :: "string \<Rightarrow> envelope result" where
  "ParseEnvelope encoded =
     (case Option.bind (raw_object encoded) (\<lambda>kvs. decode_members envelope_fields put_envelope kvs zero_envelopeJSON) of
        None \<Rightarrow> fail Event ErrInvalidEnvelope
      | Some stored \<Rightarrow>
          andThen (NewDraft
            \<lparr>dp_EventType = ej_EventType stored, dp_EventVersion = ej_EventVersion stored,
             dp_AggregateType = ej_AggregateType stored, dp_AggregateID = ej_AggregateID stored,
             dp_AggregateVersion = ej_AggregateVersion stored, dp_CorrelationID = ej_CorrelationID stored,
             dp_CausationID = ej_CausationID stored, dp_OccurredAt = ej_OccurredAt stored,
             dp_Payload = ej_Payload stored\<rparr>)
            (NewEnvelope (ej_EventID stored)))"

section \<open>Printed envelopes\<close>

lemma raw_value_print:
  assumes "plain v" "stops rest" "length (json_print v) < n"
  shows "raw_value n (json_print v @ rest) = Some ((v, json_print v), rest)"
proof -
  obtain c cs where "json_print v = c # cs" "\<not> isSpace c" using print_start [OF assms(1)] by metis
  then have "spaces (json_print v @ rest) = json_print v @ rest" by simp
  with parse_print [OF assms] show ?thesis by (simp add: raw_value_def)
qed

lemma raw_members_print:
  assumes "kvs \<noteq> []" "\<forall>(k, v) \<in> set kvs. ascii k \<and> plain v" "length (members_text kvs) < n"
  shows "raw_members n (members_text kvs @ CHR ''}'' # rest) = Some (map (\<lambda>(k, v). (k, v, json_print v)) kvs)"
  using assms
proof (induction kvs arbitrary: n)
  case (Cons kv kvs)
  obtain k v where kv: "kv = (k, v)" by fastforce
  obtain m where n: "n = Suc m" using Cons.prems(3) by (cases n) auto
  let ?m = "member k (json_print v)"
  have v: "ascii k" "plain v" using Cons.prems(2) kv by auto
  have l: "length (json_print v) < m"
    using Cons.prems(3) kv n by (auto simp: comma_separated_Cons member_def appendString_def split: if_splits)
  show ?case
  proof (cases "kvs = []")
    case True
    with v l kv n show ?thesis by (simp add: member_text parse_string_body raw_value_print)
  next
    case False
    have "length (members_text kvs) < m"
      using Cons.prems(3) kv n False by (simp add: comma_separated_Cons [of ?m])
    with Cons.IH [OF False, of m] Cons.prems(2)
    have "raw_members m (members_text kvs @ CHR ''}'' # rest) = Some (map (\<lambda>(k, v). (k, v, json_print v)) kvs)"
      by simp
    with v l kv n False show ?thesis
      by (simp add: comma_separated_Cons [of ?m] member_text parse_string_body raw_value_print)
  qed
qed simp

lemma raw_object_print:
  assumes "plain (JObject kvs)" "fits d (JObject kvs)" "int d \<le> maxNestingDepth" "kvs \<noteq> []"
  shows "raw_object (json_print (JObject kvs)) = Some (map (\<lambda>(k, v). (k, v, json_print v)) kvs)"
proof -
  obtain cs where "members_text kvs @ ''}'' = CHR 0x22 # cs" using members_start [OF assms(4)] by blast
  then have "take 1 (spaces (members_text kvs @ ''}'')) \<noteq> ''}''" by simp
  moreover have "raw_members (length (json_print (JObject kvs))) (members_text kvs @ CHR ''}'' # []) =
      Some (map (\<lambda>(k, v). (k, v, json_print v)) kvs)"
    using assms(1,4) by (intro raw_members_print) auto
  ultimately show ?thesis
    using printed_compact(2) [OF assms(1-3)] by (simp add: raw_object_def)
qed


text \<open>Texts that HTML escaping leaves alone.\<close>

definition clean :: "string \<Rightarrow> bool" where
  "clean t \<longleftrightarrow> list_all (\<lambda>c. \<not> html_byte c \<and> (of_char c :: nat) < 128) t"

lemma clean_simps [simp]:
  "clean []" "clean (c # t) \<longleftrightarrow> \<not> html_byte c \<and> (of_char c :: nat) < 128 \<and> clean t" "clean (s @ t) \<longleftrightarrow> clean s \<and> clean t"
  by (auto simp: clean_def)

lemma html_escape_clean: "clean t \<Longrightarrow> html_escape t = t"
  by (induction t) (auto simp: line_separator_def)

lemma hex_digit_clean: "k < 16 \<Longrightarrow> \<not> html_byte (hex_digit k) \<and> (of_char (hex_digit k) :: nat) < 128"
proof -
  have "list_all (\<lambda>k. \<not> html_byte (hex_digit k) \<and> (of_char (hex_digit k) :: nat) < 128) [0..<16]" by code_simp
  then show "k < 16 \<Longrightarrow> \<not> html_byte (hex_digit k) \<and> (of_char (hex_digit k) :: nat) < 128" by (simp add: list_all_iff)
qed

lemma ascii_escape_clean: "(of_char c :: nat) < 128 \<Longrightarrow> clean (ascii_escape c)"
proof (cases "c \<in> set short_escapes")
  case True
  then show ?thesis unfolding short_escapes_def by (auto simp: ascii_escape_def html_byte_def)
next
  case False
  assume "(of_char c :: nat) < 128"
  with False hex_digit_clean [of "of_char c div 16"] hex_digit_clean [of "of_char c mod 16"] show ?thesis
    by (auto simp: ascii_escape_other u_escape_def hex_byte_def html_byte_def)
qed

lemma appendString_clean: "ascii s \<Longrightarrow> clean (appendString s)"
  unfolding appendString_def by (induction s) (auto simp: ascii_escape_clean html_byte_def)

lemma int_text_clean: "clean (int_text i)"
proof -
  have d: "\<not> html_byte c \<and> (of_char c :: nat) < 128" if "is_digit c" for c
    using that by (auto simp: html_byte_def is_digit_def char_le_code)
  obtain c cs where "int_text i = c # cs" "c = CHR ''-'' \<or> is_digit c" "list_all is_digit cs"
    using int_text_shape by blast
  with d show ?thesis by (auto simp: clean_def list_all_iff html_byte_def)
qed

lemma comma_separated_clean: "(\<And>x. x \<in> set xs \<Longrightarrow> clean x) \<Longrightarrow> clean (comma_separated xs)"
proof (induction xs)
  case (Cons x xs)
  then show ?case by (cases xs) (auto simp: comma_separated_Cons html_byte_def)
qed simp

lemma json_print_clean: "plain v \<Longrightarrow> clean (json_print v)"
proof (induction v rule: json_print.induct)
  case (5 vs)
  then have "clean (elements_text vs)" by (intro comma_separated_clean) auto
  then show ?case by (simp add: html_byte_def)
next
  case (6 kvs)
  have "clean (members_text kvs)"
  proof (rule comma_separated_clean)
    fix x
    assume "x \<in> set (map (\<lambda>(k, v). member k (json_print v)) kvs)"
    then obtain k v where kv: "(k, v) \<in> set kvs" "x = member k (json_print v)" by auto
    with 6 have "ascii k" "clean (json_print v)" by auto
    with kv(2) show "clean x" by (simp add: member_def appendString_clean html_byte_def)
  qed
  then show ?case by (simp add: html_byte_def)
qed (auto simp: appendString_clean int_text_clean html_byte_def)

lemma marshaler_print:
  assumes "plain v" "fits d v" "int d \<le> maxNestingDepth"
  shows "marshaler (json_print v) = Inr (json_print v)"
  using printed_compact(1) [OF assms] html_escape_clean [OF json_print_clean [OF assms(1)]]
  by (simp add: marshaler_def)

section \<open>The transport form\<close>

text \<open>The printed instants need no escape.\<close>

lemma bare_char:
  assumes "is_digit c \<or> c \<in> set ''-T:.Z''"
  shows "ascii_escape c = [c]" "(of_char c :: nat) < 128"
proof -
  have "list_all (\<lambda>d. ascii_escape d = [d] \<and> (of_char d :: nat) < 128) ''0123456789-T:.Z''" by code_simp
  moreover have "c \<in> set ''0123456789-T:.Z''"
  proof (cases "is_digit c")
    case True
    then have "char_of (of_char c :: nat) \<in> char_of ` {48..57 :: nat}"
      by (intro imageI) (simp add: is_digit_def char_le_code)
    also have "char_of ` {48..57 :: nat} = set ''0123456789''" by code_simp
    finally show ?thesis by auto
  qed (use assms in auto)
  ultimately show "ascii_escape c = [c]" "(of_char c :: nat) < 128" by (simp_all only: list_all_iff)
qed

lemma string_body_bare: "bare s \<Longrightarrow> string_body s = s"
  by (induction s) (auto simp: bare_char)


lemma time_printed:
  assumes "in_calendar t"
  shows "andThen (time_MarshalJSON t) marshaler = Inr (json_print (JString (format_RFC3339Nano t)))"
    "into_time (json_print (JString (format_RFC3339Nano t))) old = Some t"
    "plain (JString (format_RFC3339Nano t))"
proof -
  have b: "bare (format_RFC3339Nano t)" by (rule format_shape(2) [OF assms])
  then show p: "plain (JString (format_RFC3339Nano t))" by (simp add: ascii_visible bare_visible)
  have q: "json_print (JString (format_RFC3339Nano t)) = CHR 0x22 # format_RFC3339Nano t @ [CHR 0x22]"
    by (simp add: appendString_def string_body_bare [OF b])
  have "time_MarshalJSON t = Inr (json_print (JString (format_RFC3339Nano t)))"
    using assms by (simp add: time_MarshalJSON_def in_calendar_def q del: json_print.simps)
  with marshaler_print [OF p, of 0] show "andThen (time_MarshalJSON t) marshaler = Inr (json_print (JString (format_RFC3339Nano t)))"
    by (simp add: maxNestingDepth_def del: json_print.simps)
  show "into_time (json_print (JString (format_RFC3339Nano t))) old = Some t"
    using parse_format_RFC3339Nano [OF assms] unfolding q by (simp add: into_time_def)
qed

abbreviation envelope_members :: "envelope \<Rightarrow> jvalue \<Rightarrow> (string \<times> jvalue) list" where
  "envelope_members e v \<equiv>
     [(''event_id'', JString (en_eventID e)),
      (''event_type'', JString (dr_eventType (en_draft e))),
      (''event_version'', JInt (sint (dr_eventVersion (en_draft e)))),
      (''aggregate_type'', JString (dr_aggregateType (en_draft e))),
      (''aggregate_id'', JString (dr_aggregateID (en_draft e))),
      (''aggregate_version'', JInt (sint (dr_aggregateVersion (en_draft e)))),
      (''correlation_id'', JString (dr_correlationID (en_draft e)))] @
     (if dr_causationID (en_draft e) = [] then []
      else [(''causation_id'', JString (dr_causationID (en_draft e)))]) @
     [(''occurred_at'', JString (format_RFC3339Nano (dr_occurredAt (en_draft e)))), (''payload'', v)]"

lemma name_bytes_ascii:
  "name_bytes later n s \<Longrightarrow> (\<And>c. later c \<Longrightarrow> (of_char c :: nat) < 128) \<Longrightarrow> ascii s"
  by (induction s arbitrary: n) (auto simp: is_lower_def is_digit_def char_le_code)

lemma split_at_ascii:
  "\<forall>w \<in> set (split_at d s). ascii w \<Longrightarrow> (of_char d :: nat) < 128 \<Longrightarrow> ascii s"
proof (induction s)
  case (Cons c s)
  then show ?case by (cases "split_at d s") (auto split: if_splits)
qed simp

lemma draft_names_ascii:
  assumes "draft_validate d = None"
  shows "ascii (dr_eventType d)" "ascii (dr_aggregateType d)" "ascii (dr_aggregateID d)"
    "ascii (dr_correlationID d)" "ascii (dr_causationID d)"
proof -
  have v: "validEventType (dr_eventType d)" "validAggregateType (dr_aggregateType d)"
    using assms by (simp_all add: draft_validate_None)
  show "ascii (dr_eventType d)"
    using v(1) by (intro split_at_ascii [of "CHR ''.''"])
      (auto simp: validEventType_def validEventPart_def list_all_iff dest!: name_bytes_ascii)
  show "ascii (dr_aggregateType d)"
    using v(2) by (auto simp: validAggregateType_def validLowerName_def elim!: name_bytes_ascii)
  show "ascii (dr_aggregateID d)" "ascii (dr_correlationID d)" "ascii (dr_causationID d)"
    using assms by (auto simp: draft_validate_None canonical_visible ascii_visible)
qed

text \<open>The envelopes whose payload is a printed object nested at most \<open>depth\<close> deep.\<close>

definition printed_envelope :: "nat \<Rightarrow> envelope \<Rightarrow> (string \<times> jvalue) list \<Rightarrow> bool" where
  "printed_envelope depth e kvs \<longleftrightarrow>
     isCanonicalUUID (en_eventID e) \<and> draft_validate (en_draft e) = None \<and>
     in_calendar (dr_occurredAt (en_draft e)) \<and> dr_payload (en_draft e) = json_print (JObject kvs) \<and>
     plain (JObject kvs) \<and> fits depth (JObject kvs) \<and> int (Suc depth) \<le> maxNestingDepth"

lemma envelope_object:
  assumes "printed_envelope d e kvs"
  shows "plain (JObject (envelope_members e (JObject kvs)))" "fits (Suc d) (JObject (envelope_members e (JObject kvs)))"
proof -
  note names = draft_names_ascii [of "en_draft e"]
  have p: "plain (JObject kvs)" "fits d (JObject kvs)" using assms by (simp_all add: printed_envelope_def)
  have "ascii (en_eventID e)" using assms by (simp add: printed_envelope_def canonical_visible ascii_visible)
  with assms names time_printed(3) p(1) show "plain (JObject (envelope_members e (JObject kvs)))"
    by (auto simp: printed_envelope_def)
  show "fits (Suc d) (JObject (envelope_members e (JObject kvs)))" using p(2) by auto
qed

lemma envelope_printed:
  assumes "printed_envelope d e kvs"
  shows "json_Marshal_envelope e = Inr (json_print (JObject (envelope_members e (JObject kvs))))"
proof -
  let ?v = "JObject (envelope_members e (JObject kvs))"
  have p: "marshaler (json_print (JObject kvs)) = Inr (json_print (JObject kvs))"
    using assms marshaler_print [of "JObject kvs" d] by (simp add: printed_envelope_def del: json_print.simps)
  have t: "andThen (time_MarshalJSON (dr_occurredAt (en_draft e))) marshaler =
      Inr (json_print (JString (format_RFC3339Nano (dr_occurredAt (en_draft e)))))"
    using assms by (intro time_printed) (simp add: printed_envelope_def)
  have pay: "dr_payload (en_draft e) = json_print (JObject kvs)"
    using assms by (simp add: printed_envelope_def)
  have "marshal_envelopeJSON e = Inr (json_print ?v)"
    unfolding marshal_envelopeJSON_def Let_def t pay p andThen_simps by simp
  moreover have "MarshalJSON e = marshal_envelopeJSON e"
    using assms by (simp add: MarshalJSON_def printed_envelope_def)
  moreover have "marshaler (json_print ?v) = Inr (json_print ?v)"
  proof (rule marshaler_print [OF envelope_object [OF assms]])
    show "int (Suc d) \<le> maxNestingDepth" using assms unfolding printed_envelope_def by blast
  qed
  ultimately show ?thesis by (simp add: json_Marshal_envelope_def del: json_print.simps)
qed

lemma decode_envelope:
  assumes "printed_envelope d e kvs"
  shows "decode_members envelope_fields put_envelope
      (map (\<lambda>(k, v). (k, v, json_print v)) (envelope_members e (JObject kvs))) zero_envelopeJSON =
    Some \<lparr>ej_EventID = en_eventID e, ej_EventType = dr_eventType (en_draft e),
      ej_EventVersion = dr_eventVersion (en_draft e), ej_AggregateType = dr_aggregateType (en_draft e),
      ej_AggregateID = dr_aggregateID (en_draft e), ej_AggregateVersion = dr_aggregateVersion (en_draft e),
      ej_CorrelationID = dr_correlationID (en_draft e), ej_CausationID = dr_causationID (en_draft e),
      ej_OccurredAt = dr_occurredAt (en_draft e), ej_Payload = dr_payload (en_draft e)\<rparr>"
proof -
  have c: "in_calendar (dr_occurredAt (en_draft e))" and p: "dr_payload (en_draft e) = json_print (JObject kvs)"
    using assms by (simp_all add: printed_envelope_def)
  have v: "into_int16 (JInt (sint w)) old = Some w" for w old :: int16
    using sint_greater_eq [of w] sint_less [of w] by (simp add: into_int16_def text_int_text)
  show ?thesis
    using time_printed(2) [OF c] unfolding p
    by (cases "dr_causationID (en_draft e) = []")
      (simp_all add: envelope_fields_def put_envelope_def Let_def zero_envelopeJSON_def v
        del: json_print.simps)
qed

lemma envelope_transport:
  assumes "isCanonicalUUID eventID" "NewDraft params = Inr d" "in_calendar (dp_OccurredAt params)"
    and "dp_Payload params = json_print (JObject kvs)" "plain (JObject kvs)" "fits 100 (JObject kvs)"
  shows "andThen (andThen (NewEnvelope eventID d) json_Marshal_envelope) ParseEnvelope = NewEnvelope eventID d"
proof -
  let ?e = "\<lparr>en_eventID = eventID, en_draft = d\<rparr>"
  have v: "draft_validate d = None" and n: "normalizePayload (dp_Payload params) = Inr (dr_payload d)"
    and o: "dr_occurredAt d = dp_OccurredAt params"
    using assms(2) unfolding NewDraft_Inr by (auto dest: arg_cong [of _ _ dr_occurredAt])
  have "json_Compact (json_print (JObject kvs)) = Some (json_print (JObject kvs))"
    using assms(5,6) by (intro printed_compact) (simp_all only: maxNestingDepth_def, simp)
  moreover have "TrimSpace (json_print (JObject kvs)) = json_print (JObject kvs)"
    by (rule TrimSpace_ends) (simp_all add: visible_def)
  ultimately have "dr_payload d = json_print (JObject kvs)"
    using n assms(4) by (auto simp: normalizePayload_def Let_def split: if_splits option.splits)
  with v o assms have pe: "printed_envelope 100 ?e kvs"
    by (simp add: printed_envelope_def maxNestingDepth_def)
  have e: "NewEnvelope eventID d = Inr ?e" using v assms(1) by (simp add: NewEnvelope_Inr normalizeUUID_canonical)
  have "raw_object (json_print (JObject (envelope_members ?e (JObject kvs)))) =
      Some (map (\<lambda>(k, v). (k, v, json_print v)) (envelope_members ?e (JObject kvs)))"
    by (rule raw_object_print [OF envelope_object [OF pe]]) (simp_all add: maxNestingDepth_def)
  with decode_envelope [OF pe] NewDraft_params_of [OF assms(2)] e
  have "ParseEnvelope (json_print (JObject (envelope_members ?e (JObject kvs)))) = Inr ?e"
    by (simp add: ParseEnvelope_def params_of_def del: json_print.simps)
  with envelope_printed [OF pe] e show ?thesis by (simp del: json_print.simps)
qed


text \<open>
  C37: An envelope survives its transport form, for plain payloads. The payload is what \<open>json.Marshal\<close> prints of an object,
  nested at most 100 deep, whose keys and strings are ASCII and whose other leaves are integers, truth values and null; the
  occurrence time is in the years 0 to 9999, and \<open>NewDraft\<close> accepts the event. Then the published bytes parse back to the same envelope,
  identifiers, versions, time and payload bytes included.
\<close>

theorem envelope_roundtrip:
  assumes "isCanonicalUUID eventID" "NewDraft params = Inr d" "in_calendar (dp_OccurredAt params)"
    and "dp_Payload params = json_print (JObject kvs)" "plain (JObject kvs)" "fits 100 (JObject kvs)"
  shows "andThen (andThen (NewEnvelope eventID d) json_Marshal_envelope) ParseEnvelope = NewEnvelope eventID d"
  by (rule envelope_transport [OF assms])

text \<open>A payload with nesting, a negative number and characters that are escaped.\<close>

definition nested_payload :: "(string \<times> jvalue) list" where
  "nested_payload = [(''to'', JString ''a<b&c''), (''sums'', JArray [JInt (- 12), JNull, JObject [(''ok'', JBool True)]])]"

definition nested_text :: string where
  "nested_text = json_print (JObject nested_payload)"

theorem envelope_roundtrip_witness:
  "NewDraft (sample_params\<lparr>dp_Payload := nested_text\<rparr>) = Inr (sample_draft\<lparr>dr_payload := nested_text\<rparr>) \<and>
   andThen (andThen (NewEnvelope ''6f9619ff-8b86-4011-b42d-00cf4fc964f9'' (sample_draft\<lparr>dr_payload := nested_text\<rparr>))
       json_Marshal_envelope) ParseEnvelope =
     Inr \<lparr>en_eventID = ''6f9619ff-8b86-4011-b42d-00cf4fc964f9'', en_draft = sample_draft\<lparr>dr_payload := nested_text\<rparr>\<rparr>"
proof -
  have s: "isCanonicalUUID ''6f9619ff-8b86-4011-b42d-00cf4fc964f9''"
    "NewDraft (sample_params\<lparr>dp_Payload := nested_text\<rparr>) = Inr (sample_draft\<lparr>dr_payload := nested_text\<rparr>)"
    "in_calendar (dp_OccurredAt (sample_params\<lparr>dp_Payload := nested_text\<rparr>))"
    "NewEnvelope ''6f9619ff-8b86-4011-b42d-00cf4fc964f9'' (sample_draft\<lparr>dr_payload := nested_text\<rparr>) =
       Inr \<lparr>en_eventID = ''6f9619ff-8b86-4011-b42d-00cf4fc964f9'', en_draft = sample_draft\<lparr>dr_payload := nested_text\<rparr>\<rparr>"
    by code_simp+
  have p: "dp_Payload (sample_params\<lparr>dp_Payload := nested_text\<rparr>) = json_print (JObject nested_payload)"
    by (simp add: nested_text_def)
  have "plain (JObject nested_payload)" by (auto simp: nested_payload_def)
  moreover have "fits 100 (JObject nested_payload)" by code_simp
  ultimately show ?thesis using envelope_roundtrip [OF s(1-3) p] s(2,4) by simp
qed

end
