(* ===== verification/Ledger_Domain.thy ===== *)
theory Ledger_Domain
  imports Results
begin

text \<open>
  The ledger's domain package (\<open>internal/ledger/domain\<close>): currencies, overflow-checked money,
  postings and balanced journal entries with their reversals.

  The lemmas show that the arithmetic is exact or refused, that the constructors establish the
  invariants of their types, that a constructed entry balances to zero in every currency, and that
  a reversal always exists, inverts every movement, and reverses back to the original postings.
\<close>

section \<open>Currency\<close>

datatype currency = Currency char char char

definition zero_currency :: currency where
  "zero_currency = Currency (CHR 0x00) (CHR 0x00) (CHR 0x00)"

fun currency_valid :: "currency \<Rightarrow> bool" where
  "currency_valid (Currency a b c) \<longleftrightarrow> list_all is_upper [a, b, c]"

fun ParseCurrency :: "string \<Rightarrow> currency result" where
  "ParseCurrency [a, b, c] =
     (if list_all is_upper [a, b, c] then Inr (Currency a b c)
      else fail LedgerDomain ErrInvalidCurrency)"
| "ParseCurrency _ = fail LedgerDomain ErrInvalidCurrency"

fun currency_String :: "currency \<Rightarrow> string" where
  "currency_String (Currency a b c) =
     (if currency_valid (Currency a b c) then [a, b, c] else [])"

fun_cases ParseCurrency_InrE: "ParseCurrency s = Inr c"

lemma ParseCurrency_Inr_iff: "ParseCurrency s = Inr c \<longleftrightarrow> currency_valid c \<and> currency_String c = s"
  by (cases c; cases s rule: ParseCurrency.cases) auto

lemma ParseCurrency_String [simp]:
  "currency_valid c \<Longrightarrow> ParseCurrency (currency_String c) = Inr c"
  by (simp add: ParseCurrency_Inr_iff)

lemma currency_String_Nil [simp]: "currency_String c = [] \<longleftrightarrow> \<not> currency_valid c"
  by (cases c) simp

lemma currency_String_inject:
  "currency_valid c \<Longrightarrow> currency_String c = currency_String d \<longleftrightarrow> c = d"
  by (cases c; cases d) auto

section \<open>Money\<close>

record money =
  minorUnits :: int64
  currency :: currency

abbreviation units :: "money \<Rightarrow> int" where
  "units m \<equiv> sint (minorUnits m)"

definition NewMoney :: "int64 \<Rightarrow> currency \<Rightarrow> money result" where
  "NewMoney u c =
     (if \<not> currency_valid c then fail LedgerDomain ErrInvalidCurrency
      else Inr \<lparr>minorUnits = u, currency = c\<rparr>)"

definition validateOperation :: "money \<Rightarrow> money \<Rightarrow> error option" where
  "validateOperation m other =
     (if \<not> currency_valid (currency m) \<or> \<not> currency_valid (currency other)
      then Some [E LedgerDomain ErrInvalidCurrency]
      else if currency m \<noteq> currency other then Some [E LedgerDomain ErrCurrencyMismatch]
      else None)"

definition additionOverflows :: "int64 \<Rightarrow> int64 \<Rightarrow> bool" where
  "additionOverflows left right \<longleftrightarrow>
     0 <s right \<and> MaxInt64 - right <s left \<or> right <s 0 \<and> left <s MinInt64 - right"

definition subtractionOverflows :: "int64 \<Rightarrow> int64 \<Rightarrow> bool" where
  "subtractionOverflows left right \<longleftrightarrow>
     0 <s right \<and> left <s MinInt64 + right \<or> right <s 0 \<and> MaxInt64 + right <s left"

definition Money_Add :: "money \<Rightarrow> money \<Rightarrow> money result" where
  "Money_Add m other =
     (case validateOperation m other of
        Some e \<Rightarrow> Inl e
      | None \<Rightarrow>
          if additionOverflows (minorUnits m) (minorUnits other)
          then fail LedgerDomain ErrAmountOverflow
          else NewMoney (minorUnits m + minorUnits other) (currency m))"

definition Money_Subtract :: "money \<Rightarrow> money \<Rightarrow> money result" where
  "Money_Subtract m other =
     (case validateOperation m other of
        Some e \<Rightarrow> Inl e
      | None \<Rightarrow>
          if subtractionOverflows (minorUnits m) (minorUnits other)
          then fail LedgerDomain ErrAmountOverflow
          else NewMoney (minorUnits m - minorUnits other) (currency m))"

definition Money_Negate :: "money \<Rightarrow> money result" where
  "Money_Negate m =
     (if \<not> currency_valid (currency m) then fail LedgerDomain ErrInvalidCurrency
      else if minorUnits m = MinInt64 then fail LedgerDomain ErrAmountOverflow
      else NewMoney (- minorUnits m) (currency m))"

subsection \<open>The overflow guards are exact\<close>

lemma additionOverflows_iff:
  "additionOverflows a b \<longleftrightarrow> \<not> in_int64 (sint a + sint b)"
proof -
  have "sint (MaxInt64 - b) = sint MaxInt64 - sint b" if "0 < sint b"
    using that sint_bounds [of b]
    by (intro sint_diff_exact) (simp add: in_int64_def sint_MaxInt64)
  moreover have "sint (MinInt64 - b) = sint MinInt64 - sint b" if "sint b < 0"
    using that sint_bounds [of b]
    by (intro sint_diff_exact) (simp add: in_int64_def sint_MinInt64)
  ultimately show ?thesis
    using sint_bounds [of a] sint_bounds [of b]
    by (auto simp: additionOverflows_def int64_simps in_int64_def)
qed

lemma subtractionOverflows_iff:
  "subtractionOverflows a b \<longleftrightarrow> \<not> in_int64 (sint a - sint b)"
proof -
  have "sint (MaxInt64 + b) = sint MaxInt64 + sint b" if "sint b < 0"
    using that sint_bounds [of b]
    by (intro sint_add_exact) (simp add: in_int64_def sint_MaxInt64)
  moreover have "sint (MinInt64 + b) = sint MinInt64 + sint b" if "0 < sint b"
    using that sint_bounds [of b]
    by (intro sint_add_exact) (simp add: in_int64_def sint_MinInt64)
  ultimately show ?thesis
    using sint_bounds [of a] sint_bounds [of b]
    by (auto simp: subtractionOverflows_def int64_simps in_int64_def)
qed

lemma Money_Negate_Inr:
  "Money_Negate m = Inr n \<longleftrightarrow>
     currency_valid (currency m) \<and> minorUnits m \<noteq> MinInt64 \<and>
     n = \<lparr>minorUnits = - minorUnits m, currency = currency m\<rparr>"
  by (auto simp: Money_Negate_def NewMoney_def)

lemma sint_minus_nonmin: "w \<noteq> MinInt64 \<Longrightarrow> sint (- w) = - sint w"
  using sint_bounds [of w]
  by (intro sint_minus_exact) (auto simp: in_int64_def int64_eq_iff sint_MinInt64)

lemma minus_nonmin: "w \<noteq> MinInt64 \<Longrightarrow> - w \<noteq> MinInt64"
  using sint_bounds [of w] sint_minus_nonmin [of w] by (auto simp: int64_eq_iff sint_MinInt64)

section \<open>Postings\<close>

record posting =
  p_accountID :: string
  p_amount :: money

definition posting_validate :: "posting \<Rightarrow> error option" where
  "posting_validate p =
     (if p_accountID p = [] then Some [E LedgerDomain ErrInvalidPosting]
      else if \<not> currency_valid (currency (p_amount p))
        then Some [E LedgerDomain ErrInvalidPosting, E LedgerDomain ErrInvalidCurrency]
      else if minorUnits (p_amount p) = 0 then Some [E LedgerDomain ErrInvalidPosting]
      else if minorUnits (p_amount p) = MinInt64
        then Some [E LedgerDomain ErrInvalidPosting, E LedgerDomain ErrAmountOverflow]
      else None)"

definition NewPosting :: "string \<Rightarrow> money \<Rightarrow> posting result" where
  "NewPosting accountID amount =
     (let p = \<lparr>p_accountID = TrimSpace accountID, p_amount = amount\<rparr>
      in checked (posting_validate p) p)"

lemma posting_validate_None:
  "posting_validate p = None \<longleftrightarrow>
     p_accountID p \<noteq> [] \<and> currency_valid (currency (p_amount p)) \<and>
     minorUnits (p_amount p) \<noteq> 0 \<and> minorUnits (p_amount p) \<noteq> MinInt64"
  by (simp add: posting_validate_def)

lemma NewPosting_Inr:
  "NewPosting acct amt = Inr p \<longleftrightarrow>
     p = \<lparr>p_accountID = TrimSpace acct, p_amount = amt\<rparr> \<and> posting_validate p = None"
  by (auto simp: NewPosting_def Let_def result_simps)

text \<open>The posting type's invariant, which \<open>NewPosting\<close> establishes.\<close>

definition posting_inv :: "posting \<Rightarrow> bool" where
  "posting_inv p \<longleftrightarrow> posting_validate p = None \<and> TrimSpace (p_accountID p) = p_accountID p"

lemma NewPosting_inv: "NewPosting acct amt = Inr p \<Longrightarrow> posting_inv p"
  by (auto simp: NewPosting_Inr posting_inv_def)

section \<open>Journal entries\<close>

datatype JournalEntryType =
  JournalEntryTypeUnknown | JournalEntryTypeStandard | JournalEntryTypeReversal

record NewJournalEntryParams =
  jp_ID :: string
  jp_Postings :: "posting list"
  jp_RecordedAt :: gotime

record JournalEntry =
  je_id :: string
  je_entryType :: JournalEntryType
  je_reversesEntryID :: string
  je_postings :: "posting list"
  je_recordedAt :: gotime

definition minPostingsPerEntry :: nat where "minPostingsPerEntry = 2"
definition maxPostingsPerEntry :: nat where "maxPostingsPerEntry = 1024"

definition add_total :: "(currency \<times> int) list \<Rightarrow> posting \<Rightarrow> (currency \<times> int) list" where
  "add_total totals p =
     (let c = currency (p_amount p);
          total = (case map_of totals c of None \<Rightarrow> 0 | Some t \<Rightarrow> t)
      in AList.update c (total + units (p_amount p)) totals)"

definition validateBalancedPostings :: "posting list \<Rightarrow> error option" where
  "validateBalancedPostings postings =
     (if list_all (\<lambda>(c, total). total = 0) (foldl add_total [] postings) then None
      else Some [E LedgerDomain ErrUnbalancedJournalEntry])"

fun first_invalid_posting :: "posting list \<Rightarrow> error option" where
  "first_invalid_posting [] = None"
| "first_invalid_posting (p # ps) =
     (case posting_validate p of
        Some e \<Rightarrow> Some (E LedgerDomain ErrInvalidJournalEntry # e)
      | None \<Rightarrow> first_invalid_posting ps)"

definition entry_validate :: "JournalEntry \<Rightarrow> error option" where
  "entry_validate e =
     (let invalid = Some [E LedgerDomain ErrInvalidJournalEntry] in
      if je_id e = [] then invalid
      else if IsZero (je_recordedAt e) then invalid
      else if je_entryType e \<noteq> JournalEntryTypeStandard \<and> je_entryType e \<noteq> JournalEntryTypeReversal
        then invalid
      else if je_entryType e = JournalEntryTypeStandard \<and> je_reversesEntryID e \<noteq> [] then invalid
      else if je_entryType e = JournalEntryTypeReversal \<and> je_reversesEntryID e = [] then invalid
      else if length (je_postings e) < minPostingsPerEntry \<or>
              maxPostingsPerEntry < length (je_postings e) then invalid
      else case first_invalid_posting (je_postings e) of
        Some err \<Rightarrow> Some err
      | None \<Rightarrow> validateBalancedPostings (je_postings e))"

definition newJournalEntry ::
  "NewJournalEntryParams \<Rightarrow> JournalEntryType \<Rightarrow> string \<Rightarrow> JournalEntry result" where
  "newJournalEntry params entryType reversesEntryID =
     (let entry = \<lparr>je_id = TrimSpace (jp_ID params), je_entryType = entryType,
                   je_reversesEntryID = reversesEntryID, je_postings = jp_Postings params,
                   je_recordedAt = jp_RecordedAt params\<rparr>
      in checked (entry_validate entry) entry)"

definition NewJournalEntry :: "NewJournalEntryParams \<Rightarrow> JournalEntry result" where
  "NewJournalEntry params = newJournalEntry params JournalEntryTypeStandard []"

definition reverse_posting :: "posting \<Rightarrow> posting result" where
  "reverse_posting p =
     andThen (Money_Negate (p_amount p)) (\<lambda>amount. NewPosting (p_accountID p) amount)"

definition Reverse :: "JournalEntry \<Rightarrow> string \<Rightarrow> gotime \<Rightarrow> JournalEntry result" where
  "Reverse e newID recordedAt =
     (if entry_validate e \<noteq> None then fail LedgerDomain ErrInvalidJournalEntry
      else if TrimSpace newID = je_id e then fail LedgerDomain ErrInvalidJournalEntry
      else andThen (map_result reverse_posting (je_postings e))
        (\<lambda>reversedPostings.
           newJournalEntry
             \<lparr>jp_ID = newID, jp_Postings = reversedPostings, jp_RecordedAt = recordedAt\<rparr>
             JournalEntryTypeReversal (je_id e)))"

subsection \<open>Balance per currency\<close>

definition currency_total :: "currency \<Rightarrow> posting list \<Rightarrow> int" where
  "currency_total c ps = (\<Sum>p \<leftarrow> ps. if currency (p_amount p) = c then units (p_amount p) else 0)"

definition balanced :: "posting list \<Rightarrow> bool" where
  "balanced ps \<longleftrightarrow> (\<forall>c. currency_total c ps = 0)"

lemma currency_total_simps [simp]:
  "currency_total c [] = 0"
  "currency_total c (p # ps) =
     (if currency (p_amount p) = c then units (p_amount p) else 0) + currency_total c ps"
  by (simp_all add: currency_total_def)

lemma map_of_add_total:
  "map_of (add_total ts p) =
     (map_of ts)(currency (p_amount p) \<mapsto>
        (case map_of ts (currency (p_amount p)) of None \<Rightarrow> 0 | Some t \<Rightarrow> t) + units (p_amount p))"
  by (simp add: add_total_def Let_def update_conv')

lemma foldl_add_total:
  "map_of (foldl add_total totals ps) c =
     (if c \<in> dom (map_of totals) \<union> (\<lambda>p. currency (p_amount p)) ` set ps
      then Some ((case map_of totals c of None \<Rightarrow> 0 | Some t \<Rightarrow> t) + currency_total c ps)
      else None)"
proof (induction ps arbitrary: totals)
  case Nil
  then show ?case by (auto simp: domIff)
next
  case (Cons p ps)
  show ?case
    by (auto simp: Cons.IH map_of_add_total domIff split: option.splits)
qed

lemma distinct_foldl_add_total: "distinct (map fst ts) \<Longrightarrow> distinct (map fst (foldl add_total ts ps))"
  by (induction ps arbitrary: ts) (simp_all add: add_total_def Let_def distinct_update)

lemma currency_total_absent:
  "c \<notin> (\<lambda>p. currency (p_amount p)) ` set ps \<Longrightarrow> currency_total c ps = 0"
  by (induction ps) auto

lemma validateBalancedPostings_None: "validateBalancedPostings ps = None \<longleftrightarrow> balanced ps"
proof -
  let ?ts = "foldl add_total [] ps"
  have d: "distinct (map fst ?ts)" by (rule distinct_foldl_add_total) simp
  have "list_all (\<lambda>(c, t). t = 0) ?ts \<longleftrightarrow> (\<forall>c t. map_of ?ts c = Some t \<longrightarrow> t = 0)"
    using d by (auto simp: list_all_iff)
  also have "\<dots> \<longleftrightarrow> balanced ps"
    using currency_total_absent [of _ ps] by (auto simp: foldl_add_total balanced_def)
  finally show ?thesis by (simp add: validateBalancedPostings_def)
qed

lemma balanced_code [code]: "balanced ps \<longleftrightarrow> validateBalancedPostings ps = None"
  by (simp add: validateBalancedPostings_None)

lemma first_invalid_posting_None:
  "first_invalid_posting ps = None \<longleftrightarrow> list_all (\<lambda>p. posting_validate p = None) ps"
  by (induction ps) (auto split: option.splits)

text \<open>The invariant of stored entries: what \<open>validate\<close> accepts, written out.\<close>

definition entry_ok :: "JournalEntry \<Rightarrow> bool" where
  "entry_ok e \<longleftrightarrow>
     je_id e \<noteq> [] \<and> \<not> IsZero (je_recordedAt e) \<and>
     (je_entryType e = JournalEntryTypeStandard \<and> je_reversesEntryID e = [] \<or>
      je_entryType e = JournalEntryTypeReversal \<and> je_reversesEntryID e \<noteq> []) \<and>
     2 \<le> length (je_postings e) \<and> length (je_postings e) \<le> 1024 \<and>
     list_all (\<lambda>p. posting_validate p = None) (je_postings e) \<and>
     balanced (je_postings e)"

lemma entry_validate_None: "entry_validate e = None \<longleftrightarrow> entry_ok e"
  by (cases "je_entryType e")
    (auto simp: entry_validate_def entry_ok_def Let_def minPostingsPerEntry_def
        maxPostingsPerEntry_def validateBalancedPostings_None first_invalid_posting_None)

lemma newJournalEntry_Inr:
  "newJournalEntry ps t r = Inr e \<longleftrightarrow>
     e = \<lparr>je_id = TrimSpace (jp_ID ps), je_entryType = t, je_reversesEntryID = r,
          je_postings = jp_Postings ps, je_recordedAt = jp_RecordedAt ps\<rparr> \<and> entry_ok e"
  by (auto simp: newJournalEntry_def Let_def result_simps entry_validate_None)

subsection \<open>Reversal\<close>

definition negated :: "posting \<Rightarrow> posting" where
  "negated p =
     \<lparr>p_accountID = p_accountID p,
      p_amount = \<lparr>minorUnits = - minorUnits (p_amount p), currency = currency (p_amount p)\<rparr>\<rparr>"

lemma negated_sels [simp]:
  "p_accountID (negated p) = p_accountID p" "currency (p_amount (negated p)) = currency (p_amount p)"
  "minorUnits (p_amount (negated p)) = - minorUnits (p_amount p)"
  by (simp_all add: negated_def)

lemma negated_negated [simp]: "negated (negated p) = p"
  by (simp add: negated_def)

lemma posting_validate_negated: "posting_validate p = None \<Longrightarrow> posting_validate (negated p) = None"
  by (simp add: posting_validate_None minus_nonmin)

lemma reverse_posting_eq: "posting_inv p \<Longrightarrow> reverse_posting p = Inr (negated p)"
  using posting_validate_negated [of p]
  by (auto simp: posting_inv_def reverse_posting_def Money_Negate_def NewMoney_def NewPosting_def
      posting_validate_None [of p] negated_def Let_def)

lemma currency_total_negated:
  "list_all (\<lambda>p. posting_validate p = None) ps \<Longrightarrow>
     currency_total c (map negated ps) = - currency_total c ps"
  by (induction ps) (auto simp: posting_validate_None sint_minus_nonmin)

lemma balanced_negated:
  "list_all (\<lambda>p. posting_validate p = None) ps \<Longrightarrow> balanced ps \<Longrightarrow> balanced (map negated ps)"
  by (simp add: balanced_def currency_total_negated)

definition reversal_of :: "JournalEntry \<Rightarrow> string \<Rightarrow> gotime \<Rightarrow> JournalEntry" where
  "reversal_of e newID recordedAt =
     \<lparr>je_id = TrimSpace newID, je_entryType = JournalEntryTypeReversal,
      je_reversesEntryID = je_id e, je_postings = map negated (je_postings e),
      je_recordedAt = recordedAt\<rparr>"

lemma reversal_of_ok:
  assumes "entry_ok e" "TrimSpace newID \<noteq> []" "\<not> IsZero recordedAt"
  shows "entry_ok (reversal_of e newID recordedAt)"
  using assms balanced_negated [of "je_postings e"] posting_validate_negated
  by (auto simp: entry_ok_def reversal_of_def list_all_iff)

lemma Reverse_eq:
  assumes "entry_ok e" "list_all posting_inv (je_postings e)"
    and "TrimSpace newID \<noteq> []" "TrimSpace newID \<noteq> je_id e" "\<not> IsZero recordedAt"
  shows "Reverse e newID recordedAt = Inr (reversal_of e newID recordedAt)"
proof -
  have "map_result reverse_posting (je_postings e) = Inr (map negated (je_postings e))"
    using assms(2) by (intro map_result_total) (simp add: reverse_posting_eq list_all_iff)
  with assms(1,3-5) reversal_of_ok [OF assms(1,3,5)] show ?thesis
    by (simp add: Reverse_def entry_validate_None newJournalEntry_Inr reversal_of_def)
qed

subsection \<open>Movements\<close>

definition movement :: "string \<Rightarrow> currency \<Rightarrow> posting list \<Rightarrow> int" where
  "movement a c ps =
     (\<Sum>p \<leftarrow> ps. if p_accountID p = a \<and> currency (p_amount p) = c then units (p_amount p) else 0)"

lemma movement_negated:
  "list_all (\<lambda>p. posting_validate p = None) ps \<Longrightarrow> movement a c (map negated ps) = - movement a c ps"
  by (induction ps) (auto simp: movement_def posting_validate_None sint_minus_nonmin)

lemma posting_inv_negated: "posting_inv p \<Longrightarrow> posting_inv (negated p)"
  by (simp add: posting_inv_def posting_validate_negated)

lemma int64_of_add: "int64_of (sint a + sint b) = a + b"
  and int64_of_diff: "int64_of (sint a - sint b) = a - b"
  and int64_of_minus: "int64_of (- sint a) = - a"
  by (simp_all add: wi_hom_syms)

definition sample_postings :: "posting list" where
  "sample_postings =
     [\<lparr>p_accountID = ''cash'', p_amount = \<lparr>minorUnits = - 250, currency = Currency (CHR ''U'') (CHR ''S'') (CHR ''D'')\<rparr>\<rparr>,
      \<lparr>p_accountID = ''fees'', p_amount = \<lparr>minorUnits = 250, currency = Currency (CHR ''U'') (CHR ''S'') (CHR ''D'')\<rparr>\<rparr>]"

section \<open>Properties\<close>

text \<open>
  C31: \<open>Money.Add\<close> is exact or refused. It returns the sum exactly when both currencies are valid and
  equal and the mathematical sum fits in an \<open>int64\<close>, and otherwise the error of the first condition
  that fails; it never wraps around.
\<close>

theorem Money_Add_exact:
  "Money_Add a b =
     (if \<not> (currency_valid (currency a) \<and> currency_valid (currency b))
      then fail LedgerDomain ErrInvalidCurrency
      else if currency a \<noteq> currency b then fail LedgerDomain ErrCurrencyMismatch
      else if in_int64 (units a + units b)
      then Inr \<lparr>minorUnits = int64_of (units a + units b), currency = currency a\<rparr>
      else fail LedgerDomain ErrAmountOverflow)"
  by (simp add: Money_Add_def validateOperation_def additionOverflows_iff NewMoney_def int64_of_add)

text \<open>
  \<open>Money.Subtract\<close> and \<open>Money.Negate\<close> are exact or refused in the same sense; negation is refused
  for the smallest \<open>int64\<close> only.
\<close>

theorem Money_Subtract_exact:
  "Money_Subtract a b =
     (if \<not> (currency_valid (currency a) \<and> currency_valid (currency b))
      then fail LedgerDomain ErrInvalidCurrency
      else if currency a \<noteq> currency b then fail LedgerDomain ErrCurrencyMismatch
      else if in_int64 (units a - units b)
      then Inr \<lparr>minorUnits = int64_of (units a - units b), currency = currency a\<rparr>
      else fail LedgerDomain ErrAmountOverflow) \<and>
   Money_Negate a =
     (if \<not> currency_valid (currency a) then fail LedgerDomain ErrInvalidCurrency
      else if in_int64 (- units a)
      then Inr \<lparr>minorUnits = int64_of (- units a), currency = currency a\<rparr>
      else fail LedgerDomain ErrAmountOverflow)"
proof -
  have "minorUnits a = MinInt64 \<longleftrightarrow> \<not> in_int64 (- units a)"
    using sint_bounds [of "minorUnits a"]
    by (auto simp: in_int64_def int64_eq_iff sint_MinInt64)
  then show ?thesis
    by (simp add: Money_Subtract_def Money_Negate_def validateOperation_def subtractionOverflows_iff
        NewMoney_def int64_of_diff int64_of_minus)
qed

text \<open>
  \<open>NewJournalEntry\<close> accepts exactly the well-formed balanced entries: a non-blank identifier, a
  recording time, between 2 and 1024 valid postings, and postings that sum to zero in every currency
  over the integers, however often the sum leaves the range of an \<open>int64\<close> on the way.
\<close>

theorem NewJournalEntry_accepts:
  "NewJournalEntry ps = Inr e \<longleftrightarrow>
     e = \<lparr>je_id = TrimSpace (jp_ID ps), je_entryType = JournalEntryTypeStandard,
          je_reversesEntryID = [], je_postings = jp_Postings ps, je_recordedAt = jp_RecordedAt ps\<rparr> \<and>
     TrimSpace (jp_ID ps) \<noteq> [] \<and> jp_RecordedAt ps \<noteq> 0 \<and>
     2 \<le> length (jp_Postings ps) \<and> length (jp_Postings ps) \<le> 1024 \<and>
     list_all (\<lambda>p. p_accountID p \<noteq> [] \<and> currency_valid (currency (p_amount p)) \<and>
       units (p_amount p) \<noteq> 0 \<and> in_int64 (- units (p_amount p))) (jp_Postings ps) \<and>
     (\<forall>c. currency_total c (jp_Postings ps) = 0)"
proof -
  have "posting_validate p = None \<longleftrightarrow> p_accountID p \<noteq> [] \<and> currency_valid (currency (p_amount p)) \<and>
       units (p_amount p) \<noteq> 0 \<and> in_int64 (- units (p_amount p))" for p
    using sint_bounds [of "minorUnits (p_amount p)"]
    by (auto simp: posting_validate_None in_int64_def int64_eq_iff sint_MinInt64)
  then show ?thesis
    by (auto simp: NewJournalEntry_def newJournalEntry_Inr entry_ok_def balanced_def IsZero_def)
qed

text \<open>
  Every constructed entry can be reversed under a fresh identifier. The reversal is itself a valid
  entry that names its source, it moves the opposite amount on every account in every currency, and
  reversing it again yields the original postings.
\<close>

theorem Reverse_inverts:
  assumes "NewJournalEntry params = Inr e" "list_all posting_inv (jp_Postings params)"
    and "TrimSpace newID \<noteq> []" "TrimSpace newID \<noteq> je_id e" "\<not> IsZero at" "\<not> IsZero at2"
  shows "\<exists>r r2. Reverse e newID at = Inr r \<and> entry_ok r \<and> je_reversesEntryID r = je_id e \<and>
    (\<forall>a c. movement a c (je_postings r) = - movement a c (je_postings e)) \<and>
    Reverse r (je_id e) at2 = Inr r2 \<and> je_postings r2 = je_postings e"
proof -
  from assms(1) have e: "entry_ok e" "TrimSpace (je_id e) = je_id e" "je_postings e = jp_Postings params"
    by (auto simp: NewJournalEntry_def newJournalEntry_Inr)
  have inv: "list_all posting_inv (je_postings e)" using assms(2) e(3) by simp
  let ?r = "reversal_of e newID at"
  have r: "entry_ok ?r" using reversal_of_ok [OF e(1) assms(3,5)] .
  have rinv: "list_all posting_inv (je_postings ?r)"
    using inv by (auto simp: reversal_of_def list_all_iff posting_inv_negated)
  have "Reverse ?r (je_id e) at2 = Inr (reversal_of ?r (je_id e) at2)"
    using e assms(4,6) by (intro Reverse_eq [OF r rinv]) (auto simp: entry_ok_def reversal_of_def)
  moreover have "Reverse e newID at = Inr ?r" by (rule Reverse_eq [OF e(1) inv assms(3-5)])
  moreover have "movement a c (je_postings ?r) = - movement a c (je_postings e)" for a c
    using movement_negated [of "je_postings e"] inv
    by (simp add: reversal_of_def list_all_iff posting_inv_def)
  ultimately show ?thesis
    using r by (auto simp: reversal_of_def o_def)
qed

theorem Reverse_inverts_witness:
  "\<exists>e r r2. NewJournalEntry \<lparr>jp_ID = ''e1'', jp_Postings = sample_postings, jp_RecordedAt = 5\<rparr> = Inr e \<and>
    Reverse e ''e2'' 6 = Inr r \<and> entry_ok r \<and> je_reversesEntryID r = je_id e \<and>
    (\<forall>a c. movement a c (je_postings r) = - movement a c (je_postings e)) \<and>
    Reverse r (je_id e) 7 = Inr r2 \<and> je_postings r2 = je_postings e"
proof -
  let ?e = "\<lparr>je_id = ''e1'', je_entryType = JournalEntryTypeStandard, je_reversesEntryID = [],
    je_postings = sample_postings, je_recordedAt = 5\<rparr>"
  have "NewJournalEntry \<lparr>jp_ID = ''e1'', jp_Postings = sample_postings, jp_RecordedAt = 5\<rparr> = Inr ?e"
    by code_simp
  moreover have "list_all posting_inv sample_postings" "TrimSpace ''e2'' \<noteq> []" "TrimSpace ''e2'' \<noteq> ''e1''"
    by code_simp+
  ultimately show ?thesis
    using Reverse_inverts [of "\<lparr>jp_ID = ''e1'', jp_Postings = sample_postings, jp_RecordedAt = 5\<rparr>" ?e
        "''e2''" 6 7]
    by (auto simp: IsZero_def)
qed

end
