(* ===== verification/Transfer_Domain.thy ===== *)
theory Transfer_Domain
  imports Uuid Ledger_Domain Machines
begin

text \<open>
  The transfer domain (\<open>internal/transfer/domain\<close>): the immutable transfer intent with its journal
  entry, and the lifecycle aggregate with its transitions.

  The lemmas show that a constructed transfer always has a balanced two-posting entry, that the
  lifecycle transitions are enabled in exactly the states the abstract status machine allows, that
  they keep the aggregate's invariant, its intent and its policy version, and that the version
  counts the transitions.
\<close>

section \<open>Transfers\<close>

definition maxIdempotencyKeyBytes :: nat where "maxIdempotencyKeyBytes = 128"

record NewTransferParams =
  tp_ID :: string
  tp_IdempotencyKey :: string
  tp_RequesterID :: string
  tp_SourceAccountID :: string
  tp_DestinationAccountID :: string
  tp_Amount :: money
  tp_RequestedAt :: gotime

record Transfer =
  t_id :: string
  t_idempotencyKey :: string
  t_requesterID :: string
  t_sourceAccountID :: string
  t_destinationAccountID :: string
  t_amount :: money
  t_requestedAt :: gotime

definition validIdempotencyKey :: "string \<Rightarrow> bool" where
  "validIdempotencyKey value \<longleftrightarrow>
     \<not> (value = [] \<or> maxIdempotencyKeyBytes < length value \<or> \<not> utf8_ValidString value) \<and>
     list_all visible value"

definition transfer_validate :: "Transfer \<Rightarrow> error option" where
  "transfer_validate t =
     (let invalid = Some [E TransferDomain ErrInvalidTransfer] in
      if \<not> isCanonicalUUID (t_id t) then invalid
      else if \<not> validIdempotencyKey (t_idempotencyKey t) then invalid
      else if \<not> isCanonicalUUID (t_requesterID t) then invalid
      else if \<not> isCanonicalUUID (t_sourceAccountID t) then invalid
      else if \<not> isCanonicalUUID (t_destinationAccountID t) then invalid
      else if t_sourceAccountID t = t_destinationAccountID t then invalid
      else if currency_String (currency (t_amount t)) = [] then invalid
      else if minorUnits (t_amount t) \<le>s 0 then invalid
      else if IsZero (t_requestedAt t) then invalid
      else None)"

definition NewTransfer :: "NewTransferParams \<Rightarrow> Transfer result" where
  "NewTransfer params =
     (let transfer =
        \<lparr>t_id = fst (normalizeUUID (tp_ID params)),
         t_idempotencyKey = TrimSpace (tp_IdempotencyKey params),
         t_requesterID = fst (normalizeUUID (tp_RequesterID params)),
         t_sourceAccountID = fst (normalizeUUID (tp_SourceAccountID params)),
         t_destinationAccountID = fst (normalizeUUID (tp_DestinationAccountID params)),
         t_amount = tp_Amount params,
         t_requestedAt = tp_RequestedAt params\<rparr>
      in checked (transfer_validate transfer) transfer)"

definition transfer_JournalEntry :: "Transfer \<Rightarrow> JournalEntry result" where
  "transfer_JournalEntry t =
     (case transfer_validate t of
        Some e \<Rightarrow> Inl e
      | None \<Rightarrow>
          andThen (Money_Negate (t_amount t)) (\<lambda>debit.
          andThen (NewPosting (t_sourceAccountID t) debit) (\<lambda>sourcePosting.
          andThen (NewPosting (t_destinationAccountID t) (t_amount t)) (\<lambda>destinationPosting.
          NewJournalEntry
            \<lparr>jp_ID = t_id t, jp_Postings = [sourcePosting, destinationPosting],
             jp_RecordedAt = t_requestedAt t\<rparr>))))"

definition transfer_ok :: "Transfer \<Rightarrow> bool" where
  "transfer_ok t \<longleftrightarrow>
     isCanonicalUUID (t_id t) \<and> validIdempotencyKey (t_idempotencyKey t) \<and>
     isCanonicalUUID (t_requesterID t) \<and> isCanonicalUUID (t_sourceAccountID t) \<and>
     isCanonicalUUID (t_destinationAccountID t) \<and>
     t_sourceAccountID t \<noteq> t_destinationAccountID t \<and>
     currency_valid (currency (t_amount t)) \<and> 0 < units (t_amount t) \<and>
     \<not> IsZero (t_requestedAt t)"

lemma transfer_validate_None: "transfer_validate t = None \<longleftrightarrow> transfer_ok t"
  by (auto simp: transfer_validate_def transfer_ok_def Let_def int64_simps)

lemma NewTransfer_ok: "NewTransfer params = Inr t \<Longrightarrow> transfer_ok t"
  by (auto simp: NewTransfer_def Let_def result_simps transfer_validate_None)

lemma validIdempotencyKey_trim: "validIdempotencyKey k \<Longrightarrow> TrimSpace k = k"
  by (simp add: validIdempotencyKey_def TrimSpace_visible)

text \<open>The constructor's parameters read back from a transfer.\<close>

definition transfer_params :: "Transfer \<Rightarrow> NewTransferParams" where
  "transfer_params t =
     \<lparr>tp_ID = t_id t, tp_IdempotencyKey = t_idempotencyKey t, tp_RequesterID = t_requesterID t,
      tp_SourceAccountID = t_sourceAccountID t,
      tp_DestinationAccountID = t_destinationAccountID t, tp_Amount = t_amount t,
      tp_RequestedAt = t_requestedAt t\<rparr>"

lemma NewTransfer_params: "transfer_ok t \<Longrightarrow> NewTransfer (transfer_params t) = Inr t"
  by (auto simp: NewTransfer_def transfer_params_def Let_def result_simps transfer_validate_None)
    (auto simp: transfer_ok_def validIdempotencyKey_trim)

lemma positive_units:
  "0 < units m \<Longrightarrow> minorUnits m \<noteq> 0 \<and> minorUnits m \<noteq> MinInt64"
  by (auto simp: int64_eq_iff sint_MinInt64)

definition transfer_postings :: "Transfer \<Rightarrow> posting list" where
  "transfer_postings t =
     [\<lparr>p_accountID = t_sourceAccountID t,
       p_amount = \<lparr>minorUnits = - minorUnits (t_amount t), currency = currency (t_amount t)\<rparr>\<rparr>,
      \<lparr>p_accountID = t_destinationAccountID t, p_amount = t_amount t\<rparr>]"

lemma transfer_postings_valid:
  assumes "transfer_ok t"
  shows "list_all posting_inv (transfer_postings t)" "balanced (transfer_postings t)"
  using assms positive_units [of "t_amount t"] minus_nonmin [of "minorUnits (t_amount t)"]
  by (auto simp: transfer_ok_def transfer_postings_def posting_inv_def posting_validate_None
      balanced_def sint_minus_nonmin)

text \<open>The entry of a valid transfer, with the given recording time.\<close>

definition transfer_entry :: "Transfer \<Rightarrow> gotime \<Rightarrow> JournalEntry" where
  "transfer_entry t recordedAt =
     \<lparr>je_id = t_id t, je_entryType = JournalEntryTypeStandard, je_reversesEntryID = [],
      je_postings = transfer_postings t, je_recordedAt = recordedAt\<rparr>"

lemma transfer_entry_ok: "transfer_ok t \<Longrightarrow> \<not> IsZero at \<Longrightarrow> entry_ok (transfer_entry t at)"
  using transfer_postings_valid [of t]
  by (auto simp: transfer_entry_def entry_ok_def list_all_iff posting_inv_def)
    (auto simp: transfer_ok_def transfer_postings_def)

lemma transfer_posting_steps:
  assumes "transfer_ok t"
  shows "Money_Negate (t_amount t) =
      Inr \<lparr>minorUnits = - minorUnits (t_amount t), currency = currency (t_amount t)\<rparr>"
    and "NewPosting (t_sourceAccountID t)
        \<lparr>minorUnits = - minorUnits (t_amount t), currency = currency (t_amount t)\<rparr> =
      Inr (transfer_postings t ! 0)"
    and "NewPosting (t_destinationAccountID t) (t_amount t) = Inr (transfer_postings t ! 1)"
  using assms positive_units [of "t_amount t"] minus_nonmin [of "minorUnits (t_amount t)"]
  by (auto simp: transfer_ok_def Money_Negate_Inr NewPosting_Inr transfer_postings_def
      posting_validate_None)

lemma transfer_JournalEntry_eq:
  assumes "transfer_ok t"
  shows "transfer_JournalEntry t = Inr (transfer_entry t (t_requestedAt t))"
proof -
  have "entry_ok (transfer_entry t (t_requestedAt t))"
    using assms by (auto intro: transfer_entry_ok simp: transfer_ok_def)
  moreover have "TrimSpace (t_id t) = t_id t" using assms by (simp add: transfer_ok_def)
  moreover have "transfer_validate t = None" using assms by (simp add: transfer_validate_None)
  ultimately show ?thesis
    using transfer_posting_steps [OF assms]
    by (simp add: transfer_JournalEntry_def NewJournalEntry_def newJournalEntry_Inr
        transfer_entry_def transfer_postings_def)
qed

section \<open>Lifecycle\<close>

definition maxLifecycleCodeBytes :: nat where "maxLifecycleCodeBytes = 64"
definition pendingRiskVersion :: int64 where "pendingRiskVersion = 1"

datatype Status =
    StatusUnknown | StatusPendingRisk | StatusApproved | StatusReviewRequired | StatusDeclined
  | StatusCompleted | StatusFailed

fun status_String :: "Status \<Rightarrow> string" where
  "status_String StatusPendingRisk = ''pending_risk''"
| "status_String StatusApproved = ''approved''"
| "status_String StatusReviewRequired = ''review_required''"
| "status_String StatusDeclined = ''declined''"
| "status_String StatusCompleted = ''completed''"
| "status_String StatusFailed = ''failed''"
| "status_String StatusUnknown = ''''"

record LifecycleParams =
  lp_Transfer :: Transfer
  lp_Status :: Status
  lp_Version :: int64
  lp_RiskPolicyVersion :: string
  lp_JournalEntryID :: string
  lp_FailureReason :: string

record Lifecycle =
  l_transfer :: Transfer
  l_status :: Status
  l_version :: int64
  l_riskPolicyVersion :: string
  l_journalEntryID :: string
  l_failureReason :: string

definition validLifecycleCode :: "string \<Rightarrow> bool" where
  "validLifecycleCode value \<longleftrightarrow>
     \<not> (length value = 0 \<or> maxLifecycleCodeBytes < length value) \<and>
     list_all (\<lambda>c. is_lower c \<or> is_digit c \<or> c = CHR ''_'' \<or> c = CHR ''-'') value"

definition validPolicyVersion :: "string \<Rightarrow> bool" where
  "validPolicyVersion value \<longleftrightarrow>
     \<not> (length value = 0 \<or> maxLifecycleCodeBytes < length value) \<and> list_all visible value"

definition lifecycle_validate :: "Lifecycle \<Rightarrow> error option" where
  "lifecycle_validate l =
     (let invalid = Some [E TransferDomain ErrInvalidLifecycle];
          shape =
            (case l_status l of
               StatusPendingRisk \<Rightarrow>
                 if l_version l \<noteq> pendingRiskVersion \<or> l_journalEntryID l \<noteq> [] \<or> l_failureReason l \<noteq> []
                 then invalid else None
             | StatusApproved \<Rightarrow>
                 if l_version l <s 2 \<or> l_journalEntryID l \<noteq> [] \<or> l_failureReason l \<noteq> []
                 then invalid else None
             | StatusReviewRequired \<Rightarrow>
                 if l_version l <s 2 \<or> l_journalEntryID l \<noteq> [] \<or> l_failureReason l \<noteq> []
                 then invalid else None
             | StatusDeclined \<Rightarrow>
                 if l_version l <s 2 \<or> l_journalEntryID l \<noteq> [] \<or> l_failureReason l \<noteq> []
                 then invalid else None
             | StatusCompleted \<Rightarrow>
                 if l_journalEntryID l \<noteq> t_id (l_transfer l) \<or> l_failureReason l \<noteq> [] \<or>
                    (l_riskPolicyVersion l \<noteq> [] \<and> \<not> validPolicyVersion (l_riskPolicyVersion l)) \<or>
                    (l_version l \<noteq> pendingRiskVersion \<and> \<not> validPolicyVersion (l_riskPolicyVersion l))
                 then invalid else None
             | StatusFailed \<Rightarrow>
                 if \<not> validPolicyVersion (l_riskPolicyVersion l) \<or> l_version l <s 2 \<or>
                    l_journalEntryID l \<noteq> [] \<or> \<not> validLifecycleCode (l_failureReason l)
                 then invalid else None
             | StatusUnknown \<Rightarrow> invalid)
      in case transfer_validate (l_transfer l) of
           Some e \<Rightarrow> Some (E TransferDomain ErrInvalidLifecycle # e)
         | None \<Rightarrow>
             if l_version l \<le>s 0 then invalid
             else case shape of
               Some e \<Rightarrow> Some e
             | None \<Rightarrow>
                 if l_status l \<noteq> StatusCompleted \<and> \<not> validPolicyVersion (l_riskPolicyVersion l)
                 then invalid else None)"

definition NewLifecycle :: "LifecycleParams \<Rightarrow> Lifecycle result" where
  "NewLifecycle params =
     (let lifecycle =
        \<lparr>l_transfer = lp_Transfer params, l_status = lp_Status params,
         l_version = lp_Version params,
         l_riskPolicyVersion = TrimSpace (lp_RiskPolicyVersion params),
         l_journalEntryID = TrimSpace (lp_JournalEntryID params),
         l_failureReason = TrimSpace (lp_FailureReason params)\<rparr>
      in checked (lifecycle_validate lifecycle) lifecycle)"

definition NewPendingLifecycle :: "Transfer \<Rightarrow> string \<Rightarrow> Lifecycle result" where
  "NewPendingLifecycle transfer riskPolicyVersion =
     NewLifecycle
       \<lparr>lp_Transfer = transfer, lp_Status = StatusPendingRisk, lp_Version = pendingRiskVersion,
        lp_RiskPolicyVersion = riskPolicyVersion, lp_JournalEntryID = [], lp_FailureReason = []\<rparr>"

definition transition :: "Lifecycle \<Rightarrow> Status \<Rightarrow> string \<Rightarrow> string \<Rightarrow> Lifecycle result" where
  "transition l status journalEntryID failureReason =
     NewLifecycle
       \<lparr>lp_Transfer = l_transfer l, lp_Status = status, lp_Version = l_version l + 1,
        lp_RiskPolicyVersion = l_riskPolicyVersion l, lp_JournalEntryID = journalEntryID,
        lp_FailureReason = failureReason\<rparr>"

definition Approve :: "Lifecycle \<Rightarrow> Lifecycle result" where
  "Approve l =
     (if l_status l \<noteq> StatusPendingRisk \<and> l_status l \<noteq> StatusReviewRequired
      then fail TransferDomain ErrInvalidTransition
      else transition l StatusApproved [] [])"

definition RequireReview :: "Lifecycle \<Rightarrow> Lifecycle result" where
  "RequireReview l =
     (if l_status l \<noteq> StatusPendingRisk then fail TransferDomain ErrInvalidTransition
      else transition l StatusReviewRequired [] [])"

definition Decline :: "Lifecycle \<Rightarrow> Lifecycle result" where
  "Decline l =
     (if l_status l \<noteq> StatusPendingRisk \<and> l_status l \<noteq> StatusReviewRequired
      then fail TransferDomain ErrInvalidTransition
      else transition l StatusDeclined [] [])"

definition Complete :: "Lifecycle \<Rightarrow> Lifecycle result" where
  "Complete l =
     (if l_status l \<noteq> StatusApproved then fail TransferDomain ErrInvalidTransition
      else transition l StatusCompleted (t_id (l_transfer l)) [])"

definition Fail :: "Lifecycle \<Rightarrow> string \<Rightarrow> Lifecycle result" where
  "Fail l reason =
     (if l_status l \<noteq> StatusApproved then fail TransferDomain ErrInvalidTransition
      else if \<not> validLifecycleCode (TrimSpace reason) then fail TransferDomain ErrInvalidLifecycle
      else transition l StatusFailed [] (TrimSpace reason))"

subsection \<open>The aggregate's invariant\<close>

fun shape_ok :: "Status \<Rightarrow> int \<Rightarrow> string \<Rightarrow> string \<Rightarrow> string \<Rightarrow> string \<Rightarrow> bool" where
  "shape_ok StatusPendingRisk v policy journal reason tid \<longleftrightarrow>
     v = 1 \<and> validPolicyVersion policy \<and> journal = [] \<and> reason = []"
| "shape_ok StatusApproved v policy journal reason tid \<longleftrightarrow>
     2 \<le> v \<and> validPolicyVersion policy \<and> journal = [] \<and> reason = []"
| "shape_ok StatusReviewRequired v policy journal reason tid \<longleftrightarrow>
     2 \<le> v \<and> validPolicyVersion policy \<and> journal = [] \<and> reason = []"
| "shape_ok StatusDeclined v policy journal reason tid \<longleftrightarrow>
     2 \<le> v \<and> validPolicyVersion policy \<and> journal = [] \<and> reason = []"
| "shape_ok StatusCompleted v policy journal reason tid \<longleftrightarrow>
     1 \<le> v \<and> (validPolicyVersion policy \<or> v = 1 \<and> policy = []) \<and> journal = tid \<and> reason = []"
| "shape_ok StatusFailed v policy journal reason tid \<longleftrightarrow>
     2 \<le> v \<and> validPolicyVersion policy \<and> journal = [] \<and> validLifecycleCode reason"
| "shape_ok StatusUnknown v policy journal reason tid \<longleftrightarrow> False"

definition lifecycle_ok :: "Lifecycle \<Rightarrow> bool" where
  "lifecycle_ok l \<longleftrightarrow>
     transfer_ok (l_transfer l) \<and>
     shape_ok (l_status l) (sint (l_version l)) (l_riskPolicyVersion l) (l_journalEntryID l)
       (l_failureReason l) (t_id (l_transfer l))"

lemma validPolicyVersion_Nil [simp]: "\<not> validPolicyVersion []"
  by (simp add: validPolicyVersion_def)

lemma lifecycle_validate_None: "lifecycle_validate l = None \<longleftrightarrow> lifecycle_ok l"
  by (cases "l_status l")
    (auto simp: lifecycle_validate_def lifecycle_ok_def transfer_validate_None Let_def
      int64_simps pendingRiskVersion_def int64_eq_iff)

lemma validPolicyVersion_trim: "validPolicyVersion v \<Longrightarrow> TrimSpace v = v"
  by (simp add: validPolicyVersion_def TrimSpace_visible)

lemma validLifecycleCode_trim: "validLifecycleCode v \<Longrightarrow> TrimSpace v = v"
proof (rule TrimSpace_visible)
  have "visible c" if "is_lower c \<or> is_digit c \<or> c = CHR ''_'' \<or> c = CHR ''-''" for c
    using that by (auto simp: visible_def is_lower_def is_digit_def char_le_code)
  then show "validLifecycleCode v \<Longrightarrow> list_all visible v"
    by (auto simp: validLifecycleCode_def list_all_iff)
qed

lemma NewLifecycle_Inr:
  "NewLifecycle p = Inr l \<longleftrightarrow>
     l = \<lparr>l_transfer = lp_Transfer p, l_status = lp_Status p, l_version = lp_Version p,
          l_riskPolicyVersion = TrimSpace (lp_RiskPolicyVersion p),
          l_journalEntryID = TrimSpace (lp_JournalEntryID p),
          l_failureReason = TrimSpace (lp_FailureReason p)\<rparr> \<and> lifecycle_ok l"
  by (auto simp: NewLifecycle_def Let_def result_simps lifecycle_validate_None)

lemma lifecycle_ok_trim:
  assumes "lifecycle_ok l"
  shows "TrimSpace (l_riskPolicyVersion l) = l_riskPolicyVersion l"
    and "TrimSpace (l_journalEntryID l) = l_journalEntryID l"
    and "TrimSpace (l_failureReason l) = l_failureReason l"
    and "TrimSpace (t_id (l_transfer l)) = t_id (l_transfer l)"
  using assms
  by (cases "l_status l";
      auto simp: lifecycle_ok_def transfer_ok_def validPolicyVersion_trim validLifecycleCode_trim)+

text \<open>The parameters that rebuild an aggregate, as the repositories pass them.\<close>

definition lifecycle_params :: "Lifecycle \<Rightarrow> LifecycleParams" where
  "lifecycle_params l =
     \<lparr>lp_Transfer = l_transfer l, lp_Status = l_status l, lp_Version = l_version l,
      lp_RiskPolicyVersion = l_riskPolicyVersion l, lp_JournalEntryID = l_journalEntryID l,
      lp_FailureReason = l_failureReason l\<rparr>"

lemma NewLifecycle_params: "lifecycle_ok l \<Longrightarrow> NewLifecycle (lifecycle_params l) = Inr l"
  by (simp add: NewLifecycle_Inr lifecycle_params_def lifecycle_ok_trim)

lemma transition_Inr:
  assumes "lifecycle_ok l" "TrimSpace j = j" "TrimSpace r = r"
  shows "transition l s j r = Inr l' \<longleftrightarrow>
    l' = \<lparr>l_transfer = l_transfer l, l_status = s, l_version = l_version l + 1,
          l_riskPolicyVersion = l_riskPolicyVersion l, l_journalEntryID = j,
          l_failureReason = r\<rparr> \<and> lifecycle_ok l'"
  using assms by (auto simp: transition_def NewLifecycle_Inr lifecycle_ok_trim)

subsection \<open>The lifecycle as a transition system\<close>

inductive lifecycle_step :: "Lifecycle \<Rightarrow> Lifecycle \<Rightarrow> bool" where
  approve: "Approve l = Inr l' \<Longrightarrow> lifecycle_step l l'"
| review: "RequireReview l = Inr l' \<Longrightarrow> lifecycle_step l l'"
| decline: "Decline l = Inr l' \<Longrightarrow> lifecycle_step l l'"
| complete: "Complete l = Inr l' \<Longrightarrow> lifecycle_step l l'"
| failure: "Fail l reason = Inr l' \<Longrightarrow> lifecycle_step l l'"

definition lifecycle_init :: "Lifecycle \<Rightarrow> bool" where
  "lifecycle_init l \<longleftrightarrow> (\<exists>t policy. NewPendingLifecycle t policy = Inr l)"

text \<open>The abstract machine: the statuses, and how many transitions have been taken.\<close>

inductive status_step :: "Status \<Rightarrow> Status \<Rightarrow> bool" where
  "status_step StatusPendingRisk StatusApproved"
| "status_step StatusPendingRisk StatusReviewRequired"
| "status_step StatusPendingRisk StatusDeclined"
| "status_step StatusReviewRequired StatusApproved"
| "status_step StatusReviewRequired StatusDeclined"
| "status_step StatusApproved StatusCompleted"
| "status_step StatusApproved StatusFailed"

inductive_simps status_step_from [simp]:
  "status_step StatusPendingRisk s" "status_step StatusApproved s"
  "status_step StatusReviewRequired s" "status_step StatusDeclined s"
  "status_step StatusCompleted s" "status_step StatusFailed s" "status_step StatusUnknown s"

definition spec_init :: "Status \<times> int \<Rightarrow> bool" where
  "spec_init = (\<lambda>(s, v). s = StatusPendingRisk \<and> v = 1)"

definition spec_step :: "Status \<times> int \<Rightarrow> Status \<times> int \<Rightarrow> bool" where
  "spec_step = (\<lambda>(s, v) (s', v'). status_step s s' \<and> v' = v + 1)"

definition spec_of :: "Lifecycle \<Rightarrow> Status \<times> int" where
  "spec_of l = (l_status l, sint (l_version l))"

lemmas lifecycle_ops = Approve_def RequireReview_def Decline_def Complete_def Fail_def

lemma lifecycle_step_transition:
  assumes "lifecycle_step l l'"
  shows "\<exists>s j r. status_step (l_status l) s \<and> transition l s j r = Inr l' \<and>
    (j = [] \<or> j = t_id (l_transfer l)) \<and> TrimSpace r = r"
  using assms
proof (cases rule: lifecycle_step.cases)
  case approve
  then have "status_step (l_status l) StatusApproved \<and> transition l StatusApproved [] [] = Inr l'"
    by (auto simp: Approve_def split: if_splits)
  then show ?thesis using TrimSpace_Nil by blast
next
  case review
  then have "status_step (l_status l) StatusReviewRequired \<and>
      transition l StatusReviewRequired [] [] = Inr l'"
    by (auto simp: RequireReview_def split: if_splits)
  then show ?thesis using TrimSpace_Nil by blast
next
  case decline
  then have "status_step (l_status l) StatusDeclined \<and> transition l StatusDeclined [] [] = Inr l'"
    by (auto simp: Decline_def split: if_splits)
  then show ?thesis using TrimSpace_Nil by blast
next
  case complete
  then have "status_step (l_status l) StatusCompleted \<and>
      transition l StatusCompleted (t_id (l_transfer l)) [] = Inr l'"
    by (auto simp: Complete_def split: if_splits)
  then show ?thesis using TrimSpace_Nil by blast
next
  case (failure reason)
  then have "status_step (l_status l) StatusFailed \<and>
      transition l StatusFailed [] (TrimSpace reason) = Inr l'"
    by (auto simp: Fail_def split: if_splits)
  then show ?thesis using TrimSpace_idem by blast
qed

lemma lifecycle_ok_version: "lifecycle_ok l \<Longrightarrow> 0 < sint (l_version l)"
  unfolding lifecycle_ok_def by (cases "l_status l") simp_all

lemma lifecycle_stepE:
  assumes "lifecycle_ok l" "lifecycle_step l l'"
  obtains s j r where "status_step (l_status l) s" "lifecycle_ok l'"
    "sint (l_version l') = sint (l_version l) + 1"
    "l' = \<lparr>l_transfer = l_transfer l, l_status = s, l_version = l_version l + 1,
          l_riskPolicyVersion = l_riskPolicyVersion l, l_journalEntryID = j, l_failureReason = r\<rparr>"
proof -
  from lifecycle_step_transition [OF assms(2)] obtain s j r where s: "status_step (l_status l) s"
    and t: "transition l s j r = Inr l'" and j: "j = [] \<or> j = t_id (l_transfer l)"
    and r: "TrimSpace r = r" by blast
  from j have "TrimSpace j = j" using lifecycle_ok_trim(4) [OF assms(1)] by auto
  note tr = transition_Inr [OF assms(1) this r, THEN iffD1, OF t]
  have "0 < sint (l_version l')" using tr lifecycle_ok_version by blast
  moreover have "l_version l' = l_version l + 1" using tr by simp
  ultimately have "sint (l_version l') = sint (l_version l) + 1"
    using sint_Suc_positive by metis
  with s tr show thesis using that by blast
qed

lemma lifecycle_init_ok:
  "lifecycle_init l \<Longrightarrow> lifecycle_ok l \<and> l_status l = StatusPendingRisk \<and> l_version l = 1"
  by (auto simp: lifecycle_init_def NewPendingLifecycle_def NewLifecycle_Inr pendingRiskVersion_def)

interpretation lifecycle: simulation lifecycle_init lifecycle_step lifecycle_ok
  spec_of spec_init spec_step
proof unfold_locales
  show "lifecycle_ok l" if "lifecycle_init l" for l
    using that by (simp add: lifecycle_init_ok)
  show "lifecycle_ok l'" if "lifecycle_ok l" "lifecycle_step l l'" for l l'
    using that by (rule lifecycle_stepE)
  show "spec_init (spec_of l)" if "lifecycle_init l" for l
    using lifecycle_init_ok [OF that] by (simp add: spec_init_def spec_of_def)
  show "spec_step (spec_of l) (spec_of l')" if "lifecycle_ok l" "lifecycle_step l l'" for l l'
    using that by (rule lifecycle_stepE) (simp add: spec_step_def spec_of_def)
qed

text \<open>Which versions a status can carry on the asynchronous path.\<close>

fun version_range :: "Status \<Rightarrow> int set" where
  "version_range StatusPendingRisk = {1}"
| "version_range StatusReviewRequired = {2}"
| "version_range StatusApproved = {2, 3}"
| "version_range StatusDeclined = {2, 3}"
| "version_range StatusCompleted = {3, 4}"
| "version_range StatusFailed = {3, 4}"
| "version_range StatusUnknown = {}"

interpretation spec_versions:
  invariant_system spec_init spec_step "\<lambda>(s, v). v \<in> version_range s"
proof unfold_locales
  show "case x of (s, v) \<Rightarrow> v \<in> version_range s" if "spec_init x" for x
    using that by (auto simp: spec_init_def)
  show "case y of (s, v) \<Rightarrow> v \<in> version_range s"
    if "case x of (s, v) \<Rightarrow> v \<in> version_range s" "spec_step x y" for x y
    using that by (cases "fst x") (auto simp: spec_step_def)
qed

lemma reachable_version:
  "reachable lifecycle_init lifecycle_step l \<Longrightarrow> sint (l_version l) \<in> version_range (l_status l)"
  using spec_versions.reachable_inv [OF lifecycle.reachable_abs] by (simp add: spec_of_def)

text \<open>Conversely, every move of the abstract machine is enabled below the last version number.\<close>

lemma transition_enabled:
  assumes "lifecycle_ok l" "l_version l \<noteq> MaxInt64" "status_step (l_status l) s"
    "TrimSpace j = j" "TrimSpace r = r"
    "j = (if s = StatusCompleted then t_id (l_transfer l) else [])"
    "if s = StatusFailed then validLifecycleCode r else r = []"
  shows "\<exists>l'. transition l s j r = Inr l' \<and> l_status l' = s"
  using assms
  by (auto simp: transition_Inr lifecycle_ok_def sint_Suc_exact elim!: status_step.cases)

section \<open>Properties\<close>

definition sample_transfer_params :: NewTransferParams where
  "sample_transfer_params =
     \<lparr>tp_ID = '' 6F9619FF-8B86-4011-B42D-00CF4FC964F1 '', tp_IdempotencyKey = ''order-17'',
      tp_RequesterID = ''6f9619ff-8b86-4011-b42d-00cf4fc964f2'',
      tp_SourceAccountID = ''6f9619ff-8b86-4011-b42d-00cf4fc964f3'',
      tp_DestinationAccountID = ''6f9619ff-8b86-4011-b42d-00cf4fc964f4'',
      tp_Amount = \<lparr>minorUnits = 1500, currency = Currency (CHR ''E'') (CHR ''U'') (CHR ''R'')\<rparr>,
      tp_RequestedAt = 1000000\<rparr>"

definition sample_transfer :: Transfer where
  "sample_transfer =
     \<lparr>t_id = ''6f9619ff-8b86-4011-b42d-00cf4fc964f1'', t_idempotencyKey = ''order-17'',
      t_requesterID = ''6f9619ff-8b86-4011-b42d-00cf4fc964f2'',
      t_sourceAccountID = ''6f9619ff-8b86-4011-b42d-00cf4fc964f3'',
      t_destinationAccountID = ''6f9619ff-8b86-4011-b42d-00cf4fc964f4'',
      t_amount = \<lparr>minorUnits = 1500, currency = Currency (CHR ''E'') (CHR ''U'') (CHR ''R'')\<rparr>,
      t_requestedAt = 1000000\<rparr>"

lemma sample_transfer_new: "NewTransfer sample_transfer_params = Inr sample_transfer"
  by code_simp

text \<open>
  Every constructed transfer has a journal entry: \<open>JournalEntry()\<close> cannot fail on it, and returns
  a balanced entry under the transfer's identifier that takes the amount from the source account and
  gives it to the destination account.
\<close>

theorem transfer_has_entry:
  assumes "NewTransfer params = Inr t"
  shows "\<exists>e debit credit. transfer_JournalEntry t = Inr e \<and> entry_ok e \<and> je_id e = t_id t \<and>
    je_postings e = [debit, credit] \<and>
    p_accountID debit = t_sourceAccountID t \<and> p_accountID credit = t_destinationAccountID t \<and>
    units (p_amount debit) = - units (tp_Amount params) \<and>
    units (p_amount credit) = units (tp_Amount params) \<and> 0 < units (tp_Amount params)"
proof -
  have t: "transfer_ok t" "t_amount t = tp_Amount params"
    using assms by (auto simp: NewTransfer_ok NewTransfer_def Let_def result_simps)
  then have pos: "0 < units (tp_Amount params)" "\<not> IsZero (t_requestedAt t)"
    by (auto simp: transfer_ok_def)
  have "entry_ok (transfer_entry t (t_requestedAt t))" by (rule transfer_entry_ok [OF t(1) pos(2)])
  then show ?thesis
    using transfer_JournalEntry_eq [OF t(1)] t(2) pos(1) positive_units [OF pos(1)]
    by (auto simp: transfer_entry_def transfer_postings_def sint_minus_nonmin)
qed

theorem transfer_has_entry_witness:
  "NewTransfer sample_transfer_params = Inr sample_transfer \<and>
   (\<exists>e debit credit. transfer_JournalEntry sample_transfer = Inr e \<and> je_postings e = [debit, credit] \<and>
     units (p_amount debit) = - 1500 \<and> units (p_amount credit) = 1500)"
proof -
  have "units (tp_Amount sample_transfer_params) = 1500" by code_simp
  then show ?thesis
    using transfer_has_entry [OF sample_transfer_new] sample_transfer_new by auto
qed

text \<open>
  C34: A constructed transfer holds canonical identifiers and survives its own constructor: building it
  again from its accessors returns it unchanged.
\<close>

theorem NewTransfer_canonical:
  assumes "NewTransfer params = Inr t"
  shows "NewTransfer (transfer_params t) = Inr t \<and> isCanonicalUUID (t_id t) \<and>
    isCanonicalUUID (t_requesterID t) \<and> isCanonicalUUID (t_sourceAccountID t) \<and>
    isCanonicalUUID (t_destinationAccountID t) \<and> t_sourceAccountID t \<noteq> t_destinationAccountID t"
  using NewTransfer_ok [OF assms] NewTransfer_params by (auto simp: transfer_ok_def)

theorem NewTransfer_canonical_witness:
  "NewTransfer (transfer_params sample_transfer) = Inr sample_transfer"
  using NewTransfer_canonical [OF sample_transfer_new] by simp

text \<open>
  The lifecycle refines the abstract status machine: whatever sequence of successful transitions
  is applied to a pending lifecycle, the status it reaches is reachable in the status machine with
  as many moves as the version counts, and the version is the one the status allows.
\<close>

theorem lifecycle_refines:
  assumes "reachable lifecycle_init lifecycle_step l"
  shows "reachable spec_init spec_step (l_status l, sint (l_version l)) \<and>
    sint (l_version l) \<in> version_range (l_status l) \<and> lifecycle_ok l"
  using lifecycle.reachable_abs [OF assms] reachable_version [OF assms] lifecycle.reachable_inv [OF assms]
  by (simp add: spec_of_def)

definition sample_pending :: Lifecycle where
  "sample_pending =
     \<lparr>l_transfer = sample_transfer, l_status = StatusPendingRisk, l_version = 1,
      l_riskPolicyVersion = ''v1'', l_journalEntryID = [], l_failureReason = []\<rparr>"

definition sample_approved :: Lifecycle where
  "sample_approved = sample_pending\<lparr>l_status := StatusApproved, l_version := 2\<rparr>"

lemma sample_pending_init: "lifecycle_init sample_pending"
proof -
  have "NewPendingLifecycle sample_transfer ''v1'' = Inr sample_pending" by code_simp
  then show ?thesis by (auto simp: lifecycle_init_def)
qed

lemma sample_approved_step: "lifecycle_step sample_pending sample_approved"
proof -
  have "Approve sample_pending = Inr sample_approved" by code_simp
  then show ?thesis by (rule lifecycle_step.approve)
qed

lemma sample_approved_reachable: "reachable lifecycle_init lifecycle_step sample_approved"
  using sample_pending_init sample_approved_step by (blast intro: reachable.intros)

theorem lifecycle_refines_witness:
  "reachable lifecycle_init lifecycle_step sample_approved \<and>
   reachable spec_init spec_step (StatusApproved, 2) \<and> lifecycle_ok sample_approved"
  using lifecycle_refines [OF sample_approved_reachable] sample_approved_reachable
  by (simp add: sample_approved_def sample_pending_def)

text \<open>
  The transitions are enabled exactly where the status machine allows them: from a valid lifecycle
  below the last version number a transition to a status exists if and only if the machine has that
  move. In particular the declined, completed and failed lifecycles are final.
\<close>

theorem lifecycle_enabled:
  assumes "lifecycle_ok l" "l_version l \<noteq> MaxInt64"
  shows "(\<exists>l'. lifecycle_step l l' \<and> l_status l' = s) \<longleftrightarrow> status_step (l_status l) s"
proof
  assume "\<exists>l'. lifecycle_step l l' \<and> l_status l' = s"
  then obtain l' where "lifecycle_step l l'" "l_status l' = s" by blast
  with assms(1) show "status_step (l_status l) s" by (elim lifecycle_stepE [OF assms(1)]) simp
next
  assume s: "status_step (l_status l) s"
  let ?j = "if s = StatusCompleted then t_id (l_transfer l) else []"
  let ?r = "if s = StatusFailed then ''expired'' else []"
  have r: "validLifecycleCode ''expired''" "TrimSpace ''expired'' = ''expired''" by code_simp+
  have "TrimSpace ?j = ?j" using lifecycle_ok_trim(4) [OF assms(1)] by simp
  moreover have "TrimSpace ?r = ?r" "if s = StatusFailed then validLifecycleCode ?r else ?r = []"
    using r by simp_all
  ultimately obtain l' where l': "transition l s ?j ?r = Inr l'" "l_status l' = s"
    using transition_enabled [OF assms s] by blast
  have "lifecycle_step l l'"
    using s
  proof (cases rule: status_step.cases)
    case 1 with l' show ?thesis by (intro lifecycle_step.approve) (simp add: Approve_def)
  next
    case 2 with l' show ?thesis by (intro lifecycle_step.review) (simp add: RequireReview_def)
  next
    case 3 with l' show ?thesis by (intro lifecycle_step.decline) (simp add: Decline_def)
  next
    case 4 with l' show ?thesis by (intro lifecycle_step.approve) (simp add: Approve_def)
  next
    case 5 with l' show ?thesis by (intro lifecycle_step.decline) (simp add: Decline_def)
  next
    case 6 with l' show ?thesis by (intro lifecycle_step.complete) (simp add: Complete_def)
  next
    case 7 with l' r show ?thesis
      by (intro lifecycle_step.failure [of _ "''expired''"]) (simp add: Fail_def)
  qed
  with l'(2) show "\<exists>l'. lifecycle_step l l' \<and> l_status l' = s" by blast
qed

theorem lifecycle_enabled_witness:
  "(\<exists>l'. lifecycle_step sample_approved l' \<and> l_status l' = StatusCompleted) \<and>
   \<not> (\<exists>l'. lifecycle_step sample_approved l' \<and> l_status l' = StatusDeclined)"
proof -
  have ok: "lifecycle_ok sample_approved"
    using lifecycle.reachable_inv [OF sample_approved_reachable] .
  have v: "l_version sample_approved \<noteq> MaxInt64" "l_status sample_approved = StatusApproved"
    by (simp_all add: sample_approved_def sample_pending_def MaxInt64_def)
  show ?thesis
    using lifecycle_enabled [OF ok v(1), of StatusCompleted]
      lifecycle_enabled [OF ok v(1), of StatusDeclined] by (simp add: v(2))
qed

text \<open>
  A transition never touches the requested transfer or the risk policy version it was assessed
  under, records a journal entry exactly when it completes (the entry of the transfer itself) and a
  failure reason exactly when it fails.
\<close>

theorem lifecycle_step_frame:
  assumes "lifecycle_ok l" "lifecycle_step l l'"
  shows "l_transfer l' = l_transfer l \<and> l_riskPolicyVersion l' = l_riskPolicyVersion l \<and>
    l_journalEntryID l' = (if l_status l' = StatusCompleted then t_id (l_transfer l) else []) \<and>
    (l_failureReason l' \<noteq> []) = (l_status l' = StatusFailed)"
proof -
  from assms obtain s where s: "status_step (l_status l) s" "lifecycle_ok l'"
    "l_transfer l' = l_transfer l" "l_status l' = s" "l_riskPolicyVersion l' = l_riskPolicyVersion l"
    by (elim lifecycle_stepE [OF assms(1)]) simp
  then have "l_journalEntryID l' = (if s = StatusCompleted then t_id (l_transfer l) else []) \<and>
      (l_failureReason l' \<noteq> []) = (s = StatusFailed)"
    by (cases rule: status_step.cases) (auto simp: lifecycle_ok_def validLifecycleCode_def)
  with s show ?thesis by simp
qed

theorem lifecycle_step_frame_witness:
  "lifecycle_step sample_pending sample_approved \<and>
   l_transfer sample_approved = l_transfer sample_pending \<and> l_journalEntryID sample_approved = []"
  using lifecycle_step_frame [OF _ sample_approved_step] lifecycle_init_ok [OF sample_pending_init]
    sample_approved_step
  by (simp add: sample_approved_def)

end
