(* ===== verification/Risk_Domain.thy ===== *)
theory Risk_Domain
  imports Ledger_Domain
begin

text \<open>
  The deterministic risk policy (\<open>internal/risk/domain/policy.go\<close>): versioned thresholds per
  currency, their validation, and the evaluation of one transfer.

  A policy's \<open>map[Currency]Threshold\<close> is an association list with distinct keys, which
  \<open>NewPolicy\<close> guarantees; the two loops over the map compute an existence and a conjunction, so
  Go's random iteration order is not observable. The lemmas show that a constructed policy
  evaluates every well-formed input, that the score is the sum of its signals, and that the
  decision and the score are monotone in the amount, the velocity count and its unavailability.
\<close>

definition maxPolicyVersionBytes :: nat where "maxPolicyVersionBytes = 64"
definition maxScore :: int where "maxScore = 1000"
definition reviewScore :: int where "reviewScore = 600"
definition missingPolicyScore :: int where "missingPolicyScore = 500"
definition velocityReviewScore :: int where "velocityReviewScore = 700"

lemmas score_defs = maxScore_def reviewScore_def missingPolicyScore_def velocityReviewScore_def

datatype Decision = DecisionUnknown | DecisionApprove | DecisionReview | DecisionDecline

fun decision_String :: "Decision \<Rightarrow> string" where
  "decision_String DecisionApprove = ''approve''"
| "decision_String DecisionReview = ''review''"
| "decision_String DecisionDecline = ''decline''"
| "decision_String DecisionUnknown = ''''"

text \<open>The \<open>uint8\<close> behind a decision orders decisions by severity.\<close>

fun decision_code :: "Decision \<Rightarrow> nat" where
  "decision_code DecisionUnknown = 0"
| "decision_code DecisionApprove = 1"
| "decision_code DecisionReview = 2"
| "decision_code DecisionDecline = 3"

lemma decision_code_inject: "decision_code a = decision_code b \<Longrightarrow> a = b"
  by (cases a; cases b) simp_all

instantiation Decision :: linorder
begin

definition less_eq_Decision :: "Decision \<Rightarrow> Decision \<Rightarrow> bool" where
  "less_eq_Decision a b \<longleftrightarrow> decision_code a \<le> decision_code b"

definition less_Decision :: "Decision \<Rightarrow> Decision \<Rightarrow> bool" where
  "less_Decision a b \<longleftrightarrow> decision_code a < decision_code b"

instance
  by standard (auto simp: less_eq_Decision_def less_Decision_def intro: decision_code_inject)

end

datatype SignalCode =
    SignalAmountReviewThreshold | SignalAmountDeclineThreshold | SignalCurrencyPolicyMissing
  | SignalVelocityUnavailable | SignalVelocityReviewThreshold

fun signal_String :: "SignalCode \<Rightarrow> string" where
  "signal_String SignalAmountReviewThreshold = ''amount_review_threshold''"
| "signal_String SignalAmountDeclineThreshold = ''amount_decline_threshold''"
| "signal_String SignalCurrencyPolicyMissing = ''currency_policy_missing''"
| "signal_String SignalVelocityUnavailable = ''velocity_unavailable''"
| "signal_String SignalVelocityReviewThreshold = ''velocity_review_threshold''"

record Threshold =
  th_Currency :: currency
  th_ReviewAmountMinor :: int64
  th_DeclineAmountMinor :: int64
  th_VelocityReviewTransferCount :: int64

record PolicyParams =
  pp_Version :: string
  pp_Thresholds :: "Threshold list"

record Policy =
  po_version :: string
  po_thresholds :: "(currency \<times> Threshold) list"

record Input =
  in_Amount :: money
  in_VelocityTransferCount :: int64
  in_VelocityDegraded :: bool

record Signal =
  sg_code :: SignalCode
  sg_contribution :: int

record Evaluation =
  ev_policyVersion :: string
  ev_score :: int
  ev_decision :: Decision
  ev_signals :: "Signal list"

definition risk_validPolicyVersion :: "string \<Rightarrow> bool" where
  "risk_validPolicyVersion value \<longleftrightarrow>
     \<not> (length value = 0 \<or> maxPolicyVersionBytes < length value) \<and> list_all visible value"

fun collect_thresholds ::
  "(currency \<times> Threshold) list \<Rightarrow> Threshold list \<Rightarrow> (currency \<times> Threshold) list result" where
  "collect_thresholds thresholds [] = Inr thresholds"
| "collect_thresholds thresholds (threshold # rest) =
     (if currency_String (th_Currency threshold) = [] then fail RiskDomain ErrInvalidPolicy
      else if th_ReviewAmountMinor threshold \<le>s 0 \<or>
              th_DeclineAmountMinor threshold <s th_ReviewAmountMinor threshold \<or>
              th_VelocityReviewTransferCount threshold <s 0
        then fail RiskDomain ErrInvalidPolicy
      else if map_of thresholds (th_Currency threshold) \<noteq> None
        then fail RiskDomain ErrInvalidPolicy
      else collect_thresholds (AList.update (th_Currency threshold) threshold thresholds) rest)"

definition NewPolicy :: "PolicyParams \<Rightarrow> Policy result" where
  "NewPolicy params =
     (let version = TrimSpace (pp_Version params) in
      if \<not> risk_validPolicyVersion version then fail RiskDomain ErrInvalidPolicy
      else if pp_Thresholds params = [] then fail RiskDomain ErrInvalidPolicy
      else andThen (collect_thresholds [] (pp_Thresholds params)) (\<lambda>thresholds.
        Inr \<lparr>po_version = version, po_thresholds = thresholds\<rparr>))"

definition RequiresVelocity :: "Policy \<Rightarrow> bool" where
  "RequiresVelocity p \<longleftrightarrow>
     list_ex (\<lambda>(c, threshold). 0 <s th_VelocityReviewTransferCount threshold) (po_thresholds p)"

definition newEvaluation :: "string \<Rightarrow> int \<Rightarrow> Decision \<Rightarrow> Signal list \<Rightarrow> Evaluation" where
  "newEvaluation version score decision signals =
     \<lparr>ev_policyVersion = version, ev_score = score, ev_decision = decision, ev_signals = signals\<rparr>"

definition policy_validate :: "Policy \<Rightarrow> error option" where
  "policy_validate p =
     (if \<not> risk_validPolicyVersion (po_version p) \<or> po_thresholds p = []
      then Some [E RiskDomain ErrInvalidPolicy]
      else if list_ex (\<lambda>(c, threshold).
          currency_String c = [] \<or> th_Currency threshold \<noteq> c \<or>
          th_ReviewAmountMinor threshold \<le>s 0 \<or>
          th_DeclineAmountMinor threshold <s th_ReviewAmountMinor threshold \<or>
          th_VelocityReviewTransferCount threshold <s 0) (po_thresholds p)
      then Some [E RiskDomain ErrInvalidPolicy]
      else None)"

definition Evaluate :: "Policy \<Rightarrow> Input \<Rightarrow> Evaluation result" where
  "Evaluate p input =
     (case policy_validate p of
        Some e \<Rightarrow> Inl e
      | None \<Rightarrow>
          if currency_String (currency (in_Amount input)) = [] \<or> minorUnits (in_Amount input) \<le>s 0 \<or>
             in_VelocityTransferCount input <s 0
          then fail RiskDomain ErrInvalidInput
          else case map_of (po_thresholds p) (currency (in_Amount input)) of
            None \<Rightarrow>
              if in_VelocityDegraded input
              then Inr (newEvaluation (po_version p) velocityReviewScore DecisionReview
                [\<lparr>sg_code = SignalVelocityUnavailable, sg_contribution = velocityReviewScore\<rparr>])
              else Inr (newEvaluation (po_version p) missingPolicyScore DecisionReview
                [\<lparr>sg_code = SignalCurrencyPolicyMissing, sg_contribution = missingPolicyScore\<rparr>])
          | Some threshold \<Rightarrow>
              if th_DeclineAmountMinor threshold \<le>s minorUnits (in_Amount input)
              then Inr (newEvaluation (po_version p) maxScore DecisionDecline
                [\<lparr>sg_code = SignalAmountDeclineThreshold, sg_contribution = maxScore\<rparr>])
              else if in_VelocityDegraded input
              then Inr (newEvaluation (po_version p) velocityReviewScore DecisionReview
                [\<lparr>sg_code = SignalVelocityUnavailable, sg_contribution = velocityReviewScore\<rparr>])
              else if 0 <s th_VelocityReviewTransferCount threshold \<and>
                      th_VelocityReviewTransferCount threshold \<le>s in_VelocityTransferCount input
              then Inr (newEvaluation (po_version p) velocityReviewScore DecisionReview
                [\<lparr>sg_code = SignalVelocityReviewThreshold, sg_contribution = velocityReviewScore\<rparr>])
              else if th_ReviewAmountMinor threshold \<le>s minorUnits (in_Amount input)
              then Inr (newEvaluation (po_version p) reviewScore DecisionReview
                [\<lparr>sg_code = SignalAmountReviewThreshold, sg_contribution = reviewScore\<rparr>])
              else Inr (newEvaluation (po_version p) 0 DecisionApprove []))"

section \<open>What the constructor guarantees\<close>

definition threshold_ok :: "Threshold \<Rightarrow> bool" where
  "threshold_ok t \<longleftrightarrow>
     currency_valid (th_Currency t) \<and> 0 < sint (th_ReviewAmountMinor t) \<and>
     sint (th_ReviewAmountMinor t) \<le> sint (th_DeclineAmountMinor t) \<and>
     0 \<le> sint (th_VelocityReviewTransferCount t)"

lemma collect_thresholds_Inr:
  "collect_thresholds acc ts = Inr out \<longleftrightarrow>
     list_all threshold_ok ts \<and> distinct (map th_Currency ts) \<and>
     set (map th_Currency ts) \<inter> dom (map_of acc) = {} \<and>
     out = acc @ map (\<lambda>t. (th_Currency t, t)) ts"
proof (induction ts arbitrary: acc)
  case (Cons t ts)
  have upd: "AList.update (th_Currency t) t acc = acc @ [(th_Currency t, t)]"
    if "map_of acc (th_Currency t) = None"
    using that by (induction acc) (auto split: if_splits)
  show ?case
    by (auto simp: Cons.IH upd threshold_ok_def int64_simps dom_map_of_conv_image_fst
        map_of_eq_None_iff)
qed auto

lemma NewPolicy_Inr:
  "NewPolicy params = Inr p \<longleftrightarrow>
     risk_validPolicyVersion (TrimSpace (pp_Version params)) \<and> pp_Thresholds params \<noteq> [] \<and>
     list_all threshold_ok (pp_Thresholds params) \<and>
     distinct (map th_Currency (pp_Thresholds params)) \<and>
     p = \<lparr>po_version = TrimSpace (pp_Version params),
          po_thresholds = map (\<lambda>t. (th_Currency t, t)) (pp_Thresholds params)\<rparr>"
  by (auto simp: NewPolicy_def Let_def result_simps collect_thresholds_Inr)

definition policy_ok :: "Policy \<Rightarrow> bool" where
  "policy_ok p \<longleftrightarrow> policy_validate p = None \<and> distinct (map fst (po_thresholds p))"

lemma NewPolicy_ok: "NewPolicy params = Inr p \<Longrightarrow> policy_ok p"
  by (auto simp: NewPolicy_Inr policy_ok_def policy_validate_def list_ex_iff list_all_iff
      threshold_ok_def int64_simps o_def)

lemma policy_threshold:
  assumes "policy_validate p = None" "map_of (po_thresholds p) c = Some t"
  shows "threshold_ok t" "th_Currency t = c"
  using assms(1) map_of_SomeD [OF assms(2)]
  by (auto simp: policy_validate_def list_ex_iff threshold_ok_def int64_simps split: if_splits)

section \<open>Evaluation\<close>

definition input_ok :: "Input \<Rightarrow> bool" where
  "input_ok i \<longleftrightarrow>
     currency_valid (currency (in_Amount i)) \<and> 0 < units (in_Amount i) \<and>
     0 \<le> sint (in_VelocityTransferCount i)"

lemma Evaluate_total:
  "policy_validate p = None \<Longrightarrow> (\<exists>e. Evaluate p i = Inr e) \<longleftrightarrow> input_ok i"
  by (auto simp: Evaluate_def input_ok_def int64_simps split: option.splits)

lemma Evaluate_score:
  "Evaluate p i = Inr e \<Longrightarrow>
     ev_score e = (\<Sum>s \<leftarrow> ev_signals e. sg_contribution s) \<and> 0 \<le> ev_score e \<and> ev_score e \<le> 1000 \<and>
     ev_policyVersion e = po_version p \<and> ev_decision e \<noteq> DecisionUnknown"
  by (auto simp: Evaluate_def newEvaluation_def score_defs split: option.splits if_splits)

text \<open>One input is at least as risky as another.\<close>

definition riskier :: "Input \<Rightarrow> Input \<Rightarrow> bool" where
  "riskier i j \<longleftrightarrow>
     currency (in_Amount i) = currency (in_Amount j) \<and>
     units (in_Amount i) \<le> units (in_Amount j) \<and>
     sint (in_VelocityTransferCount i) \<le> sint (in_VelocityTransferCount j) \<and>
     (in_VelocityDegraded i \<longrightarrow> in_VelocityDegraded j)"

lemma Evaluate_mono:
  assumes "Evaluate p i = Inr e" "Evaluate p j = Inr f" "riskier i j"
  shows "ev_score e \<le> ev_score f" "ev_decision e \<le> ev_decision f"
  using assms
  by (auto simp: Evaluate_def newEvaluation_def score_defs riskier_def int64_simps
      less_eq_Decision_def split: option.splits if_splits)

section \<open>Properties\<close>

definition sample_policy_params :: PolicyParams where
  "sample_policy_params =
     \<lparr>pp_Version = ''v1'',
      pp_Thresholds =
        [\<lparr>th_Currency = Currency (CHR ''U'') (CHR ''S'') (CHR ''D''), th_ReviewAmountMinor = 1000,
          th_DeclineAmountMinor = 5000, th_VelocityReviewTransferCount = 3\<rparr>]\<rparr>"

definition sample_policy :: Policy where
  "sample_policy =
     \<lparr>po_version = ''v1'',
      po_thresholds = map (\<lambda>t. (th_Currency t, t)) (pp_Thresholds sample_policy_params)\<rparr>"

definition sample_input :: "int64 \<Rightarrow> int64 \<Rightarrow> Input" where
  "sample_input amount count =
     \<lparr>in_Amount = \<lparr>minorUnits = amount, currency = Currency (CHR ''U'') (CHR ''S'') (CHR ''D'')\<rparr>,
      in_VelocityTransferCount = count, in_VelocityDegraded = False\<rparr>"

lemma sample_policy_new: "NewPolicy sample_policy_params = Inr sample_policy"
  by code_simp

text \<open>
  A constructed policy evaluates every well-formed input and nothing else: \<open>Evaluate\<close> succeeds
  exactly for a positive amount in a valid currency and a non-negative count. The score is the sum of
  the contributions of the reported signals and lies between 0 and 1000, the decision is one of the
  three real ones, and the evaluation carries the policy's version.
\<close>

theorem Evaluate_explained:
  assumes "NewPolicy params = Inr p"
  shows "(case Evaluate p i of
      Inl e \<Rightarrow> e = [E RiskDomain ErrInvalidInput] \<and> \<not> input_ok i
    | Inr ev \<Rightarrow> input_ok i \<and> ev_policyVersion ev = TrimSpace (pp_Version params) \<and>
        ev_score ev = (\<Sum>s \<leftarrow> ev_signals ev. sg_contribution s) \<and> 0 \<le> ev_score ev \<and>
        ev_score ev \<le> 1000 \<and> ev_decision ev \<noteq> DecisionUnknown)"
proof (cases "Evaluate p i")
  case (Inl e)
  have "policy_validate p = None" using NewPolicy_ok [OF assms] by (simp add: policy_ok_def)
  with Inl Evaluate_total [of p i] show ?thesis
    by (auto simp: Evaluate_def split: if_splits option.splits)
next
  case (Inr ev)
  have "policy_validate p = None" "po_version p = TrimSpace (pp_Version params)"
    using NewPolicy_ok [OF assms] assms by (auto simp: policy_ok_def NewPolicy_Inr)
  with Inr Evaluate_total [of p i] Evaluate_score [OF Inr] show ?thesis by auto
qed

theorem Evaluate_explained_witness:
  "Evaluate sample_policy (sample_input 1200 0) =
     Inr \<lparr>ev_policyVersion = ''v1'', ev_score = 600, ev_decision = DecisionReview,
          ev_signals = [\<lparr>sg_code = SignalAmountReviewThreshold, sg_contribution = 600\<rparr>]\<rparr> \<and>
   input_ok (sample_input 1200 0)"
proof -
  have e: "Evaluate sample_policy (sample_input 1200 0) =
     Inr \<lparr>ev_policyVersion = ''v1'', ev_score = 600, ev_decision = DecisionReview,
          ev_signals = [\<lparr>sg_code = SignalAmountReviewThreshold, sg_contribution = 600\<rparr>]\<rparr>"
    by code_simp
  then show ?thesis
    using Evaluate_explained [OF sample_policy_new, of "sample_input 1200 0"] by simp
qed

text \<open>
  C32: Risk is monotone. For the same currency, a larger amount, a larger captured count or the loss
  of the velocity observation never lowers the score and never makes the decision milder
  (approve, review, decline).
\<close>

theorem Evaluate_monotone:
  assumes "NewPolicy params = Inr p" "riskier i j" "Evaluate p i = Inr e"
  shows "\<exists>f. Evaluate p j = Inr f \<and> ev_score e \<le> ev_score f \<and> ev_decision e \<le> ev_decision f"
proof -
  have p: "policy_validate p = None" using NewPolicy_ok [OF assms(1)] by (simp add: policy_ok_def)
  then have "input_ok i" using Evaluate_total assms(3) by blast
  then have "input_ok j" using assms(2) by (auto simp: input_ok_def riskier_def)
  then obtain f where "Evaluate p j = Inr f" using Evaluate_total [OF p] by blast
  with Evaluate_mono [OF assms(3) _ assms(2)] show ?thesis by blast
qed

theorem Evaluate_monotone_witness:
  "riskier (sample_input 1200 0) (sample_input 1200 7) \<and>
   (\<exists>f. Evaluate sample_policy (sample_input 1200 7) = Inr f \<and> 600 \<le> ev_score f)"
proof -
  let ?e = "\<lparr>ev_policyVersion = ''v1'', ev_score = 600, ev_decision = DecisionReview,
          ev_signals = [\<lparr>sg_code = SignalAmountReviewThreshold, sg_contribution = 600\<rparr>]\<rparr>"
  have "Evaluate sample_policy (sample_input 1200 0) = Inr ?e"
    and "riskier (sample_input 1200 0) (sample_input 1200 7)" by code_simp+
  with Evaluate_monotone [OF sample_policy_new, of "sample_input 1200 0" "sample_input 1200 7" ?e]
  show ?thesis by auto
qed

text \<open>
  A policy that reports that it needs no velocity observation decides without one: the captured
  count has no influence on the evaluation.
\<close>

theorem RequiresVelocity_irrelevant:
  assumes "NewPolicy params = Inr p" "\<not> RequiresVelocity p"
    and "0 \<le> sint (in_VelocityTransferCount i)" "0 \<le> sint n"
  shows "Evaluate p (i\<lparr>in_VelocityTransferCount := n\<rparr>) = Evaluate p i"
proof -
  have "\<not> 0 <s th_VelocityReviewTransferCount t" if "map_of (po_thresholds p) c = Some t" for c t
    using assms(2) map_of_SomeD [OF that] by (auto simp: RequiresVelocity_def list_ex_iff)
  with assms(3,4) show ?thesis
    by (auto simp: Evaluate_def word_sless_alt split: option.splits)
qed

theorem RequiresVelocity_irrelevant_witness:
  "let params = sample_policy_params\<lparr>pp_Thresholds :=
       map (\<lambda>t. t\<lparr>th_VelocityReviewTransferCount := 0\<rparr>) (pp_Thresholds sample_policy_params)\<rparr>;
       p = \<lparr>po_version = ''v1'',
            po_thresholds = map (\<lambda>t. (th_Currency t, t)) (pp_Thresholds params)\<rparr>
   in NewPolicy params = Inr p \<and> \<not> RequiresVelocity p \<and>
      Evaluate p (sample_input 10 99) = Evaluate p (sample_input 10 0)"
proof -
  let ?params = "sample_policy_params\<lparr>pp_Thresholds :=
       map (\<lambda>t. t\<lparr>th_VelocityReviewTransferCount := 0\<rparr>) (pp_Thresholds sample_policy_params)\<rparr>"
  let ?p = "\<lparr>po_version = ''v1'',
            po_thresholds = map (\<lambda>t. (th_Currency t, t)) (pp_Thresholds ?params)\<rparr>"
  have p: "NewPolicy ?params = Inr ?p" "\<not> RequiresVelocity ?p" by code_simp+
  have "(sample_input 10 0)\<lparr>in_VelocityTransferCount := 99\<rparr> = sample_input 10 99"
    by (simp add: sample_input_def)
  then have "Evaluate ?p (sample_input 10 99) = Evaluate ?p (sample_input 10 0)"
    using RequiresVelocity_irrelevant [OF p, of "sample_input 10 0" 99] by (simp add: sample_input_def)
  with p show ?thesis by (simp add: Let_def)
qed

end
