(* ===== verification/Transfer_Events.thy ===== *)
theory Transfer_Events
  imports Envelope_Parse Transfer_Domain Risk_Domain
begin

text \<open>
  The integration events of transfers (\<open>internal/transfer/events\<close>): one constructor per event, and the
  strict parsers of the three events that the workers consume.

  The payload structs are JSON objects printed as \<open>json.Marshal\<close> prints them; the anonymous structs of the
  parsers are records.
\<close>

section \<open>Constructors\<close>

definition CompletedType :: string where "CompletedType = ''transfer.completed''"
definition CompletedVersion :: int16 where "CompletedVersion = 1"
definition FailedType :: string where "FailedType = ''transfer.failed''"
definition FailedVersion :: int16 where "FailedVersion = 1"
definition RequestedType :: string where "RequestedType = ''transfer.requested''"
definition RequestedVersion :: int16 where "RequestedVersion = 1"
definition RiskAssessedType :: string where "RiskAssessedType = ''transfer.risk_assessed''"
definition RiskAssessedVersion :: int16 where "RiskAssessedVersion = 1"
definition ReviewDecidedType :: string where "ReviewDecidedType = ''transfer.review_decided''"
definition ReviewDecidedVersion :: int16 where "ReviewDecidedVersion = 1"

lemmas event_consts = CompletedType_def CompletedVersion_def FailedType_def FailedVersion_def
  RequestedType_def RequestedVersion_def RiskAssessedType_def RiskAssessedVersion_def
  ReviewDecidedType_def ReviewDecidedVersion_def

text \<open>The members that describe the intent of a transfer.\<close>

definition intent_members :: "Transfer \<Rightarrow> (string \<times> jvalue) list" where
  "intent_members t =
     [(''transfer_id'', JString (t_id t)),
      (''requester_id'', JString (t_requesterID t)),
      (''source_account_id'', JString (t_sourceAccountID t)),
      (''destination_account_id'', JString (t_destinationAccountID t)),
      (''currency'', JString (currency_String (currency (t_amount t)))),
      (''amount_minor'', JInt (sint (minorUnits (t_amount t)))),
      (''requested_at'', JString (format_RFC3339Nano (t_requestedAt t)))]"

definition Completed :: "Transfer \<Rightarrow> draft result" where
  "Completed t =
     andThen (transfer_JournalEntry t) (\<lambda>_.
     NewDraft
       \<lparr>dp_EventType = CompletedType, dp_EventVersion = CompletedVersion,
        dp_AggregateType = ''transfer'', dp_AggregateID = t_id t, dp_AggregateVersion = 1,
        dp_CorrelationID = t_id t, dp_CausationID = [], dp_OccurredAt = t_requestedAt t,
        dp_Payload = json_print (JObject (intent_members t))\<rparr>)"

definition CompletedLifecycle :: "Lifecycle \<Rightarrow> gotime \<Rightarrow> string \<Rightarrow> draft result" where
  "CompletedLifecycle l completedAt causationID =
     (if l_status l \<noteq> StatusCompleted \<or> causationID = [] then fail TransferDomain ErrInvalidLifecycle
      else let t = l_transfer l in
        NewDraft
          \<lparr>dp_EventType = CompletedType, dp_EventVersion = CompletedVersion,
           dp_AggregateType = ''transfer'', dp_AggregateID = t_id t,
           dp_AggregateVersion = l_version l, dp_CorrelationID = t_id t,
           dp_CausationID = causationID, dp_OccurredAt = completedAt,
           dp_Payload = json_print (JObject (intent_members t))\<rparr>)"

definition Failed :: "Lifecycle \<Rightarrow> gotime \<Rightarrow> string \<Rightarrow> draft result" where
  "Failed l failedAt causationID =
     (if l_status l \<noteq> StatusFailed \<or> causationID = [] then fail TransferDomain ErrInvalidLifecycle
      else NewDraft
        \<lparr>dp_EventType = FailedType, dp_EventVersion = FailedVersion,
         dp_AggregateType = ''transfer'', dp_AggregateID = t_id (l_transfer l),
         dp_AggregateVersion = l_version l, dp_CorrelationID = t_id (l_transfer l),
         dp_CausationID = causationID, dp_OccurredAt = failedAt,
         dp_Payload = json_print (JObject
           [(''transfer_id'', JString (t_id (l_transfer l))),
            (''reason_code'', JString (l_failureReason l))])\<rparr>)"

definition Requested :: "Lifecycle \<Rightarrow> draft result" where
  "Requested l =
     (if l_status l \<noteq> StatusPendingRisk then fail TransferDomain ErrInvalidLifecycle
      else let t = l_transfer l in
        NewDraft
          \<lparr>dp_EventType = RequestedType, dp_EventVersion = RequestedVersion,
           dp_AggregateType = ''transfer'', dp_AggregateID = t_id t,
           dp_AggregateVersion = l_version l, dp_CorrelationID = t_id t, dp_CausationID = [],
           dp_OccurredAt = t_requestedAt t,
           dp_Payload = json_print (JObject
             (intent_members t @ [(''risk_policy_version'', JString (l_riskPolicyVersion l))]))\<rparr>)"

fun matchesRiskDecision :: "Status \<Rightarrow> Decision \<Rightarrow> bool" where
  "matchesRiskDecision status DecisionApprove \<longleftrightarrow> status = StatusApproved"
| "matchesRiskDecision status DecisionReview \<longleftrightarrow> status = StatusReviewRequired"
| "matchesRiskDecision status DecisionDecline \<longleftrightarrow> status = StatusDeclined"
| "matchesRiskDecision status DecisionUnknown \<longleftrightarrow> False"

definition signalPayload :: "Signal \<Rightarrow> jvalue" where
  "signalPayload s =
     JObject [(''code'', JString (signal_String (sg_code s))), (''contribution'', JInt (sg_contribution s))]"

definition RiskAssessed :: "Lifecycle \<Rightarrow> Evaluation \<Rightarrow> gotime \<Rightarrow> string \<Rightarrow> draft result" where
  "RiskAssessed l ev assessedAt causationID =
     (if \<not> matchesRiskDecision (l_status l) (ev_decision ev) \<or>
         ev_policyVersion ev \<noteq> l_riskPolicyVersion l \<or> ev_score ev < 0 \<or> 1000 < ev_score ev \<or>
         causationID = []
      then fail TransferDomain ErrInvalidLifecycle
      else NewDraft
        \<lparr>dp_EventType = RiskAssessedType, dp_EventVersion = RiskAssessedVersion,
         dp_AggregateType = ''transfer'', dp_AggregateID = t_id (l_transfer l),
         dp_AggregateVersion = l_version l, dp_CorrelationID = t_id (l_transfer l),
         dp_CausationID = causationID, dp_OccurredAt = assessedAt,
         dp_Payload = json_print (JObject
           [(''transfer_id'', JString (t_id (l_transfer l))),
            (''risk_policy_version'', JString (ev_policyVersion ev)),
            (''score'', JInt (ev_score ev)),
            (''decision'', JString (decision_String (ev_decision ev))),
            (''signals'', JArray (map signalPayload (ev_signals ev)))])\<rparr>)"

definition ReviewDecided :: "Lifecycle \<Rightarrow> string \<Rightarrow> gotime \<Rightarrow> draft result" where
  "ReviewDecided l subject decidedAt =
     (if l_status l \<noteq> StatusApproved \<and> l_status l \<noteq> StatusDeclined \<or> subject = []
      then fail TransferDomain ErrInvalidLifecycle
      else NewDraft
        \<lparr>dp_EventType = ReviewDecidedType, dp_EventVersion = ReviewDecidedVersion,
         dp_AggregateType = ''transfer'', dp_AggregateID = t_id (l_transfer l),
         dp_AggregateVersion = l_version l, dp_CorrelationID = t_id (l_transfer l),
         dp_CausationID = [], dp_OccurredAt = decidedAt,
         dp_Payload = json_print (JObject
           [(''transfer_id'', JString (t_id (l_transfer l))),
            (''decision'', JString (status_String (l_status l))),
            (''decided_by'', JString subject)])\<rparr>)"

section \<open>Parsers\<close>

record requestedPayload =
  rp_TransferID :: string
  rp_RequesterID :: string
  rp_SourceAccountID :: string
  rp_DestinationAccountID :: string
  rp_Currency :: string
  rp_AmountMinor :: int64
  rp_RequestedAt :: string
  rp_RiskPolicyVersion :: string

definition requested_fields :: "string list" where
  "requested_fields =
     [''transfer_id'', ''requester_id'', ''source_account_id'', ''destination_account_id'', ''currency'',
      ''amount_minor'', ''requested_at'', ''risk_policy_version'']"

definition put_requested :: "string \<Rightarrow> jvalue \<Rightarrow> requestedPayload \<Rightarrow> requestedPayload option" where
  "put_requested n v p =
     (if n = ''transfer_id'' then
        map_option (\<lambda>x. p\<lparr>rp_TransferID := x\<rparr>) (into_string v (rp_TransferID p))
      else if n = ''requester_id'' then
        map_option (\<lambda>x. p\<lparr>rp_RequesterID := x\<rparr>) (into_string v (rp_RequesterID p))
      else if n = ''source_account_id'' then
        map_option (\<lambda>x. p\<lparr>rp_SourceAccountID := x\<rparr>) (into_string v (rp_SourceAccountID p))
      else if n = ''destination_account_id'' then
        map_option (\<lambda>x. p\<lparr>rp_DestinationAccountID := x\<rparr>) (into_string v (rp_DestinationAccountID p))
      else if n = ''currency'' then
        map_option (\<lambda>x. p\<lparr>rp_Currency := x\<rparr>) (into_string v (rp_Currency p))
      else if n = ''amount_minor'' then
        map_option (\<lambda>x. p\<lparr>rp_AmountMinor := x\<rparr>) (into_int64 v (rp_AmountMinor p))
      else if n = ''requested_at'' then
        map_option (\<lambda>x. p\<lparr>rp_RequestedAt := x\<rparr>) (into_string v (rp_RequestedAt p))
      else map_option (\<lambda>x. p\<lparr>rp_RiskPolicyVersion := x\<rparr>) (into_string v (rp_RiskPolicyVersion p)))"

definition zero_requested :: requestedPayload where
  "zero_requested =
     \<lparr>rp_TransferID = [], rp_RequesterID = [], rp_SourceAccountID = [], rp_DestinationAccountID = [],
      rp_Currency = [], rp_AmountMinor = 0, rp_RequestedAt = [], rp_RiskPolicyVersion = []\<rparr>"

text \<open>Every error of a parser is replaced by \<open>event.ErrInvalidEnvelope\<close>.\<close>

definition invalid_envelope :: "'a result \<Rightarrow> 'a result" where
  "invalid_envelope r = (case r of Inl _ \<Rightarrow> fail Event ErrInvalidEnvelope | Inr x \<Rightarrow> Inr x)"

definition decoded :: "'a option \<Rightarrow> 'a result" where
  "decoded r = (case r of None \<Rightarrow> fail Event ErrInvalidEnvelope | Some x \<Rightarrow> Inr x)"

definition ParseRequested :: "envelope \<Rightarrow> Lifecycle result" where
  "ParseRequested e =
     (let d = en_draft e in
      if dr_eventType d \<noteq> RequestedType \<or> dr_eventVersion d \<noteq> RequestedVersion \<or>
         dr_aggregateType d \<noteq> ''transfer'' \<or> dr_aggregateVersion d \<noteq> 1 \<or> dr_causationID d \<noteq> []
      then fail Event ErrInvalidEnvelope
      else andThen (decoded (decode_strict requested_fields put_requested zero_requested (dr_payload d)))
        (\<lambda>p.
          if rp_TransferID p \<noteq> dr_aggregateID d \<or> dr_correlationID d \<noteq> rp_TransferID p
          then fail Event ErrInvalidEnvelope
          else andThen (invalid_envelope (ParseCurrency (rp_Currency p))) (\<lambda>cur.
            andThen (invalid_envelope (NewMoney (rp_AmountMinor p) cur)) (\<lambda>amount.
            andThen (decoded (parse_RFC3339Nano (rp_RequestedAt p))) (\<lambda>requestedAt.
            andThen (invalid_envelope (NewTransfer
              \<lparr>tp_ID = rp_TransferID p, tp_IdempotencyKey = ''event-request'',
               tp_RequesterID = rp_RequesterID p, tp_SourceAccountID = rp_SourceAccountID p,
               tp_DestinationAccountID = rp_DestinationAccountID p, tp_Amount = amount,
               tp_RequestedAt = requestedAt\<rparr>)) (\<lambda>transfer.
            invalid_envelope (NewPendingLifecycle transfer (rp_RiskPolicyVersion p))))))))"

record riskAssessment =
  as_transferID :: string
  as_riskPolicyVersion :: string
  as_decision :: Decision

record assessedPayload =
  ap_TransferID :: string
  ap_RiskPolicyVersion :: string
  ap_Score :: int64
  ap_Decision :: string

text \<open>The signals are decoded for their shape; no code reads them.\<close>

record signalFields =
  sf_Code :: string
  sf_Contribution :: int64

definition put_signal :: "string \<Rightarrow> jvalue \<Rightarrow> signalFields \<Rightarrow> signalFields option" where
  "put_signal n v p =
     (if n = ''code'' then map_option (\<lambda>x. p\<lparr>sf_Code := x\<rparr>) (into_string v (sf_Code p))
      else map_option (\<lambda>x. p\<lparr>sf_Contribution := x\<rparr>) (into_int64 v (sf_Contribution p)))"

definition signals_ok :: "jvalue \<Rightarrow> bool" where
  "signals_ok v =
     (case v of
        JArray vs \<Rightarrow>
          list_all (\<lambda>x. decode_struct [''code'', ''contribution''] put_signal x
            \<lparr>sf_Code = [], sf_Contribution = 0\<rparr> \<noteq> None) vs
      | JNull \<Rightarrow> True
      | _ \<Rightarrow> False)"

definition assessed_fields :: "string list" where
  "assessed_fields = [''transfer_id'', ''risk_policy_version'', ''score'', ''decision'', ''signals'']"

definition put_assessed :: "string \<Rightarrow> jvalue \<Rightarrow> assessedPayload \<Rightarrow> assessedPayload option" where
  "put_assessed n v p =
     (if n = ''transfer_id'' then
        map_option (\<lambda>x. p\<lparr>ap_TransferID := x\<rparr>) (into_string v (ap_TransferID p))
      else if n = ''risk_policy_version'' then
        map_option (\<lambda>x. p\<lparr>ap_RiskPolicyVersion := x\<rparr>) (into_string v (ap_RiskPolicyVersion p))
      else if n = ''score'' then map_option (\<lambda>x. p\<lparr>ap_Score := x\<rparr>) (into_int64 v (ap_Score p))
      else if n = ''decision'' then
        map_option (\<lambda>x. p\<lparr>ap_Decision := x\<rparr>) (into_string v (ap_Decision p))
      else if signals_ok v then Some p else None)"

definition riskDecision :: "string \<Rightarrow> Decision \<times> bool" where
  "riskDecision v =
     (if v = decision_String DecisionApprove then (DecisionApprove, True)
      else if v = decision_String DecisionReview then (DecisionReview, True)
      else if v = decision_String DecisionDecline then (DecisionDecline, True)
      else (DecisionUnknown, False))"

definition ParseRiskAssessed :: "envelope \<Rightarrow> riskAssessment result" where
  "ParseRiskAssessed e =
     (let d = en_draft e in
      if dr_eventType d \<noteq> RiskAssessedType \<or> dr_eventVersion d \<noteq> RiskAssessedVersion \<or>
         dr_aggregateType d \<noteq> ''transfer'' \<or> dr_aggregateVersion d \<noteq> 2 \<or> dr_causationID d = []
      then fail Event ErrInvalidEnvelope
      else andThen (decoded (decode_strict assessed_fields put_assessed
          \<lparr>ap_TransferID = [], ap_RiskPolicyVersion = [], ap_Score = 0, ap_Decision = []\<rparr> (dr_payload d)))
        (\<lambda>p.
          if ap_TransferID p \<noteq> dr_aggregateID d \<or> dr_correlationID d \<noteq> ap_TransferID p \<or>
             ap_RiskPolicyVersion p = [] \<or> ap_Score p <s 0 \<or> 1000 <s ap_Score p
          then fail Event ErrInvalidEnvelope
          else case riskDecision (ap_Decision p) of (decision, ok) \<Rightarrow>
            if \<not> ok then fail Event ErrInvalidEnvelope
            else Inr \<lparr>as_transferID = ap_TransferID p, as_riskPolicyVersion = ap_RiskPolicyVersion p,
                      as_decision = decision\<rparr>))"

record reviewDecision =
  rd_transferID :: string
  rd_decision :: string

record decidedPayload =
  dc_TransferID :: string
  dc_Decision :: string
  dc_DecidedBy :: string

definition decided_fields :: "string list" where
  "decided_fields = [''transfer_id'', ''decision'', ''decided_by'']"

definition put_decided :: "string \<Rightarrow> jvalue \<Rightarrow> decidedPayload \<Rightarrow> decidedPayload option" where
  "put_decided n v p =
     (if n = ''transfer_id'' then
        map_option (\<lambda>x. p\<lparr>dc_TransferID := x\<rparr>) (into_string v (dc_TransferID p))
      else if n = ''decision'' then
        map_option (\<lambda>x. p\<lparr>dc_Decision := x\<rparr>) (into_string v (dc_Decision p))
      else map_option (\<lambda>x. p\<lparr>dc_DecidedBy := x\<rparr>) (into_string v (dc_DecidedBy p)))"

definition ParseReviewDecided :: "envelope \<Rightarrow> reviewDecision result" where
  "ParseReviewDecided e =
     (let d = en_draft e in
      if dr_eventType d \<noteq> ReviewDecidedType \<or> dr_eventVersion d \<noteq> ReviewDecidedVersion \<or>
         dr_aggregateType d \<noteq> ''transfer'' \<or> dr_aggregateVersion d <s 3
      then fail Event ErrInvalidEnvelope
      else andThen (decoded (decode_strict decided_fields put_decided
          \<lparr>dc_TransferID = [], dc_Decision = [], dc_DecidedBy = []\<rparr> (dr_payload d))) (\<lambda>p.
        if dc_TransferID p \<noteq> dr_aggregateID d \<or> dr_correlationID d \<noteq> dc_TransferID p \<or>
           dc_DecidedBy p = [] \<or> dc_Decision p \<noteq> ''approved'' \<and> dc_Decision p \<noteq> ''declined''
        then fail Event ErrInvalidEnvelope
        else Inr \<lparr>rd_transferID = dc_TransferID p, rd_decision = dc_Decision p\<rparr>))"


section \<open>Printed payloads make valid drafts\<close>

lemma canonical_ascii: "isCanonicalUUID s \<Longrightarrow> ascii s"
  by (simp add: canonical_visible ascii_visible)

lemma canonical_length: "isCanonicalUUID s \<Longrightarrow> length s = 36"
  by (simp add: isCanonicalUUID_iff uuid_shape_def)

lemma currency_ascii: "ascii (currency_String c)" and currency_length: "length (currency_String c) \<le> 3"
  by (cases c; auto simp: ascii_def is_upper_def char_le_code)+

lemma policy_ascii: "validPolicyVersion v \<Longrightarrow> ascii v" and policy_length: "validPolicyVersion v \<Longrightarrow> length v \<le> 64"
  by (simp_all add: validPolicyVersion_def maxLifecycleCodeBytes_def ascii_visible)

lemma code_ascii: "validLifecycleCode v \<Longrightarrow> ascii v" and code_length: "validLifecycleCode v \<Longrightarrow> length v \<le> 64"
  by (auto simp: validLifecycleCode_def maxLifecycleCodeBytes_def ascii_def list_all_iff is_lower_def is_digit_def
      char_le_code)

lemma fits_numerals [simp]:
  "fits 3 (JObject kvs) \<longleftrightarrow> (\<forall>(k, v) \<in> set kvs. fits 2 v)"
  "fits 2 (JArray vs) \<longleftrightarrow> (\<forall>v \<in> set vs. fits 1 v)"
  "fits 1 (JObject kvs) \<longleftrightarrow> (\<forall>(k, v) \<in> set kvs. fits 0 v)"
  by (simp_all only: numeral_3_eq_3 numeral_2_eq_2 One_nat_def fits.simps)

text \<open>A bound on the length of a printed value.\<close>

fun jbound :: "jvalue \<Rightarrow> nat" where
  "jbound JNull = 4"
| "jbound (JBool b) = 5"
| "jbound (JNumber t) = length t"
| "jbound (JString s) = 6 * length s + 2"
| "jbound (JArray vs) = 2 + sum_list (map (\<lambda>v. jbound v + 1) vs)"
| "jbound (JObject kvs) = 2 + sum_list (map (\<lambda>(k, v). 6 * length k + jbound v + 4) kvs)"

lemma length_comma_separated: "length (comma_separated xs) \<le> sum_list (map (\<lambda>x. length x + 1) xs)"
proof (induction xs)
  case (Cons x xs)
  then show ?case by (cases xs) (simp_all add: comma_separated_Cons)
qed simp

lemma length_print: "plain v \<Longrightarrow> length (json_print v) \<le> jbound v"
proof (induction v rule: json_print.induct)
  case (4 s)
  then show ?case using length_appendString [of s] by simp
next
  case (5 vs)
  have "length (elements_text vs) \<le> sum_list (map (\<lambda>v. length (json_print v) + 1) vs)"
    using length_comma_separated [of "map json_print vs"] by (simp add: comp_def)
  also have "\<dots> \<le> sum_list (map (\<lambda>v. jbound v + 1) vs)"
    using 5 by (intro sum_list_mono) auto
  finally show ?case by simp
next
  case (6 kvs)
  have "length (members_text kvs) \<le> sum_list (map (\<lambda>kv. length (member (fst kv) (json_print (snd kv))) + 1) kvs)"
    using length_comma_separated [of "map (\<lambda>(k, v). member k (json_print v)) kvs"]
    by (simp add: comp_def split_beta)
  also have "\<dots> \<le> sum_list (map (\<lambda>(k, v). 6 * length k + jbound v + 4) kvs)"
  proof (intro sum_list_mono)
    fix kv
    assume kv: "kv \<in> set kvs"
    obtain k v where [simp]: "kv = (k, v)" by fastforce
    have "length (appendString k) \<le> 6 * length k + 2" "length (json_print v) \<le> jbound v"
      using 6 kv length_appendString [of k] by auto
    then show "length (member (fst kv) (json_print (snd kv))) + 1 \<le>
        (case kv of (k, v) \<Rightarrow> 6 * length k + jbound v + 4)"
      by (simp add: member_def)
  qed
  finally show ?case by simp
qed simp_all

lemma normalizePayload_bounded:
  assumes "plain (JObject kvs)" "fits 3 (JObject kvs)" "jbound (JObject kvs) \<le> 32768"
  shows "normalizePayload (json_print (JObject kvs)) = Inr (json_print (JObject kvs))"
  using normalizePayload_print [OF assms(1,2)] length_print [OF assms(1)] assms(3)
  by (simp add: maxNestingDepth_def maxPayloadBytes_def del: json_print.simps jbound.simps)

lemma transfer_event_types:
  "validEventType CompletedType" "validEventType FailedType" "validEventType RequestedType"
  "validEventType RiskAssessedType" "validEventType ReviewDecidedType" "validAggregateType ''transfer''"
  by code_simp+

text \<open>What \<open>NewDraft\<close> makes of a transfer's event: the payload is kept byte for byte.\<close>

definition transfer_draft ::
  "string \<Rightarrow> string \<Rightarrow> int64 \<Rightarrow> string \<Rightarrow> gotime \<Rightarrow> jvalue \<Rightarrow> draft" where
  "transfer_draft eventType transferID version causationID at payload =
     \<lparr>dr_eventType = eventType, dr_eventVersion = 1, dr_aggregateType = ''transfer'',
      dr_aggregateID = transferID, dr_aggregateVersion = version, dr_correlationID = transferID,
      dr_causationID = causationID, dr_occurredAt = at, dr_payload = json_print payload\<rparr>"

lemma NewDraft_transfer:
  assumes "validEventType eventType" "isCanonicalUUID transferID" "0 < sint version"
    "causationID = [] \<or> isCanonicalUUID causationID" "\<not> IsZero at"
    "plain (JObject kvs)" "fits 3 (JObject kvs)" "jbound (JObject kvs) \<le> 32768"
  shows "NewDraft
      \<lparr>dp_EventType = eventType, dp_EventVersion = 1, dp_AggregateType = ''transfer'',
       dp_AggregateID = transferID, dp_AggregateVersion = version, dp_CorrelationID = transferID,
       dp_CausationID = causationID, dp_OccurredAt = at, dp_Payload = json_print (JObject kvs)\<rparr> =
    Inr (transfer_draft eventType transferID version causationID at (JObject kvs))"
proof -
  note p = normalizePayload_bounded [OF assms(6-8)]
  have "validPayload (json_print (JObject kvs))" by (rule normalizePayload_valid(1) [OF p])
  with p assms(1-5) transfer_event_types(6) show ?thesis
    by (auto simp: NewDraft_Inr draft_validate_None transfer_draft_def normalizeUUID_canonical IsZero_def
        simp del: json_print.simps)
qed

text \<open>What a consumer receives: the event is given its identifier, published, and parsed from the bytes.\<close>

definition delivered :: "string \<Rightarrow> draft result \<Rightarrow> envelope result" where
  "delivered eventID event =
     andThen (andThen (andThen event (NewEnvelope eventID)) json_Marshal_envelope) ParseEnvelope"

lemma fits_mono: "fits d v \<Longrightarrow> d \<le> n \<Longrightarrow> fits n v"
proof (induction d v arbitrary: n rule: fits.induct)
  case (3 d vs)
  then obtain m where "n = Suc m" "d \<le> m" by (cases n) auto
  with 3 show ?case by auto
next
  case (4 d kvs)
  then obtain m where "n = Suc m" "d \<le> m" by (cases n) auto
  with 4 show ?case by fastforce
qed auto

lemma delivered_transfer:
  assumes "NewDraft ps = Inr d" "isCanonicalUUID eventID" "in_calendar (dp_OccurredAt ps)"
    "dp_Payload ps = json_print (JObject kvs)" "plain (JObject kvs)" "fits 3 (JObject kvs)"
  shows "delivered eventID (Inr d) = Inr \<lparr>en_eventID = eventID, en_draft = d\<rparr>"
proof -
  have "fits 100 (JObject kvs)" by (rule fits_mono [OF assms(6)]) simp
  then have "andThen (andThen (NewEnvelope eventID d) json_Marshal_envelope) ParseEnvelope = NewEnvelope eventID d"
    by (rule envelope_transport [OF assms(2,1,3-5)])
  then show ?thesis
    using assms(1,2) by (simp add: delivered_def NewEnvelope_Inr NewDraft_Inr normalizeUUID_canonical)
qed

section \<open>Intents\<close>

lemma intent_plain:
  assumes "transfer_ok t" "in_calendar (t_requestedAt t)"
  shows "\<forall>(k, v) \<in> set (intent_members t). ascii k \<and> plain v \<and> fits d v"
    "sum_list (map (\<lambda>(k, v). 6 * length k + jbound v + 4) (intent_members t)) \<le> 3000"
proof -
  have "ascii (format_RFC3339Nano (t_requestedAt t))" by (rule ascii_visible [OF bare_visible [OF format_shape(2) [OF assms(2)]]])
  then show "\<forall>(k, v) \<in> set (intent_members t). ascii k \<and> plain v \<and> fits d v"
    using assms(1) by (cases d) (auto simp: intent_members_def transfer_ok_def canonical_ascii currency_ascii)
  have "length (int_text (sint (minorUnits (t_amount t)))) \<le> 20" by (rule length_int_text) simp
  with assms(1) format_shape(1) [OF assms(2)] currency_length [of "currency (t_amount t)"]
  show "sum_list (map (\<lambda>(k, v). 6 * length k + jbound v + 4) (intent_members t)) \<le> 3000"
    by (simp add: intent_members_def transfer_ok_def canonical_length)
qed


lemma intent_object:
  assumes "transfer_ok t" "in_calendar (t_requestedAt t)"
  shows "plain (JObject (intent_members t))" "fits 3 (JObject (intent_members t))"
    "jbound (JObject (intent_members t)) \<le> 32768"
proof -
  show "plain (JObject (intent_members t))" "fits 3 (JObject (intent_members t))"
    using intent_plain(1) [OF assms, of 2] by auto
  show "jbound (JObject (intent_members t)) \<le> 32768" using intent_plain(2) [OF assms] by simp
qed

lemma Completed_total:
  assumes "transfer_ok t" "in_calendar (t_requestedAt t)"
  shows "Completed t = Inr (transfer_draft CompletedType (t_id t) 1 [] (t_requestedAt t) (JObject (intent_members t)))"
proof -
  have "NewDraft
      \<lparr>dp_EventType = CompletedType, dp_EventVersion = 1, dp_AggregateType = ''transfer'',
       dp_AggregateID = t_id t, dp_AggregateVersion = 1, dp_CorrelationID = t_id t,
       dp_CausationID = [], dp_OccurredAt = t_requestedAt t, dp_Payload = json_print (JObject (intent_members t))\<rparr> =
    Inr (transfer_draft CompletedType (t_id t) 1 [] (t_requestedAt t) (JObject (intent_members t)))"
    using assms(1) intent_object [OF assms] transfer_event_types(1)
    by (intro NewDraft_transfer) (simp_all add: transfer_ok_def del: plain.simps fits.simps jbound.simps)
  then show ?thesis
    using transfer_JournalEntry_eq [OF assms(1)] by (simp add: Completed_def CompletedVersion_def del: json_print.simps)
qed

abbreviation requested_members :: "Lifecycle \<Rightarrow> (string \<times> jvalue) list" where
  "requested_members l \<equiv>
     intent_members (l_transfer l) @ [(''risk_policy_version'', JString (l_riskPolicyVersion l))]"

lemma requested_plain:
  assumes "lifecycle_ok l" "l_status l = StatusPendingRisk" "in_calendar (t_requestedAt (l_transfer l))"
  shows "plain (JObject (requested_members l))" "fits 3 (JObject (requested_members l))"
    "jbound (JObject (requested_members l)) \<le> 32768"
proof -
  have t: "transfer_ok (l_transfer l)" and v: "validPolicyVersion (l_riskPolicyVersion l)"
    using assms(1,2) by (simp_all add: lifecycle_ok_def)
  show "plain (JObject (requested_members l))" "fits 3 (JObject (requested_members l))"
    using intent_plain(1) [OF t assms(3), of 2] v by (auto simp: policy_ascii)
  show "jbound (JObject (requested_members l)) \<le> 32768"
    using intent_plain(2) [OF t assms(3)] policy_length [OF v] by simp
qed

lemma Requested_total:
  assumes "lifecycle_ok l" "l_status l = StatusPendingRisk" "in_calendar (t_requestedAt (l_transfer l))"
  shows "Requested l = Inr (transfer_draft RequestedType (t_id (l_transfer l)) 1 [] (t_requestedAt (l_transfer l))
    (JObject (requested_members l)))"
proof -
  have "transfer_ok (l_transfer l)" "l_version l = 1"
    using assms(1,2) by (simp_all add: lifecycle_ok_def int64_eq_iff)
  then have "NewDraft
      \<lparr>dp_EventType = RequestedType, dp_EventVersion = 1, dp_AggregateType = ''transfer'',
       dp_AggregateID = t_id (l_transfer l), dp_AggregateVersion = l_version l,
       dp_CorrelationID = t_id (l_transfer l), dp_CausationID = [], dp_OccurredAt = t_requestedAt (l_transfer l),
       dp_Payload = json_print (JObject (requested_members l))\<rparr> =
    Inr (transfer_draft RequestedType (t_id (l_transfer l)) (l_version l) [] (t_requestedAt (l_transfer l))
      (JObject (requested_members l)))"
    using transfer_event_types(3) requested_plain [OF assms]
    by (intro NewDraft_transfer) (simp_all add: transfer_ok_def del: plain.simps fits.simps jbound.simps)
  with \<open>l_version l = 1\<close> assms(2) show ?thesis
    by (simp add: Requested_def Let_def RequestedVersion_def del: json_print.simps)
qed

lemma decode_requested:
  assumes "lifecycle_ok l" "l_status l = StatusPendingRisk" "in_calendar (t_requestedAt (l_transfer l))"
  shows "decode_strict requested_fields put_requested zero_requested (json_print (JObject (requested_members l))) =
    Some \<lparr>rp_TransferID = t_id (l_transfer l), rp_RequesterID = t_requesterID (l_transfer l),
      rp_SourceAccountID = t_sourceAccountID (l_transfer l),
      rp_DestinationAccountID = t_destinationAccountID (l_transfer l),
      rp_Currency = currency_String (currency (t_amount (l_transfer l))),
      rp_AmountMinor = minorUnits (t_amount (l_transfer l)),
      rp_RequestedAt = format_RFC3339Nano (t_requestedAt (l_transfer l)),
      rp_RiskPolicyVersion = l_riskPolicyVersion l\<rparr>"
proof -
  have "decode_strict requested_fields put_requested zero_requested (json_print (JObject (requested_members l))) =
      decode_struct requested_fields put_requested (JObject (requested_members l)) zero_requested"
    by (rule decode_strict_print [OF requested_plain(1,2) [OF assms]]) (simp add: maxNestingDepth_def)
  then show ?thesis
    by (simp add: decode_struct_def intent_members_def requested_fields_def put_requested_def zero_requested_def
        del: json_print.simps)
qed

lemma ParseRequested_draft:
  assumes "lifecycle_ok l" "l_status l = StatusPendingRisk" "in_calendar (t_requestedAt (l_transfer l))"
  shows "ParseRequested \<lparr>en_eventID = eventID, en_draft = transfer_draft RequestedType (t_id (l_transfer l)) 1 []
      (t_requestedAt (l_transfer l)) (JObject (requested_members l))\<rparr> =
    Inr (l\<lparr>l_transfer := (l_transfer l)\<lparr>t_idempotencyKey := ''event-request''\<rparr>\<rparr>)"
proof -
  let ?t = "(l_transfer l)\<lparr>t_idempotencyKey := ''event-request''\<rparr>"
  have t: "transfer_ok (l_transfer l)" using assms(1) by (simp add: lifecycle_ok_def)
  have "validIdempotencyKey ''event-request''" by code_simp
  with t have ok: "transfer_ok ?t" by (simp add: transfer_ok_def)
  have n: "NewTransfer
      \<lparr>tp_ID = t_id (l_transfer l), tp_IdempotencyKey = ''event-request'',
       tp_RequesterID = t_requesterID (l_transfer l), tp_SourceAccountID = t_sourceAccountID (l_transfer l),
       tp_DestinationAccountID = t_destinationAccountID (l_transfer l), tp_Amount = t_amount (l_transfer l),
       tp_RequestedAt = t_requestedAt (l_transfer l)\<rparr> = Inr ?t"
    using NewTransfer_params [OF ok] by (simp add: transfer_params_def)
  have m: "NewMoney (minorUnits (t_amount (l_transfer l))) (currency (t_amount (l_transfer l))) =
      Inr (t_amount (l_transfer l))"
    using t by (simp add: transfer_ok_def NewMoney_def)
  have p: "NewPendingLifecycle ?t (l_riskPolicyVersion l) = Inr (l\<lparr>l_transfer := ?t\<rparr>)"
    using assms(1,2) ok
    by (simp add: NewPendingLifecycle_def NewLifecycle_Inr lifecycle_ok_def pendingRiskVersion_def
        validPolicyVersion_trim int64_eq_iff)
  show ?thesis
    using decode_requested [OF assms(1-3)] parse_format_RFC3339Nano [OF assms(3)] n m p t
    by (simp add: ParseRequested_def transfer_draft_def Let_def RequestedVersion_def decoded_def invalid_envelope_def
        transfer_ok_def del: json_print.simps)
qed

text \<open>
  C36: A valid pending lifecycle that was requested in the years 0 to 9999, the only ones that JSON times can express,
  survives its journey as a \<open>transfer.requested\<close> event. Building the event, giving
  it a canonical identifier, publishing it as JSON and parsing the bytes yields the same transfer, amount, request
  time and policy version, in state pending; only the idempotency key, which the event does not carry, is
  replaced.
\<close>

theorem requested_roundtrip:
  assumes "lifecycle_ok l" "l_status l = StatusPendingRisk" "in_calendar (t_requestedAt (l_transfer l))"
    and "isCanonicalUUID eventID"
  shows "andThen (delivered eventID (Requested l)) ParseRequested =
    Inr (l\<lparr>l_transfer := (l_transfer l)\<lparr>t_idempotencyKey := ''event-request''\<rparr>\<rparr>)"
proof -
  let ?d = "transfer_draft RequestedType (t_id (l_transfer l)) 1 [] (t_requestedAt (l_transfer l))
    (JObject (requested_members l))"
  have "delivered eventID (Inr ?d) = Inr \<lparr>en_eventID = eventID, en_draft = ?d\<rparr>"
    using Requested_total [OF assms(1-3)] assms(2-4) requested_plain(1,2) [OF assms(1-3)]
    by (intro delivered_transfer [where kvs = "requested_members l"])
      (auto simp: Requested_def Let_def simp del: plain.simps fits.simps fits_numerals json_print.simps split: if_splits)
  with ParseRequested_draft [OF assms(1-3)] Requested_total [OF assms(1-3)] show ?thesis by simp
qed

section \<open>The other events\<close>

lemma CompletedLifecycle_total:
  assumes "lifecycle_ok l" "l_status l = StatusCompleted" "in_calendar (t_requestedAt (l_transfer l))"
    "isCanonicalUUID causationID" "\<not> IsZero completedAt"
  shows "CompletedLifecycle l completedAt causationID =
    Inr (transfer_draft CompletedType (t_id (l_transfer l)) (l_version l) causationID completedAt
      (JObject (intent_members (l_transfer l))))"
proof -
  have t: "transfer_ok (l_transfer l)" "0 < sint (l_version l)" "causationID \<noteq> []"
    using assms by (auto simp: lifecycle_ok_def)
  have "NewDraft
      \<lparr>dp_EventType = CompletedType, dp_EventVersion = 1, dp_AggregateType = ''transfer'',
       dp_AggregateID = t_id (l_transfer l), dp_AggregateVersion = l_version l,
       dp_CorrelationID = t_id (l_transfer l), dp_CausationID = causationID, dp_OccurredAt = completedAt,
       dp_Payload = json_print (JObject (intent_members (l_transfer l)))\<rparr> =
    Inr (transfer_draft CompletedType (t_id (l_transfer l)) (l_version l) causationID completedAt
      (JObject (intent_members (l_transfer l))))"
    using t assms(4,5) intent_object [OF t(1) assms(3)] transfer_event_types(1)
    by (intro NewDraft_transfer) (simp_all add: transfer_ok_def del: plain.simps fits.simps jbound.simps)
  with t(3) assms(2) show ?thesis
    by (simp add: CompletedLifecycle_def CompletedVersion_def Let_def del: json_print.simps)
qed

lemma Failed_total:
  assumes "lifecycle_ok l" "l_status l = StatusFailed" "isCanonicalUUID causationID" "\<not> IsZero failedAt"
  shows "Failed l failedAt causationID =
    Inr (transfer_draft FailedType (t_id (l_transfer l)) (l_version l) causationID failedAt
      (JObject [(''transfer_id'', JString (t_id (l_transfer l))), (''reason_code'', JString (l_failureReason l))]))"
proof -
  have t: "isCanonicalUUID (t_id (l_transfer l))" "0 < sint (l_version l)" "causationID \<noteq> []"
    "validLifecycleCode (l_failureReason l)"
    using assms by (auto simp: lifecycle_ok_def transfer_ok_def)
  have "NewDraft
      \<lparr>dp_EventType = FailedType, dp_EventVersion = 1, dp_AggregateType = ''transfer'',
       dp_AggregateID = t_id (l_transfer l), dp_AggregateVersion = l_version l,
       dp_CorrelationID = t_id (l_transfer l), dp_CausationID = causationID, dp_OccurredAt = failedAt,
       dp_Payload = json_print (JObject
         [(''transfer_id'', JString (t_id (l_transfer l))), (''reason_code'', JString (l_failureReason l))])\<rparr> =
    Inr (transfer_draft FailedType (t_id (l_transfer l)) (l_version l) causationID failedAt (JObject
      [(''transfer_id'', JString (t_id (l_transfer l))), (''reason_code'', JString (l_failureReason l))]))"
    using t assms(3,4) transfer_event_types(2) code_length [OF t(4)]
    by (intro NewDraft_transfer) (simp_all add: canonical_ascii code_ascii canonical_length)
  with t(3) assms(2) show ?thesis
    by (simp add: Failed_def FailedVersion_def Let_def del: json_print.simps)
qed

definition signals_small :: "Evaluation \<Rightarrow> bool" where
  "signals_small ev \<longleftrightarrow> length (ev_signals ev) \<le> 20 \<and> (\<forall>s \<in> set (ev_signals ev). in_int64 (sg_contribution s))"

abbreviation assessed_members :: "Lifecycle \<Rightarrow> Evaluation \<Rightarrow> (string \<times> jvalue) list" where
  "assessed_members l ev \<equiv>
     [(''transfer_id'', JString (t_id (l_transfer l))),
      (''risk_policy_version'', JString (ev_policyVersion ev)),
      (''score'', JInt (ev_score ev)),
      (''decision'', JString (decision_String (ev_decision ev))),
      (''signals'', JArray (map signalPayload (ev_signals ev)))]"

lemma decision_ascii: "ascii (decision_String d)" and decision_length: "length (decision_String d) \<le> 7"
  by (cases d; simp)+

lemma signal_shape:
  assumes "in_int64 (sg_contribution s)"
  shows "plain (signalPayload s)" "fits 1 (signalPayload s)" "jbound (signalPayload s) \<le> 300"
    "decode_struct [''code'', ''contribution''] put_signal (signalPayload s) \<lparr>sf_Code = [], sf_Contribution = 0\<rparr> \<noteq> None"
proof -
  have c: "ascii (signal_String (sg_code s))" "length (signal_String (sg_code s)) \<le> 25"
    by (cases "sg_code s"; simp)+
  show "plain (signalPayload s)" "fits 1 (signalPayload s)" "jbound (signalPayload s) \<le> 300"
    using c length_int_text [OF assms] by (auto simp: signalPayload_def)
  show "decode_struct [''code'', ''contribution''] put_signal (signalPayload s) \<lparr>sf_Code = [], sf_Contribution = 0\<rparr> \<noteq> None"
    using assms by (simp add: signalPayload_def decode_struct_def put_signal_def into_int64_def text_int_text)
qed

lemma Evaluate_small:
  assumes "Evaluate p i = Inr ev"
  shows "signals_small ev" "risk_validPolicyVersion (ev_policyVersion ev)" "in_int64 (ev_score ev)"
proof -
  show "signals_small ev"
    using assms by (auto simp: Evaluate_def newEvaluation_def signals_small_def score_defs in_int64_def
        split: option.splits if_splits)
  have "policy_validate p = None" using assms by (auto simp: Evaluate_def split: option.splits)
  with Evaluate_score [OF assms] show "risk_validPolicyVersion (ev_policyVersion ev)"
    by (auto simp: policy_validate_def split: if_splits)
  show "in_int64 (ev_score ev)" using Evaluate_score [OF assms] by (simp add: in_int64_def)
qed

lemma assessed_object:
  assumes "isCanonicalUUID (t_id (l_transfer l))" "Evaluate p i = Inr ev"
  shows "plain (JObject (assessed_members l ev))" "fits 3 (JObject (assessed_members l ev))"
    "jbound (JObject (assessed_members l ev)) \<le> 32768"
proof -
  note small = Evaluate_small [OF assms(2)]
  have v: "ascii (ev_policyVersion ev)" "length (ev_policyVersion ev) \<le> 64"
    using small(2) by (simp_all add: risk_validPolicyVersion_def maxPolicyVersionBytes_def ascii_visible)
  have sg: "plain (signalPayload s)" "fits 1 (signalPayload s)" "jbound (signalPayload s) \<le> 300"
    if "s \<in> set (ev_signals ev)" for s
    using that small(1) signal_shape [of s] by (auto simp: signals_small_def)
  show "plain (JObject (assessed_members l ev))" "fits 3 (JObject (assessed_members l ev))"
    using assms(1) v(1) sg(1,2) by (auto simp: canonical_ascii decision_ascii)
  have "(\<Sum>v\<leftarrow>map signalPayload (ev_signals ev). jbound v + 1) \<le> (\<Sum>s\<leftarrow>ev_signals ev. 301)"
    unfolding map_map comp_def using sg(3) by (intro sum_list_mono) auto
  also have "\<dots> \<le> 301 * 20"
    using small(1) by (simp add: signals_small_def sum_list_triv)
  finally have "(\<Sum>v\<leftarrow>map signalPayload (ev_signals ev). jbound v + 1) \<le> 6020" by simp
  then show "jbound (JObject (assessed_members l ev)) \<le> 32768"
    using v(2) decision_length [of "ev_decision ev"] length_int_text [OF small(3)] assms(1)
    by (simp add: canonical_length)
qed

lemma RiskAssessed_total:
  assumes "lifecycle_ok l" "matchesRiskDecision (l_status l) (ev_decision ev)" "Evaluate p i = Inr ev"
    "ev_policyVersion ev = l_riskPolicyVersion l" "isCanonicalUUID causationID" "\<not> IsZero assessedAt"
  shows "RiskAssessed l ev assessedAt causationID =
    Inr (transfer_draft RiskAssessedType (t_id (l_transfer l)) (l_version l) causationID assessedAt
      (JObject (assessed_members l ev)))"
proof -
  have t: "isCanonicalUUID (t_id (l_transfer l))" "0 < sint (l_version l)" "causationID \<noteq> []"
    using assms(1,5) lifecycle_ok_version by (auto simp: lifecycle_ok_def transfer_ok_def)
  have "NewDraft
      \<lparr>dp_EventType = RiskAssessedType, dp_EventVersion = 1, dp_AggregateType = ''transfer'',
       dp_AggregateID = t_id (l_transfer l), dp_AggregateVersion = l_version l,
       dp_CorrelationID = t_id (l_transfer l), dp_CausationID = causationID, dp_OccurredAt = assessedAt,
       dp_Payload = json_print (JObject (assessed_members l ev))\<rparr> =
    Inr (transfer_draft RiskAssessedType (t_id (l_transfer l)) (l_version l) causationID assessedAt
      (JObject (assessed_members l ev)))"
    using t assms(5,6) transfer_event_types(4) assessed_object [OF t(1) assms(3)]
    by (intro NewDraft_transfer) (simp_all del: plain.simps fits.simps jbound.simps)
  with t(3) assms(2,4) Evaluate_score [OF assms(3)] show ?thesis
    by (simp add: RiskAssessed_def RiskAssessedVersion_def del: json_print.simps)
qed

lemma riskDecision_String: "d \<noteq> DecisionUnknown \<Longrightarrow> riskDecision (decision_String d) = (d, True)"
  by (cases d) (simp_all add: riskDecision_def)

lemma decode_assessed:
  assumes "isCanonicalUUID (t_id (l_transfer l))" "Evaluate p i = Inr ev"
  shows "decode_strict assessed_fields put_assessed
      \<lparr>ap_TransferID = [], ap_RiskPolicyVersion = [], ap_Score = 0, ap_Decision = []\<rparr>
      (json_print (JObject (assessed_members l ev))) =
    Some \<lparr>ap_TransferID = t_id (l_transfer l), ap_RiskPolicyVersion = ev_policyVersion ev,
      ap_Score = int64_of (ev_score ev), ap_Decision = decision_String (ev_decision ev)\<rparr>"
proof -
  have "decode_strict assessed_fields put_assessed z (json_print (JObject (assessed_members l ev))) =
      decode_struct assessed_fields put_assessed (JObject (assessed_members l ev)) z" for z
    by (rule decode_strict_print [OF assessed_object(1,2) [OF assms]]) (simp add: maxNestingDepth_def)
  moreover have "signals_ok (JArray (map signalPayload (ev_signals ev)))"
    using Evaluate_small(1) [OF assms(2)] signal_shape(4)
    by (auto simp: signals_ok_def list_all_iff signals_small_def)
  ultimately show ?thesis
    using Evaluate_small(3) [OF assms(2)]
    by (simp add: decode_struct_def assessed_fields_def put_assessed_def into_int64_def text_int_text
        del: json_print.simps)
qed

lemma ParseRiskAssessed_draft:
  assumes "lifecycle_ok l" "l_version l = 2" "Evaluate p i = Inr ev"
    "ev_policyVersion ev = l_riskPolicyVersion l" "isCanonicalUUID causationID"
  shows "ParseRiskAssessed \<lparr>en_eventID = eventID, en_draft = transfer_draft RiskAssessedType (t_id (l_transfer l))
      (l_version l) causationID assessedAt (JObject (assessed_members l ev))\<rparr> =
    Inr \<lparr>as_transferID = t_id (l_transfer l), as_riskPolicyVersion = l_riskPolicyVersion l,
         as_decision = ev_decision ev\<rparr>"
proof -
  have id: "isCanonicalUUID (t_id (l_transfer l))" "causationID \<noteq> []"
    using assms(1,5) by (auto simp: lifecycle_ok_def transfer_ok_def)
  have score: "sint (int64_of (ev_score ev)) = ev_score ev" using Evaluate_small(3) [OF assms(3)] by simp
  have "ev_policyVersion ev \<noteq> []"
    using Evaluate_small(2) [OF assms(3)] by (auto simp: risk_validPolicyVersion_def)
  then show ?thesis
    using decode_assessed [OF id(1) assms(3)] id Evaluate_score [OF assms(3)] score assms(2,4)
    by (simp add: ParseRiskAssessed_def transfer_draft_def RiskAssessedVersion_def decoded_def int64_simps
        riskDecision_String del: json_print.simps)
qed

text \<open>
  A risk decision reaches the posting worker unchanged. For every evaluation that a policy returns
  and the lifecycle that records it, building the \<open>transfer.risk_assessed\<close> event, giving it an
  identifier, publishing it as JSON and parsing the bytes yields the transfer, the policy version and the
  decision of the evaluation.
\<close>

theorem risk_assessed_roundtrip:
  assumes "lifecycle_ok l" "l_version l = 2" "Evaluate p i = Inr ev"
    "matchesRiskDecision (l_status l) (ev_decision ev)" "ev_policyVersion ev = l_riskPolicyVersion l"
    "isCanonicalUUID causationID" "\<not> IsZero assessedAt" "in_calendar assessedAt" "isCanonicalUUID eventID"
  shows "andThen (delivered eventID (RiskAssessed l ev assessedAt causationID)) ParseRiskAssessed =
    Inr \<lparr>as_transferID = t_id (l_transfer l), as_riskPolicyVersion = l_riskPolicyVersion l,
         as_decision = ev_decision ev\<rparr>"
proof -
  let ?d = "transfer_draft RiskAssessedType (t_id (l_transfer l)) (l_version l) causationID assessedAt
    (JObject (assessed_members l ev))"
  note total = RiskAssessed_total [OF assms(1,4,3,5,6,7)]
  have id: "isCanonicalUUID (t_id (l_transfer l))" using assms(1) by (simp add: lifecycle_ok_def transfer_ok_def)
  have "delivered eventID (Inr ?d) = Inr \<lparr>en_eventID = eventID, en_draft = ?d\<rparr>"
    using total assms(8,9) assessed_object(1,2) [OF id assms(3)]
    by (intro delivered_transfer [where kvs = "assessed_members l ev"])
      (auto simp: RiskAssessed_def simp del: plain.simps fits.simps fits_numerals json_print.simps split: if_splits)
  with ParseRiskAssessed_draft [OF assms(1,2,3,5,6)] total show ?thesis by simp
qed

abbreviation decided_members :: "Lifecycle \<Rightarrow> string \<Rightarrow> (string \<times> jvalue) list" where
  "decided_members l subject \<equiv>
     [(''transfer_id'', JString (t_id (l_transfer l))), (''decision'', JString (status_String (l_status l))),
      (''decided_by'', JString subject)]"

lemma status_ascii: "ascii (status_String s)" and status_length: "length (status_String s) \<le> 15"
  by (cases s; simp)+

lemma decided_object:
  assumes "isCanonicalUUID (t_id (l_transfer l))" "list_all visible subject" "length subject \<le> 128"
  shows "plain (JObject (decided_members l subject))" "fits 3 (JObject (decided_members l subject))"
    "jbound (JObject (decided_members l subject)) \<le> 32768"
  using assms status_length [of "l_status l"]
  by (simp_all add: canonical_ascii status_ascii ascii_visible canonical_length)

lemma ReviewDecided_total:
  assumes "lifecycle_ok l" "l_status l = StatusApproved \<or> l_status l = StatusDeclined"
    "subject \<noteq> []" "list_all visible subject" "length subject \<le> 128" "\<not> IsZero decidedAt"
  shows "ReviewDecided l subject decidedAt =
    Inr (transfer_draft ReviewDecidedType (t_id (l_transfer l)) (l_version l) [] decidedAt
      (JObject (decided_members l subject)))"
proof -
  have t: "isCanonicalUUID (t_id (l_transfer l))" "0 < sint (l_version l)"
    using assms(1) lifecycle_ok_version by (auto simp: lifecycle_ok_def transfer_ok_def)
  have "NewDraft
      \<lparr>dp_EventType = ReviewDecidedType, dp_EventVersion = 1, dp_AggregateType = ''transfer'',
       dp_AggregateID = t_id (l_transfer l), dp_AggregateVersion = l_version l,
       dp_CorrelationID = t_id (l_transfer l), dp_CausationID = [], dp_OccurredAt = decidedAt,
       dp_Payload = json_print (JObject (decided_members l subject))\<rparr> =
    Inr (transfer_draft ReviewDecidedType (t_id (l_transfer l)) (l_version l) [] decidedAt
      (JObject (decided_members l subject)))"
    using t assms(6) transfer_event_types(5) decided_object [OF t(1) assms(4,5)]
    by (intro NewDraft_transfer) (simp_all del: plain.simps fits.simps jbound.simps)
  with assms(2,3) show ?thesis
    by (auto simp: ReviewDecided_def ReviewDecidedVersion_def simp del: json_print.simps)
qed

lemma ParseReviewDecided_draft:
  assumes "lifecycle_ok l" "3 \<le> sint (l_version l)" "l_status l = StatusApproved \<or> l_status l = StatusDeclined"
    "subject \<noteq> []" "list_all visible subject" "length subject \<le> 128"
  shows "ParseReviewDecided \<lparr>en_eventID = eventID, en_draft = transfer_draft ReviewDecidedType (t_id (l_transfer l))
      (l_version l) [] decidedAt (JObject (decided_members l subject))\<rparr> =
    Inr \<lparr>rd_transferID = t_id (l_transfer l), rd_decision = status_String (l_status l)\<rparr>"
proof -
  have id: "isCanonicalUUID (t_id (l_transfer l))" using assms(1) by (simp add: lifecycle_ok_def transfer_ok_def)
  have "decode_strict decided_fields put_decided z (json_print (JObject (decided_members l subject))) =
      decode_struct decided_fields put_decided (JObject (decided_members l subject)) z" for z
    by (rule decode_strict_print [OF decided_object(1,2) [OF id assms(5,6)]]) (simp add: maxNestingDepth_def)
  then have d: "decode_strict decided_fields put_decided \<lparr>dc_TransferID = [], dc_Decision = [], dc_DecidedBy = []\<rparr>
      (json_print (JObject (decided_members l subject))) =
      Some \<lparr>dc_TransferID = t_id (l_transfer l), dc_Decision = status_String (l_status l), dc_DecidedBy = subject\<rparr>"
    by (simp add: decode_struct_def decided_fields_def put_decided_def del: json_print.simps)
  show ?thesis
    using assms(2-4)
    by (auto simp: ParseReviewDecided_def transfer_draft_def ReviewDecidedVersion_def decoded_def int64_simps d
        simp del: json_print.simps)
qed

text \<open>
  An analyst's decision reaches the posting worker unchanged: the \<open>transfer.review_decided\<close> event of a
  reviewed lifecycle parses back to the transfer and the status that the decision gave it.
\<close>

theorem review_decided_roundtrip:
  assumes "lifecycle_ok l" "3 \<le> sint (l_version l)" "l_status l = StatusApproved \<or> l_status l = StatusDeclined"
    "subject \<noteq> []" "list_all visible subject" "length subject \<le> 128" "\<not> IsZero decidedAt"
    "in_calendar decidedAt" "isCanonicalUUID eventID"
  shows "andThen (delivered eventID (ReviewDecided l subject decidedAt)) ParseReviewDecided =
    Inr \<lparr>rd_transferID = t_id (l_transfer l), rd_decision = status_String (l_status l)\<rparr>"
proof -
  let ?d = "transfer_draft ReviewDecidedType (t_id (l_transfer l)) (l_version l) [] decidedAt
    (JObject (decided_members l subject))"
  note total = ReviewDecided_total [OF assms(1,3-7)]
  have id: "isCanonicalUUID (t_id (l_transfer l))" using assms(1) by (simp add: lifecycle_ok_def transfer_ok_def)
  have "delivered eventID (Inr ?d) = Inr \<lparr>en_eventID = eventID, en_draft = ?d\<rparr>"
    using total assms(8,9) decided_object(1,2) [OF id assms(5,6)]
    by (intro delivered_transfer [where kvs = "decided_members l subject"])
      (auto simp: ReviewDecided_def simp del: plain.simps fits.simps fits_numerals json_print.simps split: if_splits)
  with ParseReviewDecided_draft [OF assms(1-6)] total show ?thesis by simp
qed

section \<open>Witnesses\<close>

lemma sample_pending_ok: "lifecycle_ok sample_pending"
  using sample_pending_init lifecycle_init_ok by blast

theorem requested_roundtrip_witness:
  "lifecycle_ok sample_pending \<and> in_calendar 1000000 \<and>
   andThen (delivered ''6f9619ff-8b86-4011-b42d-00cf4fc964f9'' (Requested sample_pending)) ParseRequested =
     Inr (sample_pending\<lparr>l_transfer := sample_transfer\<lparr>t_idempotencyKey := ''event-request''\<rparr>\<rparr>)"
proof -
  have "l_status sample_pending = StatusPendingRisk" "in_calendar 1000000"
    "in_calendar (t_requestedAt (l_transfer sample_pending))"
    "isCanonicalUUID ''6f9619ff-8b86-4011-b42d-00cf4fc964f9''" "l_transfer sample_pending = sample_transfer"
    by code_simp+
  then show ?thesis using requested_roundtrip [OF sample_pending_ok] sample_pending_ok by metis
qed

definition sample_evaluation :: Evaluation where
  "sample_evaluation =
     \<lparr>ev_policyVersion = ''v1'', ev_score = 600, ev_decision = DecisionReview,
      ev_signals = [\<lparr>sg_code = SignalAmountReviewThreshold, sg_contribution = 600\<rparr>]\<rparr>"

definition sample_assessed_input :: Input where
  "sample_assessed_input =
     \<lparr>in_Amount = \<lparr>minorUnits = 1500, currency = Currency (CHR ''U'') (CHR ''S'') (CHR ''D'')\<rparr>,
      in_VelocityTransferCount = 0, in_VelocityDegraded = False\<rparr>"

definition sample_review :: Lifecycle where
  "sample_review = sample_pending\<lparr>l_status := StatusReviewRequired, l_version := 2\<rparr>"

lemma sample_review_ok: "lifecycle_ok sample_review"
proof -
  have "lifecycle_validate sample_review = None" by code_simp
  then show ?thesis by (simp only: lifecycle_validate_None)
qed

lemma sample_evaluated: "Evaluate sample_policy sample_assessed_input = Inr sample_evaluation"
  by code_simp

theorem risk_assessed_roundtrip_witness:
  "lifecycle_ok sample_review \<and> Evaluate sample_policy sample_assessed_input = Inr sample_evaluation \<and>
   andThen (delivered ''6f9619ff-8b86-4011-b42d-00cf4fc964f9''
     (RiskAssessed sample_review sample_evaluation 5 ''6f9619ff-8b86-4011-b42d-00cf4fc964f8'')) ParseRiskAssessed =
     Inr \<lparr>as_transferID = t_id sample_transfer, as_riskPolicyVersion = ''v1'', as_decision = DecisionReview\<rparr>"
proof -
  have s: "l_version sample_review = 2" "matchesRiskDecision (l_status sample_review) (ev_decision sample_evaluation)"
    "ev_policyVersion sample_evaluation = l_riskPolicyVersion sample_review"
    "isCanonicalUUID ''6f9619ff-8b86-4011-b42d-00cf4fc964f8''" "\<not> IsZero 5"
    "in_calendar 5" "isCanonicalUUID ''6f9619ff-8b86-4011-b42d-00cf4fc964f9''"
    by code_simp+
  have "l_riskPolicyVersion sample_review = ''v1''" "l_transfer sample_review = sample_transfer"
    "ev_decision sample_evaluation = DecisionReview"
    by (simp_all add: sample_review_def sample_pending_def sample_evaluation_def)
  then show ?thesis
    using risk_assessed_roundtrip [OF sample_review_ok s(1) sample_evaluated s(2-7)] sample_review_ok sample_evaluated
    by simp
qed

definition sample_decided :: Lifecycle where
  "sample_decided = sample_pending\<lparr>l_status := StatusDeclined, l_version := 3\<rparr>"

theorem review_decided_roundtrip_witness:
  "andThen (delivered ''6f9619ff-8b86-4011-b42d-00cf4fc964f9'' (ReviewDecided sample_decided ''analyst-7'' 5))
     ParseReviewDecided = Inr \<lparr>rd_transferID = t_id sample_transfer, rd_decision = ''declined''\<rparr>"
proof -
  have "lifecycle_validate sample_decided = None" by code_simp
  then have ok: "lifecycle_ok sample_decided" by (simp only: lifecycle_validate_None)
  have s: "3 \<le> sint (l_version sample_decided)" "''analyst-7'' \<noteq> []" "list_all visible ''analyst-7''"
    "length ''analyst-7'' \<le> 128" "\<not> IsZero 5" "in_calendar 5"
    "isCanonicalUUID ''6f9619ff-8b86-4011-b42d-00cf4fc964f9''"
    by code_simp+
  have "l_status sample_decided = StatusDeclined" "l_transfer sample_decided = sample_transfer"
    by (simp_all add: sample_decided_def sample_pending_def)
  then show ?thesis using review_decided_roundtrip [OF ok s(1) _ s(2-7)] by simp
qed

end
