(* ===== verification/Ledger_Repository.thy ===== *)
theory Ledger_Repository
  imports Ledger_Domain Schema Machines
begin

text \<open>
  The ledger repository (\<open>internal/ledger/postgres/repository.go\<close>): posting a journal entry with its
  balance snapshots in one serializable transaction, reading an entry back, and reconciling the
  snapshots with the postings.

  \<open>scan\<close> is the driver's UUID scanner and \<open>store\<close> what the driver and the server keep of an instant
  written to a \<open>timestamptz\<close> column. The slice of \<open>accountChange\<close> that
  \<open>lockAndCalculateBalances\<close> fills in through pointers is passed on explicitly.
\<close>

section \<open>Data\<close>

definition maxTransactionAttempts :: nat where "maxTransactionAttempts = 3"

record BalanceDiscrepancy =
  bd_AccountID :: string
  bd_Currency :: string
  bd_LedgerMinor :: string
  bd_SnapshotMinor :: string

record preparedPosting =
  q_accountID :: uuid
  q_currency :: currency
  q_amount :: int64

record accountChange =
  ac_accountID :: uuid
  ac_currency :: currency
  ac_delta :: int64
  ac_newBalance :: int64
  ac_newVersion :: int64

record accountAccumulator =
  aa_accountID :: uuid
  aa_currency :: currency
  aa_total :: int

record preparedEntry =
  pe_entry :: JournalEntry
  pe_id :: uuid
  pe_reversesID :: "uuid option"
  pe_postings :: "preparedPosting list"
  pe_changes :: "accountChange list"

record storedEntry =
  se_id :: string
  se_entryType :: string
  se_reversesID :: string
  se_recordedAt :: gotime

section \<open>Preparing an entry\<close>

definition parseUUID :: "(string \<Rightarrow> uuid option) \<Rightarrow> string \<Rightarrow> uuid result" where
  "parseUUID scan value =
     (case scan value of None \<Rightarrow> Inl [Opaque ''parsing UUID''] | Some u \<Rightarrow> Inr u)"

fun accumulate ::
  "(string \<Rightarrow> uuid option) \<Rightarrow> posting list \<Rightarrow> preparedPosting list \<Rightarrow> (string \<times> accountAccumulator) list
     \<Rightarrow> (preparedPosting list \<times> (string \<times> accountAccumulator) list) result" where
  "accumulate scan [] prepared accumulators = Inr (prepared, accumulators)"
| "accumulate scan (posting # rest) prepared accumulators =
     andThen (wrap [E LedgerRepository ErrInvalidArgument] (parseUUID scan (p_accountID posting)))
       (\<lambda>accountID.
          let amount = p_amount posting;
              prepared' = prepared @ [\<lparr>q_accountID = accountID, q_currency = currency amount,
                                       q_amount = minorUnits amount\<rparr>];
              accumulator =
                (case map_of accumulators accountID of
                   Some a \<Rightarrow> a
                 | None \<Rightarrow> \<lparr>aa_accountID = accountID, aa_currency = currency amount, aa_total = 0\<rparr>)
          in if aa_currency accumulator \<noteq> currency amount
             then fail LedgerRepository ErrCurrencyMismatch
             else accumulate scan rest prepared'
               (AList.update accountID
                  (accumulator\<lparr>aa_total := aa_total accumulator + units amount\<rparr>) accumulators))"

definition change_of :: "(string \<times> accountAccumulator) list \<Rightarrow> string \<Rightarrow> accountChange result" where
  "change_of accumulators key =
     (let accumulator = the (map_of accumulators key) in
      if \<not> in_int64 (aa_total accumulator) then fail LedgerRepository ErrAmountOverflow
      else Inr \<lparr>ac_accountID = aa_accountID accumulator, ac_currency = aa_currency accumulator,
                ac_delta = int64_of (aa_total accumulator), ac_newBalance = 0, ac_newVersion = 0\<rparr>)"

definition preparePostings ::
  "(string \<Rightarrow> uuid option) \<Rightarrow> posting list \<Rightarrow> (preparedPosting list \<times> accountChange list) result" where
  "preparePostings scan ps =
     andThen (accumulate scan ps [] []) (\<lambda>(prepared, accumulators).
       let keys = sort (map fst accumulators)
       in andThen (map_result (change_of accumulators) keys) (\<lambda>changes. Inr (prepared, changes)))"

definition prepareReversesID ::
  "(string \<Rightarrow> uuid option) \<Rightarrow> JournalEntry \<Rightarrow> uuid \<Rightarrow> uuid option result" where
  "prepareReversesID scan entry i =
     (case je_entryType entry of
        JournalEntryTypeStandard \<Rightarrow>
          if je_reversesEntryID entry \<noteq> [] then fail LedgerRepository ErrInvalidArgument
          else Inr None
      | JournalEntryTypeReversal \<Rightarrow>
          andThen (wrap [E LedgerRepository ErrInvalidArgument]
              (parseUUID scan (je_reversesEntryID entry))) (\<lambda>parsedSourceID.
            if parsedSourceID = i then fail LedgerRepository ErrInvalidArgument
            else Inr (Some parsedSourceID))
      | JournalEntryTypeUnknown \<Rightarrow> fail LedgerRepository ErrInvalidArgument)"

definition prepareEntry :: "(string \<Rightarrow> uuid option) \<Rightarrow> JournalEntry \<Rightarrow> preparedEntry result" where
  "prepareEntry scan entry =
     andThen (wrap [E LedgerRepository ErrInvalidArgument] (parseUUID scan (je_id entry))) (\<lambda>i.
     andThen (wrap [E LedgerRepository ErrInvalidArgument]
        (NewJournalEntry \<lparr>jp_ID = je_id entry, jp_Postings = je_postings entry,
           jp_RecordedAt = je_recordedAt entry\<rparr>)) (\<lambda>_.
     andThen (prepareReversesID scan entry i) (\<lambda>reversesID.
     andThen (preparePostings scan (je_postings entry)) (\<lambda>(preparedPostings, changes).
     Inr \<lparr>pe_entry = entry, pe_id = i, pe_reversesID = reversesID,
          pe_postings = preparedPostings, pe_changes = changes\<rparr>))))"

section \<open>Balances\<close>

definition checkedAdd :: "int64 \<Rightarrow> int64 \<Rightarrow> int64 result" where
  "checkedAdd left right =
     (if 0 <s right \<and> MaxInt64 - right <s left \<or> right <s 0 \<and> left <s MinInt64 - right
      then fail LedgerRepository ErrAmountOverflow
      else Inr (left + right))"

text \<open>\<open>changesByID\<close>: the index of the last change with the given account.\<close>

definition changesByID :: "accountChange list \<Rightarrow> (string \<times> nat) list" where
  "changesByID changes = rev (zip (map ac_accountID changes) [0..<length changes])"

fun lockRows ::
  "(string \<times> nat) list \<Rightarrow> balance_row list \<Rightarrow> nat \<Rightarrow> accountChange list
     \<Rightarrow> (nat \<times> accountChange list) result" where
  "lockRows byID [] locked changes = Inr (locked, changes)"
| "lockRows byID (row # rows) locked changes =
     (case map_of byID (b_account_id row) of
        None \<Rightarrow> fail LedgerRepository ErrCorruptData
      | Some index \<Rightarrow>
          let change = changes ! index in
          if b_currency row \<noteq> currency_String (ac_currency change)
          then fail LedgerRepository ErrCurrencyMismatch
          else case checkedAdd (b_balance_minor row) (ac_delta change) of
            Inl _ \<Rightarrow> fail LedgerRepository ErrAmountOverflow
          | Inr newBalance \<Rightarrow>
              if b_account_type row = ''customer'' \<and> newBalance <s 0
              then fail LedgerRepository ErrInsufficientFunds
              else if b_account_type row \<noteq> ''customer'' \<and> b_account_type row \<noteq> ''system''
              then fail LedgerRepository ErrCorruptData
              else if b_version row = MaxInt64 then fail LedgerRepository ErrAmountOverflow
              else lockRows byID rows (locked + 1)
                (changes[index := change\<lparr>ac_newBalance := newBalance,
                                         ac_newVersion := b_version row + 1\<rparr>]))"

definition lockBalancesQuery :: "uuid list \<Rightarrow> database \<Rightarrow> balance_row list" where
  "lockBalancesQuery accountIDs db =
     sort_key b_account_id (filter (\<lambda>b. b_account_id b \<in> set accountIDs) (account_balances db))"

definition lockAndCalculateBalances :: "accountChange list \<Rightarrow> (database, accountChange list) tx" where
  "lockAndCalculateBalances changes =
     tx_read (\<lambda>db.
       andThen (lockRows (changesByID changes)
           (lockBalancesQuery (map ac_accountID changes) db) 0 changes) (\<lambda>(locked, changes').
         if locked \<noteq> length changes then fail LedgerRepository ErrNotFound else Inr changes'))"

fun updateBalances :: "accountChange list \<Rightarrow> (database, unit) tx" where
  "updateBalances [] = tx_return ()"
| "updateBalances (change # changes) =
     tx_bind (update_balance_row (ac_accountID change) (ac_newBalance change) (ac_newVersion change))
       (\<lambda>rowsAffected.
          if rowsAffected \<noteq> 1 then tx_lift (fail LedgerRepository ErrCorruptData)
          else updateBalances changes)"

section \<open>Reading entries\<close>

definition selectEntry :: "uuid \<Rightarrow> database \<Rightarrow> storedEntry result" where
  "selectEntry entryID db =
     (case find (\<lambda>e. e_id e = entryID) (journal_entries db) of
        None \<Rightarrow> fail LedgerRepository ErrNotFound
      | Some e \<Rightarrow>
          Inr \<lparr>se_id = e_id e, se_entryType = e_entry_type e,
               se_reversesID = (case e_reverses_entry_id e of None \<Rightarrow> [] | Some src \<Rightarrow> src),
               se_recordedAt = e_recorded_at e\<rparr>)"

definition decode_posting :: "posting_row \<Rightarrow> posting result" where
  "decode_posting r =
     andThen (wrap [E LedgerRepository ErrCorruptData] (ParseCurrency (r_currency r))) (\<lambda>c.
     andThen (wrap [E LedgerRepository ErrCorruptData] (NewMoney (r_amount_minor r) c)) (\<lambda>amount.
     wrap [E LedgerRepository ErrCorruptData] (NewPosting (r_account_id r) amount)))"

definition selectPostingsQuery :: "uuid \<Rightarrow> database \<Rightarrow> posting_row list" where
  "selectPostingsQuery entryID db =
     sort_key r_position (filter (\<lambda>r. r_journal_entry_id r = entryID) (postings db))"

definition selectPostings :: "uuid \<Rightarrow> database \<Rightarrow> posting list result" where
  "selectPostings entryID db = map_result decode_posting (selectPostingsQuery entryID db)"

definition equalPostings :: "posting list \<Rightarrow> posting list \<Rightarrow> bool" where
  "equalPostings left right \<longleftrightarrow>
     length left = length right \<and>
     list_all (\<lambda>(l, r). \<not> (p_accountID l \<noteq> p_accountID r \<or> p_amount l \<noteq> p_amount r)) (zip left right)"

definition restoreEntry ::
  "(string \<Rightarrow> uuid option) \<Rightarrow> database \<Rightarrow> storedEntry \<Rightarrow> posting list \<Rightarrow> JournalEntry result" where
  "restoreEntry scan db record ps =
     (if se_entryType record = ''standard'' then
        wrap [E LedgerRepository ErrCorruptData]
          (NewJournalEntry \<lparr>jp_ID = se_id record, jp_Postings = ps, jp_RecordedAt = se_recordedAt record\<rparr>)
      else if se_entryType record \<noteq> ''reversal'' then fail LedgerRepository ErrCorruptData
      else
        andThen (wrap [E LedgerRepository ErrCorruptData] (parseUUID scan (se_reversesID record))) (\<lambda>sourceID.
        andThen (wrap [E LedgerRepository ErrCorruptData] (selectEntry sourceID db)) (\<lambda>sourceRecord.
        andThen (wrap [E LedgerRepository ErrCorruptData] (selectPostings sourceID db)) (\<lambda>sourcePostings.
        andThen (wrap [E LedgerRepository ErrCorruptData]
          (NewJournalEntry \<lparr>jp_ID = se_id sourceRecord, jp_Postings = sourcePostings,
             jp_RecordedAt = se_recordedAt sourceRecord\<rparr>)) (\<lambda>source.
        andThen (wrap [E LedgerRepository ErrCorruptData]
          (Reverse source (se_id record) (se_recordedAt record))) (\<lambda>reversal.
        if \<not> equalPostings (je_postings reversal) ps then fail LedgerRepository ErrCorruptData
        else Inr reversal))))))"

definition Get :: "(string \<Rightarrow> uuid option) \<Rightarrow> tx_env \<Rightarrow> string \<Rightarrow> (database, JournalEntry) tx" where
  "Get scan env entryID db =
     (case parseUUID scan entryID of
        Inl e \<Rightarrow> (Inl (E LedgerRepository ErrInvalidArgument # e), db)
      | Inr parsedID \<Rightarrow>
          run_tx env (tx_read (\<lambda>db.
            andThen (selectEntry parsedID db) (\<lambda>record.
            andThen (selectPostings parsedID db) (\<lambda>ps.
            restoreEntry scan db record ps)))) db)"

section \<open>Posting\<close>

fun differs :: "posting list \<Rightarrow> preparedPosting list \<Rightarrow> bool" where
  "differs (sourcePosting # ss) (reversalPosting # rs) \<longleftrightarrow>
     p_accountID sourcePosting \<noteq> q_accountID reversalPosting \<or>
     currency (p_amount sourcePosting) \<noteq> q_currency reversalPosting \<or>
     minorUnits (p_amount sourcePosting) \<noteq> - q_amount reversalPosting \<or> differs ss rs"
| "differs _ _ \<longleftrightarrow> False"

definition validatePersistedReversal :: "uuid \<Rightarrow> preparedEntry \<Rightarrow> (database, unit) tx" where
  "validatePersistedReversal reversesID prepared =
     tx_read (\<lambda>db.
       andThen (selectEntry reversesID db) (\<lambda>_.
       andThen (selectPostings reversesID db) (\<lambda>sourcePostings.
       if list_ex (\<lambda>e. e_reverses_entry_id e = Some reversesID) (journal_entries db)
       then fail LedgerRepository ErrAlreadyReversed
       else if length sourcePostings \<noteq> length (pe_postings prepared)
       then fail LedgerRepository ErrInvalidReversal
       else if differs sourcePostings (pe_postings prepared)
       then fail LedgerRepository ErrInvalidReversal
       else Inr ())))"

definition insertEntry :: "(gotime \<Rightarrow> gotime) \<Rightarrow> preparedEntry \<Rightarrow> (database, unit) tx" where
  "insertEntry store prepared =
     insert_entry_row
       \<lparr>e_id = pe_id prepared,
        e_entry_type =
          (if je_entryType (pe_entry prepared) = JournalEntryTypeReversal
           then ''reversal'' else ''standard''),
        e_reverses_entry_id =
          (if je_entryType (pe_entry prepared) = JournalEntryTypeReversal
           then pe_reversesID prepared else None),
        e_recorded_at = store (je_recordedAt (pe_entry prepared))\<rparr>"

definition posting_rows :: "uuid \<Rightarrow> preparedPosting list \<Rightarrow> posting_row list" where
  "posting_rows entryID qs =
     map (\<lambda>(index, posting).
       \<lparr>r_journal_entry_id = entryID, r_position = index, r_account_id = q_accountID posting,
        r_currency = currency_String (q_currency posting), r_amount_minor = q_amount posting\<rparr>)
       (enumerate 0 qs)"

definition insertPostings :: "preparedEntry \<Rightarrow> (database, unit) tx" where
  "insertPostings prepared =
     tx_each insert_posting_row (posting_rows (pe_id prepared) (pe_postings prepared))"

definition postPrepared :: "(gotime \<Rightarrow> gotime) \<Rightarrow> preparedEntry \<Rightarrow> (database, unit) tx" where
  "postPrepared store prepared =
     tx_bind
       (case pe_reversesID prepared of
          None \<Rightarrow> tx_return ()
        | Some reversesID \<Rightarrow> validatePersistedReversal reversesID prepared) (\<lambda>_.
     tx_bind (lockAndCalculateBalances (pe_changes prepared)) (\<lambda>changes.
     tx_bind (insertEntry store prepared) (\<lambda>_.
     tx_bind (insertPostings prepared) (\<lambda>_.
     updateBalances changes))))"

definition postOnce :: "(gotime \<Rightarrow> gotime) \<Rightarrow> tx_env \<Rightarrow> preparedEntry \<Rightarrow> (database, unit) tx" where
  "postOnce store env prepared = run_tx env (postPrepared store prepared)"

definition classifyPostError :: "error \<Rightarrow> error" where
  "classifyPostError err =
     (case as_PgError err of
        None \<Rightarrow> err
      | Some pg \<Rightarrow>
          if pg_code pg = ''23505'' \<and> pg_constraint pg = ''journal_entries_pkey''
          then E LedgerRepository ErrAlreadyExists # err
          else if pg_code pg = ''23505'' \<and> pg_constraint pg = ''journal_entries_one_reversal_idx''
          then E LedgerRepository ErrAlreadyReversed # err
          else if pg_code pg = ''23514'' \<and>
                  pg_constraint pg = ''account_balances_nonnegative_customer_check''
          then E LedgerRepository ErrInsufficientFunds # err
          else if pg_code pg = ''22003'' then E LedgerRepository ErrAmountOverflow # err
          else err)"

definition isRetryableTransaction :: "error \<Rightarrow> bool" where
  "isRetryableTransaction err \<longleftrightarrow>
     (case as_PgError err of
        None \<Rightarrow> False
      | Some pg \<Rightarrow> pg_code pg = ''40001'' \<or> pg_code pg = ''40P01'')"

definition Post ::
  "(string \<Rightarrow> uuid option) \<Rightarrow> (gotime \<Rightarrow> gotime) \<Rightarrow> (nat \<Rightarrow> error option) \<Rightarrow> (nat \<Rightarrow> tx_env)
     \<Rightarrow> JournalEntry \<Rightarrow> (database, unit) tx" where
  "Post scan store ctx env entry db =
     (case prepareEntry scan entry of
        Inl e \<Rightarrow> (Inl e, db)
      | Inr prepared \<Rightarrow>
          retry ctx (\<lambda>attempt. postOnce store (env attempt) prepared) isRetryableTransaction
            classifyPostError (E LedgerRepository ErrSerializationFailure)
            0 maxTransactionAttempts [] db)"

definition PostTx ::
  "(string \<Rightarrow> uuid option) \<Rightarrow> (gotime \<Rightarrow> gotime) \<Rightarrow> JournalEntry \<Rightarrow> (database, unit) tx" where
  "PostTx scan store entry db =
     (case prepareEntry scan entry of
        Inl e \<Rightarrow> (Inl e, db)
      | Inr prepared \<Rightarrow>
          (case postPrepared store prepared db of
             (Inl e, db') \<Rightarrow> (Inl (classifyPostError e), db')
           | (Inr u, db') \<Rightarrow> (Inr u, db')))"

section \<open>Reconciliation\<close>

definition ledger_group :: "uuid \<Rightarrow> string \<Rightarrow> database \<Rightarrow> posting_row list" where
  "ledger_group account code db =
     filter (\<lambda>r. r_account_id r = account \<and> r_currency r = code) (postings db)"

definition posted_total :: "posting_row list \<Rightarrow> int" where
  "posted_total rs = (\<Sum>r \<leftarrow> rs. sint (r_amount_minor r))"

text \<open>The \<open>ledger_totals\<close> row an account joins, with \<open>COALESCE\<close> for an account without postings.\<close>

definition ledger_minor :: "balance_row \<Rightarrow> database \<Rightarrow> string" where
  "ledger_minor b db =
     (case ledger_group (b_account_id b) (b_currency b) db of
        [] \<Rightarrow> ''0''
      | rs \<Rightarrow> int_text (posted_total rs))"

definition selectBalanceDiscrepancies :: "database \<Rightarrow> BalanceDiscrepancy list" where
  "selectBalanceDiscrepancies db =
     map (\<lambda>b. \<lparr>bd_AccountID = b_account_id b, bd_Currency = b_currency b,
               bd_LedgerMinor = ledger_minor b db,
               bd_SnapshotMinor = int_text (sint (b_balance_minor b))\<rparr>)
       (sort_key b_account_id (sort_key b_currency
          (filter (\<lambda>b. ledger_minor b db \<noteq> int_text (sint (b_balance_minor b)))
             (account_balances db))))"

definition Reconcile :: "tx_env \<Rightarrow> (database, BalanceDiscrepancy list) tx" where
  "Reconcile env = run_tx env (tx_read (\<lambda>db. Inr (selectBalanceDiscrepancies db)))"

end
