(* ===== verification/Event_Tables.thy ===== *)
theory Event_Tables
  imports Schema
begin

text \<open>
  The tables of the event infrastructure (\<open>migrations/000004\<close>, \<open>000006\<close> and \<open>000011\<close>): the outbox, the
  consumers' inbox and the quarantine, with the statements that the repositories run on them.

  The regular expressions of the \<open>CHECK\<close> constraints are written as predicates on bytes.
\<close>

section \<open>Column checks\<close>

text \<open>\<open>^[a-z][a-z0-9_]*([.][a-z][a-z0-9_]*)*$\<close>\<close>

definition sql_event_word :: "string \<Rightarrow> bool" where
  "sql_event_word w \<longleftrightarrow>
     (case w of [] \<Rightarrow> False
      | c # cs \<Rightarrow> is_lower c \<and> list_all (\<lambda>c. is_lower c \<or> is_digit c \<or> c = CHR ''_'') cs)"

definition sql_event_type :: "string \<Rightarrow> bool" where
  "sql_event_type s \<longleftrightarrow>
     1 \<le> length s \<and> length s \<le> 128 \<and> list_all sql_event_word (split_at (CHR ''.'') s)"

text \<open>\<open>^[a-z][a-z0-9_-]*$\<close>\<close>

definition sql_aggregate_type :: "string \<Rightarrow> bool" where
  "sql_aggregate_type s \<longleftrightarrow>
     1 \<le> length s \<and> length s \<le> 64 \<and>
     (case s of [] \<Rightarrow> False
      | c # cs \<Rightarrow> is_lower c \<and>
          list_all (\<lambda>c. is_lower c \<or> is_digit c \<or> c = CHR ''_'' \<or> c = CHR ''-'') cs)"

text \<open>\<open>^[a-z0-9][a-z0-9._-]*$\<close>\<close>

definition sql_consumer_name :: "string \<Rightarrow> bool" where
  "sql_consumer_name s \<longleftrightarrow>
     1 \<le> length s \<and> length s \<le> 128 \<and>
     (case s of [] \<Rightarrow> False
      | c # cs \<Rightarrow> (is_lower c \<or> is_digit c) \<and>
          list_all (\<lambda>c. is_lower c \<or> is_digit c \<or> c = CHR ''.'' \<or> c = CHR ''_'' \<or> c = CHR ''-'') cs)"

section \<open>Outbox\<close>

definition max_payload_octets :: int where "max_payload_octets = 65536"

definition outbox_checks :: "outbox_row \<Rightarrow> (string \<times> bool) list" where
  "outbox_checks e =
     [(''outbox_events_aggregate_type_check'', sql_aggregate_type (o_aggregate_type e)),
      (''outbox_events_aggregate_version_check'', 0 < sint (o_aggregate_version e)),
      (''outbox_events_attempts_check'', 0 \<le> sint (o_publish_attempts e)),
      (''outbox_events_availability_check'', o_created_at e \<le> o_available_at e),
      (''outbox_events_claim_shape_check'', (o_claimed_by e = None) = (o_claimed_until e = None)),
      (''outbox_events_event_type_check'', sql_event_type (o_event_type e)),
      (''outbox_events_event_version_check'', 0 < sint (o_event_version e)),
      (''outbox_events_last_error_check'',
        (case o_last_error e of None \<Rightarrow> True | Some s \<Rightarrow> 1 \<le> length s \<and> length s \<le> 1024)),
      (''outbox_events_payload_check'',
        take 1 (o_payload e) = ''{'' \<and> len (o_payload e) \<le> max_payload_octets),
      (''outbox_events_publication_time_check'',
        (case o_published_at e of None \<Rightarrow> True | Some t \<Rightarrow> o_created_at e \<le> t)),
      (''outbox_events_published_claim_check'',
        o_published_at e = None \<or> o_claimed_by e = None \<and> o_claimed_until e = None)]"

definition outbox_event_key :: "outbox_row \<Rightarrow> string \<times> uuid \<times> int64 \<times> string \<times> int16" where
  "outbox_event_key e =
     (o_aggregate_type e, o_aggregate_id e, o_aggregate_version e, o_event_type e, o_event_version e)"

definition insert_outbox_row :: "outbox_row \<Rightarrow> (database, unit) tx" where
  "insert_outbox_row e db =
     constrained (outbox_checks e)
       [(''outbox_events_pkey'', o_event_id e \<notin> o_event_id ` set (outbox_events db)),
        (''outbox_events_sequence_key'', o_sequence e \<notin> o_sequence ` set (outbox_events db)),
        (''outbox_events_aggregate_event_key'',
          outbox_event_key e \<notin> outbox_event_key ` set (outbox_events db))]
       []
       (\<lambda>db. db\<lparr>outbox_events := outbox_events db @ [e]\<rparr>) db"

text \<open>
  \<open>UPDATE outbox_events SET ... WHERE ... RETURNING ...\<close> with an assignment that leaves the columns of
  the unique indexes alone: the checks run on every new row, and the new rows are returned.
\<close>

definition update_outbox_rows ::
  "(outbox_row \<Rightarrow> bool) \<Rightarrow> (outbox_row \<Rightarrow> outbox_row) \<Rightarrow> (database, outbox_row list) tx" where
  "update_outbox_rows hit new db =
     (let rows = filter hit (outbox_events db) in
      tx_bind
        (constrained (concat (map (outbox_checks \<circ> new) rows)) [] []
           (\<lambda>db. db\<lparr>outbox_events := map (\<lambda>e. if hit e then new e else e) (outbox_events db)\<rparr>))
        (\<lambda>_. tx_return (map new rows)) db)"

definition outbox_ok :: "database \<Rightarrow> bool" where
  "outbox_ok db \<longleftrightarrow>
     distinct (map o_event_id (outbox_events db)) \<and> distinct (map o_sequence (outbox_events db)) \<and>
     distinct (map outbox_event_key (outbox_events db)) \<and>
     (\<forall>e \<in> set (outbox_events db). list_all snd (outbox_checks e))"

section \<open>Inbox and quarantine\<close>

text \<open>\<open>INSERT ... ON CONFLICT (consumer_name, event_id) DO NOTHING RETURNING event_id\<close>\<close>

definition insert_inbox_row :: "inbox_row \<Rightarrow> (database, uuid option) tx" where
  "insert_inbox_row r db =
     tx_bind
       (constrained
          [(''consumer_inbox_event_type_check'', sql_event_type (i_event_type r)),
           (''consumer_inbox_event_version_check'', 0 < sint (i_event_version r)),
           (''consumer_inbox_name_check'', sql_consumer_name (i_consumer_name r))] [] [] id)
       (\<lambda>_ db.
          if (i_consumer_name r, i_event_id r) \<in>
             (\<lambda>x. (i_consumer_name x, i_event_id x)) ` set (consumer_inbox db)
          then (Inr None, db)
          else (Inr (Some (i_event_id r)), db\<lparr>consumer_inbox := consumer_inbox db @ [r]\<rparr>)) db"

definition quarantine_key :: "quarantine_row \<Rightarrow> string \<times> string \<times> int32 \<times> int64" where
  "quarantine_key r = (q_consumer_name r, q_topic r, q_partition r, q_record_offset r)"

definition quarantine_checks :: "quarantine_row \<Rightarrow> (string \<times> bool) list" where
  "quarantine_checks r =
     [(''consumer_quarantine_consumer_name_check'', sql_consumer_name (q_consumer_name r)),
      (''consumer_quarantine_offset_check'', 0 \<le> sint (q_record_offset r)),
      (''consumer_quarantine_partition_check'', 0 \<le> sint (q_partition r)),
      (''consumer_quarantine_reason_check'',
        q_reason_code r = ''invalid_envelope'' \<or> q_reason_code r = ''unsupported_event_type''),
      (''consumer_quarantine_topic_check'', 1 \<le> length (q_topic r) \<and> length (q_topic r) \<le> 249),
      (''consumer_quarantine_value_excerpt_check'', len (q_value_excerpt r) \<le> max_payload_octets),
      (''consumer_quarantine_value_sha256_check'', length (q_value_sha256 r) = 32),
      (''consumer_quarantine_value_shape_check'',
        q_value_truncated r = (len (q_value_excerpt r) < sint (q_value_size r))),
      (''consumer_quarantine_value_size_check'', 0 \<le> sint (q_value_size r))]"

text \<open>\<open>INSERT ... ON CONFLICT (consumer_name, topic, partition, record_offset) DO NOTHING\<close>\<close>

definition insert_quarantine_row :: "quarantine_row \<Rightarrow> (database, unit) tx" where
  "insert_quarantine_row r db =
     tx_bind (constrained (quarantine_checks r) [] [] id)
       (\<lambda>_ db.
          if quarantine_key r \<in> quarantine_key ` set (consumer_quarantine db) then (Inr (), db)
          else (Inr (), db\<lparr>consumer_quarantine := consumer_quarantine db @ [r]\<rparr>)) db"

section \<open>Statements and constraints\<close>

lemma insert_outbox_row_Inr:
  "insert_outbox_row e db = (Inr u, db') \<longleftrightarrow>
     list_all snd (outbox_checks e) \<and> o_event_id e \<notin> o_event_id ` set (outbox_events db) \<and>
     o_sequence e \<notin> o_sequence ` set (outbox_events db) \<and>
     outbox_event_key e \<notin> outbox_event_key ` set (outbox_events db) \<and>
     db' = db\<lparr>outbox_events := outbox_events db @ [e]\<rparr>"
  by (simp add: insert_outbox_row_def constrained_Inr)

lemma insert_outbox_row_ok:
  "insert_outbox_row e db = (Inr u, db') \<Longrightarrow> outbox_ok db \<Longrightarrow> outbox_ok db'"
  by (auto simp: insert_outbox_row_Inr outbox_ok_def)

lemma update_outbox_rows_Inr:
  "update_outbox_rows hit new db = (Inr rows, db') \<longleftrightarrow>
     (\<forall>e \<in> set (outbox_events db). hit e \<longrightarrow> list_all snd (outbox_checks (new e))) \<and>
     rows = map new (filter hit (outbox_events db)) \<and>
     db' = db\<lparr>outbox_events := map (\<lambda>e. if hit e then new e else e) (outbox_events db)\<rparr>"
  by (auto simp: update_outbox_rows_def Let_def result_simps list_all_iff)

text \<open>The columns that identify an event are constants of its row.\<close>

definition same_identity :: "(outbox_row \<Rightarrow> outbox_row) \<Rightarrow> bool" where
  "same_identity new \<longleftrightarrow>
     (\<forall>e. o_event_id (new e) = o_event_id e \<and> o_sequence (new e) = o_sequence e \<and>
          outbox_event_key (new e) = outbox_event_key e)"

lemma update_outbox_rows_ok:
  assumes "update_outbox_rows hit new db = (Inr rows, db')" "outbox_ok db" "same_identity new"
  shows "outbox_ok db'"
proof -
  let ?f = "\<lambda>e. if hit e then new e else e"
  have "map o_event_id (map ?f (outbox_events db)) = map o_event_id (outbox_events db)"
    "map o_sequence (map ?f (outbox_events db)) = map o_sequence (outbox_events db)"
    "map outbox_event_key (map ?f (outbox_events db)) = map outbox_event_key (outbox_events db)"
    using assms(3) by (simp_all add: same_identity_def)
  with assms(1,2) show ?thesis
    by (auto simp: update_outbox_rows_Inr outbox_ok_def simp del: map_map)
qed

end
