(* ===== verification/Outbox_Repository.thy ===== *)
theory Outbox_Repository
  imports Envelope Event_Tables
begin

text \<open>
  The transactional outbox in PostgreSQL (\<open>internal/outbox/postgres/writer.go\<close> and \<open>repository.go\<close>).

  Arguments that stand for what is not in the repository:
  \<^item> \<open>jsonb\<close>: how the server reads a JSONB value, either an error response or the text it prints for
    the stored value;
  \<^item> \<open>store\<close>: the instant that a \<open>timestamptz\<close> column keeps;
  \<^item> \<open>scan\<close>: the driver's UUID parser;
  \<^item> \<open>eventID\<close> and \<open>sequence\<close>: what \<open>gen_random_uuid()\<close> and the identity column generate;
  \<^item> \<open>random\<close>: what \<open>crypto/rand\<close> reads, and \<open>locked\<close>: the rows that other transactions have locked.

  A nil transaction or pool is excluded by the types.
\<close>

section \<open>Writer\<close>

definition validateDraft :: "draft \<Rightarrow> draft result" where
  "validateDraft d = NewDraft (params_of d)"

definition nullableString :: "string \<Rightarrow> string option" where
  "nullableString v = (if v = [] then None else Some v)"

definition outbox_classifyWriteError :: "error \<Rightarrow> error" where
  "outbox_classifyWriteError err =
     (case as_PgError err of
        Some (PgError code constraint) \<Rightarrow>
          if code = ''23505'' \<and> constraint = ''outbox_events_aggregate_event_key''
          then E OutboxRepository ErrAlreadyExists # err
          else if code = ''23514'' \<and> constraint = ''outbox_events_payload_check''
          then E OutboxRepository ErrInvalidArgument # err
          else if take 2 code = ''22'' then E OutboxRepository ErrInvalidArgument # err
          else err
      | _ \<Rightarrow> err)"

definition new_outbox_row ::
  "(gotime \<Rightarrow> gotime) \<Rightarrow> gotime \<Rightarrow> uuid \<Rightarrow> int64 \<Rightarrow> draft \<Rightarrow> string \<Rightarrow> outbox_row" where
  "new_outbox_row store now eventID sequence d payload =
     \<lparr>o_event_id = eventID, o_sequence = sequence, o_event_type = dr_eventType d,
      o_event_version = dr_eventVersion d, o_aggregate_type = dr_aggregateType d,
      o_aggregate_id = dr_aggregateID d, o_aggregate_version = dr_aggregateVersion d,
      o_correlation_id = dr_correlationID d, o_causation_id = nullableString (dr_causationID d),
      o_occurred_at = store (dr_occurredAt d), o_payload = payload, o_created_at = now,
      o_available_at = now, o_publish_attempts = 0, o_claimed_by = None, o_claimed_until = None,
      o_last_error = None, o_published_at = None\<rparr>"

definition insertEvent ::
  "(string \<Rightarrow> string result) \<Rightarrow> (gotime \<Rightarrow> gotime) \<Rightarrow> uuid \<Rightarrow> int64 \<Rightarrow> draft \<Rightarrow> (database, uuid) tx" where
  "insertEvent jsonb store eventID sequence d db =
     (case jsonb (dr_payload d) of
        Inl e \<Rightarrow> (Inl e, db)
      | Inr payload \<Rightarrow>
          tx_bind (insert_outbox_row (new_outbox_row store (clock db) eventID sequence d payload))
            (\<lambda>_. tx_return eventID) db)"

definition AddTx ::
  "(string \<Rightarrow> string result) \<Rightarrow> (gotime \<Rightarrow> gotime) \<Rightarrow> uuid \<Rightarrow> int64 \<Rightarrow> draft \<Rightarrow> (database, envelope) tx" where
  "AddTx jsonb store eventID sequence d db =
     (case validateDraft d of
        Inl e \<Rightarrow> (Inl (E OutboxRepository ErrInvalidArgument # e), db)
      | Inr validated \<Rightarrow>
          (case insertEvent jsonb store eventID sequence validated db of
             (Inl e, db') \<Rightarrow> (Inl (outbox_classifyWriteError e), db')
           | (Inr i, db') \<Rightarrow>
               (wrap [E OutboxRepository ErrCorruptData] (NewEnvelope i validated), db')))"

section \<open>Claims\<close>

record claimedEvent =
  ce_Envelope :: envelope
  ce_Sequence :: int64
  ce_PublishAttempts :: int32
  ce_ClaimToken :: string

definition second :: int where "second = 1000000000"
definition maxClaimBatch :: int where "maxClaimBatch = 100"
definition minClaimLease :: int where "minClaimLease = second"
definition maxClaimLease :: int where "maxClaimLease = 15 * 60 * second"
definition maxRetryDelay :: int where "maxRetryDelay = 24 * 60 * 60 * second"
definition maxDiagnosticBytes :: nat where "maxDiagnosticBytes = 1024"
definition fallbackDiagnostic :: string where "fallbackDiagnostic = ''publication failed''"

text \<open>\<open>fmt\<close>'s \<open>%x\<close> of a byte slice\<close>

definition hex_text :: "8 word list \<Rightarrow> string" where
  "hex_text bs = concat (map (\<lambda>b. [hex_digit (unat b div 16), hex_digit (unat b mod 16)]) bs)"

unbundle bit_operations_syntax

definition newClaimToken :: "8 word list result \<Rightarrow> string result" where
  "newClaimToken random =
     andThen random (\<lambda>token.
     let token = token[6 := token ! 6 AND 0x0F OR 0x40];
         token = token[8 := token ! 8 AND 0x3F OR 0x80]
     in Inr (hex_text (take 4 token) @ ''-'' @ hex_text (take 2 (drop 4 token)) @ ''-'' @
          hex_text (take 2 (drop 6 token)) @ ''-'' @ hex_text (take 2 (drop 8 token)) @ ''-'' @
          hex_text (take 6 (drop 10 token))))"

definition claimable :: "gotime \<Rightarrow> outbox_row \<Rightarrow> bool" where
  "claimable now e \<longleftrightarrow>
     o_published_at e = None \<and> o_available_at e \<le> now \<and>
     (case o_claimed_until e of None \<Rightarrow> True | Some t \<Rightarrow> t \<le> now)"

text \<open>\<open>ORDER BY available_at, sequence FOR UPDATE SKIP LOCKED LIMIT\<close>: sorting is stable.\<close>

definition candidates :: "(uuid \<Rightarrow> bool) \<Rightarrow> int \<Rightarrow> database \<Rightarrow> outbox_row list" where
  "candidates locked limit db =
     take (nat limit)
       (sort_key o_available_at (sort_key (sint \<circ> o_sequence)
          (filter (\<lambda>e. claimable (clock db) e \<and> \<not> locked (o_event_id e)) (outbox_events db))))"

definition leased_row :: "uuid \<Rightarrow> gotime \<Rightarrow> outbox_row \<Rightarrow> outbox_row" where
  "leased_row token until e = e\<lparr>o_claimed_by := Some token, o_claimed_until := Some until\<rparr>"

definition claimEventsQuery ::
  "(uuid \<Rightarrow> bool) \<Rightarrow> int \<Rightarrow> uuid \<Rightarrow> int \<Rightarrow> (database, outbox_row list) tx" where
  "claimEventsQuery locked limit token secs db =
     (let ids = map o_event_id (candidates locked limit db) in
      update_outbox_rows (\<lambda>e. o_event_id e \<in> set ids)
        (leased_row token (clock db + secs * second)) db)"

definition scanned_params :: "outbox_row \<Rightarrow> draftParams" where
  "scanned_params e =
     \<lparr>dp_EventType = o_event_type e, dp_EventVersion = o_event_version e,
      dp_AggregateType = o_aggregate_type e, dp_AggregateID = o_aggregate_id e,
      dp_AggregateVersion = o_aggregate_version e, dp_CorrelationID = o_correlation_id e,
      dp_CausationID = (case o_causation_id e of None \<Rightarrow> [] | Some c \<Rightarrow> c),
      dp_OccurredAt = o_occurred_at e, dp_Payload = o_payload e\<rparr>"

definition scanClaimedEvent :: "string \<Rightarrow> outbox_row \<Rightarrow> claimedEvent result" where
  "scanClaimedEvent claimToken row =
     andThen (wrap [E OutboxRepository ErrCorruptData] (NewDraft (scanned_params row))) (\<lambda>d.
     andThen (wrap [E OutboxRepository ErrCorruptData] (NewEnvelope (o_event_id row) d)) (\<lambda>e.
     Inr \<lparr>ce_Envelope = e, ce_Sequence = o_sequence row, ce_PublishAttempts = o_publish_attempts row,
          ce_ClaimToken = claimToken\<rparr>))"

definition Claim ::
  "8 word list result \<Rightarrow> tx_env \<Rightarrow> (uuid \<Rightarrow> bool) \<Rightarrow> int64 \<Rightarrow> int64 \<Rightarrow> (database, claimedEvent list) tx" where
  "Claim random env locked limit lease db =
     (if sint limit \<le> 0 \<or> maxClaimBatch < sint limit then (fail OutboxRepository ErrInvalidArgument, db)
      else if sint lease < minClaimLease \<or> maxClaimLease < sint lease \<or> sint lease mod second \<noteq> 0
      then (fail OutboxRepository ErrInvalidArgument, db)
      else case newClaimToken random of
        Inl e \<Rightarrow> (Inl e, db)
      | Inr claimToken \<Rightarrow>
          run_tx env
            (tx_bind (claimEventsQuery locked (sint limit) claimToken (sint lease div second)) (\<lambda>rows.
             tx_lift (andThen (map_result (scanClaimedEvent claimToken) rows) (\<lambda>claimed.
               Inr (sort_key (sint \<circ> ce_Sequence) claimed))))) db)"

section \<open>Completion\<close>

definition outbox_parseUUID :: "(string \<Rightarrow> uuid option) \<Rightarrow> string \<Rightarrow> uuid result" where
  "outbox_parseUUID scan value =
     (case scan value of None \<Rightarrow> Inl [Opaque ''parsing UUID''] | Some u \<Rightarrow> Inr u)"

definition parseClaimIdentity :: "(string \<Rightarrow> uuid option) \<Rightarrow> string \<Rightarrow> string \<Rightarrow> (uuid \<times> uuid) result" where
  "parseClaimIdentity scan eventID claimToken =
     andThen (wrap [E OutboxRepository ErrInvalidArgument] (outbox_parseUUID scan eventID)) (\<lambda>parsedEventID.
     andThen (wrap [E OutboxRepository ErrInvalidArgument] (outbox_parseUUID scan claimToken)) (\<lambda>parsedToken.
     Inr (parsedEventID, parsedToken)))"

definition claimed_as :: "uuid \<Rightarrow> uuid \<Rightarrow> outbox_row \<Rightarrow> bool" where
  "claimed_as i token e \<longleftrightarrow> o_event_id e = i \<and> o_claimed_by e = Some token \<and> o_published_at e = None"

definition published_row :: "gotime \<Rightarrow> outbox_row \<Rightarrow> outbox_row" where
  "published_row now e =
     e\<lparr>o_published_at := Some now, o_claimed_by := None, o_claimed_until := None, o_last_error := None\<rparr>"

text \<open>\<open>LEAST(publish_attempts::bigint + 1, 2147483647)::integer\<close>\<close>

definition next_attempts :: "int32 \<Rightarrow> int32" where
  "next_attempts n = word_of_int (min (sint n + 1) 2147483647)"

definition failed_row :: "gotime \<Rightarrow> int \<Rightarrow> string \<Rightarrow> outbox_row \<Rightarrow> outbox_row" where
  "failed_row now secs diagnostic e =
     e\<lparr>o_available_at := now + secs * second, o_publish_attempts := next_attempts (o_publish_attempts e),
       o_claimed_by := None, o_claimed_until := None, o_last_error := Some diagnostic\<rparr>"

text \<open>A statement run on the pool outside of a transaction, and the check of its row count.\<close>

definition exec_one :: "tx_env \<Rightarrow> (database, outbox_row list) tx \<Rightarrow> (database, unit) tx" where
  "exec_one env statement =
     tx_bind (run_tx env statement) (\<lambda>rows.
       if length rows \<noteq> 1 then tx_lift (fail OutboxRepository ErrClaimLost) else tx_return ())"

definition MarkPublished ::
  "(string \<Rightarrow> uuid option) \<Rightarrow> tx_env \<Rightarrow> string \<Rightarrow> string \<Rightarrow> (database, unit) tx" where
  "MarkPublished scan env eventID claimToken db =
     (case parseClaimIdentity scan eventID claimToken of
        Inl e \<Rightarrow> (Inl e, db)
      | Inr (parsedEventID, parsedToken) \<Rightarrow>
          exec_one env
            (update_outbox_rows (claimed_as parsedEventID parsedToken) (published_row (clock db))) db)"

text \<open>
  The loop over the code points of a diagnostic: one output byte per code point, and at most
  \<open>room\<close> of them.
\<close>

function sanitized :: "nat \<Rightarrow> string \<Rightarrow> string" where
  "sanitized room [] = []"
| "sanitized room (c # cs) =
     (if room = 0 then []
      else if (of_char c :: nat) < 128
      then (if CHR '' '' \<le> c \<and> c \<le> CHR ''~'' then c else CHR ''?'') # sanitized (room - 1) cs
      else CHR ''?'' # sanitized (room - 1)
        (case rune_tail (of_char c) (map of_char cs) of None \<Rightarrow> cs | Some n \<Rightarrow> drop n cs))"
  by pat_completeness auto
termination
  by (relation "measure (length \<circ> snd)") (auto split: option.split simp: less_Suc_eq_le)

definition sanitizeDiagnostic :: "string \<Rightarrow> string" where
  "sanitizeDiagnostic value =
     (let s = sanitized maxDiagnosticBytes value in if s = [] then fallbackDiagnostic else s)"

definition MarkFailed ::
  "(string \<Rightarrow> uuid option) \<Rightarrow> tx_env \<Rightarrow> string \<Rightarrow> string \<Rightarrow> int64 \<Rightarrow> string \<Rightarrow> (database, unit) tx" where
  "MarkFailed scan env eventID claimToken retryAfter diagnostic db =
     (case parseClaimIdentity scan eventID claimToken of
        Inl e \<Rightarrow> (Inl e, db)
      | Inr (parsedEventID, parsedToken) \<Rightarrow>
          if sint retryAfter < 0 \<or> maxRetryDelay < sint retryAfter \<or> sint retryAfter mod second \<noteq> 0
          then (fail OutboxRepository ErrInvalidArgument, db)
          else
            exec_one env
              (update_outbox_rows (claimed_as parsedEventID parsedToken)
                 (failed_row (clock db) (sint retryAfter div second) (sanitizeDiagnostic diagnostic))) db)"

end
