(* ===== verification/Transfer_Repository.thy ===== *)
theory Transfer_Repository
  imports Transfer_Tables Transfer_Events Ledger_Repository Outbox_Repository
begin

text \<open>
  The transfer repository (\<open>internal/transfer/postgres\<close>): \<open>Create\<close>, which posts a transfer at once, and
  \<open>CreatePending\<close>, which accepts one for assessment, both idempotent within the requester's keys; and the
  statements of the workers on a lifecycle inside a transaction of their own.

  Arguments as in the ledger and outbox repositories: \<open>scan\<close>, \<open>store\<close>, \<open>jsonb\<close>, and the generated \<open>eventID\<close> and
  \<open>sequence\<close>. \<open>seen\<close> says whether the snapshot of the transaction sees the row that an
  \<open>ON CONFLICT DO NOTHING\<close> insertion met: a concurrent transaction may have committed it after the snapshot was
  taken.
\<close>

section \<open>Preparation\<close>

definition transfer_maxTransactionAttempts :: nat where "transfer_maxTransactionAttempts = 3"

record preparedTransfer =
  pt_transfer :: Transfer
  pt_id :: uuid
  pt_requesterID :: uuid
  pt_sourceID :: uuid
  pt_destinationID :: uuid
  pt_entry :: JournalEntry
  pt_completedEvent :: draft

record preparedPendingTransfer =
  pp_lifecycle :: Lifecycle
  pp_id :: uuid
  pp_requesterID :: uuid
  pp_sourceID :: uuid
  pp_destinationID :: uuid
  pp_requestedEvent :: draft

definition transfer_parseUUID :: "(string \<Rightarrow> uuid option) \<Rightarrow> string \<Rightarrow> uuid result" where
  "transfer_parseUUID scan v =
     (case scan v of None \<Rightarrow> Inl [Opaque ''parsing UUID''] | Some u \<Rightarrow> Inr u)"

abbreviation invalid_argument :: "'a result \<Rightarrow> 'a result" where
  "invalid_argument \<equiv> wrap [E TransferRepository ErrInvalidArgument]"

definition prepareTransfer :: "(string \<Rightarrow> uuid option) \<Rightarrow> Transfer \<Rightarrow> preparedTransfer result" where
  "prepareTransfer scan t =
     andThen (invalid_argument (NewTransfer
       \<lparr>tp_ID = t_id t, tp_IdempotencyKey = t_idempotencyKey t, tp_RequesterID = t_requesterID t,
        tp_SourceAccountID = t_sourceAccountID t, tp_DestinationAccountID = t_destinationAccountID t,
        tp_Amount = t_amount t, tp_RequestedAt = t_requestedAt t\<rparr>)) (\<lambda>validated.
     andThen (invalid_argument (transfer_parseUUID scan (t_id validated))) (\<lambda>i.
     andThen (invalid_argument (transfer_parseUUID scan (t_requesterID validated))) (\<lambda>requesterID.
     andThen (invalid_argument (transfer_parseUUID scan (t_sourceAccountID validated))) (\<lambda>sourceID.
     andThen (invalid_argument (transfer_parseUUID scan (t_destinationAccountID validated))) (\<lambda>destinationID.
     andThen (invalid_argument (transfer_JournalEntry validated)) (\<lambda>entry.
     andThen (invalid_argument (Completed validated)) (\<lambda>completedEvent.
     Inr \<lparr>pt_transfer = validated, pt_id = i, pt_requesterID = requesterID, pt_sourceID = sourceID,
          pt_destinationID = destinationID, pt_entry = entry, pt_completedEvent = completedEvent\<rparr>)))))))"

definition preparePendingTransfer ::
  "(string \<Rightarrow> uuid option) \<Rightarrow> Lifecycle \<Rightarrow> preparedPendingTransfer result" where
  "preparePendingTransfer scan l =
     andThen (invalid_argument (NewLifecycle
       \<lparr>lp_Transfer = l_transfer l, lp_Status = l_status l, lp_Version = l_version l,
        lp_RiskPolicyVersion = l_riskPolicyVersion l, lp_JournalEntryID = l_journalEntryID l,
        lp_FailureReason = l_failureReason l\<rparr>)) (\<lambda>validated.
     if l_status validated \<noteq> StatusPendingRisk then fail TransferRepository ErrInvalidArgument
     else let t = l_transfer validated in
       andThen (invalid_argument (transfer_parseUUID scan (t_id t))) (\<lambda>i.
       andThen (invalid_argument (transfer_parseUUID scan (t_requesterID t))) (\<lambda>requesterID.
       andThen (invalid_argument (transfer_parseUUID scan (t_sourceAccountID t))) (\<lambda>sourceID.
       andThen (invalid_argument (transfer_parseUUID scan (t_destinationAccountID t))) (\<lambda>destinationID.
       andThen (invalid_argument (Requested validated)) (\<lambda>requestedEvent.
       Inr \<lparr>pp_lifecycle = validated, pp_id = i, pp_requesterID = requesterID, pp_sourceID = sourceID,
            pp_destinationID = destinationID, pp_requestedEvent = requestedEvent\<rparr>))))))"

section \<open>Reservation\<close>

definition new_transfer_row :: "(gotime \<Rightarrow> gotime) \<Rightarrow> preparedTransfer \<Rightarrow> transfer_row" where
  "new_transfer_row store p =
     \<lparr>tr_id = pt_id p, tr_requester_id = pt_requesterID p,
      tr_idempotency_key = t_idempotencyKey (pt_transfer p), tr_source_account_id = pt_sourceID p,
      tr_destination_account_id = pt_destinationID p,
      tr_currency = currency_String (currency (t_amount (pt_transfer p))),
      tr_amount_minor = minorUnits (t_amount (pt_transfer p)),
      tr_requested_at = store (t_requestedAt (pt_transfer p)), tr_status = ''completed'',
      tr_state_version = 1, tr_risk_policy_version = None, tr_journal_entry_id = Some (pt_id p),
      tr_failure_reason = None\<rparr>"

definition new_pending_row :: "(gotime \<Rightarrow> gotime) \<Rightarrow> preparedPendingTransfer \<Rightarrow> transfer_row" where
  "new_pending_row store p =
     (let t = l_transfer (pp_lifecycle p) in
      \<lparr>tr_id = pp_id p, tr_requester_id = pp_requesterID p, tr_idempotency_key = t_idempotencyKey t,
       tr_source_account_id = pp_sourceID p, tr_destination_account_id = pp_destinationID p,
       tr_currency = currency_String (currency (t_amount t)), tr_amount_minor = minorUnits (t_amount t),
       tr_requested_at = store (t_requestedAt t), tr_status = ''pending_risk'', tr_state_version = 1,
       tr_risk_policy_version = Some (l_riskPolicyVersion (pp_lifecycle p)), tr_journal_entry_id = None,
       tr_failure_reason = None\<rparr>)"

definition reserveTransfer :: "(gotime \<Rightarrow> gotime) \<Rightarrow> preparedTransfer \<Rightarrow> (database, bool) tx" where
  "reserveTransfer store p =
     tx_bind (insert_transfer_row (new_transfer_row store p)) (\<lambda>i. tx_return (i \<noteq> None))"

definition reservePendingTransfer ::
  "(gotime \<Rightarrow> gotime) \<Rightarrow> preparedPendingTransfer \<Rightarrow> (database, bool) tx" where
  "reservePendingTransfer store p =
     tx_bind (insert_transfer_row (new_pending_row store p)) (\<lambda>i. tx_return (i \<noteq> None))"

section \<open>Reading transfers\<close>

definition select_transfer :: "uuid \<Rightarrow> string \<Rightarrow> database \<Rightarrow> transfer_row option" where
  "select_transfer requester key db =
     find (\<lambda>r. tr_requester_id r = requester \<and> tr_idempotency_key r = key) (transfers db)"

definition stored_transfer :: "transfer_row \<Rightarrow> Transfer result" where
  "stored_transfer r =
     andThen (wrap [E TransferRepository ErrCorruptData] (ParseCurrency (tr_currency r))) (\<lambda>cur.
     andThen (wrap [E TransferRepository ErrCorruptData] (NewMoney (tr_amount_minor r) cur)) (\<lambda>amount.
     wrap [E TransferRepository ErrCorruptData] (NewTransfer
       \<lparr>tp_ID = tr_id r, tp_IdempotencyKey = tr_idempotency_key r, tp_RequesterID = tr_requester_id r,
        tp_SourceAccountID = tr_source_account_id r,
        tp_DestinationAccountID = tr_destination_account_id r, tp_Amount = amount,
        tp_RequestedAt = tr_requested_at r\<rparr>)))"

definition selectTransferByKey :: "bool \<Rightarrow> preparedTransfer \<Rightarrow> (database, Transfer) tx" where
  "selectTransferByKey seen p =
     tx_read (\<lambda>db.
       case (if seen then select_transfer (pt_requesterID p) (t_idempotencyKey (pt_transfer p)) db else None) of
         None \<Rightarrow> Inl [RetryableReplay]
       | Some r \<Rightarrow> stored_transfer r)"

definition lifecycleStatus :: "string \<Rightarrow> Status \<times> bool" where
  "lifecycleStatus v =
     (if v = status_String StatusPendingRisk then (StatusPendingRisk, True)
      else if v = status_String StatusApproved then (StatusApproved, True)
      else if v = status_String StatusReviewRequired then (StatusReviewRequired, True)
      else if v = status_String StatusDeclined then (StatusDeclined, True)
      else if v = status_String StatusCompleted then (StatusCompleted, True)
      else if v = status_String StatusFailed then (StatusFailed, True)
      else (StatusUnknown, False))"

definition nullableValue :: "string option \<Rightarrow> string" where
  "nullableValue v = (case v of None \<Rightarrow> [] | Some s \<Rightarrow> s)"

text \<open>\<open>lifecycleRecord.lifecycle\<close>: the record's fields are the selected columns.\<close>

definition lifecycleRecord_lifecycle :: "transfer_row \<Rightarrow> Lifecycle result" where
  "lifecycleRecord_lifecycle r =
     andThen (stored_transfer r) (\<lambda>transfer.
     case lifecycleStatus (tr_status r) of (status, ok) \<Rightarrow>
       if \<not> ok then fail TransferRepository ErrCorruptData
       else wrap [E TransferRepository ErrCorruptData] (NewLifecycle
         \<lparr>lp_Transfer = transfer, lp_Status = status, lp_Version = tr_state_version r,
          lp_RiskPolicyVersion = nullableValue (tr_risk_policy_version r),
          lp_JournalEntryID = nullableValue (tr_journal_entry_id r),
          lp_FailureReason = nullableValue (tr_failure_reason r)\<rparr>))"

definition selectLifecycleByKey :: "bool \<Rightarrow> preparedPendingTransfer \<Rightarrow> (database, Lifecycle) tx" where
  "selectLifecycleByKey seen p =
     tx_read (\<lambda>db.
       case (if seen
             then select_transfer (pp_requesterID p) (t_idempotencyKey (l_transfer (pp_lifecycle p))) db
             else None) of
         None \<Rightarrow> Inl [RetryableReplay]
       | Some r \<Rightarrow> lifecycleRecord_lifecycle r)"

section \<open>Authorization\<close>

record accountRecord =
  ar_id :: string
  ar_ownerID :: string
  ar_status :: string
  ar_accountType :: string
  ar_currency :: string

text \<open>The rows of \<open>accounts JOIN wallets\<close>; an account has one wallet.\<close>

definition transfer_accountsQuery :: "uuid list \<Rightarrow> database \<Rightarrow> accountRecord list" where
  "transfer_accountsQuery ids db =
     concat (map (\<lambda>a.
         map (\<lambda>w. \<lparr>ar_id = a_id a, ar_ownerID = w_owner_id w, ar_status = a_status a,
                   ar_accountType = a_account_type a, ar_currency = a_currency a\<rparr>)
           (filter (\<lambda>w. w_id w = a_wallet_id a) (wallets db)))
       (sort_key a_id (filter (\<lambda>a. a_id a \<in> set ids) (accounts db))))"

fun check_records :: "string \<Rightarrow> accountRecord list \<Rightarrow> unit result" where
  "check_records code [] = Inr ()"
| "check_records code (record # rest) =
     (if ar_status record \<noteq> ''active'' then fail TransferRepository ErrInactiveAccount
      else if ar_accountType record \<noteq> ''customer'' then fail TransferRepository ErrNonCustomerAccount
      else if ar_currency record \<noteq> code then fail TransferRepository ErrCurrencyMismatch
      else check_records code rest)"

definition authorizeTransferAccounts :: "Transfer \<Rightarrow> uuid \<Rightarrow> uuid \<Rightarrow> (database, unit) tx" where
  "authorizeTransferAccounts t sourceID destinationID =
     tx_read (\<lambda>db.
       let records = rev (map (\<lambda>record. (ar_id record, record)) (transfer_accountsQuery [sourceID, destinationID] db)) in
       case map_of records (t_sourceAccountID t) of
         None \<Rightarrow> fail TransferRepository ErrUnauthorized
       | Some source \<Rightarrow>
           if ar_ownerID source \<noteq> t_requesterID t then fail TransferRepository ErrUnauthorized
           else case map_of records (t_destinationAccountID t) of
             None \<Rightarrow> fail TransferRepository ErrNotFound
           | Some destination \<Rightarrow>
               check_records (currency_String (currency (t_amount t))) [source, destination])"

definition authorizePendingAccounts :: "preparedPendingTransfer \<Rightarrow> (database, unit) tx" where
  "authorizePendingAccounts p =
     authorizeTransferAccounts (l_transfer (pp_lifecycle p)) (pp_sourceID p) (pp_destinationID p)"

definition authorizeAccounts :: "preparedTransfer \<Rightarrow> (database, unit) tx" where
  "authorizeAccounts p = authorizeTransferAccounts (pt_transfer p) (pt_sourceID p) (pt_destinationID p)"

section \<open>Creating\<close>

definition sameIntent :: "Transfer \<Rightarrow> Transfer \<Rightarrow> bool" where
  "sameIntent left right \<longleftrightarrow>
     t_requesterID left = t_requesterID right \<and> t_sourceAccountID left = t_sourceAccountID right \<and>
     t_destinationAccountID left = t_destinationAccountID right \<and> t_amount left = t_amount right"

definition mapLedgerError :: "error \<Rightarrow> error" where
  "mapLedgerError err =
     (if errors_Is err (E LedgerRepository ErrInsufficientFunds) then E TransferRepository ErrInsufficientFunds # err
      else if errors_Is err (E LedgerRepository ErrAmountOverflow) then E TransferRepository ErrAmountOverflow # err
      else if errors_Is err (E LedgerRepository ErrAlreadyExists) then E TransferRepository ErrAlreadyExists # err
      else if errors_Is err (E LedgerRepository ErrCurrencyMismatch) then E TransferRepository ErrCurrencyMismatch # err
      else if errors_Is err (E LedgerRepository ErrNotFound) then E TransferRepository ErrNotFound # err
      else err)"

definition tx_map_error :: "(error \<Rightarrow> error) \<Rightarrow> (database, 'a) tx \<Rightarrow> (database, 'a) tx" where
  "tx_map_error f m db = (case m db of (Inl e, db') \<Rightarrow> (Inl (f e), db') | (Inr x, db') \<Rightarrow> (Inr x, db'))"

definition create_body ::
  "(string \<Rightarrow> uuid option) \<Rightarrow> (gotime \<Rightarrow> gotime) \<Rightarrow> (string \<Rightarrow> string result) \<Rightarrow> uuid \<Rightarrow> int64 \<Rightarrow> bool
     \<Rightarrow> preparedTransfer \<Rightarrow> (database, Transfer) tx" where
  "create_body scan store jsonb eventID sequence seen p =
     tx_bind (reserveTransfer store p) (\<lambda>inserted.
     if \<not> inserted then
       tx_bind (selectTransferByKey seen p) (\<lambda>stored.
       if \<not> sameIntent stored (pt_transfer p) then tx_lift (fail TransferRepository ErrIdempotencyConflict)
       else tx_return stored)
     else
       tx_bind (authorizeAccounts p) (\<lambda>_.
       tx_bind (tx_map_error mapLedgerError (PostTx scan store (pt_entry p))) (\<lambda>_.
       tx_bind (AddTx jsonb store eventID sequence (pt_completedEvent p)) (\<lambda>_.
       tx_return (pt_transfer p)))))"

definition createOnce ::
  "(string \<Rightarrow> uuid option) \<Rightarrow> (gotime \<Rightarrow> gotime) \<Rightarrow> (string \<Rightarrow> string result) \<Rightarrow> uuid \<Rightarrow> int64 \<Rightarrow> bool
     \<Rightarrow> tx_env \<Rightarrow> preparedTransfer \<Rightarrow> (database, Transfer) tx" where
  "createOnce scan store jsonb eventID sequence seen env p =
     run_deferred env (create_body scan store jsonb eventID sequence seen p)"

definition pending_body ::
  "(gotime \<Rightarrow> gotime) \<Rightarrow> (string \<Rightarrow> string result) \<Rightarrow> uuid \<Rightarrow> int64 \<Rightarrow> bool
     \<Rightarrow> preparedPendingTransfer \<Rightarrow> (database, Lifecycle) tx" where
  "pending_body store jsonb eventID sequence seen p =
     tx_bind (reservePendingTransfer store p) (\<lambda>inserted.
     if \<not> inserted then
       tx_bind (selectLifecycleByKey seen p) (\<lambda>stored.
       if \<not> sameIntent (l_transfer stored) (l_transfer (pp_lifecycle p))
       then tx_lift (fail TransferRepository ErrIdempotencyConflict)
       else tx_return stored)
     else
       tx_bind (authorizePendingAccounts p) (\<lambda>_.
       tx_bind (AddTx jsonb store eventID sequence (pp_requestedEvent p)) (\<lambda>_.
       tx_return (pp_lifecycle p))))"

definition createPendingOnce ::
  "(gotime \<Rightarrow> gotime) \<Rightarrow> (string \<Rightarrow> string result) \<Rightarrow> uuid \<Rightarrow> int64 \<Rightarrow> bool \<Rightarrow> tx_env
     \<Rightarrow> preparedPendingTransfer \<Rightarrow> (database, Lifecycle) tx" where
  "createPendingOnce store jsonb eventID sequence seen env p =
     run_deferred env (pending_body store jsonb eventID sequence seen p)"

definition classifyCreateError :: "error \<Rightarrow> error" where
  "classifyCreateError err =
     (case as_PgError err of
        None \<Rightarrow> err
      | Some pg \<Rightarrow>
          if pg_code pg = ''23505'' \<and> pg_constraint pg = ''transfers_pkey''
          then E TransferRepository ErrAlreadyExists # err else err)"

definition transfer_isRetryableTransaction :: "error \<Rightarrow> bool" where
  "transfer_isRetryableTransaction err \<longleftrightarrow>
     RetryableReplay \<in> set err \<or>
     (case as_PgError err of
        None \<Rightarrow> False
      | Some pg \<Rightarrow> pg_code pg = ''40001'' \<or> pg_code pg = ''40P01'')"

text \<open>What the server and the driver do in attempt \<open>i\<close>: the generated values, the snapshot and the faults.\<close>

record attempt =
  at_eventID :: uuid
  at_sequence :: int64
  at_seen :: bool
  at_env :: tx_env

definition Create ::
  "(string \<Rightarrow> uuid option) \<Rightarrow> (gotime \<Rightarrow> gotime) \<Rightarrow> (string \<Rightarrow> string result) \<Rightarrow> (nat \<Rightarrow> error option)
     \<Rightarrow> (nat \<Rightarrow> attempt) \<Rightarrow> Transfer \<Rightarrow> (database, Transfer) tx" where
  "Create scan store jsonb ctx attempts t db =
     (case prepareTransfer scan t of
        Inl e \<Rightarrow> (Inl e, db)
      | Inr p \<Rightarrow>
          retry ctx
            (\<lambda>i. createOnce scan store jsonb (at_eventID (attempts i)) (at_sequence (attempts i))
               (at_seen (attempts i)) (at_env (attempts i)) p)
            transfer_isRetryableTransaction classifyCreateError (E TransferRepository ErrSerializationFailure)
            0 transfer_maxTransactionAttempts [] db)"

definition CreatePending ::
  "(string \<Rightarrow> uuid option) \<Rightarrow> (gotime \<Rightarrow> gotime) \<Rightarrow> (string \<Rightarrow> string result) \<Rightarrow> (nat \<Rightarrow> error option)
     \<Rightarrow> (nat \<Rightarrow> attempt) \<Rightarrow> Lifecycle \<Rightarrow> (database, Lifecycle) tx" where
  "CreatePending scan store jsonb ctx attempts l db =
     (case preparePendingTransfer scan l of
        Inl e \<Rightarrow> (Inl e, db)
      | Inr p \<Rightarrow>
          retry ctx
            (\<lambda>i. createPendingOnce store jsonb (at_eventID (attempts i)) (at_sequence (attempts i))
               (at_seen (attempts i)) (at_env (attempts i)) p)
            transfer_isRetryableTransaction classifyCreateError (E TransferRepository ErrSerializationFailure)
            0 transfer_maxTransactionAttempts [] db)"

section \<open>Lifecycles inside a transaction\<close>

definition LoadLifecycleForUpdateTx :: "(string \<Rightarrow> uuid option) \<Rightarrow> string \<Rightarrow> (database, Lifecycle) tx" where
  "LoadLifecycleForUpdateTx scan transferID =
     tx_read (\<lambda>db.
       andThen (invalid_argument (transfer_parseUUID scan transferID)) (\<lambda>i.
       case find (\<lambda>r. tr_id r = i) (transfers db) of
         None \<Rightarrow> fail TransferRepository ErrNotFound
       | Some r \<Rightarrow> lifecycleRecord_lifecycle r))"

definition decided_row :: "string \<Rightarrow> string \<Rightarrow> gotime \<Rightarrow> review_row \<Rightarrow> review_row" where
  "decided_row decision subject decidedAt r =
     r\<lparr>rc_status := decision, rc_decision := Some decision, rc_decided_by := Some subject,
       rc_decided_at := Some decidedAt\<rparr>"

definition DecideReviewCaseTx ::
  "(string \<Rightarrow> uuid option) \<Rightarrow> (gotime \<Rightarrow> gotime) \<Rightarrow> string \<Rightarrow> string \<Rightarrow> string \<Rightarrow> gotime \<Rightarrow> (database, unit) tx" where
  "DecideReviewCaseTx scan store transferID decision subject decidedAt =
     tx_bind (tx_lift (invalid_argument (transfer_parseUUID scan transferID))) (\<lambda>i.
     if decision \<noteq> ''approved'' \<and> decision \<noteq> ''declined'' \<or> subject = []
     then tx_lift (fail TransferRepository ErrInvalidArgument)
     else tx_bind
       (update_review_rows (\<lambda>r. rc_transfer_id r = i \<and> rc_status r = ''open'')
          (decided_row decision subject (store decidedAt)))
       (\<lambda>rowsAffected.
          if rowsAffected \<noteq> 1 then tx_lift (fail TransferRepository ErrStateConflict) else tx_return ()))"

text \<open>\<open>matchesRiskDecision\<close> is defined once more in this package, with the same cases as in the events.\<close>

definition prepareRiskAssessment ::
  "(string \<Rightarrow> uuid option) \<Rightarrow> Lifecycle \<Rightarrow> Lifecycle \<Rightarrow> Input \<Rightarrow> Evaluation \<Rightarrow> string \<Rightarrow> gotime
     \<Rightarrow> (string \<times> string \<times> uuid) result" where
  "prepareRiskAssessment scan previous nxt input ev causationEventID assessedAt =
     andThen (invalid_argument (transfer_parseUUID scan causationEventID)) (\<lambda>causationID.
     if IsZero assessedAt \<or> l_status previous \<noteq> StatusPendingRisk \<or>
        t_id (l_transfer previous) \<noteq> t_id (l_transfer nxt) \<or>
        in_Amount input \<noteq> t_amount (l_transfer previous) \<or> in_VelocityTransferCount input <s 0 \<or>
        l_riskPolicyVersion previous \<noteq> l_riskPolicyVersion nxt \<or>
        l_version nxt \<noteq> l_version previous + 1 \<or> ev_policyVersion ev \<noteq> l_riskPolicyVersion previous \<or>
        \<not> matchesRiskDecision (l_status nxt) (ev_decision ev)
     then fail TransferRepository ErrInvalidArgument
     else Inr
       (json_print (JObject
          [(''amount_minor'', JInt (sint (minorUnits (in_Amount input)))),
           (''currency'', JString (currency_String (currency (in_Amount input)))),
           (''velocity_transfer_count'', JInt (sint (in_VelocityTransferCount input))),
           (''velocity_degraded'', JBool (in_VelocityDegraded input))]),
        json_print (JArray (map signalPayload (ev_signals ev))), causationID))"

definition assessed_row :: "Lifecycle \<Rightarrow> transfer_row \<Rightarrow> transfer_row" where
  "assessed_row nxt r = r\<lparr>tr_status := status_String (l_status nxt), tr_state_version := l_version nxt\<rparr>"

definition at_state :: "Lifecycle \<Rightarrow> transfer_row \<Rightarrow> bool" where
  "at_state previous r \<longleftrightarrow>
     tr_id r = t_id (l_transfer previous) \<and> tr_status r = status_String (l_status previous) \<and>
     tr_state_version r = l_version previous"

text \<open>
  The parameters are evaluated by the server before the row is written: a JSON text that the column type
  refuses is an error response. The score is written to a \<open>SMALLINT\<close> column.
\<close>

definition insertRiskAssessment ::
  "(string \<Rightarrow> string result) \<Rightarrow> (gotime \<Rightarrow> gotime) \<Rightarrow> Lifecycle \<Rightarrow> Lifecycle \<Rightarrow> Evaluation \<Rightarrow> string \<Rightarrow> string
     \<Rightarrow> uuid \<Rightarrow> gotime \<Rightarrow> (database, unit) tx" where
  "insertRiskAssessment jsonb store previous nxt ev encodedInput signals causationID assessedAt db =
     tx_bind (tx_lift (jsonb encodedInput)) (\<lambda>input.
     tx_bind (tx_lift (jsonb signals)) (\<lambda>signals'.
     insert_assessment_row
       \<lparr>ra_transfer_id = t_id (l_transfer previous), ra_lifecycle_version = l_version nxt,
        ra_causation_event_id = causationID, ra_policy_version = ev_policyVersion ev,
        ra_captured_input = input, ra_score = word_of_int (ev_score ev),
        ra_decision = decision_String (ev_decision ev), ra_signals = signals',
        ra_assessed_at = store assessedAt, ra_created_at = clock db\<rparr>)) db"

definition insertReviewCase :: "(gotime \<Rightarrow> gotime) \<Rightarrow> Lifecycle \<Rightarrow> Lifecycle \<Rightarrow> gotime \<Rightarrow> (database, unit) tx" where
  "insertReviewCase store previous nxt assessedAt db =
     insert_review_row
       \<lparr>rc_transfer_id = t_id (l_transfer previous), rc_assessment_lifecycle_version = l_version nxt,
        rc_status = ''open'', rc_opened_at = store assessedAt, rc_created_at = clock db,
        rc_decision = None, rc_decided_by = None, rc_decided_at = None\<rparr> db"

definition StoreRiskAssessmentTx ::
  "(string \<Rightarrow> uuid option) \<Rightarrow> (gotime \<Rightarrow> gotime) \<Rightarrow> (string \<Rightarrow> string result) \<Rightarrow> Lifecycle \<Rightarrow> Lifecycle \<Rightarrow> Input
     \<Rightarrow> Evaluation \<Rightarrow> string \<Rightarrow> gotime \<Rightarrow> (database, unit) tx" where
  "StoreRiskAssessmentTx scan store jsonb previous nxt input ev causationEventID assessedAt =
     tx_bind (tx_lift (prepareRiskAssessment scan previous nxt input ev causationEventID assessedAt))
       (\<lambda>(encodedInput, signals, causationID).
     tx_bind (update_transfer_rows (at_state previous) (assessed_row nxt)) (\<lambda>rowsAffected.
     if rowsAffected \<noteq> 1 then tx_lift (fail TransferRepository ErrStateConflict)
     else
       tx_bind (insertRiskAssessment jsonb store previous nxt ev encodedInput signals causationID assessedAt) (\<lambda>_.
       if l_status nxt = StatusReviewRequired then insertReviewCase store previous nxt assessedAt
       else tx_return ())))"

definition null_if_empty :: "string \<Rightarrow> string option" where
  "null_if_empty s = (if s = [] then None else Some s)"

definition transitioned_row :: "Lifecycle \<Rightarrow> transfer_row \<Rightarrow> transfer_row" where
  "transitioned_row nxt r =
     r\<lparr>tr_status := status_String (l_status nxt), tr_state_version := l_version nxt,
       tr_journal_entry_id := null_if_empty (l_journalEntryID nxt),
       tr_failure_reason := null_if_empty (l_failureReason nxt)\<rparr>"

definition StoreLifecycleTransitionTx :: "Lifecycle \<Rightarrow> Lifecycle \<Rightarrow> (database, unit) tx" where
  "StoreLifecycleTransitionTx previous nxt =
     tx_bind (update_transfer_rows (at_state previous) (transitioned_row nxt)) (\<lambda>rowsAffected.
       if rowsAffected \<noteq> 1 then tx_lift (fail TransferRepository ErrStateConflict) else tx_return ())"

end
