(* ===== verification/Review_Case.thy ===== *)
theory Review_Case
  imports Transfer_Repository
begin

text \<open>
  Analyst decisions: the audit records (\<open>internal/audit/postgres/writer.go\<close>) and the use case that closes a
  review case (\<open>internal/app/reviewcase/handler.go\<close>).

  \<open>now\<close> is the result of the handler's clock. The loops over the runes of a subject refuse every rune above
  \<open>~\<close>, so they refuse a subject with a byte outside \<open>!\<close> to \<open>~\<close>.
\<close>

section \<open>Audit records\<close>

record ReviewDecision =
  rv_TransferID :: string
  rv_LifecycleVersion :: int64
  rv_Decision :: string
  rv_ActorSubject :: string
  rv_OccurredAt :: gotime

definition audit_validSubject :: "string \<Rightarrow> bool" where
  "audit_validSubject v \<longleftrightarrow> length v \<noteq> 0 \<and> length v \<le> 128 \<and> list_all visible v"

definition validateReviewDecision :: "(string \<Rightarrow> uuid option) \<Rightarrow> ReviewDecision \<Rightarrow> error option" where
  "validateReviewDecision scan r =
     (if scan (rv_TransferID r) = None then Some [E AuditRepository ErrInvalidArgument, Opaque ''scanning UUID'']
      else if rv_LifecycleVersion r <s 3 then Some [E AuditRepository ErrInvalidArgument]
      else if rv_Decision r \<noteq> ''approved'' \<and> rv_Decision r \<noteq> ''declined''
      then Some [E AuditRepository ErrInvalidArgument]
      else if \<not> audit_validSubject (rv_ActorSubject r) then Some [E AuditRepository ErrInvalidArgument]
      else if IsZero (rv_OccurredAt r) then Some [E AuditRepository ErrInvalidArgument]
      else None)"

definition AppendReviewDecisionTx ::
  "(string \<Rightarrow> uuid option) \<Rightarrow> (gotime \<Rightarrow> gotime) \<Rightarrow> ReviewDecision \<Rightarrow> (database, unit) tx" where
  "AppendReviewDecisionTx scan store r db =
     (case validateReviewDecision scan r of
        Some e \<Rightarrow> (Inl e, db)
      | None \<Rightarrow>
          insert_audit_row
            \<lparr>au_transfer_id = the (scan (rv_TransferID r)), au_lifecycle_version = rv_LifecycleVersion r,
             au_decision = rv_Decision r, au_actor_subject = rv_ActorSubject r,
             au_occurred_at = store (rv_OccurredAt r), au_created_at = clock db\<rparr> db)"

section \<open>Deciding\<close>

definition RoleAnalyst :: string where "RoleAnalyst = ''analyst''"
definition case_DecisionApprove :: string where "case_DecisionApprove = ''approved''"
definition case_DecisionDecline :: string where "case_DecisionDecline = ''declined''"

record TrustedPrincipal =
  pr_Subject :: string
  pr_Role :: string

definition case_validSubject :: "string \<Rightarrow> bool" where
  "case_validSubject v =
     (let v = TrimSpace v in length v \<noteq> 0 \<and> length v \<le> 128 \<and> list_all visible v)"

text \<open>The deferred rollback of the handlers ignores its error.\<close>

definition run_handler :: "tx_env \<Rightarrow> (database, 'a) tx \<Rightarrow> (database, 'a) tx" where
  "run_handler env = run_deferred (env\<lparr>tx_rollback := RolledBack\<rparr>)"

definition decide_body ::
  "(string \<Rightarrow> uuid option) \<Rightarrow> (gotime \<Rightarrow> gotime) \<Rightarrow> (string \<Rightarrow> string result) \<Rightarrow> uuid \<Rightarrow> int64 \<Rightarrow> gotime
     \<Rightarrow> TrustedPrincipal \<Rightarrow> string \<Rightarrow> string \<Rightarrow> (database, unit) tx" where
  "decide_body scan store jsonb eventID sequence now who transferID decision =
     tx_bind (LoadLifecycleForUpdateTx scan transferID) (\<lambda>current.
     if l_status current \<noteq> StatusReviewRequired then tx_lift (fail TransferRepository ErrStateConflict)
     else
       tx_bind (tx_lift (if decision = case_DecisionApprove then Approve current else Decline current)) (\<lambda>nxt.
       tx_bind (StoreLifecycleTransitionTx current nxt) (\<lambda>_.
       tx_bind (DecideReviewCaseTx scan store transferID decision (pr_Subject who) now) (\<lambda>_.
       tx_bind (AppendReviewDecisionTx scan store
         \<lparr>rv_TransferID = transferID, rv_LifecycleVersion = l_version nxt, rv_Decision = decision,
          rv_ActorSubject = pr_Subject who, rv_OccurredAt = now\<rparr>) (\<lambda>_.
       tx_bind (tx_lift (ReviewDecided nxt (pr_Subject who) now)) (\<lambda>draft.
       tx_bind (AddTx jsonb store eventID sequence draft) (\<lambda>_. tx_return ())))))))"

definition Decide ::
  "(string \<Rightarrow> uuid option) \<Rightarrow> (gotime \<Rightarrow> gotime) \<Rightarrow> (string \<Rightarrow> string result) \<Rightarrow> uuid \<Rightarrow> int64 \<Rightarrow> tx_env \<Rightarrow> gotime
     \<Rightarrow> TrustedPrincipal \<Rightarrow> string \<Rightarrow> string \<Rightarrow> (database, unit) tx" where
  "Decide scan store jsonb eventID sequence env now who transferID decision db =
     (if pr_Role who \<noteq> RoleAnalyst \<or> \<not> case_validSubject (pr_Subject who)
      then (fail ReviewCase ErrUnauthorized, db)
      else if decision \<noteq> case_DecisionApprove \<and> decision \<noteq> case_DecisionDecline
      then (fail ReviewCase ErrInvalidArgument, db)
      else run_handler env
        (decide_body scan store jsonb eventID sequence now who transferID decision) db)"

end
