(* ===== verification/Outbox_Rows.thy ===== *)
theory Outbox_Rows
  imports Outbox_Repository
begin

text \<open>
  Facts about single rows and values of the outbox: claim tokens are canonical UUID texts, sanitised
  diagnostics fit their column, Go's validation of event names agrees with the \<open>CHECK\<close> constraints,
  and what the writer stored is read back.
\<close>

section \<open>Claim tokens\<close>

lemma hex_text_hex: "list_all is_hex (hex_text bs)" "ToLower (hex_text bs) = hex_text bs"
proof -
  have "unat (b :: 8 word) < 256" for b using unsigned_less [of b] by simp
  then have "unat b div 16 < 16" "unat b mod 16 < 16" for b :: "8 word"
    by (simp_all add: less_mult_imp_div_less)
  then show "list_all is_hex (hex_text bs)" "ToLower (hex_text bs) = hex_text bs"
    by (induction bs) (simp_all add: hex_text_def ToLower_def hex_digit_hex)
qed

lemma length_hex_text: "length (hex_text bs) = 2 * length bs"
  by (induction bs) (simp_all add: hex_text_def)

lemma hex_text_append: "hex_text (xs @ ys) = hex_text xs @ hex_text ys"
  by (simp add: hex_text_def)

lemma take_drop_hex_text:
  "take (2 * n) (hex_text bs) = hex_text (take n bs)" "drop (2 * n) (hex_text bs) = hex_text (drop n bs)"
proof (induction n arbitrary: bs)
  case (Suc n)
  { case 1 show ?case by (cases bs) (simp_all add: hex_text_def Suc.IH [unfolded hex_text_def]) }
  { case 2 show ?case by (cases bs) (simp_all add: hex_text_def Suc.IH [unfolded hex_text_def]) }
qed (simp_all add: hex_text_def)

lemma hex_text_dashed:
  "hex_text (take 4 t) @ ''-'' @ hex_text (take 2 (drop 4 t)) @ ''-'' @ hex_text (take 2 (drop 6 t)) @
     ''-'' @ hex_text (take 2 (drop 8 t)) @ ''-'' @ hex_text (drop 10 t) = dashed (hex_text t)"
  using take_drop_hex_text(1) [of 4 t] take_drop_hex_text(1) [of 2 "drop 4 t"]
    take_drop_hex_text(1) [of 2 "drop 6 t"] take_drop_hex_text(1) [of 2 "drop 8 t"]
    take_drop_hex_text(2) [of 4 t] take_drop_hex_text(2) [of 6 t] take_drop_hex_text(2) [of 8 t]
    take_drop_hex_text(2) [of 10 t]
  by (simp add: dashed_def)

lemma newClaimToken_eq:
  assumes "length bytes = 16"
  shows "\<exists>t. length t = 16 \<and> newClaimToken (Inr bytes) = Inr (dashed (hex_text t)) \<and>
    t ! 6 = bytes ! 6 AND 0x0F OR 0x40 \<and> t ! 8 = bytes ! 8 AND 0x3F OR 0x80"
proof -
  let ?t = "(bytes[6 := bytes ! 6 AND 0x0F OR 0x40])[8 := bytes[6 := bytes ! 6 AND 0x0F OR 0x40] ! 8 AND 0x3F OR 0x80]"
  have "length ?t = 16" "?t ! 6 = bytes ! 6 AND 0x0F OR 0x40" "?t ! 8 = bytes ! 8 AND 0x3F OR 0x80"
    using assms by simp_all
  moreover have "newClaimToken (Inr bytes) = Inr (dashed (hex_text ?t))"
    using assms by (simp add: newClaimToken_def Let_def flip: hex_text_dashed)
  ultimately show ?thesis by blast
qed

lemma dashed_canonical:
  assumes "length h = 32" "list_all is_hex h" "ToLower h = h"
  shows "isCanonicalUUID (dashed h)"
proof -
  have "map lower_char h = h" using assms(3) by (simp add: ToLower_def)
  then have "ToLower (dashed h) = dashed h"
    by (simp add: dashed_def ToLower_def flip: take_map drop_map)
  with uuid_shape_dashed [OF assms(1,2)] show ?thesis by (simp add: isCanonicalUUID_iff)
qed

lemma newClaimToken_canonical:
  assumes "newClaimToken random = Inr token" "\<And>bytes. random = Inr bytes \<Longrightarrow> length bytes = 16"
  shows "isCanonicalUUID token"
proof -
  obtain bytes where b: "random = Inr bytes" using assms(1) by (auto simp: newClaimToken_def result_simps)
  with assms newClaimToken_eq [of bytes] obtain t where "length t = 16" "token = dashed (hex_text t)" by auto
  then show ?thesis by (simp add: dashed_canonical hex_text_hex length_hex_text)
qed

section \<open>Diagnostics\<close>

lemma sanitized_bytes:
  "length (sanitized room s) \<le> room \<and> (\<forall>c \<in> set (sanitized room s). CHR '' '' \<le> c \<and> c \<le> CHR ''~'')"
proof (induction room arbitrary: s)
  case 0
  then show ?case by (cases s) simp_all
next
  case (Suc room)
  then show ?case by (cases s) (simp_all split: option.split)
qed

lemma sanitizeDiagnostic_bytes:
  "1 \<le> length (sanitizeDiagnostic s)" "length (sanitizeDiagnostic s) \<le> 1024"
  "c \<in> set (sanitizeDiagnostic s) \<Longrightarrow> CHR '' '' \<le> c \<and> c \<le> CHR ''~''"
proof -
  have "length fallbackDiagnostic = 18" by (simp add: fallbackDiagnostic_def)
  then show "1 \<le> length (sanitizeDiagnostic s)" "length (sanitizeDiagnostic s) \<le> 1024"
    using sanitized_bytes [of maxDiagnosticBytes s]
    by (auto simp: sanitizeDiagnostic_def maxDiagnosticBytes_def Let_def Suc_le_eq)
  show "CHR '' '' \<le> c \<and> c \<le> CHR ''~''" if "c \<in> set (sanitizeDiagnostic s)"
    using that sanitized_bytes by (auto simp: sanitizeDiagnostic_def fallbackDiagnostic_def Let_def split: if_splits)
qed

section \<open>Go's validation and the constraints\<close>

lemma name_bytes_later:
  "0 < n \<Longrightarrow> name_bytes later n cs \<longleftrightarrow> list_all (\<lambda>c. is_lower c \<or> is_digit c \<or> later c) cs"
  by (induction cs arbitrary: n) auto

lemma validEventPart_sql: "validEventPart w \<longleftrightarrow> sql_event_word w"
  by (cases w) (simp_all add: validEventPart_def sql_event_word_def name_bytes_later)

lemma validEventType_sql: "validEventType s \<longleftrightarrow> sql_event_type s"
  by (cases s) (simp_all add: validEventType_def sql_event_type_def validEventPart_sql [abs_def] maxEventTypeBytes_def)

lemma validAggregateType_sql: "validAggregateType s \<longleftrightarrow> sql_aggregate_type s"
  by (cases s) (simp_all add: validAggregateType_def sql_aggregate_type_def validLowerName_def name_bytes_later
    maxAggregateTypeBytes_def)

section \<open>JSONB columns\<close>

text \<open>
  What the code relies on of PostgreSQL's JSONB type: a value prints without surrounding white space,
  as the compact text of a JSON value with one space after every comma and colon between tokens, and
  its numbers without exponents.
\<close>

locale jsonb_column =
  fixes jsonb :: "string \<Rightarrow> string result"
  assumes printed_trimmed: "jsonb p = Inr t \<Longrightarrow> TrimSpace t = t"
    and printed_spaced: "jsonb p = Inr t \<Longrightarrow>
      \<exists>k. json_Compact t = Some k \<and> postgresJSONBTextSize k = Some (len t)"
begin

lemma printed_normal:
  assumes "jsonb p = Inr t" "take 1 t = ''{''" "len t \<le> max_payload_octets"
  obtains k where "normalizePayload t = Inr k"
proof -
  obtain k where k: "json_Compact t = Some k" "postgresJSONBTextSize k = Some (len t)"
    using printed_spaced [OF assms(1)] by blast
  obtain t' where t': "t = CHR ''{'' # t'" using assms(2) by (cases t) auto
  obtain k' where k': "k = CHR ''{'' # k'" using json_Compact_object k(1) unfolding t' by metis
  have "k' \<noteq> []" using Compact_object_last [OF json_Compact_compacted(1) [OF k(1)] k'] by simp
  then have "2 \<le> length k" using k' by (cases k') auto
  then have "2 \<le> length t" using json_Compact_length [OF k(1)] by simp
  then have "normalizePayload t = Inr k"
    using k t' printed_trimmed [OF assms(1)] assms(3)
    by (auto simp: normalizePayload_def Let_def max_payload_octets_def maxPayloadBytes_def)
  then show ?thesis by (rule that)
qed

end

text \<open>
  A server that keeps the order of the members and refuses exponents. The last condition holds for
  every compact text of a JSON value and is checked here to make the contract evident.
\<close>

fun spaced :: "bool \<Rightarrow> bool \<Rightarrow> string \<Rightarrow> string" where
  "spaced inString escaped [] = []"
| "spaced inString escaped (c # cs) =
     (if inString then c # spaced (escaped \<or> c \<noteq> CHR 0x22) (\<not> escaped \<and> c = CHR 0x5C) cs
      else if c = CHR '','' \<or> c = CHR '':'' then c # CHR '' '' # spaced False False cs
      else c # spaced (c = CHR 0x22) False cs)"

definition reference_jsonb :: "string \<Rightarrow> string result" where
  "reference_jsonb p =
     (case json_Compact p of
        None \<Rightarrow> Inl [PgError ''22P02'' []]
      | Some k \<Rightarrow>
          let t = spaced False False k in
          if json_Compact t = Some k \<and> postgresJSONBTextSize k = Some (len t) \<and> TrimSpace t = t
          then Inr t else Inl [PgError ''22P02'' []])"

interpretation reference_jsonb: jsonb_column reference_jsonb
  by unfold_locales (auto simp: reference_jsonb_def Let_def split: option.splits if_splits)

section \<open>Reading back\<close>

definition row_readable :: "outbox_row \<Rightarrow> bool" where
  "row_readable e \<longleftrightarrow>
     isCanonicalUUID (o_event_id e) \<and>
     (case NewDraft (scanned_params e) of Inl _ \<Rightarrow> False | Inr _ \<Rightarrow> True)"

text \<open>The envelope of a stored event.\<close>

definition row_draft :: "outbox_row \<Rightarrow> draft" where
  "row_draft e = projr (NewDraft (scanned_params e))"

definition row_claim :: "string \<Rightarrow> outbox_row \<Rightarrow> claimedEvent" where
  "row_claim token e =
     \<lparr>ce_Envelope = \<lparr>en_eventID = o_event_id e, en_draft = row_draft e\<rparr>, ce_Sequence = o_sequence e,
      ce_PublishAttempts = o_publish_attempts e, ce_ClaimToken = token\<rparr>"

lemma scanClaimedEvent_readable:
  assumes "row_readable e"
  shows "scanClaimedEvent token e = Inr (row_claim token e)"
proof -
  obtain d where d: "NewDraft (scanned_params e) = Inr d" "isCanonicalUUID (o_event_id e)"
    using assms by (auto simp: row_readable_def split: sum.splits)
  then have "draft_validate d = None" by (simp add: NewDraft_Inr)
  with d show ?thesis
    by (simp add: scanClaimedEvent_def row_claim_def row_draft_def NewEnvelope_def normalizeUUID_canonical)
qed

context jsonb_column begin

lemma new_row_readable:
  assumes d: "validateDraft d = Inr v" and t: "jsonb (dr_payload v) = Inr t"
    and checks: "list_all snd (outbox_checks (new_outbox_row store now i n v t))"
    and i: "isCanonicalUUID i" and s: "\<not> IsZero (store (dr_occurredAt v))"
  obtains k where "normalizePayload t = Inr k"
    "NewDraft (scanned_params (new_outbox_row store now i n v t)) =
       Inr (v\<lparr>dr_occurredAt := store (dr_occurredAt v), dr_payload := k\<rparr>)"
    "row_readable (new_outbox_row store now i n v t)"
proof -
  have v: "draft_validate v = None" using d by (simp add: validateDraft_def NewDraft_Inr)
  from checks obtain k where k: "normalizePayload t = Inr k"
    using printed_normal [OF t] by (auto simp: outbox_checks_def new_outbox_row_def)
  let ?v = "v\<lparr>dr_occurredAt := store (dr_occurredAt v), dr_payload := k\<rparr>"
  have n: "NewDraft (scanned_params (new_outbox_row store now i n v t)) = Inr ?v"
    using v s k normalizePayload_valid(1) [OF k]
    by (auto simp: NewDraft_Inr draft_validate_None scanned_params_def new_outbox_row_def nullableString_def
        normalizeUUID_canonical IsZero_def split: option.split)
  then have "row_readable (new_outbox_row store now i n v t)"
    using i by (simp add: row_readable_def new_outbox_row_def)
  with k n show ?thesis by (rule that)
qed

end

end
