(* ===== verification/Outbox_System.thy ===== *)
theory Outbox_System
  imports Outbox_Rows Machines
begin

text \<open>
  The outbox as a transition system: events are added by committed transactions, leased by publishers
  and completed under the token of their lease, while time passes.

  \<open>outbox_inv\<close> is the conjunction of the table's constraints and of the readability of every row; under
  it no statement of the repository is refused by a constraint and no stored event is corrupt.
\<close>

section \<open>Effects of the statements\<close>

definition outbox_inv :: "database \<Rightarrow> bool" where
  "outbox_inv db \<longleftrightarrow>
     outbox_ok db \<and> (\<forall>e \<in> set (outbox_events db). row_readable e \<and> o_created_at e \<le> clock db \<and>
       (\<forall>t \<in> set_option (o_claimed_by e). isCanonicalUUID t))"

definition updated :: "(outbox_row \<Rightarrow> bool) \<Rightarrow> (outbox_row \<Rightarrow> outbox_row) \<Rightarrow> database \<Rightarrow> database" where
  "updated hit new db = db\<lparr>outbox_events := map (\<lambda>e. if hit e then new e else e) (outbox_events db)\<rparr>"

lemma updated_clock [simp]: "clock (updated hit new db) = clock db"
  by (simp add: updated_def)

text \<open>An assignment to the bookkeeping columns only.\<close>

definition same_content :: "outbox_row \<Rightarrow> outbox_row \<Rightarrow> bool" where
  "same_content e e' \<longleftrightarrow>
     o_event_id e' = o_event_id e \<and> o_sequence e' = o_sequence e \<and> scanned_params e' = scanned_params e \<and>
     o_created_at e' = o_created_at e"

lemma same_content_rows:
  "same_content e e" "same_content e (leased_row t u e)" "same_content e (published_row now e)"
  "same_content e (failed_row now secs s e)"
  by (simp_all add: same_content_def leased_row_def published_row_def failed_row_def scanned_params_def)

lemma same_content_trans: "same_content a b \<Longrightarrow> same_content b c \<Longrightarrow> same_content a c"
  by (simp add: same_content_def)

lemma same_content_readable: "same_content e e' \<Longrightarrow> row_readable e' \<longleftrightarrow> row_readable e"
  by (simp add: same_content_def row_readable_def)

lemma same_content_draft: "same_content e e' \<Longrightarrow> row_draft e' = row_draft e"
  by (simp add: same_content_def row_draft_def)

lemma same_content_identity: "(\<And>e. same_content e (new e)) \<Longrightarrow> same_identity new"
  by (simp add: same_content_def same_identity_def outbox_event_key_def scanned_params_def)

lemma update_in_inv:
  assumes "outbox_inv db" "\<And>e. same_content e (new e)"
    and "\<And>e. e \<in> set (outbox_events db) \<Longrightarrow> hit e \<Longrightarrow> list_all snd (outbox_checks (new e))"
  shows "update_outbox_rows hit new db = (Inr (map new (filter hit (outbox_events db))), updated hit new db)"
    "(\<And>e t. o_claimed_by (new e) = Some t \<Longrightarrow> isCanonicalUUID t) \<Longrightarrow> outbox_inv (updated hit new db)"
proof -
  show u: "update_outbox_rows hit new db = (Inr (map new (filter hit (outbox_events db))), updated hit new db)"
    using assms(3) by (simp add: update_outbox_rows_Inr updated_def)
  have "outbox_ok (updated hit new db)"
    using update_outbox_rows_ok [OF u] assms(1) same_content_identity [OF assms(2)] by (simp add: outbox_inv_def)
  moreover have "row_readable (new e) \<longleftrightarrow> row_readable e" "o_created_at (new e) = o_created_at e" for e
    using assms(2) [of e] by (simp_all add: same_content_readable) (simp add: same_content_def)
  ultimately show "outbox_inv (updated hit new db)"
    if "\<And>e t. o_claimed_by (new e) = Some t \<Longrightarrow> isCanonicalUUID t"
    using assms(1) that by (auto simp: outbox_inv_def updated_def)
qed

lemma leased_checks:
  "list_all snd (outbox_checks e) \<Longrightarrow> o_published_at e = None \<Longrightarrow> list_all snd (outbox_checks (leased_row t u e))"
  by (simp add: outbox_checks_def leased_row_def)

lemma published_checks:
  "list_all snd (outbox_checks e) \<Longrightarrow> o_created_at e \<le> now \<Longrightarrow> list_all snd (outbox_checks (published_row now e))"
  by (simp add: outbox_checks_def published_row_def)

lemma sint_next_attempts: "0 \<le> sint n \<Longrightarrow> sint (next_attempts n) = min (sint n + 1) 2147483647"
proof -
  assume "0 \<le> sint n"
  then have "signed_take_bit 31 (min (sint n + 1) 2147483647) = min (sint n + 1) 2147483647"
    by (intro signed_take_bit_int_eq_self) auto
  then show ?thesis by (simp add: next_attempts_def sint_sbintrunc')
qed

lemma failed_checks:
  assumes "list_all snd (outbox_checks e)" "o_created_at e \<le> now" "0 \<le> secs" "o_published_at e = None"
  shows "list_all snd (outbox_checks (failed_row now secs (sanitizeDiagnostic s) e))"
proof -
  have "0 \<le> sint (o_publish_attempts e)" using assms(1) by (simp add: outbox_checks_def)
  then have "0 \<le> sint (next_attempts (o_publish_attempts e))" by (simp add: sint_next_attempts)
  moreover have "0 \<le> secs * second" using assms(3) by (simp add: second_def)
  ultimately show ?thesis
    using assms sanitizeDiagnostic_bytes(1,2) [of s] by (simp add: outbox_checks_def failed_row_def)
qed

section \<open>Claims\<close>

definition candidate_ids :: "(uuid \<Rightarrow> bool) \<Rightarrow> int \<Rightarrow> database \<Rightarrow> uuid set" where
  "candidate_ids locked limit db = o_event_id ` set (candidates locked limit db)"

lemma candidates_claimable:
  "e \<in> set (candidates locked limit db) \<Longrightarrow>
     e \<in> set (outbox_events db) \<and> claimable (clock db) e \<and> \<not> locked (o_event_id e)"
  by (auto simp: candidates_def dest: in_set_takeD)

lemma candidate_ids_row:
  assumes "outbox_ok db" "e \<in> set (outbox_events db)" "o_event_id e \<in> candidate_ids locked limit db"
  shows "e \<in> set (candidates locked limit db)"
proof -
  obtain c where c: "c \<in> set (candidates locked limit db)" "o_event_id c = o_event_id e"
    using assms(3) by (auto simp: candidate_ids_def)
  moreover have "c \<in> set (outbox_events db)" using candidates_claimable [OF c(1)] by simp
  ultimately have "c = e" using assms(1,2) by (auto simp: outbox_ok_def distinct_map dest: inj_onD)
  with c(1) show ?thesis by simp
qed

definition leased_db :: "(uuid \<Rightarrow> bool) \<Rightarrow> int \<Rightarrow> uuid \<Rightarrow> int \<Rightarrow> database \<Rightarrow> database" where
  "leased_db locked limit token secs db =
     updated (\<lambda>e. o_event_id e \<in> candidate_ids locked limit db) (leased_row token (clock db + secs * second)) db"

lemma claimEventsQuery_in_inv:
  assumes "outbox_inv db"
  shows "claimEventsQuery locked limit token secs db =
      (Inr (map (leased_row token (clock db + secs * second))
         (filter (\<lambda>e. o_event_id e \<in> candidate_ids locked limit db) (outbox_events db))),
       leased_db locked limit token secs db)"
    "isCanonicalUUID token \<Longrightarrow> outbox_inv (leased_db locked limit token secs db)"
proof -
  have c: "list_all snd (outbox_checks (leased_row token u e))"
    if "e \<in> set (outbox_events db)" "o_event_id e \<in> candidate_ids locked limit db" for e u
  proof -
    have "o_published_at e = None" "list_all snd (outbox_checks e)"
      using candidate_ids_row [of db e locked limit] candidates_claimable [of e] that assms
      by (auto simp: outbox_inv_def claimable_def outbox_ok_def)
    then show ?thesis by (simp add: leased_checks)
  qed
  show "claimEventsQuery locked limit token secs db =
      (Inr (map (leased_row token (clock db + secs * second))
         (filter (\<lambda>e. o_event_id e \<in> candidate_ids locked limit db) (outbox_events db))),
       leased_db locked limit token secs db)"
    using update_in_inv(1) [OF assms same_content_rows(2) c]
    by (simp add: claimEventsQuery_def leased_db_def candidate_ids_def Let_def)
  show "outbox_inv (leased_db locked limit token secs db)" if "isCanonicalUUID token"
    unfolding leased_db_def using that
    by (intro update_in_inv(2) [OF assms same_content_rows(2)]) (auto simp: c, auto simp: leased_row_def)
qed

definition valid_claim :: "int64 \<Rightarrow> int64 \<Rightarrow> bool" where
  "valid_claim limit lease \<longleftrightarrow>
     0 < sint limit \<and> sint limit \<le> 100 \<and> second \<le> sint lease \<and> sint lease \<le> 900 * second \<and>
     sint lease mod second = 0"

text \<open>What the rows taken by a claim are returned as.\<close>

definition claimed_events :: "string \<Rightarrow> (uuid \<Rightarrow> bool) \<Rightarrow> int \<Rightarrow> database \<Rightarrow> claimedEvent list" where
  "claimed_events token locked limit db =
     sort_key (sint \<circ> ce_Sequence)
       (map (row_claim token) (filter (\<lambda>e. o_event_id e \<in> candidate_ids locked limit db) (outbox_events db)))"

lemma row_claim_leased [simp]: "row_claim token (leased_row t u e) = row_claim token e"
  using same_content_draft [OF same_content_rows(2), of t u e] by (simp add: row_claim_def) (simp add: leased_row_def)

lemma Claim_in_inv:
  assumes "outbox_inv db" "valid_claim limit lease" "newClaimToken random = Inr token"
  shows "Claim random env locked limit lease db =
    run_tx env (\<lambda>db. (Inr (claimed_events token locked (sint limit) db),
      leased_db locked (sint limit) token (sint lease div second) db)) db"
proof -
  let ?rows = "filter (\<lambda>e. o_event_id e \<in> candidate_ids locked (sint limit) db) (outbox_events db)"
  have "row_readable (leased_row token u e)" if "e \<in> set (outbox_events db)" for e u
    using that assms(1) same_content_readable [OF same_content_rows(2)] by (auto simp: outbox_inv_def)
  then have "map_result (scanClaimedEvent token) (map (leased_row token u) ?rows) =
      Inr (map (row_claim token) ?rows)" for u
    by (subst map_result_total [where g = "row_claim token"]) (auto simp: scanClaimedEvent_readable o_def)
  then have body: "tx_bind (claimEventsQuery locked (sint limit) token (sint lease div second)) (\<lambda>rows.
             tx_lift (andThen (map_result (scanClaimedEvent token) rows) (\<lambda>claimed.
               Inr (sort_key (sint \<circ> ce_Sequence) claimed)))) db =
      (Inr (claimed_events token locked (sint limit) db),
       leased_db locked (sint limit) token (sint lease div second) db)"
    by (simp add: tx_bind_def claimEventsQuery_in_inv(1) [OF assms(1)] tx_lift_def claimed_events_def)
  have "Claim random env locked limit lease db = run_tx env
      (tx_bind (claimEventsQuery locked (sint limit) token (sint lease div second)) (\<lambda>rows.
             tx_lift (andThen (map_result (scanClaimedEvent token) rows) (\<lambda>claimed.
               Inr (sort_key (sint \<circ> ce_Sequence) claimed))))) db"
    using assms(2,3)
    by (simp add: Claim_def valid_claim_def maxClaimBatch_def minClaimLease_def maxClaimLease_def)
  also have "... = run_tx env (\<lambda>db. (Inr (claimed_events token locked (sint limit) db),
      leased_db locked (sint limit) token (sint lease div second) db)) db"
    by (rule run_tx_cong) (simp only: body)
  finally show ?thesis .
qed

section \<open>Completion\<close>

lemma exec_one_in_inv:
  assumes "outbox_inv db" "\<And>e. same_content e (new e)"
    and "\<And>e. e \<in> set (outbox_events db) \<Longrightarrow> claimed_as i token e \<Longrightarrow> list_all snd (outbox_checks (new e))"
  shows "exec_one quiet (update_outbox_rows (claimed_as i token) new) db =
      (if \<exists>e \<in> set (outbox_events db). claimed_as i token e then (Inr (), updated (claimed_as i token) new db)
       else (Inl [E OutboxRepository ErrClaimLost], db))"
proof -
  let ?rows = "filter (claimed_as i token) (outbox_events db)"
  have "distinct (map o_event_id (outbox_events db))" using assms(1) by (simp add: outbox_inv_def outbox_ok_def)
  then have "length ?rows \<le> 1" unfolding claimed_as_def by (rule filter_key_le_1)
  moreover have "length ?rows = 0 \<longleftrightarrow> \<not> (\<exists>e \<in> set (outbox_events db). claimed_as i token e)"
    by (auto simp: filter_empty_conv)
  ultimately have n: "length ?rows = 1 \<longleftrightarrow> (\<exists>e \<in> set (outbox_events db). claimed_as i token e)" by linarith
  have "updated (claimed_as i token) new db = db" if "\<not> (\<exists>e \<in> set (outbox_events db). claimed_as i token e)"
  proof -
    have "map (\<lambda>e. if claimed_as i token e then new e else e) (outbox_events db) = outbox_events db"
      using that by (intro map_idI) auto
    then show ?thesis by (simp add: updated_def)
  qed
  with n show ?thesis
    by (simp add: exec_one_def tx_bind_def run_tx_quiet update_in_inv(1) [OF assms] tx_lift_def tx_return_def)
qed

lemma exec_one_effect:
  assumes "exec_one env (update_outbox_rows hit new) db = (r, db')"
  shows "db' = db \<or> (\<exists>rows. update_outbox_rows hit new db = (Inr rows, db'))"
proof -
  obtain q db1 where q: "run_tx env (update_outbox_rows hit new) db = (q, db1)" by fastforce
  have "db' = db1"
    using assms q by (cases q) (auto simp: exec_one_def tx_bind_def tx_lift_def tx_return_def split: if_splits)
  with q show ?thesis using run_tx_Inl [of env _ db] by (cases q) (auto simp: run_tx_Inr)
qed

section \<open>The outbox as a transition system\<close>

datatype outbox_action = Add | Lease uuid | ReportPublished string string | ReportFailed string string | Pass

inductive outbox_step ::
  "(string \<Rightarrow> string result) \<Rightarrow> (gotime \<Rightarrow> gotime) \<Rightarrow> (string \<Rightarrow> uuid option) \<Rightarrow> outbox_action
     \<Rightarrow> database \<Rightarrow> database \<Rightarrow> bool"
  for jsonb :: "string \<Rightarrow> string result" and store :: "gotime \<Rightarrow> gotime" and scan :: "string \<Rightarrow> uuid option" where
  add: "AddTx jsonb store eventID sequence d db = (Inr e, db') \<Longrightarrow> isCanonicalUUID eventID \<Longrightarrow>
    \<not> IsZero (store (dr_occurredAt d)) \<Longrightarrow> outbox_step jsonb store scan Add db db'"
| claim: "Claim (Inr bytes) env locked limit lease db = (r, db') \<Longrightarrow> length bytes = 16 \<Longrightarrow>
    newClaimToken (Inr bytes) = Inr token \<Longrightarrow> outbox_step jsonb store scan (Lease token) db db'"
| published: "MarkPublished scan env eventID token db = (u, db') \<Longrightarrow>
    outbox_step jsonb store scan (ReportPublished eventID token) db db'"
| failed: "MarkFailed scan env eventID token retryAfter diagnostic db = (u, db') \<Longrightarrow>
    outbox_step jsonb store scan (ReportFailed eventID token) db db'"
| tick: "clock db \<le> now \<Longrightarrow> outbox_step jsonb store scan Pass db (db\<lparr>clock := now\<rparr>)"

definition outbox_init :: "database \<Rightarrow> bool" where
  "outbox_init db \<longleftrightarrow> outbox_events db = []"

text \<open>The effect of a step on the rows, by its action.\<close>

definition finished_by :: "(string \<Rightarrow> uuid option) \<Rightarrow> string \<Rightarrow> string \<Rightarrow> outbox_row \<Rightarrow> bool" where
  "finished_by scan i t e \<longleftrightarrow>
     scan i = Some (o_event_id e) \<and> scan t = o_claimed_by e \<and> o_claimed_by e \<noteq> None \<and> o_published_at e = None"

lemma parseClaimIdentity_Inr:
  "parseClaimIdentity scan i t = Inr (i', t') \<longleftrightarrow> scan i = Some i' \<and> scan t = Some t'"
  by (auto simp: parseClaimIdentity_def outbox_parseUUID_def result_simps split: option.splits)

lemma AddTx_Inr:
  assumes "AddTx jsonb store i n d db = (Inr e, db')"
  obtains v t where "validateDraft d = Inr v" "jsonb (dr_payload v) = Inr t"
    "insert_outbox_row (new_outbox_row store (clock db) i n v t) db = (Inr (), db')" "e = \<lparr>en_eventID = fst (normalizeUUID i), en_draft = v\<rparr>"
proof -
  obtain v where v: "validateDraft d = Inr v" using assms by (auto simp: AddTx_def split: sum.splits)
  obtain j where j: "insertEvent jsonb store i n v db = (Inr j, db')" "NewEnvelope j v = Inr e"
    using assms v by (auto simp: AddTx_def result_simps split: prod.splits sum.splits)
  then obtain t where t: "jsonb (dr_payload v) = Inr t" "j = i"
    "insert_outbox_row (new_outbox_row store (clock db) i n v t) db = (Inr (), db')"
    by (auto simp: insertEvent_def result_simps split: sum.splits)
  with j(2) have "e = \<lparr>en_eventID = fst (normalizeUUID i), en_draft = v\<rparr>" by (simp add: NewEnvelope_Inr)
  with v t show ?thesis by (intro that) simp_all
qed

lemma validateDraft_occurredAt: "validateDraft d = Inr v \<Longrightarrow> dr_occurredAt v = dr_occurredAt d"
  by (auto simp: validateDraft_def NewDraft_Inr params_of_def) (metis draft.select_convs(8))

lemma Claim_effect:
  assumes "Claim random env locked limit lease db = (r, db')" "outbox_inv db" "newClaimToken random = Inr token"
  shows "db' = db \<or>
    valid_claim limit lease \<and> db' = leased_db locked (sint limit) token (sint lease div second) db"
proof (cases "valid_claim limit lease")
  case True
  with assms Claim_in_inv [OF assms(2) True assms(3), of env locked] show ?thesis
    using run_tx_state [of env "\<lambda>db. (Inr (claimed_events token locked (sint limit) db),
      leased_db locked (sint limit) token (sint lease div second) db)" db] by (metis snd_conv)
next
  case False
  then have "Claim random env locked limit lease db = (fail OutboxRepository ErrInvalidArgument, db)"
    by (auto simp: Claim_def valid_claim_def maxClaimBatch_def minClaimLease_def maxClaimLease_def)
  with assms(1) show ?thesis by simp
qed

lemma MarkPublished_effect:
  assumes "MarkPublished scan env i t db = (u, db')"
  shows "db' = db \<or> (\<exists>i' t' rows. scan i = Some i' \<and> scan t = Some t' \<and>
    update_outbox_rows (claimed_as i' t') (published_row (clock db)) db = (Inr rows, db'))"
  using assms by (auto simp: MarkPublished_def parseClaimIdentity_Inr split: sum.splits prod.splits dest!: exec_one_effect)


definition valid_delay :: "int64 \<Rightarrow> bool" where
  "valid_delay d \<longleftrightarrow> 0 \<le> sint d \<and> sint d \<le> 86400 * second \<and> sint d mod second = 0"

lemma valid_delay_iff:
  "valid_delay d \<longleftrightarrow> \<not> (sint d < 0 \<or> maxRetryDelay < sint d \<or> sint d mod second \<noteq> 0)"
  by (auto simp: valid_delay_def maxRetryDelay_def)

lemma MarkFailed_effect:
  assumes "MarkFailed scan env i t delay diagnostic db = (u, db')"
  shows "db' = db \<or> (\<exists>i' t' rows. scan i = Some i' \<and> scan t = Some t' \<and> valid_delay delay \<and>
    update_outbox_rows (claimed_as i' t')
      (failed_row (clock db) (sint delay div second) (sanitizeDiagnostic diagnostic)) db = (Inr rows, db'))"
  using assms
  by (auto simp: MarkFailed_def parseClaimIdentity_Inr valid_delay_iff split: sum.splits prod.splits if_splits
      dest!: exec_one_effect)

text \<open>
  How a step of the outbox changes the database, when it changes it: a row is appended, leases are
  granted, one event is completed under the token of its lease, or time passes.
\<close>

inductive outbox_change :: "(string \<Rightarrow> uuid option) \<Rightarrow> outbox_action \<Rightarrow> database \<Rightarrow> database \<Rightarrow> bool"
  for scan :: "string \<Rightarrow> uuid option" where
  appended: "insert_outbox_row row db = (Inr (), db') \<Longrightarrow> row_readable row \<Longrightarrow> o_created_at row = clock db \<Longrightarrow>
    o_published_at row = None \<Longrightarrow> o_claimed_by row = None \<Longrightarrow> outbox_change scan Add db db'"
| leased: "0 < secs \<Longrightarrow> isCanonicalUUID token \<Longrightarrow> outbox_change scan (Lease token) db (leased_db locked limit token secs db)"
| succeeded: "scan i = Some i' \<Longrightarrow> scan t = Some t' \<Longrightarrow>
    outbox_change scan (ReportPublished i t) db (updated (claimed_as i' t') (published_row (clock db)) db)"
| failed: "scan i = Some i' \<Longrightarrow> scan t = Some t' \<Longrightarrow> 0 \<le> secs \<Longrightarrow>
    outbox_change scan (ReportFailed i t) db
      (updated (claimed_as i' t') (failed_row (clock db) secs (sanitizeDiagnostic diagnostic)) db)"
| passed: "clock db \<le> now \<Longrightarrow> outbox_change scan Pass db (db\<lparr>clock := now\<rparr>)"

lemma new_row_fields:
  "o_created_at (new_outbox_row store now i n v t) = now" "o_published_at (new_outbox_row store now i n v t) = None"
  "o_claimed_by (new_outbox_row store now i n v t) = None"
  by (simp_all add: new_outbox_row_def)

lemma finished_change:
  assumes "update_outbox_rows (claimed_as i' t') new db = (Inr rows, db')"
  shows "db' = updated (claimed_as i' t') new db"
  using assms by (simp add: update_outbox_rows_Inr updated_def)

lemma outbox_step_change:
  assumes "jsonb_column jsonb" "outbox_inv db" "outbox_step jsonb store scan a db db'"
  shows "db' = db \<or> outbox_change scan a db db'"
  using assms(3)
proof (cases rule: outbox_step.cases)
  case (add i n d e)
  from add(2) obtain v t where v: "validateDraft d = Inr v" "jsonb (dr_payload v) = Inr t"
      "insert_outbox_row (new_outbox_row store (clock db) i n v t) db = (Inr (), db')"
    by (rule AddTx_Inr)
  have "\<not> IsZero (store (dr_occurredAt v))" using add(4) validateDraft_occurredAt [OF v(1)] by simp
  moreover have "list_all snd (outbox_checks (new_outbox_row store (clock db) i n v t))"
    using v(3) by (simp add: insert_outbox_row_Inr)
  ultimately have "row_readable (new_outbox_row store (clock db) i n v t)"
    using jsonb_column.new_row_readable [OF assms(1) v(1,2)] add(3) by metis
  then show ?thesis using add(1) outbox_change.appended [OF v(3)] by (simp add: new_row_fields)
next
  case (claim bytes env locked limit lease r token)
  have "db' = db \<or>
    valid_claim limit lease \<and> db' = leased_db locked (sint limit) token (sint lease div second) db"
    by (rule Claim_effect [OF claim(2) assms(2) claim(4)])
  moreover have "0 < sint lease div second" if "valid_claim limit lease"
    using that by (simp add: valid_claim_def second_def pos_imp_zdiv_pos_iff)
  moreover have "isCanonicalUUID token" using newClaimToken_canonical [OF claim(4)] claim(3) by simp
  ultimately show ?thesis using claim(1) outbox_change.leased by blast
next
  case (published env i t u)
  with MarkPublished_effect [OF published(2)] show ?thesis by (auto dest!: finished_change intro: outbox_change.succeeded)
next
  case (failed env i t delay diagnostic u)
  have "0 \<le> sint delay div second" if "valid_delay delay"
    using that by (simp add: valid_delay_def second_def pos_imp_zdiv_nonneg_iff)
  with failed MarkFailed_effect [OF failed(2)] show ?thesis by (auto dest!: finished_change intro: outbox_change.failed)
next
  case (tick now)
  then show ?thesis using outbox_change.passed by blast
qed

lemma finished_checks:
  assumes "outbox_inv db" "e \<in> set (outbox_events db)" "claimed_as i t e"
    and "new = published_row (clock db) \<or> new = failed_row (clock db) secs (sanitizeDiagnostic diagnostic) \<and> 0 \<le> secs"
  shows "list_all snd (outbox_checks (new e))"
  using assms published_checks [of e "clock db"] failed_checks [of e "clock db" secs diagnostic]
  by (auto simp: outbox_inv_def outbox_ok_def claimed_as_def)

lemma outbox_change_inv:
  assumes "outbox_inv db" "outbox_change scan a db db'"
  shows "outbox_inv db'"
  using assms(2)
proof (cases rule: outbox_change.cases)
  case (appended row)
  then show ?thesis using assms(1) insert_outbox_row_ok [OF appended(2)]
    by (auto simp: outbox_inv_def insert_outbox_row_Inr)
next
  case (leased secs token locked limit)
  then show ?thesis using claimEventsQuery_in_inv(2) [OF assms(1)] by simp
next
  case (succeeded i i' t t')
  have "list_all snd (outbox_checks (published_row (clock db) e))" if "e \<in> set (outbox_events db)" "claimed_as i' t' e" for e
    using finished_checks [OF assms(1) that] by blast
  then show ?thesis
    unfolding succeeded(2) by (rule update_in_inv(2) [OF assms(1) same_content_rows(3)]) (simp_all add: published_row_def)
next
  case (failed i i' t t' secs diagnostic)
  have "list_all snd (outbox_checks (failed_row (clock db) secs (sanitizeDiagnostic diagnostic) e))" if "e \<in> set (outbox_events db)" "claimed_as i' t' e" for e
    using finished_checks [OF assms(1) that] failed(5) by blast
  then show ?thesis
    unfolding failed(2) by (rule update_in_inv(2) [OF assms(1) same_content_rows(4)]) (simp_all add: failed_row_def)
next
  case (passed now)
  then show ?thesis using assms(1) by (force simp: outbox_inv_def outbox_ok_def)
qed

definition outbox_move ::
  "(string \<Rightarrow> string result) \<Rightarrow> (gotime \<Rightarrow> gotime) \<Rightarrow> (string \<Rightarrow> uuid option) \<Rightarrow> database \<Rightarrow> database \<Rightarrow> bool" where
  "outbox_move jsonb store scan db db' \<longleftrightarrow> (\<exists>a. outbox_step jsonb store scan a db db')"

sublocale jsonb_column \<subseteq> outbox: invariant_system outbox_init "outbox_move jsonb store scan" outbox_inv
  for store scan
proof unfold_locales
  show "outbox_inv db" if "outbox_init db" for db
    using that by (simp add: outbox_init_def outbox_inv_def outbox_ok_def)
  show "outbox_inv db'" if "outbox_inv db" "outbox_move jsonb store scan db db'" for db db'
    using that outbox_step_change [OF jsonb_column_axioms that(1)] outbox_change_inv [OF that(1)]
    unfolding outbox_move_def by metis
qed

context jsonb_column
begin

lemma reachable_outbox: "reachable outbox_init (outbox_move jsonb store scan) db \<Longrightarrow> outbox_inv db"
  by (rule outbox.reachable_inv)

end

section \<open>What a step does to a stored event\<close>

definition live_lease :: "gotime \<Rightarrow> uuid \<Rightarrow> outbox_row \<Rightarrow> bool" where
  "live_lease now token e \<longleftrightarrow>
     o_claimed_by e = Some token \<and> (case o_claimed_until e of None \<Rightarrow> False | Some t \<Rightarrow> now < t)"

text \<open>
  The fate of a row in one step: its content stays; a published row stays as it is; a row becomes published only by
  a report of publication from the holder of its lease, at the time of the report; and while a lease is live only
  a report of its holder touches the row.
\<close>

definition row_step ::
  "(string \<Rightarrow> uuid option) \<Rightarrow> outbox_action \<Rightarrow> gotime \<Rightarrow> outbox_row \<Rightarrow> outbox_row \<Rightarrow> bool" where
  "row_step scan a now e e' \<longleftrightarrow>
     same_content e e' \<and>
     (o_published_at e \<noteq> None \<longrightarrow> e' = e) \<and>
     (o_published_at e = None \<and> o_published_at e' \<noteq> None \<longrightarrow> o_published_at e' = Some now \<and>
        (\<exists>i t. a = ReportPublished i t \<and> scan i = Some (o_event_id e) \<and> o_claimed_by e \<noteq> None \<and> scan t = o_claimed_by e)) \<and>
     (\<forall>token. live_lease now token e \<and> e' \<noteq> e \<longrightarrow>
        (\<exists>i t. (a = ReportPublished i t \<or> a = ReportFailed i t) \<and> scan i = Some (o_event_id e) \<and> scan t = Some token))"

lemma row_step_refl: "row_step scan a now e e"
  by (auto simp: row_step_def same_content_rows)

lemma updated_row:
  "e \<in> set (outbox_events db) \<Longrightarrow> (if hit e then new e else e) \<in> set (outbox_events (updated hit new db))"
  by (simp add: updated_def)

lemma outbox_change_row:
  assumes "outbox_inv db" "outbox_change scan a db db'" "e \<in> set (outbox_events db)"
  shows "\<exists>e' \<in> set (outbox_events db'). row_step scan a (clock db) e e'"
  using assms(2)
proof (cases rule: outbox_change.cases)
  case (appended row)
  then have "e \<in> set (outbox_events db')" using assms(3) by (simp add: insert_outbox_row_Inr)
  then show ?thesis using row_step_refl by blast
next
  case (leased secs token locked limit)
  let ?hit = "\<lambda>e. o_event_id e \<in> candidate_ids locked limit db" and ?new = "leased_row token (clock db + secs * second)"
  have "claimable (clock db) e" if "?hit e"
    using candidate_ids_row [OF _ assms(3) that] candidates_claimable assms(1) by (auto simp: outbox_inv_def)
  then have "row_step scan a (clock db) e (if ?hit e then ?new e else e)"
    using same_content_rows(1,2) [of e]
    by (auto simp: row_step_refl row_step_def claimable_def live_lease_def leased_row_def split: option.splits)
  moreover have "(if ?hit e then ?new e else e) \<in> set (outbox_events db')"
    unfolding leased(2) leased_db_def by (rule updated_row [OF assms(3)])
  ultimately show ?thesis by blast
next
  case (succeeded i i' t t')
  then have "row_step scan a (clock db) e (if claimed_as i' t' e then published_row (clock db) e else e)"
    using same_content_rows(1,3) [of e]
    by (auto simp: row_step_refl row_step_def claimed_as_def live_lease_def published_row_def)
  then show ?thesis using updated_row [OF assms(3)] succeeded(2) by blast
next
  case (failed i i' t t' secs diagnostic)
  let ?new = "failed_row (clock db) secs (sanitizeDiagnostic diagnostic)"
  have "row_step scan a (clock db) e (if claimed_as i' t' e then ?new e else e)"
    using failed same_content_rows(1,4) [of e]
    by (auto simp: row_step_refl row_step_def claimed_as_def live_lease_def failed_row_def)
  then show ?thesis using updated_row [OF assms(3)] failed(2) by blast
next
  case (passed now)
  then have "e \<in> set (outbox_events db')" using assms(3) by simp
  then show ?thesis using row_step_refl by blast
qed

end
