(* ===== verification/Outbox_Properties.thy ===== *)
theory Outbox_Properties
  imports Outbox_System
begin

text \<open>
  The guarantees of the outbox, on every reachable database and for every JSONB column with the
  documented behaviour: events are neither lost nor altered, leases are exclusive until they expire,
  completion is fenced by the claim token, and what the writer added is what a publisher reads.
\<close>

section \<open>Claims\<close>

lemma length_candidates: "0 \<le> limit \<Longrightarrow> len (candidates locked limit db) \<le> limit"
  by (simp add: candidates_def)

lemma candidates_all:
  assumes "len (candidates locked limit db) < limit" "e \<in> set (outbox_events db)" "claimable (clock db) e"
    "\<not> locked (o_event_id e)"
  shows "e \<in> set (candidates locked limit db)"
  using assms by (simp add: candidates_def min_def split: if_splits)

lemma candidate_rows:
  assumes "outbox_ok db"
  shows "set (filter (\<lambda>e. o_event_id e \<in> candidate_ids locked limit db) (outbox_events db)) =
      set (candidates locked limit db)"
    "length (filter (\<lambda>e. o_event_id e \<in> candidate_ids locked limit db) (outbox_events db)) =
      length (candidates locked limit db)"
proof -
  have d: "distinct (outbox_events db)" using assms by (simp add: outbox_ok_def distinct_map)
  then have c: "distinct (candidates locked limit db)" by (simp add: candidates_def distinct_take)
  have "e \<in> set (outbox_events db) \<and> o_event_id e \<in> candidate_ids locked limit db \<longleftrightarrow>
      e \<in> set (candidates locked limit db)" for e
    using candidate_ids_row [OF assms, of e locked limit] candidates_claimable [of e locked limit db]
    unfolding candidate_ids_def by blast
  then show s: "set (filter (\<lambda>e. o_event_id e \<in> candidate_ids locked limit db) (outbox_events db)) =
      set (candidates locked limit db)"
    by auto
  show "length (filter (\<lambda>e. o_event_id e \<in> candidate_ids locked limit db) (outbox_events db)) =
      length (candidates locked limit db)"
    unfolding distinct_card [OF c, symmetric] s [symmetric] by (rule distinct_card [symmetric]) (simp add: d)
qed

lemma claimed_events_facts:
  assumes "outbox_ok db"
  shows "sorted (map (sint \<circ> ce_Sequence) (claimed_events token locked limit db))"
    "length (claimed_events token locked limit db) = length (candidates locked limit db)"
    "set (claimed_events token locked limit db) = row_claim token ` set (candidates locked limit db)"
proof -
  show "sorted (map (sint \<circ> ce_Sequence) (claimed_events token locked limit db))"
    unfolding claimed_events_def by (rule sorted_sort_key)
  show "length (claimed_events token locked limit db) = length (candidates locked limit db)"
    using candidate_rows(2) [OF assms] by (simp add: claimed_events_def)
  have "set (claimed_events token locked limit db) =
      row_claim token ` set (filter (\<lambda>e. o_event_id e \<in> candidate_ids locked limit db) (outbox_events db))"
    unfolding claimed_events_def by simp
  then show "set (claimed_events token locked limit db) = row_claim token ` set (candidates locked limit db)"
    unfolding candidate_rows(1) [OF assms] .
qed

section \<open>Properties\<close>

text \<open>
  C18: No stored event is lost or altered, and publication is final. In every reachable outbox each step
  keeps every row with its identity and content; a published row stays as it is; a row becomes
  published only by a report of its publication (\<open>MarkPublished\<close>, never \<open>MarkFailed\<close>) for this event under the token of
  its lease, and with the time of that report; and until a lease expires nothing but a report under its token
  changes the row.
\<close>

theorem outbox_event_fate:
  assumes "jsonb_column jsonb" "reachable outbox_init (outbox_move jsonb store scan) db"
    and "outbox_step jsonb store scan a db db'" "e \<in> set (outbox_events db)"
  shows "\<exists>e' \<in> set (outbox_events db'). row_step scan a (clock db) e e'"
proof -
  have inv: "outbox_inv db" by (rule jsonb_column.reachable_outbox [OF assms(1,2)])
  from outbox_step_change [OF assms(1) inv assms(3)] show ?thesis
    using outbox_change_row [OF inv _ assms(4)] row_step_refl assms(4) by metis
qed

text \<open>
  C20: A claim on an undisturbed connection succeeds in every reachable outbox. Under a fresh canonical
  token it leases at most \<open>limit\<close> events, returned in the order of their sequence; exactly the rows of
  the returned events change, each of them unpublished, due and without a live lease before, and
  leased until the end of the requested period afterwards; and when it takes fewer than \<open>limit\<close>
  events then it left out none that could have been taken.
\<close>

theorem Claim_leases:
  assumes "jsonb_column jsonb" "reachable outbox_init (outbox_move jsonb store scan) db"
    and "valid_claim limit lease" "length bytes = 16"
  shows "\<exists>token claimed db'. Claim (Inr bytes) quiet locked limit lease db = (Inr claimed, db') \<and>
    isCanonicalUUID token \<and> list_all (\<lambda>c. ce_ClaimToken c = token) claimed \<and>
    len claimed \<le> sint limit \<and> sorted (map (sint \<circ> ce_Sequence) claimed) \<and>
    (\<forall>e \<in> set (outbox_events db).
       if o_event_id e \<in> set (map (en_eventID \<circ> ce_Envelope) claimed)
       then claimable (clock db) e \<and> \<not> locked (o_event_id e) \<and>
         leased_row token (clock db + sint lease) e \<in> set (outbox_events db')
       else e \<in> set (outbox_events db') \<and>
         (len claimed < sint limit \<longrightarrow> \<not> claimable (clock db) e \<or> locked (o_event_id e)))"
proof -
  have inv: "outbox_inv db" by (rule jsonb_column.reachable_outbox [OF assms(1,2)])
  then have ok: "outbox_ok db" by (simp add: outbox_inv_def)
  obtain token where t: "newClaimToken (Inr bytes) = Inr token" using newClaimToken_eq [OF assms(4)] by blast
  have c: "isCanonicalUUID token" using newClaimToken_canonical [OF t] assms(4) by simp
  let ?cs = "claimed_events token locked (sint limit) db" and ?ids = "candidate_ids locked (sint limit) db"
  let ?db' = "leased_db locked (sint limit) token (sint lease div second) db"
  note facts = claimed_events_facts [OF ok, of token locked "sint limit"]
  have run: "Claim (Inr bytes) quiet locked limit lease db = (Inr ?cs, ?db')"
    by (simp add: Claim_in_inv [OF inv assms(3) t] run_tx_quiet)
  have secs: "sint lease div second * second = sint lease"
    using assms(3) by (simp add: valid_claim_def) (metis add.right_neutral div_mult_mod_eq)
  have ids: "set (map (en_eventID \<circ> ce_Envelope) ?cs) = ?ids"
    unfolding set_map facts(3) by (simp add: candidate_ids_def image_image row_claim_def)
  have taken: "claimable (clock db) e \<and> \<not> locked (o_event_id e) \<and>
      leased_row token (clock db + sint lease) e \<in> set (outbox_events ?db')"
    if "e \<in> set (outbox_events db)" "o_event_id e \<in> ?ids" for e
    using candidates_claimable [OF candidate_ids_row [OF ok that]] updated_row [OF that(1)] that(2)
    by (auto simp: leased_db_def secs updated_def)
  have left: "e \<in> set (outbox_events ?db')" if "e \<in> set (outbox_events db)" "o_event_id e \<notin> ?ids" for e
    using that by (auto simp: leased_db_def updated_def)
  have all: "\<not> claimable (clock db) e \<or> locked (o_event_id e)"
    if "e \<in> set (outbox_events db)" "o_event_id e \<notin> ?ids" "len ?cs < sint limit" for e
    using candidates_all [of locked "sint limit" db e] that facts(2) by (auto simp: candidate_ids_def)
  have "len ?cs \<le> sint limit"
    using length_candidates [of "sint limit" locked db] facts(2) assms(3) by (simp add: valid_claim_def)
  moreover have "list_all (\<lambda>c. ce_ClaimToken c = token) ?cs"
    unfolding list_all_iff facts(3) by (simp add: row_claim_def)
  ultimately show ?thesis using run c facts(1) taken left all ids
    by (intro exI [of _ token] exI [of _ ?cs] exI [of _ ?db'] conjI ballI) auto
qed

text \<open>What a report of an event under a token should do: \<open>new\<close> is the change of the row.\<close>

definition completion ::
  "(string \<Rightarrow> uuid option) \<Rightarrow> string \<Rightarrow> string \<Rightarrow> (outbox_row \<Rightarrow> outbox_row) \<Rightarrow> (database, unit) tx" where
  "completion scan eventID claimToken new db =
     (case (scan eventID, scan claimToken) of
        (Some i, Some t) \<Rightarrow>
          if list_ex (claimed_as i t) (outbox_events db) then (Inr (), updated (claimed_as i t) new db)
          else (Inl [E OutboxRepository ErrClaimLost], db)
      | _ \<Rightarrow> (Inl [E OutboxRepository ErrInvalidArgument, Opaque ''parsing UUID''], db))"

lemma parseClaimIdentity_Inl:
  "scan i = None \<or> scan t = None \<Longrightarrow>
     parseClaimIdentity scan i t = Inl [E OutboxRepository ErrInvalidArgument, Opaque ''parsing UUID'']"
  by (auto simp: parseClaimIdentity_def outbox_parseUUID_def wrap_def split: option.splits)

lemma exec_one_disturbed:
  assumes "exec_one env statement db = (r, db')"
  shows "(r, db') = exec_one quiet statement db \<or> r \<noteq> Inr () \<and> (db' = db \<or> db' = snd (exec_one quiet statement db))"
  using assms
  by (auto simp: exec_one_def tx_bind_def tx_lift_def tx_return_def run_tx_def quiet_def
      split: prod.splits sum.splits option.splits commit_outcome.splits if_splits)

text \<open>
  C19: Completion is fenced by the claim token. In every reachable outbox and over an undisturbed connection, reporting
  the publication of an event under a token succeeds exactly when both are UUIDs that the driver accepts and the
  event is unpublished and leased under this token; it then changes this event's row only. An identifier that is no
  UUID, and for a failure also a retry delay that is negative, above a day or not in whole seconds, gives
  \<open>ErrInvalidArgument\<close>; a lost lease gives \<open>ErrClaimLost\<close>; both change nothing, and no constraint of the table ever
  refuses the update. Over a disturbed connection the report has this outcome or fails, and then the database is
  unchanged or as after it.
\<close>

theorem completion_fenced:
  assumes "jsonb_column jsonb" "reachable outbox_init (outbox_move jsonb store scan) db"
  shows "let good = completion scan eventID claimToken (published_row (clock db)) db;
      bad = (if scan eventID \<noteq> None \<and> scan claimToken \<noteq> None \<and> \<not> valid_delay retryAfter
        then (Inl [E OutboxRepository ErrInvalidArgument], db)
        else completion scan eventID claimToken
          (failed_row (clock db) (sint retryAfter div second) (sanitizeDiagnostic diagnostic)) db) in
    MarkPublished scan quiet eventID claimToken db = good \<and>
    MarkFailed scan quiet eventID claimToken retryAfter diagnostic db = bad \<and>
    (case MarkPublished scan env eventID claimToken db of (r, db') \<Rightarrow>
       (r, db') = good \<or> r \<noteq> Inr () \<and> (db' = db \<or> db' = snd good)) \<and>
    (case MarkFailed scan env eventID claimToken retryAfter diagnostic db of (r, db') \<Rightarrow>
       (r, db') = bad \<or> r \<noteq> Inr () \<and> (db' = db \<or> db' = snd bad))"
proof (cases "scan eventID = None \<or> scan claimToken = None")
  case True
  with parseClaimIdentity_Inl [of scan eventID claimToken] show ?thesis
    by (auto simp: MarkPublished_def MarkFailed_def completion_def Let_def split: option.splits)
next
  case False
  then obtain i t where it: "scan eventID = Some i" "scan claimToken = Some t" by auto
  have inv: "outbox_inv db" by (rule jsonb_column.reachable_outbox [OF assms])
  have p: "parseClaimIdentity scan eventID claimToken = Inr (i, t)" using it by (simp add: parseClaimIdentity_Inr)
  let ?pub = "update_outbox_rows (claimed_as i t) (published_row (clock db))"
  let ?fail = "update_outbox_rows (claimed_as i t)
    (failed_row (clock db) (sint retryAfter div second) (sanitizeDiagnostic diagnostic))"
  have c: "list_all snd (outbox_checks (published_row (clock db) e))"
      "0 \<le> secs \<Longrightarrow> list_all snd (outbox_checks (failed_row (clock db) secs (sanitizeDiagnostic diagnostic) e))"
    if "e \<in> set (outbox_events db)" "claimed_as i t e" for e secs
    using finished_checks [OF inv that] by blast+
  have pub: "exec_one quiet ?pub db = completion scan eventID claimToken (published_row (clock db)) db"
    using exec_one_in_inv [OF inv same_content_rows(3) c(1)] it by (simp add: completion_def list_ex_iff)
  have fail: "exec_one quiet ?fail db = completion scan eventID claimToken
      (failed_row (clock db) (sint retryAfter div second) (sanitizeDiagnostic diagnostic)) db" if "valid_delay retryAfter"
  proof -
    have "0 \<le> sint retryAfter div second"
      using that by (simp add: valid_delay_def second_def pos_imp_zdiv_nonneg_iff)
    from exec_one_in_inv [OF inv same_content_rows(4) c(2) [OF _ _ this]] it show ?thesis
      by (simp add: completion_def list_ex_iff)
  qed
  have runs: "MarkPublished scan e eventID claimToken db = exec_one e ?pub db"
    "MarkFailed scan e eventID claimToken retryAfter diagnostic db =
      (if valid_delay retryAfter then exec_one e ?fail db else (Inl [E OutboxRepository ErrInvalidArgument], db))" for e
    by (simp_all add: MarkPublished_def MarkFailed_def p valid_delay_iff)
  show ?thesis
    using pub fail exec_one_disturbed [of env ?pub db] exec_one_disturbed [of env ?fail db] it
    by (auto simp: runs Let_def split: prod.splits)
qed

text \<open>
  What the writer adds, a publisher reads. When \<open>AddTx\<close> succeeds it appends one row, which is due at
  once and free of leases; scanning this row, under whatever claim token, yields the identifier and the draft that
  \<open>AddTx\<close> returned, with the payload as the normal form of PostgreSQL's text of it and the
  occurrence time as the column keeps it.
\<close>

theorem AddTx_stored:
  assumes "jsonb_column jsonb" "AddTx jsonb store eventID sequence d db = (Inr e, db')"
    and "isCanonicalUUID eventID" "\<not> IsZero (store (dr_occurredAt d))"
  shows "\<exists>row text payload. outbox_events db' = outbox_events db @ [row] \<and>
    claimable (clock db) row \<and> o_claimed_by row = None \<and>
    jsonb (dr_payload (en_draft e)) = Inr text \<and> normalizePayload text = Inr payload \<and>
    scanClaimedEvent token row = Inr \<lparr>
      ce_Envelope = e\<lparr>en_draft := (en_draft e)\<lparr>dr_occurredAt := store (dr_occurredAt d), dr_payload := payload\<rparr>\<rparr>,
      ce_Sequence = sequence, ce_PublishAttempts = 0, ce_ClaimToken = token\<rparr>"
proof -
  from assms(2) obtain v t where v: "validateDraft d = Inr v" "jsonb (dr_payload v) = Inr t"
      "insert_outbox_row (new_outbox_row store (clock db) eventID sequence v t) db = (Inr (), db')"
      and e: "e = \<lparr>en_eventID = fst (normalizeUUID eventID), en_draft = v\<rparr>"
    by (rule AddTx_Inr)
  let ?row = "new_outbox_row store (clock db) eventID sequence v t"
  have at: "dr_occurredAt v = dr_occurredAt d" by (rule validateDraft_occurredAt [OF v(1)])
  have row: "list_all snd (outbox_checks ?row)" "outbox_events db' = outbox_events db @ [?row]"
    using v(3) by (simp_all add: insert_outbox_row_Inr)
  obtain k where k: "normalizePayload t = Inr k"
    "NewDraft (scanned_params ?row) = Inr (v\<lparr>dr_occurredAt := store (dr_occurredAt v), dr_payload := k\<rparr>)"
    "row_readable ?row"
    using jsonb_column.new_row_readable [OF assms(1) v(1,2) row(1) assms(3)] assms(4) unfolding at by metis
  have "scanClaimedEvent token ?row = Inr (row_claim token ?row)"
    by (rule scanClaimedEvent_readable [OF k(3)])
  moreover have "row_claim token ?row = \<lparr>
      ce_Envelope = e\<lparr>en_draft := (en_draft e)\<lparr>dr_occurredAt := store (dr_occurredAt d), dr_payload := k\<rparr>\<rparr>,
      ce_Sequence = sequence, ce_PublishAttempts = 0, ce_ClaimToken = token\<rparr>"
    using k(2) assms(3) at by (simp add: row_claim_def row_draft_def e) (simp add: new_outbox_row_def)
  moreover have "claimable (clock db) ?row" "o_claimed_by ?row = None"
    by (simp_all add: claimable_def new_outbox_row_def)
  ultimately show ?thesis using row(2) v(2) k(1) e by auto
qed

text \<open>
  The events of an aggregate are unique: adding an event whose aggregate, aggregate version, type and
  version are those of a stored event is refused with \<open>ErrAlreadyExists\<close> and leaves the database as
  it was, whatever the rest of the draft is.
\<close>

theorem AddTx_duplicate:
  assumes "validateDraft d = Inr v" "jsonb (dr_payload v) = Inr text" "take 1 text = ''{''" "len text \<le> max_payload_octets"
    and "eventID \<notin> o_event_id ` set (outbox_events db)" "sequence \<notin> o_sequence ` set (outbox_events db)"
    and "(dr_aggregateType v, dr_aggregateID v, dr_aggregateVersion v, dr_eventType v, dr_eventVersion v)
      \<in> outbox_event_key ` set (outbox_events db)"
  shows "AddTx jsonb store eventID sequence d db =
    (Inl [E OutboxRepository ErrAlreadyExists, PgError ''23505'' ''outbox_events_aggregate_event_key''], db)"
proof -
  let ?row = "new_outbox_row store (clock db) eventID sequence v text"
  have "draft_validate v = None" using assms(1) by (simp add: validateDraft_def NewDraft_Inr)
  then have checks: "list_all snd (outbox_checks ?row)"
    using assms(3,4)
    by (simp add: draft_validate_None outbox_checks_def new_outbox_row_def validEventType_sql validAggregateType_sql)
  then have "violated check_violation (outbox_checks ?row) = None" by simp
  moreover have "outbox_event_key ?row \<in> outbox_event_key ` set (outbox_events db)"
    using assms(7) by (simp add: outbox_event_key_def new_outbox_row_def)
  moreover have "o_event_id ?row = eventID" "o_sequence ?row = sequence" by (simp_all add: new_outbox_row_def)
  ultimately have "insert_outbox_row ?row db = (Inl [PgError ''23505'' ''outbox_events_aggregate_event_key''], db)"
    using assms(5,6) by (simp add: insert_outbox_row_def constrained_def violated_def unique_violation_def)
  then show ?thesis
    using assms(1,2)
    by (simp add: AddTx_def insertEvent_def tx_bind_def outbox_classifyWriteError_def as_PgError_def)
qed

section \<open>A sample outbox\<close>

definition sample_event_id :: uuid where "sample_event_id = ''00000000-0000-4000-8000-0000000000f1''"
definition sample_bytes :: "8 word list" where "sample_bytes = replicate 16 0"
definition sample_token :: uuid where "sample_token = ''00000000-0000-4000-8000-000000000000''"

definition sample_add :: "(database, envelope) tx" where
  "sample_add = AddTx reference_jsonb id sample_event_id 1 sample_draft"

definition sample_outbox :: database where "sample_outbox = snd (sample_add empty_db)"

definition sample_claim :: "(database, claimedEvent list) tx" where
  "sample_claim = Claim (Inr sample_bytes) quiet (\<lambda>_. False) 10 60000000000"

definition leased_outbox :: database where "leased_outbox = snd (sample_claim sample_outbox)"

lemma sample_added: "sample_add empty_db = (Inr \<lparr>en_eventID = sample_event_id, en_draft = sample_draft\<rparr>, sample_outbox)"
proof -
  have "fst (sample_add empty_db) = Inr \<lparr>en_eventID = sample_event_id, en_draft = sample_draft\<rparr>" by code_simp
  then show ?thesis by (simp add: sample_outbox_def prod_eq_iff)
qed

lemma sample_canonical: "isCanonicalUUID sample_event_id" "\<not> IsZero (id (dr_occurredAt sample_draft))"
  "newClaimToken (Inr sample_bytes) = Inr sample_token" "length sample_bytes = 16" "valid_claim 10 60000000000"
  by code_simp+

lemma sample_claimed:
  "map (en_eventID \<circ> ce_Envelope) (projr (fst (sample_claim sample_outbox))) = [sample_event_id]"
  by code_simp

lemma sample_steps:
  "outbox_step reference_jsonb id reference_scan Add empty_db sample_outbox"
  "outbox_step reference_jsonb id reference_scan (Lease sample_token) sample_outbox leased_outbox"
proof -
  show "outbox_step reference_jsonb id reference_scan Add empty_db sample_outbox"
    using outbox_step.add [OF sample_added [unfolded sample_add_def] sample_canonical(1,2)] .
  show "outbox_step reference_jsonb id reference_scan (Lease sample_token) sample_outbox leased_outbox"
    unfolding leased_outbox_def sample_claim_def
    by (rule outbox_step.claim [OF surjective_pairing sample_canonical(4,3)])
qed

lemma sample_reachable:
  "reachable outbox_init (outbox_move reference_jsonb id reference_scan) empty_db"
  "reachable outbox_init (outbox_move reference_jsonb id reference_scan) sample_outbox"
  "reachable outbox_init (outbox_move reference_jsonb id reference_scan) leased_outbox"
proof -
  show e: "reachable outbox_init (outbox_move reference_jsonb id reference_scan) empty_db"
    by (rule reachable.start) (simp add: outbox_init_def empty_db_def)
  show s: "reachable outbox_init (outbox_move reference_jsonb id reference_scan) sample_outbox"
    using sample_steps(1) by (intro reachable.move [OF e]) (auto simp: outbox_move_def)
  show "reachable outbox_init (outbox_move reference_jsonb id reference_scan) leased_outbox"
    using sample_steps(2) by (intro reachable.move [OF s]) (auto simp: outbox_move_def)
qed

lemma reference_column: "jsonb_column reference_jsonb"
  by (rule reference_jsonb.jsonb_column_axioms)

definition published_outbox :: database where
  "published_outbox = snd (MarkPublished reference_scan quiet sample_event_id sample_token leased_outbox)"

lemma leased_row_stored: "hd (outbox_events leased_outbox) \<in> set (outbox_events leased_outbox)"
proof -
  have "outbox_events leased_outbox \<noteq> []" by code_simp
  then show ?thesis by (rule hd_in_set)
qed

theorem outbox_event_fate_witness:
  "map o_published_at (outbox_events published_outbox) = [Some (clock leased_outbox)] \<and>
   (\<exists>e' \<in> set (outbox_events published_outbox).
      row_step reference_scan (ReportPublished sample_event_id sample_token) (clock leased_outbox) (hd (outbox_events leased_outbox)) e')"
proof
  show "map o_published_at (outbox_events published_outbox) = [Some (clock leased_outbox)]" by code_simp
  have "outbox_step reference_jsonb id reference_scan (ReportPublished sample_event_id sample_token) leased_outbox published_outbox"
    unfolding published_outbox_def by (rule outbox_step.published [OF surjective_pairing])
  then show "\<exists>e' \<in> set (outbox_events published_outbox).
      row_step reference_scan (ReportPublished sample_event_id sample_token) (clock leased_outbox) (hd (outbox_events leased_outbox)) e'"
    by (rule outbox_event_fate [OF reference_column sample_reachable(3) _ leased_row_stored])
qed

theorem Claim_leases_witness:
  "\<exists>claimed db'. Claim (Inr sample_bytes) quiet (\<lambda>_. False) 10 60000000000 sample_outbox = (Inr claimed, db') \<and>
     len claimed \<le> 10"
proof -
  have "sint (10 :: int64) = 10" by code_simp
  with Claim_leases [OF reference_column sample_reachable(2) sample_canonical(5,4), of "\<lambda>_. False"]
  show ?thesis by metis
qed

theorem completion_fenced_witness:
  "MarkPublished reference_scan quiet sample_event_id sample_token leased_outbox =
     (Inr (), updated (claimed_as sample_event_id sample_token) (published_row (clock leased_outbox)) leased_outbox) \<and>
   MarkPublished reference_scan quiet sample_event_id sample_event_id leased_outbox =
     (Inl [E OutboxRepository ErrClaimLost], leased_outbox)"
proof -
  have s: "reference_scan sample_event_id = Some sample_event_id" "reference_scan sample_token = Some sample_token"
    and c: "list_ex (claimed_as sample_event_id sample_token) (outbox_events leased_outbox)"
    and n: "\<not> list_ex (claimed_as sample_event_id sample_event_id) (outbox_events leased_outbox)"
    by code_simp+
  have "MarkPublished reference_scan quiet i t leased_outbox =
      completion reference_scan i t (published_row (clock leased_outbox)) leased_outbox" for i t
    using completion_fenced [OF reference_column sample_reachable(3)] unfolding Let_def by blast
  then show ?thesis using s c n by (simp add: completion_def)
qed

theorem AddTx_stored_witness:
  "\<exists>row. outbox_events sample_outbox = [row] \<and> claimable 1 row"
proof -
  have "outbox_events empty_db = []" "clock empty_db = 1" by (simp_all add: empty_db_def)
  with AddTx_stored [OF reference_column sample_added [unfolded sample_add_def] sample_canonical(1,2), of sample_token]
  show ?thesis by auto
qed

theorem AddTx_duplicate_witness:
  "AddTx reference_jsonb id sample_token 2 sample_draft sample_outbox =
     (Inl [E OutboxRepository ErrAlreadyExists, PgError ''23505'' ''outbox_events_aggregate_event_key''], sample_outbox)"
proof -
  have "validateDraft sample_draft = Inr sample_draft" "reference_jsonb (dr_payload sample_draft) = Inr ''{}''"
    "take 1 ''{}'' = ''{''" "len ''{}'' \<le> max_payload_octets"
    "sample_token \<notin> o_event_id ` set (outbox_events sample_outbox)"
    "2 \<notin> o_sequence ` set (outbox_events sample_outbox)"
    "(dr_aggregateType sample_draft, dr_aggregateID sample_draft, dr_aggregateVersion sample_draft,
      dr_eventType sample_draft, dr_eventVersion sample_draft) \<in> outbox_event_key ` set (outbox_events sample_outbox)"
    by code_simp+
  then show ?thesis by (rule AddTx_duplicate)
qed

end
