(* ===== verification/Consumers.thy ===== *)
theory Consumers
  imports Outbox_Properties
begin

text \<open>
  What protects the consumers of events: the inbox that deduplicates them
  (\<open>internal/inbox/postgres/inbox.go\<close>) and the quarantine of records that cannot be processed
  (\<open>internal/quarantine/postgres/repository.go\<close>). SHA-256 is the argument \<open>digest\<close>. The two packages
  have the same text of \<open>validConsumerName\<close>.
\<close>

section \<open>Inbox\<close>

definition maxConsumerNameBytes :: nat where "maxConsumerNameBytes = 128"

fun consumer_bytes :: "nat \<Rightarrow> string \<Rightarrow> bool" where
  "consumer_bytes index [] \<longleftrightarrow> True"
| "consumer_bytes index (c # cs) \<longleftrightarrow>
     (is_lower c \<or> is_digit c \<or> 0 < index \<and> (c = CHR ''.'' \<or> c = CHR ''_'' \<or> c = CHR ''-'')) \<and>
     consumer_bytes (Suc index) cs"

definition validConsumerName :: "string \<Rightarrow> bool" where
  "validConsumerName value \<longleftrightarrow>
     value \<noteq> [] \<and> length value \<le> maxConsumerNameBytes \<and> consumer_bytes 0 value"

definition new_inbox_row :: "gotime \<Rightarrow> string \<Rightarrow> envelope \<Rightarrow> inbox_row" where
  "new_inbox_row now consumerName e =
     \<lparr>i_consumer_name = consumerName, i_event_id = en_eventID e, i_event_type = dr_eventType (en_draft e),
      i_event_version = dr_eventVersion (en_draft e), i_processed_at = now\<rparr>"

text \<open>
  \<open>ReserveTx\<close> reports whether the event is new to the consumer. An envelope exists only as the result of
  \<open>NewEnvelope\<close> or as the zero value, which the third guard refuses, so its identifier is a UUID text.
\<close>

definition ReserveTx :: "string \<Rightarrow> envelope \<Rightarrow> (database, bool) tx" where
  "ReserveTx consumerName e db =
     (if \<not> validConsumerName consumerName then (fail InboxRepository ErrInvalidArgument, db)
      else if en_eventID e = [] \<or> dr_eventType (en_draft e) = [] \<or> sint (dr_eventVersion (en_draft e)) \<le> 0
      then (fail InboxRepository ErrInvalidArgument, db)
      else case insert_inbox_row (new_inbox_row (clock db) consumerName e) db of
        (Inl err, db') \<Rightarrow> (Inl err, db')
      | (Inr None, db') \<Rightarrow> (Inr False, db')
      | (Inr (Some eventID), db') \<Rightarrow> (Inr True, db'))"

section \<open>Quarantine\<close>

definition maxTopicBytes :: nat where "maxTopicBytes = 249"
definition maxValueExcerptBytes :: int where "maxValueExcerptBytes = 65536"

record quarantineRecord =
  qr_ConsumerName :: string
  qr_Topic :: string
  qr_Partition :: int32
  qr_Offset :: int64
  qr_ReasonCode :: string
  qr_Value :: string

definition validateRecord :: "quarantineRecord \<Rightarrow> error option" where
  "validateRecord r =
     (if \<not> validConsumerName (qr_ConsumerName r) then Some [E QuarantineRepository ErrInvalidArgument]
      else if qr_Topic r = [] \<or> maxTopicBytes < length (qr_Topic r)
      then Some [E QuarantineRepository ErrInvalidArgument]
      else if sint (qr_Partition r) < 0 \<or> sint (qr_Offset r) < 0
      then Some [E QuarantineRepository ErrInvalidArgument]
      else if qr_ReasonCode r \<noteq> ''invalid_envelope'' \<and> qr_ReasonCode r \<noteq> ''unsupported_event_type''
      then Some [E QuarantineRepository ErrInvalidArgument]
      else None)"

definition new_quarantine_row :: "(string \<Rightarrow> string) \<Rightarrow> gotime \<Rightarrow> quarantineRecord \<Rightarrow> quarantine_row" where
  "new_quarantine_row digest now r =
     (let valueExcerpt = take (nat (min (len (qr_Value r)) maxValueExcerptBytes)) (qr_Value r) in
      \<lparr>q_consumer_name = qr_ConsumerName r, q_topic = qr_Topic r, q_partition = qr_Partition r,
       q_record_offset = qr_Offset r, q_reason_code = qr_ReasonCode r, q_value_excerpt = valueExcerpt,
       q_value_sha256 = digest (qr_Value r), q_value_size = int64_of (len (qr_Value r)),
       q_value_truncated = (length valueExcerpt < length (qr_Value r)), q_quarantined_at = now\<rparr>)"

definition quarantine_Store ::
  "(string \<Rightarrow> string) \<Rightarrow> tx_env \<Rightarrow> quarantineRecord \<Rightarrow> (database, unit) tx" where
  "quarantine_Store digest env r db =
     (case validateRecord r of
        Some e \<Rightarrow> (Inl e, db)
      | None \<Rightarrow> run_tx env (insert_quarantine_row (new_quarantine_row digest (clock db) r)) db)"

section \<open>Validation and constraints\<close>

lemma consumer_bytes_later:
  "0 < n \<Longrightarrow> consumer_bytes n cs \<longleftrightarrow>
     list_all (\<lambda>c. is_lower c \<or> is_digit c \<or> c = CHR ''.'' \<or> c = CHR ''_'' \<or> c = CHR ''-'') cs"
  by (induction cs arbitrary: n) auto

lemma validConsumerName_sql: "validConsumerName s \<longleftrightarrow> sql_consumer_name s"
  by (cases s) (simp_all add: validConsumerName_def sql_consumer_name_def consumer_bytes_later
    maxConsumerNameBytes_def Suc_le_eq)

definition reserved :: "database \<Rightarrow> (string \<times> uuid) set" where
  "reserved db = (\<lambda>r. (i_consumer_name r, i_event_id r)) ` set (consumer_inbox db)"

lemma ReserveTx_eq:
  assumes "validConsumerName name" "NewEnvelope i d = Inr e"
  shows "ReserveTx name e db =
    (if (name, en_eventID e) \<in> reserved db then (Inr False, db)
     else (Inr True, db\<lparr>consumer_inbox := consumer_inbox db @ [new_inbox_row (clock db) name e]\<rparr>))"
proof -
  have e: "draft_validate (en_draft e) = None" "isCanonicalUUID (en_eventID e)"
    using assms(2) by (auto simp: NewEnvelope_Inr canonical_fst_normalizeUUID)
  then have v: "sql_event_type (dr_eventType (en_draft e))" "0 < sint (dr_eventVersion (en_draft e))"
    by (simp_all add: draft_validate_None validEventType_sql)
  then have "dr_eventType (en_draft e) \<noteq> []" by (auto simp: sql_event_type_def)
  with v e(2) assms(1) show ?thesis
    by (simp add: ReserveTx_def insert_inbox_row_def tx_bind_def constrained_pass validConsumerName_sql
        new_inbox_row_def reserved_def)
qed

lemma validateRecord_None:
  "validateRecord r = None \<longleftrightarrow>
     validConsumerName (qr_ConsumerName r) \<and> 1 \<le> length (qr_Topic r) \<and> length (qr_Topic r) \<le> 249 \<and>
     0 \<le> sint (qr_Partition r) \<and> 0 \<le> sint (qr_Offset r) \<and>
     (qr_ReasonCode r = ''invalid_envelope'' \<or> qr_ReasonCode r = ''unsupported_event_type'')"
  by (auto simp: validateRecord_def maxTopicBytes_def Suc_le_eq not_less)

lemma quarantine_row_checks:
  assumes "validateRecord r = None" "length (digest (qr_Value r)) = 32" "in_int64 (len (qr_Value r))"
  shows "list_all snd (quarantine_checks (new_quarantine_row digest now r))"
proof -
  have "sint (word_of_nat (length (qr_Value r)) :: int64) = len (qr_Value r)"
    using sint_int64_of [OF assms(3)] by simp
  with assms show ?thesis
    by (auto simp: validateRecord_None quarantine_checks_def new_quarantine_row_def Let_def validConsumerName_sql
        maxValueExcerptBytes_def max_payload_octets_def min_def)
qed

section \<open>Properties\<close>

text \<open>
  A consumer processes an event once. Reserving an event of a constructed envelope never fails on a
  constraint; it reports \<open>True\<close> exactly when this consumer has not reserved the event before, and records the
  reservation; every later reservation by the same consumer reports \<open>False\<close> and changes nothing; and
  the reservations of other consumers and other events are not affected.
\<close>

theorem ReserveTx_once:
  assumes "validConsumerName name" "NewEnvelope i d = Inr e" "ReserveTx name e db = (r, db')"
  shows "r = Inr ((name, en_eventID e) \<notin> reserved db) \<and>
    reserved db' = insert (name, en_eventID e) (reserved db) \<and>
    ReserveTx name e db' = (Inr False, db') \<and>
    db'\<lparr>consumer_inbox := consumer_inbox db\<rparr> = db"
proof -
  have db': "reserved db' = insert (name, en_eventID e) (reserved db)" "r = Inr ((name, en_eventID e) \<notin> reserved db)"
    "db'\<lparr>consumer_inbox := consumer_inbox db\<rparr> = db"
    using assms(3) unfolding ReserveTx_eq [OF assms(1,2)]
    by (auto simp: reserved_def new_inbox_row_def split: if_splits)
  then have "ReserveTx name e db' = (Inr False, db')" by (simp add: ReserveTx_eq [OF assms(1,2)])
  with db' show ?thesis by simp
qed

text \<open>
  Quarantining is bounded and idempotent. A valid record of any size is stored without violating a
  constraint: the first 65536 bytes of its value with the size, the digest and whether the excerpt
  is shorter than the value; storing a record again for the same consumer and position changes nothing.
\<close>

theorem quarantine_once:
  assumes "validateRecord r = None" "length (digest (qr_Value r)) = 32" "in_int64 (len (qr_Value r))"
  shows "quarantine_Store digest quiet r db =
      (if (qr_ConsumerName r, qr_Topic r, qr_Partition r, qr_Offset r) \<in> quarantine_key ` set (consumer_quarantine db)
       then (Inr (), db)
       else (Inr (), db\<lparr>consumer_quarantine := consumer_quarantine db @ [new_quarantine_row digest (clock db) r]\<rparr>)) \<and>
    quarantine_Store digest quiet r (snd (quarantine_Store digest quiet r db)) =
      (Inr (), snd (quarantine_Store digest quiet r db)) \<and>
    q_value_excerpt (new_quarantine_row digest (clock db) r) = take 65536 (qr_Value r)"
proof -
  have key: "quarantine_key (new_quarantine_row digest now r) = (qr_ConsumerName r, qr_Topic r, qr_Partition r, qr_Offset r)" for now
    by (simp add: quarantine_key_def new_quarantine_row_def Let_def)
  have st: "quarantine_Store digest quiet r db =
      (if (qr_ConsumerName r, qr_Topic r, qr_Partition r, qr_Offset r) \<in> quarantine_key ` set (consumer_quarantine db)
       then (Inr (), db)
       else (Inr (), db\<lparr>consumer_quarantine := consumer_quarantine db @ [new_quarantine_row digest (clock db) r]\<rparr>))" for db
    using assms(1) quarantine_row_checks [where digest = digest, OF assms]
    by (simp add: quarantine_Store_def run_tx_quiet insert_quarantine_row_def tx_bind_def constrained_pass key)
  have "q_value_excerpt (new_quarantine_row digest (clock db) r) = take 65536 (qr_Value r)"
    by (simp add: new_quarantine_row_def Let_def maxValueExcerptBytes_def min_def)
  then show ?thesis by (simp add: st key)
qed

definition sample_record :: quarantineRecord where
  "sample_record =
     \<lparr>qr_ConsumerName = ''risk-worker'', qr_Topic = ''events'', qr_Partition = 0, qr_Offset = 7,
      qr_ReasonCode = ''invalid_envelope'', qr_Value = ''{''\<rparr>"

theorem ReserveTx_once_witness:
  "fst (ReserveTx ''risk-worker'' \<lparr>en_eventID = sample_event_id, en_draft = sample_draft\<rparr> empty_db) = Inr True"
proof -
  have v: "validConsumerName ''risk-worker''"
    "NewEnvelope sample_event_id sample_draft = Inr \<lparr>en_eventID = sample_event_id, en_draft = sample_draft\<rparr>"
    by code_simp+
  have "reserved empty_db = {}" by (simp add: reserved_def empty_db_def)
  with ReserveTx_once [OF v surjective_pairing, of empty_db] show ?thesis by simp
qed

theorem quarantine_once_witness:
  "fst (quarantine_Store (\<lambda>_. replicate 32 (CHR 0x00)) quiet sample_record empty_db) = Inr ()"
proof -
  have "validateRecord sample_record = None" "in_int64 (len (qr_Value sample_record))" by code_simp+
  moreover have "length (replicate 32 (CHR 0x00)) = 32" by simp
  ultimately show ?thesis
    using quarantine_once [of sample_record "\<lambda>_. replicate 32 (CHR 0x00)" empty_db] by (simp split: if_splits)
qed

end
