(* ===== verification/Workers.thy ===== *)
theory Workers
  imports Review_Case Consumers
begin

text \<open>
  The handlers of the two consumers: the risk worker, which assesses a pending transfer
  (\<open>internal/app/riskworker/handler.go\<close>), and the transaction worker, which posts an approved one
  (\<open>internal/app/transactionworker/handler.go\<close>).

  \<open>now\<close> is the result of the handler's clock, \<open>velocity\<close> the answer of the velocity observer for a source
  account, a transfer and a time.
\<close>

section \<open>Risk worker\<close>

definition risk_consumerName :: string where "risk_consumerName = ''risk-worker.v1''"

type_synonym velocity = "string \<Rightarrow> string \<Rightarrow> gotime \<Rightarrow> int64 result"

record riskHandler =
  rh_policies :: "string \<rightharpoonup> Policy"
  rh_velocity :: velocity

definition noopVelocityObserver :: velocity where
  "noopVelocityObserver sourceAccountID transferID observedAt = Inr 0"

fun policies_byVersion :: "Policy list \<Rightarrow> (string \<rightharpoonup> Policy) \<Rightarrow> (string \<rightharpoonup> Policy) result" where
  "policies_byVersion [] byVersion = Inr byVersion"
| "policies_byVersion (policy # policies) byVersion =
     (if po_version policy = [] then fail RiskWorker ErrInvalidArgument
      else if byVersion (po_version policy) \<noteq> None then fail RiskWorker ErrInvalidArgument
      else policies_byVersion policies (byVersion(po_version policy \<mapsto> policy)))"

definition NewHandlerWithPoliciesAndVelocity :: "Policy list \<Rightarrow> velocity \<Rightarrow> riskHandler result" where
  "NewHandlerWithPoliciesAndVelocity policies velocity =
     (if policies = [] then fail RiskWorker ErrInvalidArgument
      else andThen (policies_byVersion policies Map.empty) (\<lambda>byVersion.
        Inr \<lparr>rh_policies = byVersion, rh_velocity = velocity\<rparr>))"

definition NewHandlerWithPolicies :: "Policy list \<Rightarrow> riskHandler result" where
  "NewHandlerWithPolicies policies = NewHandlerWithPoliciesAndVelocity policies noopVelocityObserver"

definition risk_NewHandler :: "Policy \<Rightarrow> riskHandler result" where
  "risk_NewHandler policy = NewHandlerWithPolicies [policy]"

definition captureInput :: "velocity \<Rightarrow> Lifecycle \<Rightarrow> gotime \<Rightarrow> Input" where
  "captureInput velocity current assessedAt =
     (let input = \<lparr>in_Amount = t_amount (l_transfer current), in_VelocityTransferCount = 0,
                   in_VelocityDegraded = False\<rparr> in
      case velocity (t_sourceAccountID (l_transfer current)) (t_id (l_transfer current)) assessedAt of
        Inl err \<Rightarrow> input\<lparr>in_VelocityDegraded := True\<rparr>
      | Inr count \<Rightarrow> input\<lparr>in_VelocityTransferCount := count\<rparr>)"

fun risk_transition :: "Lifecycle \<Rightarrow> Decision \<Rightarrow> Lifecycle result" where
  "risk_transition lifecycle DecisionApprove = Approve lifecycle"
| "risk_transition lifecycle DecisionReview = RequireReview lifecycle"
| "risk_transition lifecycle DecisionDecline = Decline lifecycle"
| "risk_transition lifecycle DecisionUnknown = fail RiskWorker ErrInvalidArgument"

text \<open>The durable lifecycle that the handler expects for a requested transfer.\<close>

definition matches_request :: "Lifecycle \<Rightarrow> Lifecycle \<Rightarrow> bool" where
  "matches_request current requested \<longleftrightarrow>
     (let t = l_transfer current; u = l_transfer requested in
      l_status current = StatusPendingRisk \<and> t_id t = t_id u \<and> t_requesterID t = t_requesterID u \<and>
      t_sourceAccountID t = t_sourceAccountID u \<and> t_destinationAccountID t = t_destinationAccountID u \<and>
      t_amount t = t_amount u \<and> t_requestedAt t = t_requestedAt u \<and>
      l_riskPolicyVersion current = l_riskPolicyVersion requested)"

definition risk_body ::
  "(string \<Rightarrow> uuid option) \<Rightarrow> (gotime \<Rightarrow> gotime) \<Rightarrow> (string \<Rightarrow> string result) \<Rightarrow> uuid \<Rightarrow> int64 \<Rightarrow> gotime
     \<Rightarrow> velocity \<Rightarrow> Policy \<Rightarrow> Lifecycle \<Rightarrow> envelope \<Rightarrow> (database, unit) tx" where
  "risk_body scan store jsonb eventID sequence now velocity policy requested envelope =
     tx_bind (ReserveTx risk_consumerName envelope) (\<lambda>reserved.
     if \<not> reserved then tx_return ()
     else
       tx_bind (LoadLifecycleForUpdateTx scan (t_id (l_transfer requested))) (\<lambda>current.
       if \<not> matches_request current requested then tx_lift (fail TransferRepository ErrStateConflict)
       else let input = captureInput velocity current now in
         tx_bind (tx_lift (Evaluate policy input)) (\<lambda>evaluation.
         tx_bind (tx_lift (risk_transition current (ev_decision evaluation))) (\<lambda>nxt.
         tx_bind (StoreRiskAssessmentTx scan store jsonb current nxt input evaluation (en_eventID envelope) now)
           (\<lambda>_.
         tx_bind (tx_lift (RiskAssessed nxt evaluation now (en_eventID envelope))) (\<lambda>draft.
         tx_bind (AddTx jsonb store eventID sequence draft) (\<lambda>_. tx_return ())))))))"

definition risk_Handle ::
  "(string \<Rightarrow> uuid option) \<Rightarrow> (gotime \<Rightarrow> gotime) \<Rightarrow> (string \<Rightarrow> string result) \<Rightarrow> uuid \<Rightarrow> int64 \<Rightarrow> tx_env \<Rightarrow> gotime
     \<Rightarrow> riskHandler \<Rightarrow> envelope \<Rightarrow> (database, unit) tx" where
  "risk_Handle scan store jsonb eventID sequence env now h envelope db =
     (case ParseRequested envelope of
        Inl e \<Rightarrow> (Inl e, db)
      | Inr requested \<Rightarrow>
          (case rh_policies h (l_riskPolicyVersion requested) of
             None \<Rightarrow> (fail RiskWorker ErrUnknownPolicy, db)
           | Some policy \<Rightarrow>
               run_handler env
                 (risk_body scan store jsonb eventID sequence now (rh_velocity h) policy requested envelope) db))"

section \<open>Transaction worker\<close>

definition transaction_consumerName :: string where "transaction_consumerName = ''transaction-worker.v1''"
definition insufficientFundsReason :: string where "insufficientFundsReason = ''insufficient_funds''"

definition journalEntry :: "Lifecycle \<Rightarrow> gotime \<Rightarrow> JournalEntry result" where
  "journalEntry l recordedAt =
     (if l_status l \<noteq> StatusApproved then fail TransactionWorker ErrInvalidArgument
      else let amount = t_amount (l_transfer l) in
        andThen (Money_Negate amount) (\<lambda>debit.
        andThen (NewPosting (t_sourceAccountID (l_transfer l)) debit) (\<lambda>sourcePosting.
        andThen (NewPosting (t_destinationAccountID (l_transfer l)) amount) (\<lambda>destinationPosting.
        NewJournalEntry
          \<lparr>jp_ID = t_id (l_transfer l), jp_Postings = [sourcePosting, destinationPosting],
           jp_RecordedAt = recordedAt\<rparr>))))"

fun statusForDecision :: "Decision \<Rightarrow> Status" where
  "statusForDecision DecisionApprove = StatusApproved"
| "statusForDecision DecisionReview = StatusReviewRequired"
| "statusForDecision DecisionDecline = StatusDeclined"
| "statusForDecision DecisionUnknown = StatusUnknown"

definition fail_transfer ::
  "(gotime \<Rightarrow> gotime) \<Rightarrow> (string \<Rightarrow> string result) \<Rightarrow> uuid \<Rightarrow> int64 \<Rightarrow> Lifecycle \<Rightarrow> string \<Rightarrow> gotime
     \<Rightarrow> (database, unit) tx" where
  "fail_transfer store jsonb eventID sequence current causationID failedAt =
     tx_bind (tx_lift (Fail current insufficientFundsReason)) (\<lambda>nxt.
     tx_bind (StoreLifecycleTransitionTx current nxt) (\<lambda>_.
     tx_bind (tx_lift (Failed nxt failedAt causationID)) (\<lambda>draft.
     tx_bind (AddTx jsonb store eventID sequence draft) (\<lambda>_. tx_return ()))))"

text \<open>
  An insufficient balance is found before anything is written, by a comparison in the process, so the
  transaction goes on from there.
\<close>

definition post ::
  "(string \<Rightarrow> uuid option) \<Rightarrow> (gotime \<Rightarrow> gotime) \<Rightarrow> (string \<Rightarrow> string result) \<Rightarrow> uuid \<Rightarrow> int64 \<Rightarrow> Lifecycle \<Rightarrow> string
     \<Rightarrow> gotime \<Rightarrow> (database, unit) tx" where
  "post scan store jsonb eventID sequence current causationID postedAt db =
     (case journalEntry current postedAt of
        Inl e \<Rightarrow> (Inl e, db)
      | Inr entry \<Rightarrow>
          (case PostTx scan store entry db of
             (Inl e, db') \<Rightarrow>
               if \<not> errors_Is e (E LedgerRepository ErrInsufficientFunds) then (Inl e, db')
               else fail_transfer store jsonb eventID sequence current causationID postedAt db'
           | (Inr _, db') \<Rightarrow>
               tx_bind (tx_lift (Complete current)) (\<lambda>nxt.
               tx_bind (StoreLifecycleTransitionTx current nxt) (\<lambda>_.
               tx_bind (tx_lift (CompletedLifecycle nxt postedAt causationID)) (\<lambda>draft.
               tx_bind (AddTx jsonb store eventID sequence draft) (\<lambda>_. tx_return ())))) db'))"

definition assessed_body ::
  "(string \<Rightarrow> uuid option) \<Rightarrow> (gotime \<Rightarrow> gotime) \<Rightarrow> (string \<Rightarrow> string result) \<Rightarrow> uuid \<Rightarrow> int64 \<Rightarrow> gotime
     \<Rightarrow> riskAssessment \<Rightarrow> envelope \<Rightarrow> (database, unit) tx" where
  "assessed_body scan store jsonb eventID sequence now assessment envelope =
     tx_bind (ReserveTx transaction_consumerName envelope) (\<lambda>reserved.
     if \<not> reserved then tx_return ()
     else
       tx_bind (LoadLifecycleForUpdateTx scan (as_transferID assessment)) (\<lambda>current.
       if l_version current \<noteq> dr_aggregateVersion (en_draft envelope) \<or>
          l_riskPolicyVersion current \<noteq> as_riskPolicyVersion assessment \<or>
          l_status current \<noteq> statusForDecision (as_decision assessment)
       then tx_lift (fail TransferRepository ErrStateConflict)
       else if as_decision assessment \<noteq> DecisionApprove then tx_return ()
       else post scan store jsonb eventID sequence current (en_eventID envelope) now))"

definition decided_body ::
  "(string \<Rightarrow> uuid option) \<Rightarrow> (gotime \<Rightarrow> gotime) \<Rightarrow> (string \<Rightarrow> string result) \<Rightarrow> uuid \<Rightarrow> int64 \<Rightarrow> gotime
     \<Rightarrow> reviewDecision \<Rightarrow> envelope \<Rightarrow> (database, unit) tx" where
  "decided_body scan store jsonb eventID sequence now decision envelope =
     tx_bind (ReserveTx transaction_consumerName envelope) (\<lambda>reserved.
     if \<not> reserved then tx_return ()
     else
       tx_bind (LoadLifecycleForUpdateTx scan (rd_transferID decision)) (\<lambda>current.
       if l_version current \<noteq> dr_aggregateVersion (en_draft envelope) \<or>
          status_String (l_status current) \<noteq> rd_decision decision
       then tx_lift (fail TransferRepository ErrStateConflict)
       else if rd_decision decision = ''declined'' then tx_return ()
       else post scan store jsonb eventID sequence current (en_eventID envelope) now))"

definition handleReviewDecision ::
  "(string \<Rightarrow> uuid option) \<Rightarrow> (gotime \<Rightarrow> gotime) \<Rightarrow> (string \<Rightarrow> string result) \<Rightarrow> uuid \<Rightarrow> int64 \<Rightarrow> tx_env \<Rightarrow> gotime
     \<Rightarrow> envelope \<Rightarrow> (database, unit) tx" where
  "handleReviewDecision scan store jsonb eventID sequence env now envelope db =
     (case ParseReviewDecided envelope of
        Inl e \<Rightarrow> (Inl e, db)
      | Inr decision \<Rightarrow>
          run_handler env (decided_body scan store jsonb eventID sequence now decision envelope) db)"

definition transaction_Handle ::
  "(string \<Rightarrow> uuid option) \<Rightarrow> (gotime \<Rightarrow> gotime) \<Rightarrow> (string \<Rightarrow> string result) \<Rightarrow> uuid \<Rightarrow> int64 \<Rightarrow> tx_env \<Rightarrow> gotime
     \<Rightarrow> envelope \<Rightarrow> (database, unit) tx" where
  "transaction_Handle scan store jsonb eventID sequence env now envelope db =
     (if dr_eventType (en_draft envelope) = ReviewDecidedType
      then handleReviewDecision scan store jsonb eventID sequence env now envelope db
      else case ParseRiskAssessed envelope of
        Inl e \<Rightarrow> (Inl e, db)
      | Inr assessment \<Rightarrow>
          run_handler env (assessed_body scan store jsonb eventID sequence now assessment envelope) db)"

end
