(* ===== verification/Ledger_Posting.thy ===== *)
theory Ledger_Posting
  imports Ledger_Repository
begin

text \<open>
  What posting an entry does. A prepared entry's account changes are the sums of its postings per
  account; locking computes the new balances of exactly the accounts that can settle; and
  \<open>postPrepared\<close> succeeds exactly on a \<open>postable\<close> entry, with the database \<open>posted_db\<close> as its
  effect. From that effect follow the schema's constraints, the agreement of the balance snapshots
  with the postings, and the conservation of money per currency.
\<close>

section \<open>Prepared entries\<close>

definition posted :: "uuid \<Rightarrow> preparedPosting list \<Rightarrow> int" where
  "posted account qs = (\<Sum>q \<leftarrow> qs. if q_accountID q = account then sint (q_amount q) else 0)"

lemma posted_simps [simp]:
  "posted a [] = 0"
  "posted a (q # qs) = (if q_accountID q = a then sint (q_amount q) else 0) + posted a qs"
  "posted a (qs @ rs) = posted a qs + posted a rs"
  by (simp_all add: posted_def)

lemma posted_absent: "a \<notin> q_accountID ` set qs \<Longrightarrow> posted a qs = 0"
  by (induction qs) auto

lemma parseUUID_Inr [result_simps]: "parseUUID scan s = Inr u \<longleftrightarrow> scan s = Some u"
  by (auto simp: parseUUID_def split: option.splits)

text \<open>What the accumulators hold of the postings seen so far.\<close>

definition accumulated :: "preparedPosting list \<Rightarrow> (string \<times> accountAccumulator) list \<Rightarrow> bool" where
  "accumulated qs accs \<longleftrightarrow>
     distinct (map fst accs) \<and> fst ` set accs = q_accountID ` set qs \<and>
     (\<forall>k a. map_of accs k = Some a \<longrightarrow>
        aa_accountID a = k \<and> aa_total a = posted k qs \<and>
        (\<forall>q \<in> set qs. q_accountID q = k \<longrightarrow> q_currency q = aa_currency a))"

definition prepared_posting :: "uuid \<Rightarrow> money \<Rightarrow> preparedPosting" where
  "prepared_posting u m = \<lparr>q_accountID = u, q_currency = currency m, q_amount = minorUnits m\<rparr>"

lemma prepared_posting_sels [simp]:
  "q_accountID (prepared_posting u m) = u" "q_currency (prepared_posting u m) = currency m"
  "q_amount (prepared_posting u m) = minorUnits m"
  by (simp_all add: prepared_posting_def)

lemma accumulated_step:
  assumes "accumulated qs accs"
    and "acc = (case map_of accs u of Some a \<Rightarrow> a
          | None \<Rightarrow> \<lparr>aa_accountID = u, aa_currency = currency m, aa_total = 0\<rparr>)"
    and "aa_currency acc = currency m"
  shows "accumulated (qs @ [prepared_posting u m])
    (AList.update u (acc\<lparr>aa_total := aa_total acc + units m\<rparr>) accs)"
proof (cases "map_of accs u")
  case None
  then have u: "u \<notin> q_accountID ` set qs" using assms(1)
    by (auto simp: accumulated_def map_of_eq_None_iff)
  with None assms show ?thesis
    by (auto simp: accumulated_def distinct_update update_conv' dom_update posted_absent
        split: if_splits)
next
  case (Some a)
  with assms show ?thesis
    by (auto simp: accumulated_def distinct_update update_conv' dom_update split: if_splits)
qed

lemma accumulate_Inr:
  assumes "accumulate scan ps qs accs = Inr (qs', accs')" "accumulated qs accs"
  shows "accumulated qs' accs' \<and>
    (\<exists>rs. qs' = qs @ rs \<and>
       list_all2 (\<lambda>p q. scan (p_accountID p) = Some (q_accountID q) \<and>
         q = prepared_posting (q_accountID q) (p_amount p)) ps rs)"
  using assms
proof (induction ps arbitrary: qs accs)
  case (Cons p ps)
  let ?acc = "\<lambda>u. case map_of accs u of Some a \<Rightarrow> a
    | None \<Rightarrow> \<lparr>aa_accountID = u, aa_currency = currency (p_amount p), aa_total = 0\<rparr>"
  from Cons.prems(1) obtain u where u: "scan (p_accountID p) = Some u"
    "aa_currency (?acc u) = currency (p_amount p)"
    "accumulate scan ps (qs @ [prepared_posting u (p_amount p)])
      (AList.update u ((?acc u)\<lparr>aa_total := aa_total (?acc u) + units (p_amount p)\<rparr>) accs)
      = Inr (qs', accs')"
    by (auto simp: result_simps Let_def prepared_posting_def split: if_splits)
  from Cons.IH [OF u(3) accumulated_step [OF Cons.prems(2) refl u(2)]] u(1) show ?case
    by (auto simp: list_all2_Cons1)
qed simp

text \<open>The account changes of a list of prepared postings.\<close>

definition changes_of :: "preparedPosting list \<Rightarrow> accountChange list \<Rightarrow> bool" where
  "changes_of qs cs \<longleftrightarrow>
     distinct (map ac_accountID cs) \<and> set (map ac_accountID cs) = q_accountID ` set qs \<and>
     (\<forall>c \<in> set cs. sint (ac_delta c) = posted (ac_accountID c) qs \<and>
        (\<forall>q \<in> set qs. q_accountID q = ac_accountID c \<longrightarrow> q_currency q = ac_currency c))"

lemma change_of_Inr:
  assumes "accumulated qs accs" "k \<in> set (map fst accs)" "change_of accs k = Inr c"
  shows "ac_accountID c = k \<and> sint (ac_delta c) = posted k qs \<and>
    (\<forall>q \<in> set qs. q_accountID q = k \<longrightarrow> q_currency q = ac_currency c)"
proof -
  obtain a where "map_of accs k = Some a" using assms(2) by (metis map_of_eq_None_iff option.exhaust set_map)
  with assms(1,3) show ?thesis
    by (auto simp: change_of_def accumulated_def Let_def split: if_splits)
qed

lemma map_result_change_of:
  assumes "accumulated qs accs" "map_result (change_of accs) ks = Inr cs" "set ks \<subseteq> set (map fst accs)"
  shows "map ac_accountID cs = ks \<and> (\<forall>c \<in> set cs. sint (ac_delta c) = posted (ac_accountID c) qs \<and>
        (\<forall>q \<in> set qs. q_accountID q = ac_accountID c \<longrightarrow> q_currency q = ac_currency c))"
  using assms(2,3)
proof (induction ks arbitrary: cs)
  case (Cons k ks)
  then obtain c cs' where "change_of accs k = Inr c" "map_result (change_of accs) ks = Inr cs'"
    "cs = c # cs'" by (auto simp: result_simps)
  with Cons change_of_Inr [OF assms(1), of k c] show ?case by auto
qed simp

lemma preparePostings_Inr:
  assumes "preparePostings scan ps = Inr (qs, cs)"
  shows "list_all2 (\<lambda>p q. scan (p_accountID p) = Some (q_accountID q) \<and>
      q = prepared_posting (q_accountID q) (p_amount p)) ps qs"
    and "changes_of qs cs" "sorted (map ac_accountID cs)"
proof -
  from assms obtain accs where a: "accumulate scan ps [] [] = Inr (qs, accs)"
    "map_result (change_of accs) (sort (map fst accs)) = Inr cs"
    by (auto simp: preparePostings_def result_simps Let_def)
  have acc: "accumulated qs accs" and
    ps: "list_all2 (\<lambda>p q. scan (p_accountID p) = Some (q_accountID q) \<and>
      q = prepared_posting (q_accountID q) (p_amount p)) ps qs"
    using accumulate_Inr [OF a(1)] by (auto simp: accumulated_def)
  show "list_all2 (\<lambda>p q. scan (p_accountID p) = Some (q_accountID q) \<and>
      q = prepared_posting (q_accountID q) (p_amount p)) ps qs" by (rule ps)
  from map_result_change_of [OF acc a(2)]
  have cs: "map ac_accountID cs = sort (map fst accs)"
    "\<forall>c \<in> set cs. sint (ac_delta c) = posted (ac_accountID c) qs \<and>
        (\<forall>q \<in> set qs. q_accountID q = ac_accountID c \<longrightarrow> q_currency q = ac_currency c)"
    by simp_all
  then show "sorted (map ac_accountID cs)" by simp
  show "changes_of qs cs"
    unfolding changes_of_def cs(1) using cs(2) acc by (simp add: accumulated_def)
qed

section \<open>Locked balances\<close>

lemma checkedAdd_eq:
  "checkedAdd a b =
     (if in_int64 (sint a + sint b) then Inr (a + b) else fail LedgerRepository ErrAmountOverflow)"
  using additionOverflows_iff [of a b] by (auto simp: checkedAdd_def additionOverflows_def)

text \<open>The conditions under which a locked row accepts a change, and the change it fills in.\<close>

definition accepts :: "balance_row \<Rightarrow> accountChange \<Rightarrow> bool" where
  "accepts b c \<longleftrightarrow>
     b_currency b = currency_String (ac_currency c) \<and>
     in_int64 (sint (b_balance_minor b) + sint (ac_delta c)) \<and>
     (b_account_type b = ''customer'' \<longrightarrow> 0 \<le> sint (b_balance_minor b) + sint (ac_delta c)) \<and>
     sql_account_type (b_account_type b) \<and> b_version b \<noteq> MaxInt64"

definition filled :: "balance_row \<Rightarrow> accountChange \<Rightarrow> accountChange" where
  "filled b c = c\<lparr>ac_newBalance := b_balance_minor b + ac_delta c, ac_newVersion := b_version b + 1\<rparr>"

lemma filled_id [simp]:
  "ac_accountID (filled b c) = ac_accountID c" "ac_currency (filled b c) = ac_currency c"
  "ac_delta (filled b c) = ac_delta c"
  by (simp_all add: filled_def)

lemma lockRows_accepts:
  assumes "map_of byID (b_account_id row) = Some i" "accepts row (cs ! i)"
  shows "lockRows byID (row # rows) n cs = lockRows byID rows (n + 1) (cs[i := filled row (cs ! i)])"
  using assms
  by (auto simp: accepts_def filled_def Let_def sql_account_type_def checkedAdd_eq word_sless_alt
      sint_add_exact)

lemma lockRows_refuses:
  assumes "map_of byID (b_account_id row) = Some i" "\<not> accepts row (cs ! i)"
  shows "\<exists>e. lockRows byID (row # rows) n cs = Inl e"
  using assms
  by (auto simp: accepts_def Let_def sql_account_type_def checkedAdd_eq word_sless_alt sint_add_exact)

lemma lockRows_Cons_Inr:
  "lockRows byID (row # rows) n cs = Inr r \<longleftrightarrow>
     (\<exists>i. map_of byID (b_account_id row) = Some i \<and> accepts row (cs ! i) \<and>
        lockRows byID rows (n + 1) (cs[i := filled row (cs ! i)]) = Inr r)"
proof (cases "map_of byID (b_account_id row)")
  case (Some i)
  then show ?thesis
    using lockRows_accepts [OF Some, of cs rows n] lockRows_refuses [OF Some, of cs rows n]
    by (cases "accepts row (cs ! i)") auto
qed simp

lemma changesByID_Some:
  assumes "distinct (map ac_accountID cs)"
  shows "map_of (changesByID cs) k = Some i \<longleftrightarrow> i < length cs \<and> ac_accountID (cs ! i) = k"
proof -
  let ?z = "zip (map ac_accountID cs) [0..<length cs]"
  have d: "distinct (map fst (rev ?z))" using assms by (simp flip: rev_map)
  then have "map_of (changesByID cs) k = Some i \<longleftrightarrow> (k, i) \<in> set ?z"
    by (simp add: changesByID_def)
  also have "\<dots> \<longleftrightarrow> i < length cs \<and> ac_accountID (cs ! i) = k"
    by (auto simp: set_zip intro!: exI [of _ i])
  finally show ?thesis .
qed

lemma changesByID_cong: "map ac_accountID cs = map ac_accountID ds \<Longrightarrow> changesByID cs = changesByID ds"
  unfolding changesByID_def by (metis length_map)

definition row_of :: "balance_row list \<Rightarrow> uuid \<Rightarrow> balance_row option" where
  "row_of rows a = map_of (map (\<lambda>b. (b_account_id b, b)) rows) a"

lemma row_of_simps [simp]:
  "row_of [] a = None"
  "row_of (b # rows) a = (if b_account_id b = a then Some b else row_of rows a)"
  by (simp_all add: row_of_def)

lemma row_of_None: "row_of rows a = None \<longleftrightarrow> a \<notin> b_account_id ` set rows"
  by (induction rows) auto

lemma row_of_SomeD: "row_of rows a = Some b \<Longrightarrow> b \<in> set rows \<and> b_account_id b = a"
  by (induction rows) (auto split: if_splits)

lemma row_of_Some:
  assumes "distinct (map b_account_id rows)"
  shows "row_of rows a = Some b \<longleftrightarrow> b \<in> set rows \<and> b_account_id b = a"
  using assms by (induction rows) (auto split: if_splits)

definition fill :: "balance_row list \<Rightarrow> accountChange \<Rightarrow> accountChange" where
  "fill rows c = (case row_of rows (ac_accountID c) of None \<Rightarrow> c | Some b \<Rightarrow> filled b c)"

lemma fill_id [simp]:
  "ac_accountID (fill rows c) = ac_accountID c" "ac_currency (fill rows c) = ac_currency c"
  "ac_delta (fill rows c) = ac_delta c"
  by (simp_all add: fill_def split: option.splits)

lemma map_fill_update:
  assumes "distinct (map ac_accountID cs)" "i < length cs" "b_account_id b = ac_accountID (cs ! i)"
    and "b_account_id b \<notin> b_account_id ` set rows"
  shows "map (fill rows) (cs[i := filled b (cs ! i)]) = map (fill (b # rows)) cs"
proof (rule nth_equalityI)
  fix j assume "j < length (map (fill rows) (cs[i := filled b (cs ! i)]))"
  then have j: "j < length cs" by simp
  have "ac_accountID (cs ! j) = ac_accountID (cs ! i) \<Longrightarrow> j = i"
    using assms(1,2) j nth_eq_iff_index_eq [OF assms(1)] by simp
  moreover have "row_of rows (ac_accountID (cs ! i)) = None"
    using assms(3,4) by (simp add: row_of_None)
  ultimately show "map (fill rows) (cs[i := filled b (cs ! i)]) ! j = map (fill (b # rows)) cs ! j"
    using j assms(2,3) by (auto simp: fill_def nth_list_update)
qed simp

lemma lockRows_Inr:
  assumes "distinct (map b_account_id rows)" "distinct (map ac_accountID cs)"
  shows "lockRows (changesByID cs) rows n cs = Inr (m, cs') \<longleftrightarrow>
    (\<forall>b \<in> set rows. \<exists>c \<in> set cs. ac_accountID c = b_account_id b \<and> accepts b c) \<and>
    m = n + length rows \<and> cs' = map (fill rows) cs"
  using assms
proof (induction rows arbitrary: n cs)
  case Nil
  have "map (fill []) cs = cs" by (induction cs) (simp_all add: fill_def)
  then show ?case by auto
next
  case (Cons b rows)
  note d = Cons.prems(2)
  have new: "b_account_id b \<notin> b_account_id ` set rows" and dr: "distinct (map b_account_id rows)"
    using Cons.prems(1) by auto
  have step: "lockRows (changesByID cs) rows (n + 1) (cs[i := filled b (cs ! i)]) = Inr (m, cs') \<longleftrightarrow>
      (\<forall>b \<in> set rows. \<exists>c \<in> set cs. ac_accountID c = b_account_id b \<and> accepts b c) \<and>
      m = n + length (b # rows) \<and> cs' = map (fill (b # rows)) cs"
    if i: "i < length cs" "ac_accountID (cs ! i) = b_account_id b" for i
  proof -
    let ?cs = "cs[i := filled b (cs ! i)]"
    have ids: "map ac_accountID ?cs = map ac_accountID cs"
      using i(1) by (simp add: map_update) (metis length_map list_update_id nth_map)
    have same: "(\<exists>c \<in> set ?cs. ac_accountID c = b_account_id b' \<and> accepts b' c) \<longleftrightarrow>
        (\<exists>c \<in> set cs. ac_accountID c = b_account_id b' \<and> accepts b' c)" if "b' \<in> set rows" for b'
    proof -
      have ne: "b_account_id b' \<noteq> b_account_id b" using new that by (metis image_eqI)
      have "c \<in> set ?cs \<and> ac_accountID c = b_account_id b' \<longleftrightarrow>
          c \<in> set cs \<and> ac_accountID c = b_account_id b'" for c
        using i ne by (auto simp: set_conv_nth nth_list_update split: if_splits) metis+
      then show ?thesis by blast
    qed
    have "lockRows (changesByID ?cs) rows (n + 1) ?cs = Inr (m, cs') \<longleftrightarrow>
      (\<forall>b \<in> set rows. \<exists>c \<in> set ?cs. ac_accountID c = b_account_id b \<and> accepts b c) \<and>
      m = n + 1 + length rows \<and> cs' = map (fill rows) ?cs"
      using Cons.IH [OF dr, of ?cs "n + 1"] d ids by simp
    then show ?thesis
      using same map_fill_update [OF d i(1) i(2) [symmetric] new] changesByID_cong [OF ids] by simp
  qed
  have "lockRows (changesByID cs) (b # rows) n cs = Inr (m, cs') \<longleftrightarrow>
    (\<exists>i < length cs. ac_accountID (cs ! i) = b_account_id b \<and> accepts b (cs ! i) \<and>
      (\<forall>b \<in> set rows. \<exists>c \<in> set cs. ac_accountID c = b_account_id b \<and> accepts b c) \<and>
      m = n + length (b # rows) \<and> cs' = map (fill (b # rows)) cs)"
    unfolding lockRows_Cons_Inr changesByID_Some [OF d] using step by blast
  then show ?case by (auto simp: set_conv_nth [of cs])
qed

lemma distinct_card_image: "distinct (map f xs) \<Longrightarrow> card (f ` set xs) = length xs"
  by (metis distinct_card length_map set_map)

lemma lockBalancesQuery_rows:
  assumes "distinct (map b_account_id (account_balances db))"
  shows "distinct (map b_account_id (lockBalancesQuery ids db))"
    and "set (lockBalancesQuery ids db) = {b \<in> set (account_balances db). b_account_id b \<in> set ids}"
    and "a \<in> set ids \<Longrightarrow> row_of (lockBalancesQuery ids db) a = row_of (account_balances db) a"
proof -
  show d: "distinct (map b_account_id (lockBalancesQuery ids db))"
    using assms by (auto simp: lockBalancesQuery_def distinct_map inj_on_def)
  show s: "set (lockBalancesQuery ids db) = {b \<in> set (account_balances db). b_account_id b \<in> set ids}"
    by (auto simp: lockBalancesQuery_def)
  show "row_of (lockBalancesQuery ids db) a = row_of (account_balances db) a" if "a \<in> set ids"
  proof (cases "row_of (account_balances db) a")
    case None
    then have "row_of (lockBalancesQuery ids db) a = None"
      by (auto simp: row_of_None s)
    with None show ?thesis by simp
  next
    case (Some b)
    then have "b \<in> set (account_balances db) \<and> b_account_id b = a" by (rule row_of_SomeD)
    with that have "row_of (lockBalancesQuery ids db) a = Some b"
      by (simp add: row_of_Some [OF d] s)
    with Some show ?thesis by simp
  qed
qed

lemma lockAndCalculateBalances_Inr:
  assumes "distinct (map b_account_id (account_balances db))" "distinct (map ac_accountID cs)"
  shows "lockAndCalculateBalances cs db = (Inr cs', db') \<longleftrightarrow>
    db' = db \<and> cs' = map (fill (account_balances db)) cs \<and>
    (\<forall>c \<in> set cs. \<exists>b. row_of (account_balances db) (ac_accountID c) = Some b \<and> accepts b c)"
proof -
  let ?ids = "map ac_accountID cs" and ?rows = "lockBalancesQuery (map ac_accountID cs) db"
  note rows = lockBalancesQuery_rows [OF assms(1)]
  have fill: "map (fill ?rows) cs = map (fill (account_balances db)) cs"
    by (auto simp: fill_def rows(3))
  have "(\<forall>b \<in> set ?rows. \<exists>c \<in> set cs. ac_accountID c = b_account_id b \<and> accepts b c) \<and>
        length ?rows = length cs \<longleftrightarrow>
      (\<forall>c \<in> set cs. \<exists>b. row_of (account_balances db) (ac_accountID c) = Some b \<and> accepts b c)"
    (is "?A \<and> ?L \<longleftrightarrow> ?B")
  proof
    assume *: "?A \<and> ?L"
    then have "b_account_id ` set ?rows \<subseteq> ac_accountID ` set cs" by force
    moreover have "card (b_account_id ` set ?rows) = card (ac_accountID ` set cs)"
      using * distinct_card_image [OF rows(1)] distinct_card_image [OF assms(2)] by simp
    ultimately have eq: "b_account_id ` set ?rows = ac_accountID ` set cs"
      by (simp add: card_subset_eq)
    show ?B
    proof
      fix c assume c: "c \<in> set cs"
      with eq obtain b where b: "b \<in> set ?rows" "b_account_id b = ac_accountID c"
        by (metis image_iff)
      with * obtain d where "d \<in> set cs" "ac_accountID d = ac_accountID c" "accepts b d" by force
      with assms(2) c have "accepts b c" by (metis distinct_map inj_onD)
      with b show "\<exists>b. row_of (account_balances db) (ac_accountID c) = Some b \<and> accepts b c"
        using rows(2) by (auto simp: row_of_Some [OF assms(1)])
    qed
  next
    assume B: ?B
    then have "ac_accountID ` set cs = b_account_id ` set ?rows"
      by (force simp: rows(2) row_of_Some [OF assms(1)])
    then have ?L
      using distinct_card_image [OF rows(1)] distinct_card_image [OF assms(2)] by metis
    moreover have ?A
    proof
      fix b assume "b \<in> set ?rows"
      then obtain c where c: "c \<in> set cs" "ac_accountID c = b_account_id b"
        "b \<in> set (account_balances db)" by (auto simp: rows(2))
      then have "row_of (account_balances db) (ac_accountID c) = Some b"
        by (simp add: row_of_Some [OF assms(1)])
      with B c show "\<exists>c \<in> set cs. ac_accountID c = b_account_id b \<and> accepts b c" by force
    qed
    ultimately show "?A \<and> ?L" by blast
  qed
  then show ?thesis
    by (auto simp: lockAndCalculateBalances_def result_simps lockRows_Inr [OF rows(1) assms(2)]
        fill split: if_splits)
qed

lemma lockAndCalculateBalances_state: "lockAndCalculateBalances cs db = (r, db') \<Longrightarrow> db' = db"
  by (simp add: lockAndCalculateBalances_def result_simps)

section \<open>Settled balances\<close>

definition change_for :: "accountChange list \<Rightarrow> uuid \<Rightarrow> accountChange option" where
  "change_for cs a = find (\<lambda>c. ac_accountID c = a) cs"

lemma change_for_simps [simp]:
  "change_for [] a = None"
  "change_for (c # cs) a = (if ac_accountID c = a then Some c else change_for cs a)"
  by (simp_all add: change_for_def)

lemma change_for_None: "change_for cs a = None \<longleftrightarrow> a \<notin> ac_accountID ` set cs"
  by (induction cs) auto

lemma change_for_SomeD: "change_for cs a = Some c \<Longrightarrow> c \<in> set cs \<and> ac_accountID c = a"
  by (induction cs) (auto split: if_splits)

definition written :: "gotime \<Rightarrow> accountChange \<Rightarrow> balance_row \<Rightarrow> balance_row" where
  "written t c b = b\<lparr>b_balance_minor := ac_newBalance c, b_version := ac_newVersion c, b_updated_at := t\<rparr>"

lemma written_id [simp]: "b_account_id (written t c b) = b_account_id b"
  by (simp add: written_def)

definition write_all :: "gotime \<Rightarrow> accountChange list \<Rightarrow> balance_row \<Rightarrow> balance_row" where
  "write_all t cs b =
     (case change_for cs (b_account_id b) of None \<Rightarrow> b | Some c \<Rightarrow> written t c b)"

lemma write_all_id [simp]: "b_account_id (write_all t cs b) = b_account_id b"
  by (simp add: write_all_def split: option.splits)

lemma one_row:
  assumes "distinct (map b_account_id bs)"
  shows "length (filter (\<lambda>b. b_account_id b = a) bs) = 1 \<longleftrightarrow> a \<in> b_account_id ` set bs"
proof -
  have "distinct (filter (\<lambda>b. b_account_id b = a) bs)"
    using assms by (simp add: distinct_map)
  then have "length (filter (\<lambda>b. b_account_id b = a) bs) = card {b \<in> set bs. b_account_id b = a}"
    by (metis distinct_card set_filter)
  moreover have "{b \<in> set bs. b_account_id b = a} = {b}" if "b \<in> set bs" "b_account_id b = a" for b
    using assms that by (auto simp: distinct_map inj_on_def)
  ultimately have "length (filter (\<lambda>b. b_account_id b = a) bs) = 1" if "a \<in> b_account_id ` set bs"
    using that by auto
  moreover have "a \<in> b_account_id ` set bs" if "length (filter (\<lambda>b. b_account_id b = a) bs) = 1"
    using that by (metis (mono_tags, lifting) filter_False image_eqI length_0_conv zero_neq_one)
  ultimately show ?thesis by blast
qed

lemma row_of_map: "(\<And>b. b_account_id (f b) = b_account_id b) \<Longrightarrow> row_of (map f bs) a = map_option f (row_of bs a)"
  by (induction bs) simp_all

lemma the_row:
  assumes "distinct (map b_account_id bs)"
  shows "(\<forall>b \<in> set bs. b_account_id b = a \<longrightarrow> P b) \<and> a \<in> b_account_id ` set bs \<longleftrightarrow>
    (\<exists>b. row_of bs a = Some b \<and> P b)"
proof -
  have "(\<forall>b \<in> set bs. b_account_id b = a \<longrightarrow> P b) \<longleftrightarrow> (\<forall>b. row_of bs a = Some b \<longrightarrow> P b)"
    by (simp add: row_of_Some [OF assms] imp_conjL Ball_def)
  moreover have "a \<in> b_account_id ` set bs \<longleftrightarrow> row_of bs a \<noteq> None"
    by (simp add: row_of_None)
  ultimately show ?thesis by (cases "row_of bs a") simp_all
qed

lemma update_balance_row_written:
  assumes "distinct (map b_account_id (account_balances db))"
  shows "update_balance_row (ac_accountID c) (ac_newBalance c) (ac_newVersion c) db = (Inr 1, db') \<longleftrightarrow>
    (\<exists>b. row_of (account_balances db) (ac_accountID c) = Some b \<and>
       list_all snd (balance_checks (written (clock db) c b))) \<and>
    db' = db\<lparr>account_balances := map (write_all (clock db) [c]) (account_balances db)\<rparr>"
proof -
  have w: "write_all (clock db) [c] =
      (\<lambda>b. if b_account_id b = ac_accountID c then written (clock db) c b else b)"
    by (auto simp: write_all_def)
  have "1 = length (filter (\<lambda>b. b_account_id b = ac_accountID c) (account_balances db)) \<longleftrightarrow>
      ac_accountID c \<in> b_account_id ` set (account_balances db)"
    using one_row [OF assms] by metis
  then show ?thesis
    unfolding update_balance_row_Inr w the_row [OF assms, symmetric] written_def [symmetric]
    by (simp only: conj_assoc)
qed

lemma updateBalances_Inr:
  assumes "distinct (map b_account_id (account_balances db))" "distinct (map ac_accountID cs)"
  shows "updateBalances cs db = (Inr u, db') \<longleftrightarrow>
    (\<forall>c \<in> set cs. \<exists>b. row_of (account_balances db) (ac_accountID c) = Some b \<and>
       list_all snd (balance_checks (written (clock db) c b))) \<and>
    db' = db\<lparr>account_balances := map (write_all (clock db) cs) (account_balances db)\<rparr>"
  using assms
proof (induction cs arbitrary: db)
  case Nil
  have "map (write_all (clock db) []) (account_balances db) = account_balances db"
    by (induction "account_balances db") (simp_all add: write_all_def)
  then show ?case by (auto simp: result_simps)
next
  case (Cons c cs)
  let ?t = "clock db" and ?bs = "account_balances db"
  let ?db = "db\<lparr>account_balances := map (write_all ?t [c]) ?bs\<rparr>"
  have new: "ac_accountID c \<notin> ac_accountID ` set cs" and d: "distinct (map ac_accountID cs)"
    using Cons.prems(2) by auto
  have ids: "map b_account_id (account_balances ?db) = map b_account_id ?bs" by simp
  have "write_all ?t cs (write_all ?t [c] b) = write_all ?t (c # cs) b" for b
  proof (cases "ac_accountID c = b_account_id b")
    case True
    with new have "change_for cs (b_account_id b) = None" by (simp add: change_for_None)
    with True show ?thesis by (simp add: write_all_def)
  qed (simp add: write_all_def)
  then have "map (write_all ?t cs) (map (write_all ?t [c]) ?bs) = map (write_all ?t (c # cs)) ?bs"
    by simp
  moreover have "row_of (map (write_all ?t [c]) ?bs) (ac_accountID c') = row_of ?bs (ac_accountID c')"
    if "c' \<in> set cs" for c'
  proof -
    have "ac_accountID c \<noteq> ac_accountID c'" using new that by (metis image_eqI)
    then show ?thesis
      by (cases "row_of ?bs (ac_accountID c')")
        (auto simp: row_of_map write_all_def dest: row_of_SomeD)
  qed
  ultimately have rest: "updateBalances cs ?db = (Inr u, db') \<longleftrightarrow>
    (\<forall>c \<in> set cs. \<exists>b. row_of ?bs (ac_accountID c) = Some b \<and>
       list_all snd (balance_checks (written ?t c b))) \<and>
    db' = db\<lparr>account_balances := map (write_all ?t (c # cs)) ?bs\<rparr>"
    using Cons.IH [of ?db] Cons.prems(1) d ids by (simp del: map_map map_eq_conv)
  have "updateBalances (c # cs) db = (Inr u, db') \<longleftrightarrow>
    (\<exists>db1. update_balance_row (ac_accountID c) (ac_newBalance c) (ac_newVersion c) db = (Inr 1, db1) \<and>
       updateBalances cs db1 = (Inr u, db'))"
    by (auto simp: result_simps split: if_splits)
  then show ?case
    unfolding update_balance_row_written [OF Cons.prems(1)] using rest by auto
qed

definition settled :: "gotime \<Rightarrow> accountChange list \<Rightarrow> balance_row \<Rightarrow> balance_row" where
  "settled t cs b =
     (case change_for cs (b_account_id b) of
        None \<Rightarrow> b
      | Some c \<Rightarrow> b\<lparr>b_balance_minor := b_balance_minor b + ac_delta c, b_version := b_version b + 1,
                   b_updated_at := t\<rparr>)"

lemma settled_sels [simp]:
  "b_account_id (settled t cs b) = b_account_id b" "b_currency (settled t cs b) = b_currency b"
  "b_account_type (settled t cs b) = b_account_type b"
  by (simp_all add: settled_def split: option.splits)

lemma change_for_map_fill: "change_for (map (fill bs) cs) a = map_option (fill bs) (change_for cs a)"
  by (induction cs) simp_all

lemma write_all_filled:
  assumes "distinct (map b_account_id bs)" "b \<in> set bs"
  shows "write_all t (map (fill bs) cs) b = settled t cs b"
proof -
  have "row_of bs (b_account_id b) = Some b" using assms by (simp add: row_of_Some)
  then show ?thesis
    by (auto simp: write_all_def settled_def change_for_map_fill fill_def written_def filled_def
        split: option.splits dest!: change_for_SomeD)
qed

lemma balance_checks_settled:
  assumes "list_all snd (balance_checks b)" "accepts b c"
  shows "list_all snd (balance_checks (written t (filled b c) b))"
  using assms
  by (auto simp: balance_checks_def accepts_def written_def filled_def sint_add_exact sint_Suc_exact
      sql_account_type_def)

definition affordable :: "database \<Rightarrow> accountChange list \<Rightarrow> bool" where
  "affordable db cs \<longleftrightarrow>
     list_all (\<lambda>c. case row_of (account_balances db) (ac_accountID c) of
        None \<Rightarrow> False | Some b \<Rightarrow> accepts b c) cs"

lemma affordable_iff:
  "affordable db cs \<longleftrightarrow>
     (\<forall>c \<in> set cs. \<exists>b. row_of (account_balances db) (ac_accountID c) = Some b \<and> accepts b c)"
  by (auto simp: affordable_def list_all_iff split: option.splits)

text \<open>Locking and then writing the calculated balances succeeds exactly when every account can settle.\<close>

lemma updateBalances_filled:
  assumes "balances_ok db" "distinct (map ac_accountID cs)" "affordable db cs"
    and "account_balances db1 = account_balances db" "clock db1 = clock db"
  shows "updateBalances (map (fill (account_balances db)) cs) db1 =
    (Inr (), db1\<lparr>account_balances := map (settled (clock db) cs) (account_balances db)\<rparr>)"
proof -
  let ?bs = "account_balances db"
  have d: "distinct (map b_account_id ?bs)" using assms(1) by (simp add: balances_ok_def)
  have "distinct (map ac_accountID (map (fill ?bs) cs))" using assms(2) by (simp add: o_def)
  moreover have "\<exists>b. row_of ?bs (ac_accountID c) = Some b \<and>
      list_all snd (balance_checks (written (clock db) c b))" if "c \<in> set (map (fill ?bs) cs)" for c
  proof -
    from that obtain c0 where c: "c = fill ?bs c0" "c0 \<in> set cs" by auto
    with assms(3) obtain b where b: "row_of ?bs (ac_accountID c0) = Some b" "accepts b c0"
      by (auto simp: affordable_iff)
    then have "b \<in> set ?bs" by (simp add: row_of_SomeD)
    with assms(1) b c show ?thesis
      by (auto simp: balances_ok_def fill_def intro: balance_checks_settled)
  qed
  moreover have "map (write_all (clock db) (map (fill ?bs) cs)) ?bs = map (settled (clock db) cs) ?bs"
    using write_all_filled [OF d] by simp
  ultimately show ?thesis
    using updateBalances_Inr [of db1 "map (fill ?bs) cs" "()"] assms(4,5) d by simp
qed

section \<open>Inserted rows\<close>

definition posting_fits :: "database \<Rightarrow> posting_row \<Rightarrow> bool" where
  "posting_fits db r \<longleftrightarrow>
     r_amount_minor r \<noteq> 0 \<and> r_amount_minor r \<noteq> MinInt64 \<and> sql_currency (r_currency r) \<and>
     r_position r \<le> 1023 \<and>
     (r_account_id r, r_currency r) \<in> (\<lambda>a. (a_id a, a_currency a)) ` set (accounts db) \<and>
     r_journal_entry_id r \<in> e_id ` set (journal_entries db)"

lemma insert_posting_row_Inr:
  "insert_posting_row r db = (Inr u, db') \<longleftrightarrow>
     posting_fits db r \<and> posting_key r \<notin> posting_key ` set (postings db) \<and>
     db' = db\<lparr>postings := postings db @ [r]\<rparr>"
  by (auto simp: insert_posting_row_def result_simps posting_fits_def)

lemma posting_fits_postings [simp]: "posting_fits (db\<lparr>postings := rs\<rparr>) = posting_fits db"
  by (simp add: fun_eq_iff posting_fits_def)

lemma insert_postings_Inr:
  "tx_each insert_posting_row rs db = (Inr (), db') \<longleftrightarrow>
     list_all (posting_fits db) rs \<and> distinct (map posting_key rs) \<and>
     posting_key ` set rs \<inter> posting_key ` set (postings db) = {} \<and>
     db' = db\<lparr>postings := postings db @ rs\<rparr>"
proof (induction rs arbitrary: db)
  case (Cons r rs)
  show ?case
    by (auto simp: result_simps insert_posting_row_Inr Cons.IH)
qed (auto simp: result_simps)

lemma posting_rows_key: "map posting_key (posting_rows i qs) = map (Pair i) [0..<length qs]"
  by (auto simp: posting_rows_def posting_key_def enumerate_eq_zip intro!: nth_equalityI)

lemma posting_rows_distinct: "distinct (map posting_key (posting_rows i qs))"
  by (simp add: posting_rows_key distinct_map inj_on_def)

section \<open>What a prepared entry promises\<close>

definition prepared_total :: "currency \<Rightarrow> preparedPosting list \<Rightarrow> int" where
  "prepared_total c qs = (\<Sum>q \<leftarrow> qs. if q_currency q = c then sint (q_amount q) else 0)"

lemma prepared_total_simps [simp]:
  "prepared_total c [] = 0"
  "prepared_total c (q # qs) = (if q_currency q = c then sint (q_amount q) else 0) + prepared_total c qs"
  by (simp_all add: prepared_total_def)

definition prepared_ok :: "preparedEntry \<Rightarrow> bool" where
  "prepared_ok p \<longleftrightarrow>
     changes_of (pe_postings p) (pe_changes p) \<and>
     2 \<le> length (pe_postings p) \<and> length (pe_postings p) \<le> 1024 \<and>
     (\<forall>q \<in> set (pe_postings p). isCanonicalUUID (q_accountID q) \<and> currency_valid (q_currency q) \<and>
        q_amount q \<noteq> 0 \<and> q_amount q \<noteq> MinInt64) \<and>
     (\<forall>c. prepared_total c (pe_postings p) = 0) \<and>
     isCanonicalUUID (pe_id p) \<and> \<not> IsZero (je_recordedAt (pe_entry p)) \<and>
     (je_entryType (pe_entry p) = JournalEntryTypeStandard \<and> pe_reversesID p = None \<or>
      je_entryType (pe_entry p) = JournalEntryTypeReversal \<and>
        (\<exists>src. pe_reversesID p = Some src \<and> src \<noteq> pe_id p))"

lemma prepareReversesID_Inr:
  "prepareReversesID scan e i = Inr r \<longleftrightarrow>
     je_entryType e = JournalEntryTypeStandard \<and> je_reversesEntryID e = [] \<and> r = None \<or>
     je_entryType e = JournalEntryTypeReversal \<and>
       (\<exists>src. scan (je_reversesEntryID e) = Some src \<and> src \<noteq> i \<and> r = Some src)"
  by (cases "je_entryType e") (auto simp: prepareReversesID_def result_simps)

context uuid_scanner
begin

lemma prepareEntry_Inr:
  assumes "prepareEntry scan e = Inr p"
  shows "pe_entry p = e" "scan (je_id e) = Some (pe_id p)"
    and "prepareReversesID scan e (pe_id p) = Inr (pe_reversesID p)"
    and "preparePostings scan (je_postings e) = Inr (pe_postings p, pe_changes p)"
    and "entry_ok (e\<lparr>je_id := TrimSpace (je_id e), je_entryType := JournalEntryTypeStandard,
           je_reversesEntryID := []\<rparr>)"
  using assms
  by (auto simp: prepareEntry_def result_simps NewJournalEntry_def newJournalEntry_Inr)
    (simp add: entry_ok_def)

lemma prepared_total_currency_total:
  "list_all2 (\<lambda>p q. scan (p_accountID p) = Some (q_accountID q) \<and>
     q = prepared_posting (q_accountID q) (p_amount p)) ps qs \<Longrightarrow>
   prepared_total c qs = currency_total c ps"
proof (induction rule: list_all2_induct)
  case (Cons p ps q qs)
  then have "q_currency q = currency (p_amount p)" "q_amount q = minorUnits (p_amount p)"
    by (metis prepared_posting_sels)+
  with Cons show ?case by simp
qed simp

lemma prepared_posting_ok:
  "list_all2 (\<lambda>p q. scan (p_accountID p) = Some (q_accountID q) \<and>
     q = prepared_posting (q_accountID q) (p_amount p)) ps qs \<Longrightarrow>
   list_all (\<lambda>p. posting_validate p = None) ps \<Longrightarrow> q \<in> set qs \<Longrightarrow>
   isCanonicalUUID (q_accountID q) \<and> currency_valid (q_currency q) \<and>
        q_amount q \<noteq> 0 \<and> q_amount q \<noteq> MinInt64"
proof (induction rule: list_all2_induct)
  case (Cons p ps q' qs)
  then have "q_currency q' = currency (p_amount p)" "q_amount q' = minorUnits (p_amount p)"
    by (metis prepared_posting_sels)+
  with Cons show ?case by (auto simp: posting_validate_None intro: scan_prints_canonical)
qed simp

lemma prepareEntry_ok:
  assumes "prepareEntry scan e = Inr p"
  shows "prepared_ok p"
proof -
  note p = prepareEntry_Inr [OF assms]
  note ps = preparePostings_Inr [OF p(4)]
  have "prepared_total c (pe_postings p) = 0" for c
    using prepared_total_currency_total [OF ps(1)] p(5) by (simp add: entry_ok_def balanced_def)
  moreover have "length (pe_postings p) = length (je_postings e)"
    using list_all2_lengthD [OF ps(1)] by simp
  ultimately show ?thesis
    using p ps(2) prepared_posting_ok [OF ps(1)]
    by (auto simp: prepared_ok_def entry_ok_def prepareReversesID_Inr IsZero_def
        intro: scan_prints_canonical)
qed

end

section \<open>The effect of posting\<close>

definition entry_row_of :: "(gotime \<Rightarrow> gotime) \<Rightarrow> preparedEntry \<Rightarrow> entry_row" where
  "entry_row_of store p =
     \<lparr>e_id = pe_id p,
      e_entry_type = (case pe_reversesID p of None \<Rightarrow> ''standard'' | Some _ \<Rightarrow> ''reversal''),
      e_reverses_entry_id = pe_reversesID p,
      e_recorded_at = store (je_recordedAt (pe_entry p))\<rparr>"

definition posted_db :: "(gotime \<Rightarrow> gotime) \<Rightarrow> preparedEntry \<Rightarrow> database \<Rightarrow> database" where
  "posted_db store p db =
     db\<lparr>account_balances := map (settled (clock db) (pe_changes p)) (account_balances db),
        journal_entries := journal_entries db @ [entry_row_of store p],
        postings := postings db @ posting_rows (pe_id p) (pe_postings p)\<rparr>"

definition postable :: "database \<Rightarrow> preparedEntry \<Rightarrow> bool" where
  "postable db p \<longleftrightarrow>
     (case pe_reversesID p of None \<Rightarrow> True
      | Some src \<Rightarrow> fst (validatePersistedReversal src p db) = Inr ()) \<and>
     affordable db (pe_changes p) \<and> pe_id p \<notin> e_id ` set (journal_entries db)"

lemma insertEntry_eq:
  assumes "prepared_ok p"
  shows "insertEntry store p = insert_entry_row (entry_row_of store p)"
  using assms by (auto simp: prepared_ok_def insertEntry_def entry_row_of_def)

lemma insert_entry_row_of:
  assumes "prepared_ok p"
    and "\<And>src. pe_reversesID p = Some src \<Longrightarrow> src \<in> e_id ` set (journal_entries db) \<and>
      Some src \<notin> e_reverses_entry_id ` set (journal_entries db)"
  shows "insertEntry store p db = (Inr (), db') \<longleftrightarrow>
    pe_id p \<notin> e_id ` set (journal_entries db) \<and>
    db' = db\<lparr>journal_entries := journal_entries db @ [entry_row_of store p]\<rparr>"
  using assms
  unfolding insertEntry_eq [OF assms(1)] insert_entry_row_def
  by (cases "pe_reversesID p") (auto simp: result_simps entry_row_of_def prepared_ok_def)

lemma sql_currency_String: "currency_valid c \<Longrightarrow> sql_currency (currency_String c)"
  by (cases c) (simp add: sql_currency_def)

lemma validatePersistedReversal_Inr:
  "validatePersistedReversal src p db = (Inr (), db') \<longleftrightarrow>
     db' = db \<and> (\<exists>r. selectEntry src db = Inr r) \<and>
     Some src \<notin> e_reverses_entry_id ` set (journal_entries db) \<and>
     (\<exists>ps. selectPostings src db = Inr ps \<and> length ps = length (pe_postings p) \<and>
       \<not> differs ps (pe_postings p))"
  by (auto simp: validatePersistedReversal_def result_simps list_ex_iff image_iff eq_commute [of "Some src"]
      split: if_splits)

lemma selectEntry_Inr:
  "selectEntry i db = Inr r \<Longrightarrow> i \<in> e_id ` set (journal_entries db)"
  by (auto simp: selectEntry_def find_Some_iff split: option.splits)

lemma validatePersistedReversal_state: "validatePersistedReversal src p db = (r, db') \<Longrightarrow> db' = db"
  by (simp add: validatePersistedReversal_def result_simps)

lemma change_exists:
  assumes "changes_of qs cs" "q \<in> set qs"
  obtains c where "c \<in> set cs" "ac_accountID c = q_accountID q" "q_currency q = ac_currency c"
proof -
  have "q_accountID q \<in> ac_accountID ` set cs" using assms by (simp add: changes_of_def)
  then obtain c where "c \<in> set cs" "ac_accountID c = q_accountID q" by (metis imageE)
  with assms that show thesis by (metis changes_of_def)
qed

lemma prepared_rows_fit:
  assumes "prepared_ok p" "schema_ok db" "affordable db (pe_changes p)"
    and "accounts db1 = accounts db" "pe_id p \<in> e_id ` set (journal_entries db1)"
  shows "list_all (posting_fits db1) (posting_rows (pe_id p) (pe_postings p))"
proof -
  have "posting_fits db1 \<lparr>r_journal_entry_id = pe_id p, r_position = i, r_account_id = q_accountID q,
      r_currency = currency_String (q_currency q), r_amount_minor = q_amount q\<rparr>"
    if q: "q \<in> set (pe_postings p)" and i: "i < length (pe_postings p)" for i q
  proof -
    have "changes_of (pe_postings p) (pe_changes p)" using assms(1) by (simp add: prepared_ok_def)
    then obtain c where c: "c \<in> set (pe_changes p)" "ac_accountID c = q_accountID q"
      "q_currency q = ac_currency c" using q by (rule change_exists)
    with assms(3) obtain b where b: "row_of (account_balances db) (q_accountID q) = Some b"
      "b_currency b = currency_String (q_currency q)" by (auto simp: affordable_iff accepts_def)
    then have "b \<in> set (account_balances db)" "b_account_id b = q_accountID q"
      by (simp_all add: row_of_SomeD)
    with assms(2) b have "(q_accountID q, currency_String (q_currency q))
        \<in> (\<lambda>a. (a_id a, a_currency a)) ` set (accounts db)"
      by (force simp: schema_ok_def balances_ok_def account_key_def)
    with assms(1,4,5) q i show ?thesis
      by (auto simp: posting_fits_def prepared_ok_def sql_currency_String)
  qed
  then show ?thesis
    by (auto simp: posting_rows_def list_all_iff enumerate_eq_zip set_zip)
qed

lemma insertPostings_Inr:
  assumes "prepared_ok p" "schema_ok db" "affordable db (pe_changes p)"
    and "pe_id p \<notin> e_id ` set (journal_entries db)"
  shows "insertPostings p (db\<lparr>journal_entries := journal_entries db @ [entry_row_of store p]\<rparr>) =
    (Inr (), db\<lparr>journal_entries := journal_entries db @ [entry_row_of store p],
       postings := postings db @ posting_rows (pe_id p) (pe_postings p)\<rparr>)"
proof -
  let ?db = "db\<lparr>journal_entries := journal_entries db @ [entry_row_of store p]\<rparr>"
  have "list_all (posting_fits ?db) (posting_rows (pe_id p) (pe_postings p))"
    using assms by (intro prepared_rows_fit [of p db]) (auto simp: entry_row_of_def)
  moreover have "fst ` posting_key ` set (posting_rows (pe_id p) (pe_postings p)) \<subseteq> {pe_id p}"
    using posting_rows_key [of "pe_id p" "pe_postings p"] by (auto simp: posting_rows_def posting_key_def)
  then have "posting_key ` set (posting_rows (pe_id p) (pe_postings p)) \<inter>
      posting_key ` set (postings db) = {}"
    using assms(2,4) by (force simp: schema_ok_def postings_ok_def posting_key_def)
  ultimately have "tx_each insert_posting_row (posting_rows (pe_id p) (pe_postings p)) ?db =
      (Inr (), ?db\<lparr>postings := postings ?db @ posting_rows (pe_id p) (pe_postings p)\<rparr>)"
    using posting_rows_distinct by (subst insert_postings_Inr) simp
  then show ?thesis by (simp add: insertPostings_def)
qed

lemma postPrepared_Inr:
  assumes "prepared_ok p" "schema_ok db"
  shows "postPrepared store p db = (Inr (), db') \<longleftrightarrow> postable db p \<and> db' = posted_db store p db"
proof -
  let ?rev = "case pe_reversesID p of None \<Rightarrow> tx_return ()
    | Some src \<Rightarrow> validatePersistedReversal src p"
  let ?cs = "map (fill (account_balances db)) (pe_changes p)"
  let ?db1 = "db\<lparr>journal_entries := journal_entries db @ [entry_row_of store p]\<rparr>"
  have d: "distinct (map b_account_id (account_balances db))" "distinct (map ac_accountID (pe_changes p))"
    using assms by (auto simp: schema_defs prepared_ok_def changes_of_def)
  have rev: "?rev db = (r, db1) \<Longrightarrow> db1 = db" for r db1
    by (auto simp: result_simps validatePersistedReversal_state split: option.splits)
  have src: "src \<in> e_id ` set (journal_entries db) \<and>
      Some src \<notin> e_reverses_entry_id ` set (journal_entries db)"
    if "?rev db = (Inr (), db)" "pe_reversesID p = Some src" for src
    using that by (auto simp: validatePersistedReversal_Inr dest: selectEntry_Inr)
  have ins: "insertEntry store p db = (Inr (), db1) \<longleftrightarrow>
      pe_id p \<notin> e_id ` set (journal_entries db) \<and> db1 = ?db1" if "?rev db = (Inr (), db)" for db1
    using insert_entry_row_of [OF assms(1) src [OF that]] .
  have "postPrepared store p db = (Inr (), db') \<longleftrightarrow>
      ?rev db = (Inr (), db) \<and> affordable db (pe_changes p) \<and>
      (\<exists>db1. insertEntry store p db = (Inr (), db1) \<and>
        (\<exists>db2. insertPostings p db1 = (Inr (), db2) \<and> updateBalances ?cs db2 = (Inr (), db')))"
    using rev by (auto simp: postPrepared_def result_simps lockAndCalculateBalances_Inr [OF d]
        affordable_iff)
  also have "\<dots> \<longleftrightarrow> ?rev db = (Inr (), db) \<and> affordable db (pe_changes p) \<and>
      pe_id p \<notin> e_id ` set (journal_entries db) \<and>
      (\<exists>db2. insertPostings p ?db1 = (Inr (), db2) \<and> updateBalances ?cs db2 = (Inr (), db'))"
    by (rule conj_cong [OF refl]) (auto simp: ins)
  also have "\<dots> \<longleftrightarrow> ?rev db = (Inr (), db) \<and> affordable db (pe_changes p) \<and>
      pe_id p \<notin> e_id ` set (journal_entries db) \<and> db' = posted_db store p db"
    using insertPostings_Inr [OF assms] updateBalances_filled [of db "pe_changes p"] assms(2) d(2)
    by (auto simp: schema_ok_def posted_db_def)
  also have "?rev db = (Inr (), db) \<longleftrightarrow> (case pe_reversesID p of None \<Rightarrow> True
      | Some src \<Rightarrow> fst (validatePersistedReversal src p db) = Inr ())"
    by (cases "pe_reversesID p")
      (auto simp: tx_return_def prod_eq_iff validatePersistedReversal_state [OF surjective_pairing])
  finally show ?thesis by (auto simp: postable_def)
qed

section \<open>Invariants\<close>

lemma insertPostings_schema:
  "tx_each insert_posting_row rs db = (Inr u, db') \<Longrightarrow> schema_ok db \<Longrightarrow> schema_ok db'"
  by (induction rs arbitrary: db) (auto simp: result_simps dest: insert_posting_row_schema)

lemma updateBalances_schema:
  "updateBalances cs db = (Inr u, db') \<Longrightarrow> schema_ok db \<Longrightarrow> schema_ok db'"
  by (induction cs arbitrary: db)
    (auto simp: result_simps dest: update_balance_row_schema split: if_splits)

lemma postPrepared_schema:
  assumes "postPrepared store p db = (Inr u, db')" "schema_ok db"
  shows "schema_ok db'"
  using assms
  by (auto simp: postPrepared_def result_simps insertEntry_def insertPostings_def
      dest!: lockAndCalculateBalances_state validatePersistedReversal_state
      dest: updateBalances_schema insertPostings_schema insert_entry_row_schema
      split: option.splits)

text \<open>Every balance snapshot equals the sum of the postings of its account.\<close>

definition ledger_total :: "uuid \<Rightarrow> string \<Rightarrow> database \<Rightarrow> int" where
  "ledger_total account code db = posted_total (ledger_group account code db)"

definition snapshots_match :: "database \<Rightarrow> bool" where
  "snapshots_match db \<longleftrightarrow>
     (\<forall>b \<in> set (account_balances db).
        sint (b_balance_minor b) = ledger_total (b_account_id b) (b_currency b) db)"

lemma ledger_minor_text: "ledger_minor b db = int_text (ledger_total (b_account_id b) (b_currency b) db)"
proof -
  have "''0'' = int_text 0" by code_simp
  then show ?thesis
    by (simp add: ledger_minor_def ledger_total_def posted_total_def split: list.splits)
qed

lemma no_discrepancies: "selectBalanceDiscrepancies db = [] \<longleftrightarrow> snapshots_match db"
proof -
  have "sort_key f xs = [] \<longleftrightarrow> xs = []" for f :: "balance_row \<Rightarrow> string" and xs
    by (metis set_empty set_sort)
  then show ?thesis
    by (auto simp: selectBalanceDiscrepancies_def snapshots_match_def ledger_minor_text
        filter_empty_conv)
qed

lemma affordable_accepts:
  assumes "affordable db cs" "distinct (map b_account_id (account_balances db))"
    and "b \<in> set (account_balances db)" "c \<in> set cs" "ac_accountID c = b_account_id b"
  shows "accepts b c"
proof -
  have "row_of (account_balances db) (ac_accountID c) = Some b"
    using assms(2,3,5) by (simp add: row_of_Some)
  with assms(1,4) show ?thesis by (auto simp: affordable_iff)
qed

lemma settled_balance:
  assumes "prepared_ok p" "affordable db (pe_changes p)"
    and "distinct (map b_account_id (account_balances db))" "b \<in> set (account_balances db)"
  shows "sint (b_balance_minor (settled t (pe_changes p) b)) =
    sint (b_balance_minor b) + posted (b_account_id b) (pe_postings p)"
proof (cases "change_for (pe_changes p) (b_account_id b)")
  case None
  then have "b_account_id b \<notin> q_accountID ` set (pe_postings p)"
    using assms(1) by (simp add: change_for_None prepared_ok_def changes_of_def)
  with None show ?thesis by (simp add: settled_def posted_absent)
next
  case (Some c)
  then have c: "c \<in> set (pe_changes p)" "ac_accountID c = b_account_id b"
    by (simp_all add: change_for_SomeD)
  then have "accepts b c"
    using assms(2-4) by (intro affordable_accepts)
  moreover have "sint (ac_delta c) = posted (b_account_id b) (pe_postings p)"
    using assms(1) c by (simp add: prepared_ok_def changes_of_def)
  ultimately show ?thesis
    using Some by (simp add: settled_def accepts_def sint_add_exact)
qed

lemma posting_rows_Cons_total:
  "posted_total (filter (\<lambda>r. r_account_id r = a \<and> r_currency r = s) (map (\<lambda>(j, q).
     \<lparr>r_journal_entry_id = i, r_position = j, r_account_id = q_accountID q,
      r_currency = currency_String (q_currency q), r_amount_minor = q_amount q\<rparr>) (enumerate n qs))) =
   (\<Sum>q \<leftarrow> qs. if q_accountID q = a \<and> currency_String (q_currency q) = s then sint (q_amount q) else 0)"
  by (induction qs arbitrary: n) (simp_all add: posted_total_def)

lemma posting_rows_total:
  assumes "\<And>q. q \<in> set qs \<Longrightarrow> q_accountID q = a \<Longrightarrow> currency_String (q_currency q) = s"
  shows "posted_total (filter (\<lambda>r. r_account_id r = a \<and> r_currency r = s) (posting_rows i qs)) =
    posted a qs"
  unfolding posting_rows_def posting_rows_Cons_total posted_def
  using assms by (intro arg_cong [of _ _ sum_list] map_cong) auto

lemma balance_currency:
  assumes "prepared_ok p" "affordable db (pe_changes p)"
    and "distinct (map b_account_id (account_balances db))" "b \<in> set (account_balances db)"
    and "q \<in> set (pe_postings p)" "q_accountID q = b_account_id b"
  shows "currency_String (q_currency q) = b_currency b"
proof -
  have "changes_of (pe_postings p) (pe_changes p)" using assms(1) by (simp add: prepared_ok_def)
  then obtain c where c: "c \<in> set (pe_changes p)" "ac_accountID c = q_accountID q"
    "q_currency q = ac_currency c" using assms(5) by (rule change_exists)
  with assms(6) have "accepts b c" by (intro affordable_accepts [OF assms(2-4)]) simp_all
  with c(3) show ?thesis by (simp add: accepts_def)
qed

lemma posted_db_snapshots:
  assumes "prepared_ok p" "schema_ok db" "affordable db (pe_changes p)" "snapshots_match db"
  shows "snapshots_match (posted_db store p db)"
proof -
  have d: "distinct (map b_account_id (account_balances db))" using assms(2) by (simp add: schema_defs)
  have "ledger_total (b_account_id b) (b_currency b) (posted_db store p db) =
      ledger_total (b_account_id b) (b_currency b) db + posted (b_account_id b) (pe_postings p)"
    if "b \<in> set (account_balances db)" for b
    using posting_rows_total [of "pe_postings p" "b_account_id b" "b_currency b" "pe_id p"]
      balance_currency [OF assms(1,3) d that]
    by (simp add: ledger_total_def ledger_group_def posted_db_def posted_total_def)
  with assms(4) settled_balance [OF assms(1,3) d] show ?thesis
    by (auto simp: snapshots_match_def posted_db_def)
qed

text \<open>Posting moves money between accounts and creates none.\<close>

definition currency_supply :: "string \<Rightarrow> database \<Rightarrow> int" where
  "currency_supply code db =
     (\<Sum>b \<leftarrow> filter (\<lambda>b. b_currency b = code) (account_balances db). sint (b_balance_minor b))"


lemma sum_hits:
  assumes "distinct (map b_account_id bs)" "b \<in> set bs"
  shows "(\<Sum>b' \<leftarrow> filter P bs. if b_account_id b = b_account_id b' then x else 0) = (if P b then x else (0 :: int))"
  using assms
proof (induction bs)
  case (Cons b1 bs)
  have none: "(\<Sum>b' \<leftarrow> filter P bs. if a = b_account_id b' then x else 0) = 0"
    if "a \<notin> b_account_id ` set bs" for a
    using that by (induction bs) auto
  show ?case
  proof (cases "b = b1")
    case True
    with Cons.prems(1) none [of "b_account_id b1"] show ?thesis by simp
  next
    case False
    with Cons show ?thesis by (force simp: image_iff)
  qed
qed simp

lemma sum_posted:
  assumes "distinct (map b_account_id bs)"
    and "\<And>q. q \<in> set qs \<Longrightarrow> \<exists>b \<in> set bs. b_account_id b = q_accountID q \<and> b_currency b = currency_String (q_currency q)"
  shows "(\<Sum>b \<leftarrow> filter (\<lambda>b. b_currency b = code) bs. posted (b_account_id b) qs) =
    (\<Sum>q \<leftarrow> qs. if currency_String (q_currency q) = code then sint (q_amount q) else 0)"
  using assms(2)
proof (induction qs)
  case (Cons q qs)
  from Cons.prems obtain b where b: "b \<in> set bs" "b_account_id b = q_accountID q"
    "b_currency b = currency_String (q_currency q)" by auto
  show ?case
    using Cons sum_hits [OF assms(1) b(1), of "sint (q_amount q)" "\<lambda>b. b_currency b = code"] b(2,3)
    by (simp add: sum_list_addf)
qed simp

lemma prepared_total_code:
  assumes "\<forall>q \<in> set qs. currency_valid (q_currency q)" "\<forall>c. prepared_total c qs = 0"
  shows "(\<Sum>q \<leftarrow> qs. if currency_String (q_currency q) = code then sint (q_amount q) else 0) = 0"
proof (cases "\<exists>q \<in> set qs. currency_String (q_currency q) = code")
  case True
  then obtain c where c: "currency_valid c" "currency_String c = code" using assms(1) by auto
  then have "currency_String (q_currency q) = code \<longleftrightarrow> q_currency q = c"
    for q :: preparedPosting
    using currency_String_inject [OF c(1)] by metis
  then have "(\<lambda>q :: preparedPosting. if currency_String (q_currency q) = code then sint (q_amount q) else 0) =
      (\<lambda>q. if q_currency q = c then sint (q_amount q) else 0)" by (simp add: fun_eq_iff)
  with assms(2) show ?thesis by (simp add: prepared_total_def)
next
  case False
  then show ?thesis by (induction qs) auto
qed

lemma posted_db_supply:
  assumes "prepared_ok p" "schema_ok db" "affordable db (pe_changes p)"
  shows "currency_supply code (posted_db store p db) = currency_supply code db"
proof -
  let ?bs = "account_balances db" and ?cs = "pe_changes p" and ?qs = "pe_postings p"
  let ?F = "filter (\<lambda>b. b_currency b = code) ?bs"
  have d: "distinct (map b_account_id ?bs)" using assms(2) by (simp add: schema_defs)
  have rows: "\<exists>b \<in> set ?bs. b_account_id b = q_accountID q \<and> b_currency b = currency_String (q_currency q)"
    if "q \<in> set ?qs" for q
  proof -
    note q = that
    have "changes_of ?qs ?cs" using assms(1) by (simp add: prepared_ok_def)
    then obtain c where "c \<in> set ?cs" "ac_accountID c = q_accountID q"
      using q by (rule change_exists)
    with assms(3) obtain b where "b \<in> set ?bs" "b_account_id b = q_accountID q"
      by (metis affordable_iff row_of_SomeD)
    with balance_currency [OF assms(1,3) d _ q] show ?thesis by metis
  qed
  have "currency_supply code (posted_db store p db) =
      (\<Sum>b \<leftarrow> ?F. sint (b_balance_minor (settled (clock db) ?cs b)))"
    by (simp add: currency_supply_def posted_db_def filter_map o_def)
  also have "\<dots> = (\<Sum>b \<leftarrow> ?F. sint (b_balance_minor b) + posted (b_account_id b) ?qs)"
    using settled_balance [OF assms(1,3) d] by (intro arg_cong [of _ _ sum_list] map_cong) auto
  also have "\<dots> = currency_supply code db"
    using sum_posted [OF d rows] prepared_total_code [of ?qs code] assms(1)
    by (simp add: sum_list_addf currency_supply_def prepared_ok_def)
  finally show ?thesis .
qed

end
