(* ===== verification/Ledger_Failures.thy ===== *)
theory Ledger_Failures
  imports Ledger_Posting
begin

text \<open>
  The error paths of posting. A failed attempt inside a caller's transaction leaves that transaction
  unchanged; the retry loop of \<open>Post\<close> commits at most one attempt and absorbs transient failures; a
  missing amount of money and an entry that is already stored are reported as such.
\<close>

section \<open>Failures\<close>

text \<open>
  A failed \<open>postPrepared\<close> leaves the caller's transaction as it was: once the journal entry is
  inserted nothing can fail any more.
\<close>

lemma postPrepared_Inl:
  assumes "prepared_ok p" "schema_ok db" "postPrepared store p db = (Inl e, db')"
  shows "db' = db"
proof -
  let ?rev = "case pe_reversesID p of None \<Rightarrow> tx_return ()
    | Some src \<Rightarrow> validatePersistedReversal src p"
  have d: "distinct (map b_account_id (account_balances db))" "distinct (map ac_accountID (pe_changes p))"
    using assms by (auto simp: schema_defs prepared_ok_def changes_of_def)
  have rev: "?rev db = (r, db1) \<Longrightarrow> db1 = db" for r db1
    by (auto simp: result_simps validatePersistedReversal_state split: option.splits)
  consider "?rev db = (Inl e, db')"
    | "lockAndCalculateBalances (pe_changes p) db = (Inl e, db')"
    | "insertEntry store p db = (Inl e, db')"
    | cs db1 where "?rev db = (Inr (), db)" "lockAndCalculateBalances (pe_changes p) db = (Inr cs, db)"
        "insertEntry store p db = (Inr (), db1)"
    using assms(3) rev lockAndCalculateBalances_state
    by (simp add: postPrepared_def result_simps) (metis (full_types) old.unit.exhaust)
  then show ?thesis
  proof cases
    case 3
    then show ?thesis by (auto simp: insertEntry_def insert_entry_row_def dest: constrained_Inl)
  next
    case 4
    from 4(1) have src: "src \<in> e_id ` set (journal_entries db) \<and>
      Some src \<notin> e_reverses_entry_id ` set (journal_entries db)" if "pe_reversesID p = Some src" for src
      using that by (auto simp: validatePersistedReversal_Inr dest: selectEntry_Inr)
    have "affordable db (pe_changes p)" "pe_id p \<notin> e_id ` set (journal_entries db)"
      using 4 insert_entry_row_of [OF assms(1) src] lockAndCalculateBalances_Inr [OF d]
      by (auto simp: affordable_iff)
    with 4(1) have "postable db p"
      by (auto simp: postable_def split: option.splits)
    then have "postPrepared store p db = (Inr (), posted_db store p db)"
      using postPrepared_Inr [OF assms(1,2)] by blast
    with assms(3) show ?thesis by simp
  qed (use rev lockAndCalculateBalances_state in blast)+
qed

subsection \<open>The retry loop\<close>

lemma postOnce_retryable_clean:
  assumes "postOnce store env p db = (Inl e, db')" "isRetryableTransaction e"
  shows "db' = db"
  using run_tx_Inl [of env "postPrepared store p" db e db'] assms
  by (auto simp: postOnce_def isRetryableTransaction_def as_PgError_def)

interpretation posting: retried "\<lambda>i. postOnce store (env i) p" isRetryableTransaction for store env p
  by unfold_locales (rule postOnce_retryable_clean)

lemma Post_Inr:
  assumes "uuid_scanner scan" "schema_ok db" "Post scan store ctx env entry db = (Inr u, db')"
  shows "\<exists>p. prepareEntry scan entry = Inr p \<and> postable db p \<and> db' = posted_db store p db"
proof -
  from assms(3) obtain p where p: "prepareEntry scan entry = Inr p"
    "retry ctx (\<lambda>i. postOnce store (env i) p) isRetryableTransaction classifyPostError
       (E LedgerRepository ErrSerializationFailure) 0 maxTransactionAttempts [] db = (Inr u, db')"
    by (auto simp: Post_def split: sum.splits)
  from posting.retry_Inr [OF p(2)] obtain j where "postOnce store (env j) p db = (Inr (), db')"
    by auto
  then have "postPrepared store p db = (Inr (), db')"
    by (simp add: postOnce_def run_tx_Inr)
  with p(1) assms(2) uuid_scanner.prepareEntry_ok [OF assms(1) p(1)] show ?thesis
    by (auto simp: postPrepared_Inr)
qed

lemma Post_Inl:
  assumes "uuid_scanner scan" "schema_ok db" "Post scan store ctx env entry db = (Inl e, db')"
  shows "db' = db \<or> (\<exists>p i s. prepareEntry scan entry = Inr p \<and> postable db p \<and>
    db' = posted_db store p db \<and> i < 3 \<and> tx_commit (env i) = CommitAckLost s)"
proof (cases "prepareEntry scan entry")
  case (Inl e')
  with assms(3) show ?thesis by (simp add: Post_def)
next
  case (Inr p)
  with assms(3) have r: "retry ctx (\<lambda>i. postOnce store (env i) p) isRetryableTransaction classifyPostError
       (E LedgerRepository ErrSerializationFailure) 0 maxTransactionAttempts [] db = (Inl e, db')"
    by (simp add: Post_def)
  show ?thesis
  proof (cases "db' = db")
    case False
    with posting.retry_Inl [OF r] obtain j e' where j: "j < 3" "postOnce store (env j) p db = (Inl e', db')"
      by (auto simp: maxTransactionAttempts_def)
    with False obtain s where "postPrepared store p db = (Inr (), db')" "tx_commit (env j) = CommitAckLost s"
      using run_tx_Inl [of "env j" "postPrepared store p" db e' db'] by (auto simp: postOnce_def)
    with Inr j(1) assms(2) uuid_scanner.prepareEntry_ok [OF assms(1) Inr] show ?thesis
      by (auto simp: postPrepared_Inr)
  qed simp
qed

text \<open>Transient failures before the last attempt are absorbed.\<close>

definition transient :: "tx_env \<Rightarrow> bool" where
  "transient env \<longleftrightarrow>
     (case tx_begin env of Some e \<Rightarrow> isRetryableTransaction e
      | None \<Rightarrow> (case tx_stmt env of Some e \<Rightarrow> isRetryableTransaction e | None \<Rightarrow> False)) \<and>
     tx_rollback env = RolledBack"

lemma postOnce_transient:
  "transient env \<Longrightarrow> \<exists>e. postOnce store env p db = (Inl e, db) \<and> isRetryableTransaction e"
  by (auto simp: transient_def postOnce_def run_tx_def split: option.splits)

lemma retry_after:
  assumes "\<And>i. i < k \<Longrightarrow> \<exists>e. once i db = (Inl e, db) \<and> retryable e"
    and "once k db = r" "\<And>e. fst r = Inl e \<Longrightarrow> \<not> retryable e" "\<And>i. ctx i = None" "j \<le> k" "k < j + n"
  shows "retry ctx once retryable classify exhausted j n lastErr db =
    (map_sum classify id (fst r), snd r)"
  using assms(5,6)
proof (induction n arbitrary: j lastErr)
  case (Suc n)
  show ?case
  proof (cases "j = k")
    case True
    with assms(2-4) show ?thesis by (cases r) (auto split: sum.splits)
  next
    case False
    with Suc.prems assms(1) [of j] Suc.IH [of "Suc j"] assms(4) show ?thesis by auto
  qed
qed simp


lemma Post_after_transient:
  assumes "uuid_scanner scan" "schema_ok db" "prepareEntry scan entry = Inr p" "postable db p"
    and "k < 3" "\<And>i. i < k \<Longrightarrow> transient (env i)" "env k = quiet" "\<And>i. ctx i = None"
  shows "Post scan store ctx env entry db = (Inr (), posted_db store p db)"
proof -
  have "postPrepared store p db = (Inr (), posted_db store p db)"
    using postPrepared_Inr [OF uuid_scanner.prepareEntry_ok [OF assms(1,3)] assms(2)] assms(4) by blast
  then have "postOnce store (env k) p db = (Inr (), posted_db store p db)"
    by (simp add: postOnce_def assms(7) run_tx_quiet)
  then have "retry ctx (\<lambda>i. postOnce store (env i) p) isRetryableTransaction classifyPostError
      (E LedgerRepository ErrSerializationFailure) 0 3 [] db = (Inr (), posted_db store p db)"
    using retry_after [of k "\<lambda>i. postOnce store (env i) p" db isRetryableTransaction
        "(Inr (), posted_db store p db)" ctx 0 3] postOnce_transient assms(5,6,8) by simp
  with assms(3) show ?thesis by (simp add: Post_def maxTransactionAttempts_def)
qed

subsection \<open>Refusals\<close>

text \<open>Everything \<open>accepts\<close> asks for but the funds.\<close>

definition holds :: "balance_row \<Rightarrow> accountChange \<Rightarrow> bool" where
  "holds b c \<longleftrightarrow>
     b_currency b = currency_String (ac_currency c) \<and>
     in_int64 (sint (b_balance_minor b) + sint (ac_delta c)) \<and>
     sql_account_type (b_account_type b) \<and> b_version b \<noteq> MaxInt64"

lemma lockRows_insufficient:
  assumes "distinct (map b_account_id rows)" "distinct (map ac_accountID cs)"
    and "\<forall>b \<in> set rows. \<exists>c \<in> set cs. ac_accountID c = b_account_id b \<and> holds b c"
    and "\<exists>b \<in> set rows. \<exists>c \<in> set cs. ac_accountID c = b_account_id b \<and> \<not> accepts b c"
  shows "lockRows (changesByID cs) rows n cs = fail LedgerRepository ErrInsufficientFunds"
  using assms
proof (induction rows arbitrary: n cs)
  case (Cons b rows)
  from Cons.prems(3) obtain i where i: "i < length cs" "ac_accountID (cs ! i) = b_account_id b"
    "holds b (cs ! i)" by (auto simp: in_set_conv_nth)
  then have byID: "map_of (changesByID cs) (b_account_id b) = Some i"
    by (simp add: changesByID_Some [OF Cons.prems(2)])
  show ?case
  proof (cases "accepts b (cs ! i)")
    case False
    with i(3) byID show ?thesis
      by (auto simp: holds_def accepts_def Let_def checkedAdd_eq word_sless_alt sint_add_exact)
  next
    case True
    let ?cs = "cs[i := filled b (cs ! i)]"
    have ids: "map ac_accountID ?cs = map ac_accountID cs"
      using i(1) by (simp add: map_update) (metis length_map list_update_id nth_map)
    have keep: "c \<in> set ?cs \<and> ac_accountID c = b_account_id b' \<longleftrightarrow>
          c \<in> set cs \<and> ac_accountID c = b_account_id b'" if "b' \<in> set rows" for b' c
    proof -
      have "b_account_id b' \<noteq> b_account_id b" using Cons.prems(1) that by (metis distinct.simps(2) image_eqI list.simps(9) list.set_map)
      then show ?thesis
        using i(1,2) by (auto simp: set_conv_nth nth_list_update split: if_splits) metis+
    qed
    have own: "c = cs ! i" if "c \<in> set cs" "ac_accountID c = b_account_id b" for c
      using that i(1,2) Cons.prems(2) by (metis distinct_map inj_onD nth_mem)
    have "\<forall>b \<in> set rows. \<exists>c \<in> set ?cs. ac_accountID c = b_account_id b \<and> holds b c"
      using Cons.prems(3) keep by (metis list.set_intros(2))
    moreover have "\<exists>b \<in> set rows. \<exists>c \<in> set ?cs. ac_accountID c = b_account_id b \<and> \<not> accepts b c"
      using Cons.prems(4) keep own True by (metis set_ConsD)
    ultimately have "lockRows (changesByID ?cs) rows (n + 1) ?cs =
        fail LedgerRepository ErrInsufficientFunds"
      using Cons.IH [of ?cs] Cons.prems(1,2) ids by simp
    then show ?thesis
      using lockRows_accepts [OF byID True] changesByID_cong [OF ids] by simp
  qed
qed simp

lemma postPrepared_insufficient:
  assumes "prepared_ok p" "schema_ok db" "pe_reversesID p = None"
    and "\<forall>c \<in> set (pe_changes p). \<exists>b. row_of (account_balances db) (ac_accountID c) = Some b \<and> holds b c"
    and "\<not> affordable db (pe_changes p)"
  shows "postPrepared store p db = (fail LedgerRepository ErrInsufficientFunds, db)"
proof -
  let ?cs = "pe_changes p" and ?bs = "account_balances db"
  let ?rows = "lockBalancesQuery (map ac_accountID ?cs) db"
  have d: "distinct (map b_account_id ?bs)" "distinct (map ac_accountID ?cs)"
    using assms(1,2) by (auto simp: schema_defs prepared_ok_def changes_of_def)
  have rows: "distinct (map b_account_id ?rows)"
    "b \<in> set ?rows \<longleftrightarrow> b \<in> set ?bs \<and> b_account_id b \<in> ac_accountID ` set ?cs" for b
    using lockBalancesQuery_rows [OF d(1)] by auto
  have "\<exists>c \<in> set ?cs. ac_accountID c = b_account_id b \<and> holds b c" if "b \<in> set ?rows" for b
  proof -
    from that rows(2) obtain c where c: "c \<in> set ?cs" "ac_accountID c = b_account_id b" by force
    moreover have "row_of ?bs (b_account_id b) = Some b" using that rows(2) by (simp add: row_of_Some [OF d(1)])
    ultimately show ?thesis using assms(4) by fastforce
  qed
  moreover have "\<exists>b \<in> set ?rows. \<exists>c \<in> set ?cs. ac_accountID c = b_account_id b \<and> \<not> accepts b c"
  proof -
    from assms(4,5) obtain c b where c: "c \<in> set ?cs" "row_of ?bs (ac_accountID c) = Some b" "\<not> accepts b c"
      by (auto simp: affordable_iff)
    then have "b \<in> set ?rows" using rows(2) by (metis image_eqI row_of_SomeD)
    with c show ?thesis by (metis row_of_SomeD)
  qed
  ultimately have "lockRows (changesByID ?cs) ?rows 0 ?cs = fail LedgerRepository ErrInsufficientFunds"
    using lockRows_insufficient [OF rows(1) d(2)] by blast
  then show ?thesis
    by (simp add: postPrepared_def assms(3) tx_bind_def tx_return_def lockAndCalculateBalances_def
        tx_read_def)
qed

lemma postPrepared_exists:
  assumes "prepared_ok p" "schema_ok db" "pe_reversesID p = None"
    and "affordable db (pe_changes p)" "pe_id p \<in> e_id ` set (journal_entries db)"
  shows "postPrepared store p db =
    (Inl [PgError unique_violation ''journal_entries_pkey''], db)"
proof -
  have d: "distinct (map b_account_id (account_balances db))" "distinct (map ac_accountID (pe_changes p))"
    using assms(1,2) by (auto simp: schema_defs prepared_ok_def changes_of_def)
  have "lockAndCalculateBalances (pe_changes p) db =
      (Inr (map (fill (account_balances db)) (pe_changes p)), db)"
    using assms(4) by (simp add: lockAndCalculateBalances_Inr [OF d] affordable_iff)
  moreover have "insertEntry store p db = (Inl [PgError unique_violation ''journal_entries_pkey''], db)"
    using assms(3,5) unfolding insertEntry_eq [OF assms(1)] insert_entry_row_def
    by (auto simp: constrained_def entry_row_of_def violated_def)
  ultimately show ?thesis
    by (simp add: postPrepared_def assms(3) tx_bind_def tx_return_def)
qed

end
