(* ===== verification/Transfer_Rows.thy ===== *)
theory Transfer_Rows
  imports Workers Ledger_Failures
begin

text \<open>
  The rows of \<open>transfers\<close> as lifecycles: \<open>lifecycle_row\<close> is the row that stores a lifecycle, the decoder of
  the repository inverts it, the checks of the table hold for it, and the statements of the repository act on
  the list of the stored lifecycles.
\<close>

section \<open>A row stores a lifecycle\<close>

definition lifecycle_row :: "Lifecycle \<Rightarrow> transfer_row" where
  "lifecycle_row l =
     (let t = l_transfer l in
      \<lparr>tr_id = t_id t, tr_requester_id = t_requesterID t, tr_idempotency_key = t_idempotencyKey t,
       tr_source_account_id = t_sourceAccountID t, tr_destination_account_id = t_destinationAccountID t,
       tr_currency = currency_String (currency (t_amount t)), tr_amount_minor = minorUnits (t_amount t),
       tr_requested_at = t_requestedAt t, tr_status = status_String (l_status l),
       tr_state_version = l_version l, tr_risk_policy_version = null_if_empty (l_riskPolicyVersion l),
       tr_journal_entry_id = null_if_empty (l_journalEntryID l),
       tr_failure_reason = null_if_empty (l_failureReason l)\<rparr>)"

abbreviation l_id :: "Lifecycle \<Rightarrow> uuid" where
  "l_id l \<equiv> t_id (l_transfer l)"

lemma lifecycle_row_sels [simp]:
  "tr_id (lifecycle_row l) = l_id l"
  "tr_requester_id (lifecycle_row l) = t_requesterID (l_transfer l)"
  "tr_idempotency_key (lifecycle_row l) = t_idempotencyKey (l_transfer l)"
  "tr_source_account_id (lifecycle_row l) = t_sourceAccountID (l_transfer l)"
  "tr_destination_account_id (lifecycle_row l) = t_destinationAccountID (l_transfer l)"
  "tr_currency (lifecycle_row l) = currency_String (currency (t_amount (l_transfer l)))"
  "tr_amount_minor (lifecycle_row l) = minorUnits (t_amount (l_transfer l))"
  "tr_requested_at (lifecycle_row l) = t_requestedAt (l_transfer l)"
  "tr_status (lifecycle_row l) = status_String (l_status l)"
  "tr_state_version (lifecycle_row l) = l_version l"
  "tr_risk_policy_version (lifecycle_row l) = null_if_empty (l_riskPolicyVersion l)"
  "tr_journal_entry_id (lifecycle_row l) = null_if_empty (l_journalEntryID l)"
  "tr_failure_reason (lifecycle_row l) = null_if_empty (l_failureReason l)"
  by (simp_all add: lifecycle_row_def Let_def)

lemma nullableValue_null_if_empty [simp]: "nullableValue (null_if_empty s) = s"
  by (simp add: nullableValue_def null_if_empty_def)

lemma null_if_empty_None [simp]: "null_if_empty s = None \<longleftrightarrow> s = []"
  by (simp add: null_if_empty_def)

lemma lifecycleStatus_String: "s \<noteq> StatusUnknown \<Longrightarrow> lifecycleStatus (status_String s) = (s, True)"
  by (cases s) (simp_all add: lifecycleStatus_def)

lemma status_String_inject: "status_String s = status_String s' \<longleftrightarrow> s = s'"
  by (cases s; cases s') simp_all

lemma lifecycle_ok_known: "lifecycle_ok l \<Longrightarrow> l_status l \<noteq> StatusUnknown"
  by (cases "l_status l") (auto simp: lifecycle_ok_def)

lemma money_eta: "\<lparr>minorUnits = minorUnits m, currency = currency m\<rparr> = m"
  by simp

lemma stored_transfer_row:
  assumes "transfer_ok (l_transfer l)"
  shows "stored_transfer (lifecycle_row l) = Inr (l_transfer l)"
proof -
  have "currency_valid (currency (t_amount (l_transfer l)))" using assms by (simp add: transfer_ok_def)
  then show ?thesis
    using NewTransfer_params [OF assms]
    by (simp add: stored_transfer_def NewMoney_def transfer_params_def money_eta)
qed

lemma lifecycleRecord_row:
  assumes "lifecycle_ok l"
  shows "lifecycleRecord_lifecycle (lifecycle_row l) = Inr l"
  using NewLifecycle_params [OF assms] assms
  by (simp add: lifecycleRecord_lifecycle_def stored_transfer_row lifecycle_ok_def lifecycleStatus_String
      lifecycle_ok_known [OF assms] lifecycle_params_def)

lemma lifecycle_row_inject:
  assumes "lifecycle_ok l" "lifecycle_ok l'"
  shows "lifecycle_row l = lifecycle_row l' \<longleftrightarrow> l = l'"
  using lifecycleRecord_row assms by (metis sum.inject(2))

text \<open>The checks of the table are the invariant of the aggregate.\<close>

lemma transfer_checks_row: "lifecycle_ok l \<Longrightarrow> list_all snd (transfer_checks (lifecycle_row l))"
  by (cases "l_status l")
    (auto simp: lifecycle_ok_def transfer_ok_def transfer_checks_def lifecycle_shape_def sql_currency_String
      validIdempotencyKey_def maxIdempotencyKeyBytes_def sql_visible_def null_if_empty_def sql_code_def
      validPolicyVersion_def validLifecycleCode_def maxLifecycleCodeBytes_def Suc_le_eq isCanonicalUUID_iff
      uuid_shape_def)


section \<open>The table as a list of lifecycles\<close>

abbreviation l_key :: "Lifecycle \<Rightarrow> uuid \<times> string" where
  "l_key l \<equiv> (t_requesterID (l_transfer l), t_idempotencyKey (l_transfer l))"

definition stored :: "database \<Rightarrow> Lifecycle list \<Rightarrow> bool" where
  "stored db ls \<longleftrightarrow>
     transfers db = map lifecycle_row ls \<and> list_all lifecycle_ok ls \<and>
     distinct (map l_id ls) \<and> distinct (map l_key ls)"

definition advance :: "Lifecycle \<Rightarrow> Lifecycle \<Rightarrow> Lifecycle list \<Rightarrow> Lifecycle list" where
  "advance cur nxt ls = map (\<lambda>l. if l_id l = l_id cur then nxt else l) ls"

lemma storedD:
  assumes "stored db ls"
  shows "transfers db = map lifecycle_row ls" "list_all lifecycle_ok ls" "distinct (map l_id ls)"
    "distinct (map l_key ls)"
  using assms by (simp_all add: stored_def)

lemma stored_ok: "stored db ls \<Longrightarrow> l \<in> set ls \<Longrightarrow> lifecycle_ok l"
  by (simp add: stored_def list_all_iff)

lemma distinct_map_eq: "distinct (map f xs) \<Longrightarrow> x \<in> set xs \<Longrightarrow> y \<in> set xs \<Longrightarrow> f x = f y \<Longrightarrow> x = y"
  by (simp add: distinct_map inj_on_def)

lemma filter_unique: "distinct xs \<Longrightarrow> x \<in> set xs \<Longrightarrow> (\<And>y. y \<in> set xs \<Longrightarrow> P y = (y = x)) \<Longrightarrow> filter P xs = [x]"
proof (induction xs)
  case (Cons a xs)
  show ?case
  proof (cases "a = x")
    case True
    with Cons.prems have "filter P xs = []" by (auto simp: filter_empty_conv)
    with True Cons.prems show ?thesis by simp
  next
    case False
    with Cons show ?thesis by simp
  qed
qed simp

lemma stored_same:
  assumes "stored db ls" "l \<in> set ls" "l' \<in> set ls" "l_id l = l_id l'"
  shows "l = l'"
  by (rule distinct_map_eq [OF storedD(3) [OF assms(1)] assms(2-4)])

lemma stored_key:
  assumes "stored db ls" "l \<in> set ls" "l' \<in> set ls" "l_key l = l_key l'"
  shows "l = l'"
  by (rule distinct_map_eq [OF storedD(4) [OF assms(1)] assms(2-4)])

lemma find_unique:
  assumes "x \<in> set xs" "P x" "\<And>y. y \<in> set xs \<Longrightarrow> P y \<Longrightarrow> y = x"
  shows "find P xs = Some x"
proof (cases "find P xs")
  case None
  with assms(1,2) show ?thesis by (auto simp: find_None_iff)
next
  case (Some y)
  then have "y \<in> set xs" "P y" by (auto simp: find_Some_iff)
  then have "y = x" by (rule assms(3))
  with Some show ?thesis by simp
qed

lemma select_transfer_row:
  assumes "stored db ls" "l \<in> set ls"
  shows "select_transfer (t_requesterID (l_transfer l)) (t_idempotencyKey (l_transfer l)) db =
    Some (lifecycle_row l)"
  unfolding select_transfer_def
proof (rule find_unique)
  show "lifecycle_row l \<in> set (transfers db)" using assms by (simp add: stored_def)
  show "r = lifecycle_row l" if r: "r \<in> set (transfers db)"
    "tr_requester_id r = t_requesterID (l_transfer l) \<and> tr_idempotency_key r = t_idempotencyKey (l_transfer l)"
    for r
  proof -
    from r(1) assms(1) obtain l' where l': "l' \<in> set ls" "r = lifecycle_row l'" by (auto simp: stored_def)
    with r(2) have "l_key l' = l_key l" by simp
    with stored_key [OF assms(1) l'(1) assms(2)] l'(2) show ?thesis by simp
  qed
qed simp

lemma Load_row:
  assumes "stored db ls" "l \<in> set ls" "scan i = Some (l_id l)"
  shows "LoadLifecycleForUpdateTx scan i db = (Inr l, db)"
proof -
  have "find (\<lambda>r. tr_id r = l_id l) (transfers db) = Some (lifecycle_row l)"
  proof (rule find_unique)
    show "lifecycle_row l \<in> set (transfers db)" using assms by (simp add: stored_def)
    show "r = lifecycle_row l" if r: "r \<in> set (transfers db)" "tr_id r = l_id l" for r
    proof -
      from r(1) assms(1) obtain l' where l': "l' \<in> set ls" "r = lifecycle_row l'" by (auto simp: stored_def)
      with r(2) stored_same [OF assms(1) l'(1) assms(2)] show ?thesis by simp
    qed
  qed simp
  with assms(3) lifecycleRecord_row [OF stored_ok [OF assms(1,2)]] show ?thesis
    by (simp add: LoadLifecycleForUpdateTx_def tx_read_def transfer_parseUUID_def)
qed

lemma Load_Inr:
  assumes "stored db ls" "LoadLifecycleForUpdateTx scan i db = (Inr l, db')"
  shows "db' = db" "l \<in> set ls" "scan i = Some (l_id l)" "lifecycle_ok l"
proof -
  from assms(2) obtain u r where u: "db' = db" "scan i = Some u" "find (\<lambda>r. tr_id r = u) (transfers db) = Some r"
    "lifecycleRecord_lifecycle r = Inr l"
    by (auto simp: LoadLifecycleForUpdateTx_def result_simps transfer_parseUUID_def split: option.splits)
  from u(3) have r: "r \<in> set (transfers db)" "tr_id r = u" by (auto simp: find_Some_iff)
  then obtain l' where l': "l' \<in> set ls" "r = lifecycle_row l'" using assms(1) by (auto simp: stored_def)
  with lifecycleRecord_row [OF stored_ok [OF assms(1) l'(1)]] u(4) have "l' = l" by simp
  with l' u r stored_ok [OF assms(1)] show "db' = db" "l \<in> set ls" "scan i = Some (l_id l)" "lifecycle_ok l"
    by auto
qed

lemma Load_state: "LoadLifecycleForUpdateTx scan i db = (r, db') \<Longrightarrow> db' = db"
  by (simp add: LoadLifecycleForUpdateTx_def tx_read_eq)

lemma at_state_row:
  assumes "stored db ls" "cur \<in> set ls" "l \<in> set ls"
  shows "at_state cur (lifecycle_row l) \<longleftrightarrow> l = cur"
  using stored_same [OF assms(1,3,2)] by (auto simp: at_state_def)

lemma update_row:
  assumes "stored db ls" "cur \<in> set ls" "lifecycle_ok nxt" "new (lifecycle_row cur) = lifecycle_row nxt"
  shows "update_transfer_rows (at_state cur) new db =
    (Inr 1, db\<lparr>transfers := map lifecycle_row (advance cur nxt ls)\<rparr>)"
proof -
  have rows: "transfers db = map lifecycle_row ls" using assms(1) by (simp add: stored_def)
  have at: "at_state cur (lifecycle_row l) \<longleftrightarrow> l = cur" if "l \<in> set ls" for l
    using at_state_row [OF assms(1,2) that] .
  have "distinct ls" using assms(1) by (simp add: stored_def distinct_map)
  then have "filter (at_state cur \<circ> lifecycle_row) ls = [cur]"
    using assms(2) by (rule filter_unique) (simp add: at)
  then have "length (filter (at_state cur) (map lifecycle_row ls)) = 1" by (simp add: filter_map)
  moreover have "map (\<lambda>r. if at_state cur r then new r else r) (map lifecycle_row ls) =
      map lifecycle_row (advance cur nxt ls)"
    unfolding advance_def map_map
  proof (rule map_cong [OF refl])
    fix l
    assume l: "l \<in> set ls"
    show "((\<lambda>r. if at_state cur r then new r else r) \<circ> lifecycle_row) l =
        (lifecycle_row \<circ> (\<lambda>l. if l_id l = l_id cur then nxt else l)) l"
      using at [OF l] stored_same [OF assms(1) l assms(2)] assms(4) by (cases "l_id l = l_id cur") auto
  qed
  moreover have "\<forall>r \<in> set (map lifecycle_row ls). at_state cur r \<longrightarrow> list_all snd (transfer_checks (new r))"
    using at assms(4) transfer_checks_row [OF assms(3)] by simp
  ultimately show ?thesis using rows by (simp add: update_transfer_rows_Inr)
qed


lemma transitioned_row_lifecycle:
  assumes "l_transfer nxt = l_transfer cur" "l_riskPolicyVersion nxt = l_riskPolicyVersion cur"
  shows "transitioned_row nxt (lifecycle_row cur) = lifecycle_row nxt"
  using assms by (simp add: transitioned_row_def lifecycle_row_def Let_def)

lemma assessed_row_lifecycle:
  assumes "l_transfer nxt = l_transfer cur" "l_riskPolicyVersion nxt = l_riskPolicyVersion cur"
    "l_journalEntryID nxt = l_journalEntryID cur" "l_failureReason nxt = l_failureReason cur"
  shows "assessed_row nxt (lifecycle_row cur) = lifecycle_row nxt"
  using assms by (simp add: assessed_row_def lifecycle_row_def Let_def)

lemma StoreLifecycleTransitionTx_row:
  assumes "stored db ls" "cur \<in> set ls" "lifecycle_ok nxt"
    and "l_transfer nxt = l_transfer cur" "l_riskPolicyVersion nxt = l_riskPolicyVersion cur"
  shows "StoreLifecycleTransitionTx cur nxt db =
    (Inr (), db\<lparr>transfers := map lifecycle_row (advance cur nxt ls)\<rparr>)"
  using update_row [where new = "transitioned_row nxt", OF assms(1-3) transitioned_row_lifecycle [OF assms(4,5)]]
  by (simp add: StoreLifecycleTransitionTx_def tx_bind_def tx_return_def)

lemma map_id_advance: "l_transfer nxt = l_transfer cur \<Longrightarrow> map l_id (advance cur nxt ls) = map l_id ls"
  by (simp add: advance_def)

lemma stored_advance:
  assumes "stored db ls" "cur \<in> set ls" "lifecycle_ok nxt" "l_transfer nxt = l_transfer cur"
    and "transfers db' = map lifecycle_row (advance cur nxt ls)"
  shows "stored db' (advance cur nxt ls)"
proof -
  have k: "l_key l = l_key cur" if "l \<in> set ls" "l_id l = l_id cur" for l
    using stored_same [OF assms(1) that(1) assms(2) that(2)] by simp
  note map_id_advance [OF assms(4)]
  moreover have "map l_key (advance cur nxt ls) = map l_key ls"
    using assms(4) k by (simp add: advance_def)
  moreover have "list_all lifecycle_ok (advance cur nxt ls)"
    using storedD(2) [OF assms(1)] assms(3) by (auto simp: advance_def list_all_iff)
  ultimately show ?thesis using storedD(3,4) [OF assms(1)] assms(5) by (simp only: stored_def simp_thms)
qed

lemma set_advance:
  assumes "stored db ls" "cur \<in> set ls"
  shows "set (advance cur nxt ls) = insert nxt (set ls - {cur})"
proof -
  have "l \<in> set ls \<and> l_id l = l_id cur \<longleftrightarrow> l = cur" for l
    using stored_same [OF assms(1) _ assms(2)] assms(2) by blast
  then show ?thesis using assms(2) by (auto simp: advance_def)
qed

end
