(* ===== verification/Transfer_Effects.thy ===== *)
theory Transfer_Effects
  imports Transfer_Rows
begin

text \<open>
  What the operations on transfers do to the tables: one event per change in the outbox, and for a completed
  transfer one journal entry with its two postings.
\<close>

section \<open>Events in the outbox\<close>

definition event_of :: "outbox_row \<Rightarrow> string \<times> int64" where
  "event_of e = (o_event_type e, o_aggregate_version e)"

definition events_of :: "database \<Rightarrow> uuid \<Rightarrow> (string \<times> int64) list" where
  "events_of db i = map event_of (filter (\<lambda>e. o_aggregate_id e = i) (outbox_events db))"

definition draft_for :: "string \<Rightarrow> uuid \<Rightarrow> int64 \<Rightarrow> draft \<Rightarrow> bool" where
  "draft_for ty i n d \<longleftrightarrow>
     (\<exists>ps. NewDraft ps = Inr d) \<and> dr_eventType d = ty \<and> dr_aggregateID d = i \<and> dr_aggregateVersion d = n"

lemma NewDraft_for:
  assumes "NewDraft ps = Inr d" "isCanonicalUUID (dp_AggregateID ps)"
  shows "draft_for (dp_EventType ps) (dp_AggregateID ps) (dp_AggregateVersion ps) d"
proof -
  have "d = \<lparr>dr_eventType = dp_EventType ps, dr_eventVersion = dp_EventVersion ps,
          dr_aggregateType = dp_AggregateType ps, dr_aggregateID = fst (normalizeUUID (dp_AggregateID ps)),
          dr_aggregateVersion = dp_AggregateVersion ps, dr_correlationID = fst (normalizeUUID (dp_CorrelationID ps)),
          dr_causationID = dr_causationID d, dr_occurredAt = dp_OccurredAt ps, dr_payload = dr_payload d\<rparr>"
    using assms(1) by (simp add: NewDraft_Inr)
  then have "dr_eventType d = dp_EventType ps" "dr_aggregateID d = fst (normalizeUUID (dp_AggregateID ps))"
    "dr_aggregateVersion d = dp_AggregateVersion ps"
    by (metis draft.select_convs(1,4,5))+
  then show ?thesis using assms unfolding draft_for_def by (auto simp: normalizeUUID_canonical)
qed

lemma event_drafts:
  assumes "isCanonicalUUID (l_id l)"
  shows "Requested l = Inr d \<Longrightarrow> draft_for RequestedType (l_id l) (l_version l) d"
    and "RiskAssessed l ev at cause = Inr d \<Longrightarrow> draft_for RiskAssessedType (l_id l) (l_version l) d"
    and "ReviewDecided l subject at = Inr d \<Longrightarrow> draft_for ReviewDecidedType (l_id l) (l_version l) d"
    and "CompletedLifecycle l at cause = Inr d \<Longrightarrow> draft_for CompletedType (l_id l) (l_version l) d"
    and "Failed l at cause = Inr d \<Longrightarrow> draft_for FailedType (l_id l) (l_version l) d"
  using assms
  by (auto simp: Requested_def RiskAssessed_def ReviewDecided_def CompletedLifecycle_def Failed_def Let_def
      simp del: json_print.simps split: if_splits dest!: NewDraft_for)

lemma Completed_draft:
  assumes "Completed t = Inr d" "isCanonicalUUID (t_id t)"
  shows "draft_for CompletedType (t_id t) 1 d"
proof -
  from assms(1) obtain ps where "NewDraft ps = Inr d" "dp_EventType ps = CompletedType" "dp_AggregateID ps = t_id t"
    "dp_AggregateVersion ps = 1"
    by (auto simp: Completed_def andThen_Inr simp del: json_print.simps)
  with NewDraft_for [of ps d] assms(2) show ?thesis by simp
qed

lemma AddTx_event:
  assumes "AddTx jsonb store i n d db = (Inr e, db')" "draft_for ty a v d"
  obtains row where "db' = db\<lparr>outbox_events := outbox_events db @ [row]\<rparr>" "o_aggregate_id row = a"
    "event_of row = (ty, v)"
proof -
  obtain x t where x: "validateDraft d = Inr x"
    "insert_outbox_row (new_outbox_row store (clock db) i n x t) db = (Inr (), db')"
    using assms(1) by (rule AddTx_Inr)
  obtain ps where "NewDraft ps = Inr d" using assms(2) by (auto simp: draft_for_def)
  from NewDraft_params_of [OF this] have "x = d" using x(1) by (simp add: validateDraft_def)
  with x(2) assms(2) show thesis
    by (intro that [of "new_outbox_row store (clock db) i n x t"])
      (simp_all add: insert_outbox_row_Inr draft_for_def event_of_def new_outbox_row_def)
qed

section \<open>The entry of a transfer\<close>

definition posted_of :: "database \<Rightarrow> uuid \<Rightarrow> (uuid \<times> string \<times> int64) list" where
  "posted_of db i =
     map (\<lambda>r. (r_account_id r, r_currency r, r_amount_minor r))
       (filter (\<lambda>r. r_journal_entry_id r = i) (postings db))"

definition movements :: "Transfer \<Rightarrow> (uuid \<times> string \<times> int64) list" where
  "movements t =
     (let code = currency_String (currency (t_amount t)); amount = minorUnits (t_amount t) in
      [(t_sourceAccountID t, code, - amount), (t_destinationAccountID t, code, amount)])"

lemma posted_of_fresh:
  assumes "schema_ok db" "i \<notin> e_id ` set (journal_entries db)"
  shows "posted_of db i = []"
  using assms by (auto simp: posted_of_def filter_empty_conv schema_defs)

lemma journalEntry_eq:
  assumes "lifecycle_ok l" "l_status l = StatusApproved" "\<not> IsZero at"
  shows "journalEntry l at = Inr (transfer_entry (l_transfer l) at)"
proof -
  have t: "transfer_ok (l_transfer l)" using assms(1) by (simp add: lifecycle_ok_def)
  then have "TrimSpace (l_id l) = l_id l" by (simp add: transfer_ok_def)
  with transfer_posting_steps [OF t] transfer_entry_ok [OF t assms(3)] assms(2) show ?thesis
    by (simp add: journalEntry_def Let_def NewJournalEntry_def newJournalEntry_Inr transfer_entry_def transfer_postings_def)
qed

lemma journalEntry_Inr:
  assumes "lifecycle_ok l" "journalEntry l at = Inr entry"
  shows "entry = transfer_entry (l_transfer l) at" "l_status l = StatusApproved"
proof -
  show s: "l_status l = StatusApproved" using assms(2) by (auto simp: journalEntry_def split: if_splits)
  have t: "transfer_ok (l_transfer l)" using assms(1) by (simp add: lifecycle_ok_def)
  have "\<not> IsZero at"
  proof
    assume "IsZero at"
    with assms(2) s transfer_posting_steps [OF t] show False
      by (auto simp: journalEntry_def Let_def NewJournalEntry_def newJournalEntry_Inr entry_ok_def)
  qed
  with journalEntry_eq [OF assms(1) s] assms(2) show "entry = transfer_entry (l_transfer l) at" by simp
qed

context uuid_scanner
begin

lemma prepare_transfer_entry:
  assumes "transfer_ok t" "prepareEntry scan (transfer_entry t at) = Inr p"
  shows "pe_id p = t_id t" "pe_reversesID p = None"
    "pe_postings p = [prepared_posting (t_sourceAccountID t) (p_amount (transfer_postings t ! 0)),
      prepared_posting (t_destinationAccountID t) (t_amount t)]"
proof -
  note p = prepareEntry_Inr [OF assms(2)]
  have ids: "scan (t_id t) = Some (t_id t)" "scan (t_sourceAccountID t) = Some (t_sourceAccountID t)"
    "scan (t_destinationAccountID t) = Some (t_destinationAccountID t)"
    using assms(1) scan_canonical by (auto simp: transfer_ok_def)
  show "pe_id p = t_id t" "pe_reversesID p = None"
    using p(2,3) ids by (auto simp: transfer_entry_def prepareReversesID_Inr)
  have "preparePostings scan (transfer_postings t) = Inr (pe_postings p, pe_changes p)"
    using p(4) by (simp add: transfer_entry_def)
  from preparePostings_Inr(1) [OF this] ids show "pe_postings p =
      [prepared_posting (t_sourceAccountID t) (p_amount (transfer_postings t ! 0)),
       prepared_posting (t_destinationAccountID t) (t_amount t)]"
    by (auto simp: transfer_postings_def list_all2_Cons1)
qed

lemma PostTx_transfer:
  assumes "transfer_ok t" "schema_ok db" "PostTx scan store (transfer_entry t at) db = (Inr u, db')"
  obtains p where "prepareEntry scan (transfer_entry t at) = Inr p" "prepared_ok p" "pe_id p = t_id t"
    "affordable db (pe_changes p)" "db' = posted_db store p db" "schema_ok db'"
    "t_id t \<notin> e_id ` set (journal_entries db)"
    "posted_of db' (t_id t) = movements t" "\<And>i. i \<noteq> t_id t \<Longrightarrow> posted_of db' i = posted_of db i"
proof -
  from assms(3) obtain p where p: "prepareEntry scan (transfer_entry t at) = Inr p"
    "postPrepared store p db = (Inr (), db')"
    by (auto simp: PostTx_def split: sum.splits prod.splits)
  note ok = prepareEntry_ok [OF p(1)] and entry = prepare_transfer_entry [OF assms(1) p(1)]
  have db': "postable db p" "db' = posted_db store p db"
    using postPrepared_Inr [OF ok assms(2)] p(2) by blast+
  then have f: "affordable db (pe_changes p)" "t_id t \<notin> e_id ` set (journal_entries db)"
    using entry(1) by (simp_all add: postable_def)
  have "posted_of db (t_id t) = []" by (rule posted_of_fresh [OF assms(2) f(2)])
  then have moved: "posted_of db' (t_id t) = movements t"
    by (simp add: posted_of_def db'(2) posted_db_def posting_rows_def entry movements_def Let_def
        transfer_postings_def comp_def)
  have "posted_of db' i = posted_of db i" if "i \<noteq> t_id t" for i
    using that entry(1) by (auto simp: posted_of_def db'(2) posted_db_def posting_rows_def filter_empty_conv)
  with p(1) ok entry(1) f(1) db'(2) postPrepared_schema [OF p(2) assms(2)] f(2) moved show thesis by (rule that)
qed

end

end
