(* ===== verification/Transfer_System.thy ===== *)
theory Transfer_System
  imports Transfer_Effects
begin

text \<open>
  The life of the stored transfers under every operation of the program that touches them: direct and pending
  creation, risk assessment, review decisions, settlement, entries that other callers post to the ledger, and
  the passing of time. The invariant ties each transfer's status to the journal, to the events in the outbox,
  to its review case and to the audit records.
\<close>

section \<open>The invariant\<close>

text \<open>The events that a transfer with a given status and version has announced, in order.\<close>

inductive event_log :: "Status \<Rightarrow> int64 \<Rightarrow> (string \<times> int64) list \<Rightarrow> bool" where
  direct: "event_log StatusCompleted 1 [(CompletedType, 1)]"
| requested: "event_log StatusPendingRisk 1 [(RequestedType, 1)]"
| assessed: "event_log StatusPendingRisk v es \<Longrightarrow> s \<in> {StatusApproved, StatusReviewRequired, StatusDeclined} \<Longrightarrow>
    event_log s (v + 1) (es @ [(RiskAssessedType, v + 1)])"
| decided: "event_log StatusReviewRequired v es \<Longrightarrow> s \<in> {StatusApproved, StatusDeclined} \<Longrightarrow>
    event_log s (v + 1) (es @ [(ReviewDecidedType, v + 1)])"
| completed: "event_log StatusApproved v es \<Longrightarrow> event_log StatusCompleted (v + 1) (es @ [(CompletedType, v + 1)])"
| failed: "event_log StatusApproved v es \<Longrightarrow> event_log StatusFailed (v + 1) (es @ [(FailedType, v + 1)])"

definition entry_ids :: "database \<Rightarrow> uuid set" where
  "entry_ids db = e_id ` set (journal_entries db)"

definition booked :: "database \<Rightarrow> Lifecycle \<Rightarrow> bool" where
  "booked db l \<longleftrightarrow>
     posted_of db (l_id l) = (if l_status l = StatusCompleted then movements (l_transfer l) else []) \<and>
     (l_id l \<in> entry_ids db \<longleftrightarrow> l_status l = StatusCompleted)"

definition announced :: "database \<Rightarrow> Lifecycle \<Rightarrow> bool" where
  "announced db l \<longleftrightarrow> event_log (l_status l) (l_version l) (events_of db (l_id l))"

definition open_case :: "database \<Rightarrow> uuid \<Rightarrow> bool" where
  "open_case db i \<longleftrightarrow> (\<exists>c \<in> set (transfer_review_cases db). rc_transfer_id c = i \<and> rc_status c = ''open'')"

definition audited :: "database \<Rightarrow> review_row \<Rightarrow> bool" where
  "audited db c \<longleftrightarrow>
     rc_status c = ''open'' \<or>
     (\<exists>a \<in> set (transfer_review_audit_records db). au_transfer_id a = rc_transfer_id c \<and>
        rc_decision c = Some (au_decision a) \<and> rc_decided_by c = Some (au_actor_subject a) \<and>
        rc_decided_at c = Some (au_occurred_at a))"

definition cases_ok :: "database \<Rightarrow> Lifecycle list \<Rightarrow> bool" where
  "cases_ok db ls \<longleftrightarrow>
     distinct (map rc_transfer_id (transfer_review_cases db)) \<and>
     rc_transfer_id ` set (transfer_review_cases db) \<subseteq> l_id ` set ls \<and>
     (\<forall>c \<in> set (transfer_review_cases db). audited db c) \<and>
     (\<forall>l \<in> set ls. open_case db (l_id l) \<longleftrightarrow> l_status l = StatusReviewRequired)"

definition consistent :: "database \<Rightarrow> Lifecycle list \<Rightarrow> bool" where
  "consistent db ls \<longleftrightarrow>
     stored db ls \<and> schema_ok db \<and> transfers_deferred db = None \<and>
     (\<forall>l \<in> set ls. booked db l \<and> announced db l) \<and>
     o_aggregate_id ` set (outbox_events db) \<subseteq> l_id ` set ls \<and> cases_ok db ls"

definition transfer_inv :: "database \<Rightarrow> bool" where
  "transfer_inv db \<longleftrightarrow> (\<exists>ls. consistent db ls)"

lemma consistentD:
  assumes "consistent db ls"
  shows "stored db ls" "schema_ok db" "transfers_deferred db = None" "\<And>l. l \<in> set ls \<Longrightarrow> booked db l"
    "\<And>l. l \<in> set ls \<Longrightarrow> announced db l" "o_aggregate_id ` set (outbox_events db) \<subseteq> l_id ` set ls"
    "cases_ok db ls"
  using assms by (simp_all add: consistent_def)

lemma events_of_append:
  "outbox_events db' = outbox_events db @ [row] \<Longrightarrow>
     events_of db' i = events_of db i @ (if o_aggregate_id row = i then [event_of row] else [])"
  by (simp add: events_of_def)

section \<open>How a change keeps it\<close>

text \<open>A change that concerns only the transfer \<open>i\<close>.\<close>

definition only_books :: "uuid \<Rightarrow> database \<Rightarrow> database \<Rightarrow> bool" where
  "only_books i db db' \<longleftrightarrow>
     (\<forall>j. j \<noteq> i \<longrightarrow> posted_of db' j = posted_of db j \<and> (j \<in> entry_ids db' \<longleftrightarrow> j \<in> entry_ids db))"

lemma booked_other: "only_books i db db' \<Longrightarrow> l_id l \<noteq> i \<Longrightarrow> booked db l \<Longrightarrow> booked db' l"
  by (simp add: only_books_def booked_def)

lemma announced_other:
  "outbox_events db' = outbox_events db @ [row] \<Longrightarrow> l_id l \<noteq> o_aggregate_id row \<Longrightarrow> announced db l \<Longrightarrow>
     announced db' l"
  by (auto simp: announced_def events_of_append)

lemma consistent_append:
  assumes c: "consistent db ls" and l: "lifecycle_ok l" "l_id l \<notin> l_id ` set ls" "l_key l \<notin> l_key ` set ls"
    and db': "transfers db' = transfers db @ [lifecycle_row l]" "schema_ok db'" "transfers_deferred db' = None"
    and e: "outbox_events db' = outbox_events db @ [row]" "o_aggregate_id row = l_id l"
      "event_log (l_status l) (l_version l) [event_of row]"
    and b: "booked db' l" "only_books (l_id l) db db'"
    and r: "l_status l \<noteq> StatusReviewRequired" "transfer_review_cases db' = transfer_review_cases db"
      "transfer_review_audit_records db' = transfer_review_audit_records db"
  shows "consistent db' (ls @ [l])"
proof -
  have ne: "l_id x \<noteq> l_id l" if "x \<in> set ls" for x
    using imageI [OF that, of l_id] l(2) by auto
  have "o_aggregate_id e \<noteq> l_id l" if "e \<in> set (outbox_events db)" for e
    using subsetD [OF consistentD(6) [OF c] imageI [OF that]] l(2) by metis
  then have "events_of db (l_id l) = []" by (simp add: events_of_def filter_empty_conv)
  then have "announced db' l" using e by (simp add: announced_def events_of_append)
  moreover have "\<forall>x \<in> set ls. booked db' x \<and> announced db' x"
    using booked_other [OF b(2)] announced_other [OF e(1)] e(2) ne consistentD(4,5) [OF c] by auto
  moreover have "stored db' (ls @ [l])"
    using storedD [OF consistentD(1) [OF c]] l db'(1) by (simp add: stored_def)
  moreover have "cases_ok db' (ls @ [l])"
  proof -
    have k: "rc_transfer_id ` set (transfer_review_cases db) \<subseteq> l_id ` set ls"
      using consistentD(7) [OF c] by (simp add: cases_ok_def)
    have "rc_transfer_id x \<noteq> l_id l" if "x \<in> set (transfer_review_cases db)" for x
      using subsetD [OF k imageI [OF that]] l(2) by metis
    then have "\<not> open_case db (l_id l)" by (auto simp: open_case_def)
    with consistentD(7) [OF c] r show ?thesis by (auto simp: cases_ok_def open_case_def audited_def)
  qed
  moreover have "o_aggregate_id ` set (outbox_events db') \<subseteq> l_id ` set (ls @ [l])"
    using consistentD(6) [OF c] e(1,2) by auto
  ultimately show ?thesis using db'(2,3) b(1) by (auto simp: consistent_def)
qed

lemma consistent_advance:
  assumes c: "consistent db ls" and l: "cur \<in> set ls" "lifecycle_ok nxt" "l_transfer nxt = l_transfer cur"
    and db': "transfers db' = map lifecycle_row (advance cur nxt ls)" "schema_ok db'" "transfers_deferred db' = None"
    and e: "outbox_events db' = outbox_events db @ [row]" "o_aggregate_id row = l_id cur"
      "event_log (l_status nxt) (l_version nxt) (events_of db (l_id cur) @ [event_of row])"
    and b: "booked db' nxt" "only_books (l_id cur) db db'"
    and r: "cases_ok db' (advance cur nxt ls)"
  shows "consistent db' (advance cur nxt ls)"
proof -
  note st = consistentD(1) [OF c]
  have ls: "set (advance cur nxt ls) = insert nxt (set ls - {cur})" by (rule set_advance [OF st l(1)])
  have ne: "l_id x \<noteq> l_id cur" if "x \<in> set ls - {cur}" for x
    using that stored_same [OF st _ l(1)] by auto
  have "announced db' nxt" using e l(3) by (simp add: announced_def events_of_append)
  moreover have "\<forall>x \<in> set ls - {cur}. booked db' x \<and> announced db' x"
    using booked_other [OF b(2)] announced_other [OF e(1)] e(2) ne consistentD(4,5) [OF c] by auto
  moreover have "l_id ` set (advance cur nxt ls) = l_id ` set ls"
    using map_id_advance [OF l(3), of ls] by (metis list.set_map)
  moreover from this have "o_aggregate_id ` set (outbox_events db') \<subseteq> l_id ` set (advance cur nxt ls)"
    using consistentD(6) [OF c] e(1,2) l(1) by auto
  ultimately show ?thesis
    using db'(2,3) b(1) r stored_advance [OF st l db'(1)] by (auto simp: consistent_def ls)
qed


section \<open>Tables that a part of the invariant does not read\<close>

lemma schema_frame [simp]:
  "schema_ok (db\<lparr>transfers := x\<rparr>) = schema_ok db"
  "schema_ok (db\<lparr>outbox_events := es\<rparr>) = schema_ok db"
  "schema_ok (db\<lparr>consumer_inbox := is\<rparr>) = schema_ok db"
  "schema_ok (db\<lparr>transfer_risk_assessments := as\<rparr>) = schema_ok db"
  "schema_ok (db\<lparr>transfer_review_cases := cs\<rparr>) = schema_ok db"
  "schema_ok (db\<lparr>transfer_review_audit_records := us\<rparr>) = schema_ok db"
  "schema_ok (db\<lparr>consumer_quarantine := qs\<rparr>) = schema_ok db"
  "schema_ok (db\<lparr>clock := now\<rparr>) = schema_ok db"
  by (simp_all add: schema_defs)

lemma books_frame [simp]:
  "posted_of (db\<lparr>transfers := x\<rparr>) = posted_of db" "entry_ids (db\<lparr>transfers := x\<rparr>) = entry_ids db"
  "posted_of (db\<lparr>outbox_events := es\<rparr>) = posted_of db" "entry_ids (db\<lparr>outbox_events := es\<rparr>) = entry_ids db"
  "posted_of (db\<lparr>consumer_inbox := is\<rparr>) = posted_of db" "entry_ids (db\<lparr>consumer_inbox := is\<rparr>) = entry_ids db"
  "posted_of (db\<lparr>transfer_risk_assessments := as\<rparr>) = posted_of db"
  "entry_ids (db\<lparr>transfer_risk_assessments := as\<rparr>) = entry_ids db"
  "posted_of (db\<lparr>transfer_review_cases := cs\<rparr>) = posted_of db"
  "entry_ids (db\<lparr>transfer_review_cases := cs\<rparr>) = entry_ids db"
  "posted_of (db\<lparr>transfer_review_audit_records := us\<rparr>) = posted_of db"
  "entry_ids (db\<lparr>transfer_review_audit_records := us\<rparr>) = entry_ids db"
  by (simp_all add: posted_of_def entry_ids_def fun_eq_iff)

lemma transfer_fks_frame [simp]:
  "transfer_fks (db\<lparr>consumer_inbox := is\<rparr>) = transfer_fks db"
  "transfer_fks (db\<lparr>consumer_quarantine := qs\<rparr>) = transfer_fks db"
  "transfer_fks (db\<lparr>clock := now\<rparr>) = transfer_fks db"
  "transfer_fks (db\<lparr>outbox_events := es\<rparr>) = transfer_fks db"
  by (simp_all add: transfer_fks_def fun_eq_iff)

lemma consistent_frame [simp]:
  "consistent (db\<lparr>consumer_inbox := is\<rparr>) ls = consistent db ls"
  "consistent (db\<lparr>consumer_quarantine := qs\<rparr>) ls = consistent db ls"
  "consistent (db\<lparr>clock := now\<rparr>) ls = consistent db ls"
  by (simp_all add: consistent_def stored_def transfers_deferred_def booked_def posted_of_def entry_ids_def
      announced_def events_of_def cases_ok_def open_case_def audited_def)

lemma only_books_same: "posted_of db' = posted_of db \<Longrightarrow> entry_ids db' = entry_ids db \<Longrightarrow> only_books i db db'"
  by (simp add: only_books_def)

lemma stored_cong: "transfers db' = transfers db \<Longrightarrow> stored db' ls = stored db ls"
  by (simp add: stored_def)

lemma transfer_keys: "stored db ls \<Longrightarrow> transfer_key ` set (transfers db) = l_key ` set ls"
  by (simp add: stored_def transfer_key_def image_image)

lemma transfer_ids: "stored db ls \<Longrightarrow> tr_id ` set (transfers db) = l_id ` set ls"
  by (simp add: stored_def image_image)

end
