(* ===== verification/Transfer_Creation.thy ===== *)
theory Transfer_Creation
  imports Transfer_System
begin

text \<open>
  Creation of transfers: what one attempt of \<open>Create\<close> and of \<open>CreatePending\<close> does, and what the retry loops make
  of it.
\<close>

section \<open>Prepared transfers\<close>

definition recorded :: "(gotime \<Rightarrow> gotime) \<Rightarrow> Transfer \<Rightarrow> Transfer" where
  "recorded store t = t\<lparr>t_requestedAt := store (t_requestedAt t)\<rparr>"

lemma recorded_sels [simp]:
  "t_id (recorded store t) = t_id t" "t_idempotencyKey (recorded store t) = t_idempotencyKey t"
  "t_requesterID (recorded store t) = t_requesterID t" "t_sourceAccountID (recorded store t) = t_sourceAccountID t"
  "t_destinationAccountID (recorded store t) = t_destinationAccountID t" "t_amount (recorded store t) = t_amount t"
  "t_requestedAt (recorded store t) = store (t_requestedAt t)"
  by (simp_all add: recorded_def)

lemma recorded_ok: "transfer_ok t \<Longrightarrow> \<not> IsZero (store (t_requestedAt t)) \<Longrightarrow> transfer_ok (recorded store t)"
  by (simp add: transfer_ok_def)

lemma movements_recorded [simp]: "movements (recorded store t) = movements t"
  by (simp add: movements_def)

definition completed_lifecycle :: "Transfer \<Rightarrow> Lifecycle" where
  "completed_lifecycle t =
     \<lparr>l_transfer = t, l_status = StatusCompleted, l_version = 1, l_riskPolicyVersion = [],
      l_journalEntryID = t_id t, l_failureReason = []\<rparr>"

lemma completed_lifecycle_sels [simp]:
  "l_transfer (completed_lifecycle t) = t" "l_status (completed_lifecycle t) = StatusCompleted"
  "l_version (completed_lifecycle t) = 1"
  by (simp_all add: completed_lifecycle_def)

lemma completed_lifecycle_ok: "transfer_ok t \<Longrightarrow> lifecycle_ok (completed_lifecycle t)"
  by (simp add: completed_lifecycle_def lifecycle_ok_def)

context uuid_scanner
begin

lemma transfer_parseUUID_canonical: "isCanonicalUUID s \<Longrightarrow> transfer_parseUUID scan s = Inr s"
  by (simp add: transfer_parseUUID_def scan_canonical)

lemma prepareTransfer_Inr:
  assumes "prepareTransfer scan t = Inr p"
  shows "transfer_ok (pt_transfer p)" "pt_id p = t_id (pt_transfer p)"
    "pt_requesterID p = t_requesterID (pt_transfer p)" "pt_sourceID p = t_sourceAccountID (pt_transfer p)"
    "pt_destinationID p = t_destinationAccountID (pt_transfer p)"
    "pt_entry p = transfer_entry (pt_transfer p) (t_requestedAt (pt_transfer p))"
    "Completed (pt_transfer p) = Inr (pt_completedEvent p)"
proof -
  from assms have ok: "transfer_ok (pt_transfer p)"
    by (auto simp: prepareTransfer_def result_simps dest: NewTransfer_ok)
  then have "isCanonicalUUID (t_id (pt_transfer p))" "isCanonicalUUID (t_requesterID (pt_transfer p))"
    "isCanonicalUUID (t_sourceAccountID (pt_transfer p))" "isCanonicalUUID (t_destinationAccountID (pt_transfer p))"
    by (simp_all add: transfer_ok_def)
  with assms ok transfer_JournalEntry_eq [OF ok]
  show "transfer_ok (pt_transfer p)" "pt_id p = t_id (pt_transfer p)"
    "pt_requesterID p = t_requesterID (pt_transfer p)" "pt_sourceID p = t_sourceAccountID (pt_transfer p)"
    "pt_destinationID p = t_destinationAccountID (pt_transfer p)"
    "pt_entry p = transfer_entry (pt_transfer p) (t_requestedAt (pt_transfer p))"
    "Completed (pt_transfer p) = Inr (pt_completedEvent p)"
    by (auto simp: prepareTransfer_def result_simps transfer_parseUUID_canonical)
qed

lemma preparePendingTransfer_Inr:
  assumes "preparePendingTransfer scan l = Inr p"
  shows "lifecycle_ok (pp_lifecycle p)" "l_status (pp_lifecycle p) = StatusPendingRisk"
    "pp_id p = l_id (pp_lifecycle p)" "pp_requesterID p = t_requesterID (l_transfer (pp_lifecycle p))"
    "pp_sourceID p = t_sourceAccountID (l_transfer (pp_lifecycle p))"
    "pp_destinationID p = t_destinationAccountID (l_transfer (pp_lifecycle p))"
    "Requested (pp_lifecycle p) = Inr (pp_requestedEvent p)"
proof -
  from assms have ok: "lifecycle_ok (pp_lifecycle p)"
    by (auto simp: preparePendingTransfer_def result_simps Let_def NewLifecycle_Inr split: if_splits)
  then have "isCanonicalUUID (l_id (pp_lifecycle p))" "isCanonicalUUID (t_requesterID (l_transfer (pp_lifecycle p)))"
    "isCanonicalUUID (t_sourceAccountID (l_transfer (pp_lifecycle p)))"
    "isCanonicalUUID (t_destinationAccountID (l_transfer (pp_lifecycle p)))"
    by (simp_all add: lifecycle_ok_def transfer_ok_def)
  with assms ok
  show "lifecycle_ok (pp_lifecycle p)" "l_status (pp_lifecycle p) = StatusPendingRisk"
    "pp_id p = l_id (pp_lifecycle p)" "pp_requesterID p = t_requesterID (l_transfer (pp_lifecycle p))"
    "pp_sourceID p = t_sourceAccountID (l_transfer (pp_lifecycle p))"
    "pp_destinationID p = t_destinationAccountID (l_transfer (pp_lifecycle p))"
    "Requested (pp_lifecycle p) = Inr (pp_requestedEvent p)"
    by (auto simp: preparePendingTransfer_def result_simps Let_def transfer_parseUUID_canonical split: if_splits)
qed

end


section \<open>One attempt\<close>

lemma new_transfer_row_lifecycle:
  assumes "transfer_ok (pt_transfer p)" "pt_id p = t_id (pt_transfer p)"
    "pt_requesterID p = t_requesterID (pt_transfer p)" "pt_sourceID p = t_sourceAccountID (pt_transfer p)"
    "pt_destinationID p = t_destinationAccountID (pt_transfer p)"
  shows "new_transfer_row store p = lifecycle_row (completed_lifecycle (recorded store (pt_transfer p)))"
proof -
  have "t_id (pt_transfer p) \<noteq> []"
    using assms(1) by (auto simp: transfer_ok_def isCanonicalUUID_iff uuid_shape_def)
  with assms show ?thesis
    by (simp add: new_transfer_row_def lifecycle_row_def Let_def completed_lifecycle_def null_if_empty_def)
qed

definition recorded_lifecycle :: "(gotime \<Rightarrow> gotime) \<Rightarrow> Lifecycle \<Rightarrow> Lifecycle" where
  "recorded_lifecycle store l = l\<lparr>l_transfer := recorded store (l_transfer l)\<rparr>"

lemma recorded_lifecycle_sels [simp]:
  "l_transfer (recorded_lifecycle store l) = recorded store (l_transfer l)"
  "l_status (recorded_lifecycle store l) = l_status l" "l_version (recorded_lifecycle store l) = l_version l"
  "l_riskPolicyVersion (recorded_lifecycle store l) = l_riskPolicyVersion l"
  by (simp_all add: recorded_lifecycle_def)

lemma recorded_lifecycle_ok:
  "lifecycle_ok l \<Longrightarrow> \<not> IsZero (store (t_requestedAt (l_transfer l))) \<Longrightarrow>
     lifecycle_ok (recorded_lifecycle store l)"
  by (auto simp: lifecycle_ok_def recorded_lifecycle_def recorded_ok)

lemma new_pending_row_lifecycle:
  assumes "lifecycle_ok (pp_lifecycle p)" "l_status (pp_lifecycle p) = StatusPendingRisk"
    "pp_id p = l_id (pp_lifecycle p)" "pp_requesterID p = t_requesterID (l_transfer (pp_lifecycle p))"
    "pp_sourceID p = t_sourceAccountID (l_transfer (pp_lifecycle p))"
    "pp_destinationID p = t_destinationAccountID (l_transfer (pp_lifecycle p))"
  shows "new_pending_row store p = lifecycle_row (recorded_lifecycle store (pp_lifecycle p))"
proof -
  have "l_version (pp_lifecycle p) = 1" "l_journalEntryID (pp_lifecycle p) = []"
    "l_failureReason (pp_lifecycle p) = []" "l_riskPolicyVersion (pp_lifecycle p) \<noteq> []"
    using assms(1,2) by (auto simp: lifecycle_ok_def int64_eq_iff)
  with assms(2-6) show ?thesis
    by (simp add: new_pending_row_def lifecycle_row_def Let_def recorded_lifecycle_def null_if_empty_def)
qed

lemma insert_lifecycle_row:
  assumes "stored db ls"
  shows "insert_transfer_row (lifecycle_row l) db = (Inr i, db') \<longleftrightarrow>
    list_all snd (transfer_checks (lifecycle_row l)) \<and>
    (if l_key l \<in> l_key ` set ls then i = None \<and> db' = db
     else l_id l \<notin> l_id ` set ls \<and> i = Some (l_id l) \<and> db' = db\<lparr>transfers := transfers db @ [lifecycle_row l]\<rparr>)"
  unfolding insert_transfer_row_Inr transfer_keys [OF assms] transfer_ids [OF assms]
  by (simp add: transfer_key_def)

text \<open>The stored transfer that a key names.\<close>

lemma selectTransferByKey_Inr:
  assumes "stored db ls" "selectTransferByKey seen p db = (Inr t, db')"
    "pt_requesterID p = t_requesterID (pt_transfer p)"
  shows "db' = db \<and> (\<exists>l \<in> set ls. l_key l = (t_requesterID (pt_transfer p), t_idempotencyKey (pt_transfer p)) \<and>
    t = l_transfer l)"
proof -
  from assms(2,3) obtain r where r: "db' = db" "select_transfer (t_requesterID (pt_transfer p))
      (t_idempotencyKey (pt_transfer p)) db = Some r" "stored_transfer r = Inr t"
    by (auto simp: selectTransferByKey_def result_simps split: if_splits option.splits)
  from r(2) have k: "r \<in> set (transfers db)" "transfer_key r = (t_requesterID (pt_transfer p), t_idempotencyKey (pt_transfer p))"
    by (auto simp: select_transfer_def find_Some_iff transfer_key_def)
  then obtain l where l: "l \<in> set ls" "r = lifecycle_row l" using storedD(1) [OF assms(1)] by auto
  have "transfer_ok (l_transfer l)" using stored_ok [OF assms(1) l(1)] by (simp add: lifecycle_ok_def)
  with l r k stored_transfer_row show ?thesis by (auto simp: transfer_key_def)
qed

lemma selectLifecycleByKey_Inr:
  assumes "stored db ls" "selectLifecycleByKey seen p db = (Inr x, db')"
    "pp_requesterID p = t_requesterID (l_transfer (pp_lifecycle p))"
  shows "db' = db \<and> x \<in> set ls \<and> l_key x = l_key (pp_lifecycle p)"
proof -
  from assms(2,3) obtain r where r: "db' = db" "select_transfer (t_requesterID (l_transfer (pp_lifecycle p)))
      (t_idempotencyKey (l_transfer (pp_lifecycle p))) db = Some r" "lifecycleRecord_lifecycle r = Inr x"
    by (auto simp: selectLifecycleByKey_def result_simps split: if_splits option.splits)
  from r(2) have k: "r \<in> set (transfers db)" "transfer_key r = l_key (pp_lifecycle p)"
    by (auto simp: select_transfer_def find_Some_iff transfer_key_def)
  then obtain l where l: "l \<in> set ls" "r = lifecycle_row l" using storedD(1) [OF assms(1)] by auto
  from lifecycleRecord_row [OF stored_ok [OF assms(1) l(1)]] l(2) r(3) have "l = x" by simp
  with l r k show ?thesis by (auto simp: transfer_key_def)
qed

lemma authorize_eq:
  "authorizeTransferAccounts t a b db = (r, db') \<longleftrightarrow> fst (authorizeTransferAccounts t a b db) = r \<and> db' = db"
  by (auto simp: authorizeTransferAccounts_def tx_read_def)

lemma authorize_frame [simp]:
  "fst (authorizeTransferAccounts t a b (db\<lparr>transfers := x\<rparr>)) = fst (authorizeTransferAccounts t a b db)"
  by (simp add: authorizeTransferAccounts_def tx_read_def transfer_accountsQuery_def)

context uuid_scanner
begin

lemma pending_body_effect:
  assumes "stored db ls" "preparePendingTransfer scan l = Inr p"
    "pending_body store jsonb eventID sequence seen p db = (Inr x, db')"
  shows "db' = db \<and> x \<in> set ls \<and> l_key x = l_key (pp_lifecycle p) \<and>
      sameIntent (l_transfer x) (l_transfer (pp_lifecycle p)) \<or>
    x = pp_lifecycle p \<and> l_id x \<notin> l_id ` set ls \<and> l_key x \<notin> l_key ` set ls \<and>
      fst (authorizePendingAccounts p db) = Inr () \<and>
      (\<exists>row. o_aggregate_id row = l_id x \<and> event_of row = (RequestedType, 1) \<and>
        db' = db\<lparr>transfers := transfers db @ [lifecycle_row (recorded_lifecycle store x)],
          outbox_events := outbox_events db @ [row]\<rparr>)"
proof -
  note p = preparePendingTransfer_Inr [OF assms(2)]
  let ?l = "recorded_lifecycle store (pp_lifecycle p)"
  have one: "l_version (pp_lifecycle p) = 1" and can: "isCanonicalUUID (l_id (pp_lifecycle p))"
    using p(1,2) by (auto simp: lifecycle_ok_def int64_eq_iff transfer_ok_def)
  from assms(3) obtain i db1 where i: "insert_transfer_row (lifecycle_row ?l) db = (Inr i, db1)"
    and rest: "(if i = None then
       tx_bind (selectLifecycleByKey seen p) (\<lambda>stored.
       if \<not> sameIntent (l_transfer stored) (l_transfer (pp_lifecycle p))
       then tx_lift (fail TransferRepository ErrIdempotencyConflict)
       else tx_return stored)
     else
       tx_bind (authorizePendingAccounts p) (\<lambda>_.
       tx_bind (AddTx jsonb store eventID sequence (pp_requestedEvent p)) (\<lambda>_.
       tx_return (pp_lifecycle p)))) db1 = (Inr x, db')"
    unfolding pending_body_def reservePendingTransfer_def new_pending_row_lifecycle [OF p(1-6)]
    by (auto simp: tx_bind_Inr tx_return_eq)
  show ?thesis
  proof (cases "l_key (pp_lifecycle p) \<in> l_key ` set ls")
    case True
    with i insert_lifecycle_row [OF assms(1)] have "i = None" "db1 = db" by auto
    with rest have "selectLifecycleByKey seen p db = (Inr x, db')"
      "sameIntent (l_transfer x) (l_transfer (pp_lifecycle p))"
      by (auto simp: result_simps split: if_splits)
    with selectLifecycleByKey_Inr [OF assms(1)] p(4) show ?thesis by blast
  next
    case False
    with i insert_lifecycle_row [OF assms(1)] have db1: "i \<noteq> None" "l_id (pp_lifecycle p) \<notin> l_id ` set ls"
      "db1 = db\<lparr>transfers := transfers db @ [lifecycle_row ?l]\<rparr>" by auto
    with rest obtain e where a: "fst (authorizePendingAccounts p db1) = Inr ()" "x = pp_lifecycle p"
      "AddTx jsonb store eventID sequence (pp_requestedEvent p) db1 = (Inr e, db')"
      by (auto simp: tx_bind_Inr tx_return_eq authorizePendingAccounts_def authorize_eq)
    have "draft_for RequestedType (l_id (pp_lifecycle p)) 1 (pp_requestedEvent p)"
      using event_drafts(1) [OF can p(7)] one by simp
    then obtain row where "db' = db1\<lparr>outbox_events := outbox_events db1 @ [row]\<rparr>"
      "o_aggregate_id row = l_id (pp_lifecycle p)" "event_of row = (RequestedType, 1)"
      using AddTx_event [OF a(3)] by metis
    moreover have "fst (authorizePendingAccounts p db) = Inr ()"
      using a(1) by (simp add: db1(3) authorizePendingAccounts_def)
    ultimately show ?thesis using False db1 a(2) by auto
  qed
qed


lemma create_body_effect:
  assumes "stored db ls" "schema_ok db" "prepareTransfer scan t = Inr p"
    "create_body scan store jsonb eventID sequence seen p db = (Inr x, db')"
  shows "db' = db \<and> (\<exists>l \<in> set ls. x = l_transfer l \<and>
        l_key l = (t_requesterID (pt_transfer p), t_idempotencyKey (pt_transfer p)) \<and> sameIntent x (pt_transfer p)) \<or>
    x = pt_transfer p \<and> t_id x \<notin> l_id ` set ls \<and> (t_requesterID x, t_idempotencyKey x) \<notin> l_key ` set ls \<and>
      fst (authorizeAccounts p db) = Inr () \<and>
      (\<exists>row q. o_aggregate_id row = t_id x \<and> event_of row = (CompletedType, 1) \<and>
        prepareEntry scan (pt_entry p) = Inr q \<and> affordable db (pe_changes q) \<and>
        db' = (posted_db store q db)\<lparr>
          transfers := transfers db @ [lifecycle_row (completed_lifecycle (recorded store x))],
          outbox_events := outbox_events db @ [row]\<rparr> \<and>
        schema_ok db' \<and> t_id x \<notin> entry_ids db \<and> posted_of db' (t_id x) = movements x \<and>
        only_books (t_id x) db db')"
proof -
  note p = prepareTransfer_Inr [OF assms(3)]
  let ?l = "completed_lifecycle (recorded store (pt_transfer p))"
  have can: "isCanonicalUUID (t_id (pt_transfer p))" using p(1) by (simp add: transfer_ok_def)
  from assms(4) obtain i db1 where i: "insert_transfer_row (lifecycle_row ?l) db = (Inr i, db1)"
    and rest: "(if i = None then
       tx_bind (selectTransferByKey seen p) (\<lambda>stored.
       if \<not> sameIntent stored (pt_transfer p) then tx_lift (fail TransferRepository ErrIdempotencyConflict)
       else tx_return stored)
     else
       tx_bind (authorizeAccounts p) (\<lambda>_.
       tx_bind (tx_map_error mapLedgerError (PostTx scan store (pt_entry p))) (\<lambda>_.
       tx_bind (AddTx jsonb store eventID sequence (pt_completedEvent p)) (\<lambda>_.
       tx_return (pt_transfer p))))) db1 = (Inr x, db')"
    unfolding create_body_def reserveTransfer_def new_transfer_row_lifecycle [OF p(1-5)]
    by (auto simp: tx_bind_Inr tx_return_eq)
  show ?thesis
  proof (cases "l_key ?l \<in> l_key ` set ls")
    case True
    with i insert_lifecycle_row [OF assms(1)] have "i = None" "db1 = db" by auto
    with rest have "selectTransferByKey seen p db = (Inr x, db')" "sameIntent x (pt_transfer p)"
      by (auto simp: result_simps split: if_splits)
    with selectTransferByKey_Inr [OF assms(1)] p(3) show ?thesis by blast
  next
    case False
    with i insert_lifecycle_row [OF assms(1)] have db1: "i \<noteq> None" "t_id (pt_transfer p) \<notin> l_id ` set ls"
      "db1 = db\<lparr>transfers := transfers db @ [lifecycle_row ?l]\<rparr>" by auto
    with rest obtain u db2 e where a: "fst (authorizeAccounts p db1) = Inr ()" "x = pt_transfer p"
      "tx_map_error mapLedgerError (PostTx scan store (pt_entry p)) db1 = (Inr u, db2)"
      "AddTx jsonb store eventID sequence (pt_completedEvent p) db2 = (Inr e, db')"
      by (auto simp: tx_bind_Inr tx_return_eq authorizeAccounts_def authorize_eq)
    from a(3) have post: "PostTx scan store (transfer_entry (pt_transfer p) (t_requestedAt (pt_transfer p))) db1 = (Inr u, db2)"
      by (auto simp: tx_map_error_def p(6) split: prod.splits sum.splits)
    have "schema_ok db1" by (simp add: db1(3) assms(2))
    from PostTx_transfer [OF p(1) this post] obtain q where q:
      "prepareEntry scan (pt_entry p) = Inr q" "affordable db1 (pe_changes q)" "db2 = posted_db store q db1"
      "schema_ok db2" "t_id (pt_transfer p) \<notin> e_id ` set (journal_entries db1)"
      "posted_of db2 (t_id (pt_transfer p)) = movements (pt_transfer p)" "pe_id q = t_id (pt_transfer p)"
      "\<And>i. i \<noteq> t_id (pt_transfer p) \<Longrightarrow> posted_of db2 i = posted_of db1 i" using p(6) by metis
    obtain row where row: "db' = db2\<lparr>outbox_events := outbox_events db2 @ [row]\<rparr>"
      "o_aggregate_id row = t_id (pt_transfer p)" "event_of row = (CompletedType, 1)"
      using AddTx_event [OF a(4) Completed_draft [OF p(7) can]] by metis
    have "fst (authorizeAccounts p db) = Inr ()" using a(1) by (simp add: db1(3) authorizeAccounts_def)
    moreover have "affordable db (pe_changes q)" using q(2) by (simp add: affordable_def db1(3))
    moreover have "db' = (posted_db store q db)\<lparr>
          transfers := transfers db @ [lifecycle_row ?l], outbox_events := outbox_events db @ [row]\<rparr>"
      by (simp add: row(1) q(3) db1(3) posted_db_def)
    moreover have "only_books (t_id (pt_transfer p)) db db'"
      using q(7,8) by (simp add: only_books_def row(1) q(3) entry_ids_def posted_db_def db1(3) entry_row_of_def
          posted_of_def)
    moreover have "schema_ok db'" "posted_of db' (t_id (pt_transfer p)) = movements (pt_transfer p)"
      using q(4,6) row(1) by simp_all
    moreover have "t_id (pt_transfer p) \<notin> entry_ids db" using q(5) by (simp add: entry_ids_def db1(3))
    ultimately show ?thesis using False db1(2) a(2) row(2,3) q(1) by (auto simp: completed_lifecycle_def)
  qed
qed

end


section \<open>The retry loops\<close>

lemma deferred_retryable_clean:
  assumes "run_deferred env body db = (Inl e, db')" "transfer_isRetryableTransaction e"
  shows "db' = db"
  using run_deferred_Inl [OF assms(1)] assms(2) by (auto simp: transfer_isRetryableTransaction_def as_PgError_def)

interpretation deferred: retried "\<lambda>i. run_deferred (env i) (body i)" transfer_isRetryableTransaction
  for env body
  by unfold_locales (rule deferred_retryable_clean)

lemma deferred_retry_Inr:
  assumes "retry ctx (\<lambda>i. run_deferred (env i) (body i)) transfer_isRetryableTransaction classify exhausted 0 n lastErr db =
    (Inr x, db')"
  obtains j where "j < n" "body j db = (Inr x, db')" "transfers_deferred db' = None"
  using deferred.retry_Inr [OF assms] by (auto simp: run_deferred_Inr)

lemma deferred_retry_Inl:
  assumes "retry ctx (\<lambda>i. run_deferred (env i) (body i)) transfer_isRetryableTransaction classify exhausted 0 n lastErr db =
    (Inl e, db')" "db' \<noteq> db"
  obtains j x s where "j < n" "body j db = (Inr x, db')" "transfers_deferred db' = None"
    "tx_commit (env j) = CommitAckLost s"
proof -
  from deferred.retry_Inl [OF assms(1)] assms(2) obtain j e' where j: "j < n"
    "run_deferred (env j) (body j) db = (Inl e', db')" by auto
  from run_deferred_effect [OF j(2)] run_deferred_Inl [OF j(2)] assms(2) j(1) show thesis
    using that by blast
qed

lemma Create_Inr:
  assumes "Create scan store jsonb ctx attempts t db = (Inr x, db')"
  obtains p j where "prepareTransfer scan t = Inr p" "j < 3"
    "create_body scan store jsonb (at_eventID (attempts j)) (at_sequence (attempts j)) (at_seen (attempts j)) p db =
      (Inr x, db')" "transfers_deferred db' = None"
proof -
  from assms obtain p where p: "prepareTransfer scan t = Inr p" by (auto simp: Create_def split: sum.splits)
  with assms show thesis
    unfolding Create_def createOnce_def transfer_maxTransactionAttempts_def
    by (auto elim!: deferred_retry_Inr intro: that)
qed

lemma Create_Inl:
  assumes "Create scan store jsonb ctx attempts t db = (Inl e, db')" "db' \<noteq> db"
  obtains p j x s where "prepareTransfer scan t = Inr p" "j < 3"
    "create_body scan store jsonb (at_eventID (attempts j)) (at_sequence (attempts j)) (at_seen (attempts j)) p db =
      (Inr x, db')" "transfers_deferred db' = None" "tx_commit (at_env (attempts j)) = CommitAckLost s"
proof -
  from assms obtain p where p: "prepareTransfer scan t = Inr p" by (auto simp: Create_def split: sum.splits)
  with assms show thesis
    unfolding Create_def createOnce_def transfer_maxTransactionAttempts_def
    by (auto elim!: deferred_retry_Inl intro: that)
qed

lemma CreatePending_Inr:
  assumes "CreatePending scan store jsonb ctx attempts l db = (Inr x, db')"
  obtains p j where "preparePendingTransfer scan l = Inr p" "j < 3"
    "pending_body store jsonb (at_eventID (attempts j)) (at_sequence (attempts j)) (at_seen (attempts j)) p db =
      (Inr x, db')" "transfers_deferred db' = None"
proof -
  from assms obtain p where p: "preparePendingTransfer scan l = Inr p" by (auto simp: CreatePending_def split: sum.splits)
  with assms show thesis
    unfolding CreatePending_def createPendingOnce_def transfer_maxTransactionAttempts_def
    by (auto elim!: deferred_retry_Inr intro: that)
qed

lemma CreatePending_Inl:
  assumes "CreatePending scan store jsonb ctx attempts l db = (Inl e, db')" "db' \<noteq> db"
  obtains p j x s where "preparePendingTransfer scan l = Inr p" "j < 3"
    "pending_body store jsonb (at_eventID (attempts j)) (at_sequence (attempts j)) (at_seen (attempts j)) p db =
      (Inr x, db')" "transfers_deferred db' = None" "tx_commit (at_env (attempts j)) = CommitAckLost s"
proof -
  from assms obtain p where p: "preparePendingTransfer scan l = Inr p" by (auto simp: CreatePending_def split: sum.splits)
  with assms show thesis
    unfolding CreatePending_def createPendingOnce_def transfer_maxTransactionAttempts_def
    by (auto elim!: deferred_retry_Inl intro: that)
qed

section \<open>Creation keeps the invariant\<close>

context uuid_scanner
begin

lemma prepareTransfer_requestedAt:
  "prepareTransfer scan t = Inr p \<Longrightarrow> t_requestedAt (pt_transfer p) = t_requestedAt t"
  by (auto simp: prepareTransfer_def result_simps NewTransfer_def Let_def)

lemma preparePendingTransfer_transfer:
  "preparePendingTransfer scan l = Inr p \<Longrightarrow> l_transfer (pp_lifecycle p) = l_transfer l"
  by (auto simp: preparePendingTransfer_def result_simps Let_def NewLifecycle_Inr split: if_splits)

lemma create_body_consistent:
  assumes "consistent db ls" "prepareTransfer scan t = Inr p" "\<not> IsZero (store (t_requestedAt t))"
    "create_body scan store jsonb eventID sequence seen p db = (Inr x, db')" "transfers_deferred db' = None"
  shows "consistent db' ls \<or> consistent db' (ls @ [completed_lifecycle (recorded store x)])"
proof -
  note st = consistentD(1,2) [OF assms(1)]
  from create_body_effect [OF st assms(2,4)] show ?thesis
  proof (elim disjE conjE exE, goal_cases)
    case (2 row q)
    let ?l = "completed_lifecycle (recorded store x)"
    have "transfer_ok (recorded store x)"
      using prepareTransfer_Inr(1) [OF assms(2)] prepareTransfer_requestedAt [OF assms(2)] assms(3) 2
      by (simp add: recorded_ok)
    moreover have "booked db' ?l"
      using 2 prepare_transfer_entry [OF prepareTransfer_Inr(1) [OF assms(2)], of "t_requestedAt (pt_transfer p)" q]
        prepareTransfer_Inr(6) [OF assms(2)]
      by (simp add: booked_def entry_ids_def posted_db_def entry_row_of_def)
    ultimately have "consistent db' (ls @ [?l])"
      using 2 assms(5)
      by (intro consistent_append [OF assms(1), of _ _ row])
        (simp_all add: completed_lifecycle_ok posted_db_def event_log.direct)
    then show ?case ..
  qed (use assms(1) in auto)
qed

lemma pending_body_consistent:
  assumes "consistent db ls" "preparePendingTransfer scan l = Inr p"
    "\<not> IsZero (store (t_requestedAt (l_transfer l)))" "l_id l \<notin> entry_ids db"
    "pending_body store jsonb eventID sequence seen p db = (Inr x, db')" "transfers_deferred db' = None"
  shows "consistent db' ls \<or> consistent db' (ls @ [recorded_lifecycle store x])"
proof -
  note st = consistentD(1,2) [OF assms(1)]
  from pending_body_effect [OF st(1) assms(2,5)] show ?thesis
  proof (elim disjE conjE exE, goal_cases)
    case (2 row)
    let ?l = "recorded_lifecycle store x"
    note tr = preparePendingTransfer_transfer [OF assms(2)] and p = preparePendingTransfer_Inr [OF assms(2)]
    have pending: "l_status x = StatusPendingRisk" "l_version x = 1"
      using p(1,2) 2(1) by (auto simp: lifecycle_ok_def int64_eq_iff)
    have "lifecycle_ok ?l" using p(1) tr assms(3) 2(1) by (simp add: recorded_lifecycle_ok)
    moreover have "posted_of db (l_id x) = []"
      using posted_of_fresh [OF st(2)] assms(4) tr 2(1) by (simp add: entry_ids_def)
    then have "booked db' ?l"
      using 2 pending assms(4) tr by (simp add: booked_def)
    ultimately have "consistent db' (ls @ [?l])"
      using 2 assms(6) pending st(2)
      by (intro consistent_append [OF assms(1), of _ _ row])
        (simp_all add: event_log.requested only_books_same)
    then show ?case ..
  qed (use assms(1) in auto)
qed

end

end
