(* ===== verification/Transfer_Handlers.thy ===== *)
theory Transfer_Handlers
  imports Transfer_Creation
begin

text \<open>
  What a handler does to a transfer: it advances one lifecycle by one step, announces it, and keeps the
  invariant. This theory has the parts that the handlers share and the risk worker's assessment.
\<close>

section \<open>Review cases\<close>

lemma cases_ok_advance:
  assumes "cases_ok db ls" "stored db ls" "cur \<in> set ls" "l_transfer nxt = l_transfer cur"
    and "distinct (map rc_transfer_id (transfer_review_cases db'))"
      "rc_transfer_id ` set (transfer_review_cases db') \<subseteq>
         insert (l_id cur) (rc_transfer_id ` set (transfer_review_cases db))"
      "\<forall>c \<in> set (transfer_review_cases db'). audited db' c"
      "open_case db' (l_id cur) \<longleftrightarrow> l_status nxt = StatusReviewRequired"
      "\<And>i. i \<noteq> l_id cur \<Longrightarrow> open_case db' i \<longleftrightarrow> open_case db i"
  shows "cases_ok db' (advance cur nxt ls)"
proof -
  have ids: "l_id ` set (advance cur nxt ls) = l_id ` set ls"
    using map_id_advance [OF assms(4), of ls] by (metis list.set_map)
  have "insert (l_id cur) (rc_transfer_id ` set (transfer_review_cases db)) \<subseteq> l_id ` set ls"
    using imageI [OF assms(3), of l_id] assms(1) by (simp add: cases_ok_def)
  then have "rc_transfer_id ` set (transfer_review_cases db') \<subseteq> l_id ` set ls"
    by (rule subset_trans [OF assms(6)])
  moreover have "open_case db' (l_id l) \<longleftrightarrow> l_status l = StatusReviewRequired"
    if "l \<in> set (advance cur nxt ls)" for l
  proof (cases "l = nxt")
    case False
    with that set_advance [OF assms(2,3)] have l: "l \<in> set ls" "l \<noteq> cur" by auto
    then have "l_id l \<noteq> l_id cur" using stored_same [OF assms(2) l(1) assms(3)] by blast
    with assms(1,9) l(1) show ?thesis by (simp add: cases_ok_def)
  qed (use assms(4,8) in simp)
  ultimately show ?thesis using assms(5,7) ids by (simp add: cases_ok_def)
qed

lemma cases_ok_untouched:
  assumes "cases_ok db ls" "stored db ls" "cur \<in> set ls" "l_transfer nxt = l_transfer cur"
    and "transfer_review_cases db' = transfer_review_cases db"
      "transfer_review_audit_records db' = transfer_review_audit_records db"
    and "l_status cur \<noteq> StatusReviewRequired" "l_status nxt \<noteq> StatusReviewRequired"
  shows "cases_ok db' (advance cur nxt ls)"
proof -
  have o: "open_case db' i \<longleftrightarrow> open_case db i" for i by (simp add: open_case_def assms(5))
  have "\<not> open_case db (l_id cur)" using assms(1,3,7) by (simp add: cases_ok_def)
  with assms o show ?thesis
    by (intro cases_ok_advance [OF assms(1-4)]) (auto simp: cases_ok_def audited_def)
qed

lemma cases_ok_opened:
  assumes "cases_ok db ls" "stored db ls" "cur \<in> set ls" "l_transfer nxt = l_transfer cur"
    and "transfer_review_cases db' = transfer_review_cases db @ [c]"
      "transfer_review_audit_records db' = transfer_review_audit_records db"
    and "rc_transfer_id c = l_id cur" "rc_status c = ''open''"
      "l_id cur \<notin> rc_transfer_id ` set (transfer_review_cases db)" "l_status nxt = StatusReviewRequired"
  shows "cases_ok db' (advance cur nxt ls)"
  using assms
  by (intro cases_ok_advance [OF assms(1-4)]) (auto simp: cases_ok_def audited_def open_case_def)

lemma cases_ok_closed:
  assumes "cases_ok db ls" "stored db ls" "cur \<in> set ls" "l_transfer nxt = l_transfer cur"
    and "transfer_review_cases db' =
        map (\<lambda>c. if rc_transfer_id c = l_id cur \<and> rc_status c = ''open'' then decided_row decision subject at c else c)
          (transfer_review_cases db)"
      "transfer_review_audit_records db' = transfer_review_audit_records db @ [a]"
    and "decision \<noteq> ''open''" "l_status nxt \<noteq> StatusReviewRequired"
      "au_transfer_id a = l_id cur" "au_decision a = decision" "au_actor_subject a = subject" "au_occurred_at a = at"
  shows "cases_ok db' (advance cur nxt ls)"
proof -
  let ?f = "\<lambda>c. if rc_transfer_id c = l_id cur \<and> rc_status c = ''open'' then decided_row decision subject at c else c"
  have id: "rc_transfer_id (?f c) = rc_transfer_id c" for c by (simp add: decided_row_def)
  then have "map rc_transfer_id (transfer_review_cases db') = map rc_transfer_id (transfer_review_cases db)"
    by (simp add: assms(5))
  moreover from this have "rc_transfer_id ` set (transfer_review_cases db') = rc_transfer_id ` set (transfer_review_cases db)"
    by (metis list.set_map)
  moreover have "\<forall>c \<in> set (transfer_review_cases db'). audited db' c"
    using assms(1,6,9-12) by (auto simp: assms(5) cases_ok_def audited_def decided_row_def)
  moreover have "\<not> open_case db' (l_id cur)"
    using assms(7) by (auto simp: open_case_def assms(5) decided_row_def)
  moreover have "open_case db' i \<longleftrightarrow> open_case db i" if "i \<noteq> l_id cur" for i
    using that by (auto simp: open_case_def assms(5) decided_row_def)
  ultimately show ?thesis
    using assms(1,8) by (intro cases_ok_advance [OF assms(1-4)]) (auto simp: cases_ok_def)
qed

section \<open>Reservation and transitions\<close>

lemma ReserveTx_Inr:
  assumes "ReserveTx n e db = (Inr b, db')"
  shows "if b then (n, en_eventID e) \<notin> reserved db \<and>
      db' = db\<lparr>consumer_inbox := consumer_inbox db @ [new_inbox_row (clock db) n e]\<rparr>
    else (n, en_eventID e) \<in> reserved db \<and> db' = db"
  using assms
  by (auto simp: ReserveTx_def insert_inbox_row_def result_simps reserved_def new_inbox_row_def
      split: if_splits prod.splits sum.splits option.splits)

lemma reserved_after:
  "(n, en_eventID e) \<in> reserved (db\<lparr>consumer_inbox := consumer_inbox db @ [new_inbox_row now n e]\<rparr>)"
  by (simp add: reserved_def new_inbox_row_def)

lemma risk_transition_step: "risk_transition l d = Inr l' \<Longrightarrow> lifecycle_step l l'"
  by (cases d) (auto intro: lifecycle_step.intros)

lemma risk_transition_status: "risk_transition l d = Inr l' \<Longrightarrow> matchesRiskDecision (l_status l') d"
  by (cases d) (auto simp: lifecycle_ops transition_def NewLifecycle_Inr split: if_splits)

lemma lifecycle_step_facts:
  assumes "lifecycle_ok l" "lifecycle_step l l'"
  shows "lifecycle_ok l'" "l_transfer l' = l_transfer l" "l_version l' = l_version l + 1"
    "l_riskPolicyVersion l' = l_riskPolicyVersion l" "status_step (l_status l) (l_status l')"
  using assms by (rule lifecycle_stepE; simp)+

lemma run_handler_effect:
  "run_handler env body db = (r, db') \<Longrightarrow>
     db' = db \<or> (\<exists>x. body db = (Inr x, db') \<and> transfers_deferred db' = None)"
  unfolding run_handler_def by (rule run_deferred_effect)

lemma run_handler_Inr:
  "run_handler env body db = (Inr x, db') \<Longrightarrow> body db = (Inr x, db') \<and> transfers_deferred db' = None"
  by (simp add: run_handler_def run_deferred_Inr)

lemma run_handler_Inl:
  "run_handler env body db = (Inl e, db') \<Longrightarrow>
     db' = db \<or> (\<exists>x s. body db = (Inr x, db') \<and> tx_commit env = CommitAckLost s)"
  by (auto simp: run_handler_def dest!: run_deferred_Inl)


section \<open>Storing an assessment\<close>

lemma insert_review_row_Inr:
  "insert_review_row c db = (Inr u, db') \<Longrightarrow>
     rc_transfer_id c \<notin> rc_transfer_id ` set (transfer_review_cases db) \<and>
     db' = db\<lparr>transfer_review_cases := transfer_review_cases db @ [c]\<rparr>"
  by (auto simp: insert_review_row_def constrained_Inr)

lemma insertRiskAssessment_Inr:
  assumes "insertRiskAssessment jsonb store cur nxt ev input signals cause at db = (Inr u, db')"
  obtains a where "db' = db\<lparr>transfer_risk_assessments := transfer_risk_assessments db @ [a]\<rparr>"
  using assms that by (auto simp: insertRiskAssessment_def insert_assessment_row_def result_simps)

lemma StoreRiskAssessmentTx_Inr:
  assumes "stored db ls" "cur \<in> set ls" "lifecycle_step cur nxt"
    "StoreRiskAssessmentTx scan store jsonb cur nxt input ev cause at db = (Inr u, db')"
  obtains a cs where
    "db' = db\<lparr>transfers := map lifecycle_row (advance cur nxt ls),
       transfer_risk_assessments := transfer_risk_assessments db @ [a],
       transfer_review_cases := transfer_review_cases db @ cs\<rparr>"
    "l_status cur = StatusPendingRisk"
    "if l_status nxt = StatusReviewRequired
     then \<exists>c. cs = [c] \<and> rc_transfer_id c = l_id cur \<and> rc_status c = ''open'' \<and>
       l_id cur \<notin> rc_transfer_id ` set (transfer_review_cases db)
     else cs = []"
proof -
  note ok = stored_ok [OF assms(1,2)]
  note nxt = lifecycle_step_facts [OF ok assms(3)]
  from assms(4) obtain i sg cid where prep: "prepareRiskAssessment scan cur nxt input ev cause at = Inr (i, sg, cid)"
    by (auto simp: StoreRiskAssessmentTx_def result_simps)
  then have cur: "l_status cur = StatusPendingRisk" and "matchesRiskDecision (l_status nxt) (ev_decision ev)"
    by (auto simp: prepareRiskAssessment_def result_simps split: if_splits)
  then have "l_status nxt \<in> {StatusApproved, StatusReviewRequired, StatusDeclined}"
    using nxt(5) by simp
  then have "l_journalEntryID nxt = []" "l_failureReason nxt = []" "l_journalEntryID cur = []" "l_failureReason cur = []"
    using ok nxt(1) cur by (auto simp: lifecycle_ok_def)
  then have row: "assessed_row nxt (lifecycle_row cur) = lifecycle_row nxt"
    using nxt(2,4) by (simp add: assessed_row_lifecycle)
  let ?db1 = "db\<lparr>transfers := map lifecycle_row (advance cur nxt ls)\<rparr>"
  from assms(4) obtain db2 where db2:
    "insertRiskAssessment jsonb store cur nxt ev i sg cid at ?db1 = (Inr (), db2)"
    "(if l_status nxt = StatusReviewRequired then insertReviewCase store cur nxt at else tx_return ()) db2 = (Inr u, db')"
    using update_row [where new = "assessed_row nxt", OF assms(1,2) nxt(1) row]
    by (auto simp: StoreRiskAssessmentTx_def prep result_simps)
  from insertRiskAssessment_Inr [OF db2(1)] obtain a where a:
    "db2 = ?db1\<lparr>transfer_risk_assessments := transfer_risk_assessments db @ [a]\<rparr>" by auto
  show thesis
  proof (cases "l_status nxt = StatusReviewRequired")
    case True
    with db2(2) obtain c where c: "insert_review_row c db2 = (Inr u, db')" "rc_transfer_id c = l_id cur"
      "rc_status c = ''open''" by (simp add: insertReviewCase_def)
    from insert_review_row_Inr [OF c(1)] c(2,3) True cur show thesis
      by (intro that [where a = a and cs = "[c]"]) (simp_all add: a)
  next
    case False
    with db2(2) that [where a = a and cs = "[]"] cur show thesis by (simp add: a tx_return_eq)
  qed
qed


section \<open>What the handlers do\<close>

definition same_ledger :: "database \<Rightarrow> database \<Rightarrow> bool" where
  "same_ledger db db' \<longleftrightarrow>
     wallets db' = wallets db \<and> accounts db' = accounts db \<and> account_balances db' = account_balances db \<and>
     journal_entries db' = journal_entries db \<and> postings db' = postings db"

text \<open>The event is recorded for the consumer, and nothing is quarantined.\<close>

definition inboxed :: "string \<Rightarrow> envelope \<Rightarrow> database \<Rightarrow> database \<Rightarrow> bool" where
  "inboxed n e db db' \<longleftrightarrow>
     consumer_inbox db' = consumer_inbox db @ [new_inbox_row (clock db) n e] \<and>
     consumer_quarantine db' = consumer_quarantine db"

text \<open>One stored lifecycle takes one step, and one event announces it.\<close>

definition stepped :: "string \<Rightarrow> Lifecycle \<Rightarrow> Lifecycle \<Rightarrow> database \<Rightarrow> database \<Rightarrow> Lifecycle list \<Rightarrow> bool" where
  "stepped ty cur nxt db db' ls \<longleftrightarrow>
     cur \<in> set ls \<and> lifecycle_step cur nxt \<and> transfers db' = map lifecycle_row (advance cur nxt ls) \<and>
     (\<exists>row. outbox_events db' = outbox_events db @ [row] \<and> o_aggregate_id row = l_id cur \<and>
        event_of row = (ty, l_version nxt))"

lemma stepped_consistent:
  assumes "consistent db ls" "stepped ty cur nxt db db' ls" "schema_ok db'" "transfers_deferred db' = None"
    and "\<And>v es. event_log (l_status cur) v es \<Longrightarrow> event_log (l_status nxt) (v + 1) (es @ [(ty, v + 1)])"
    and "booked db' nxt" "only_books (l_id cur) db db'" "cases_ok db' (advance cur nxt ls)"
  shows "consistent db' (advance cur nxt ls)"
proof -
  from assms(2) obtain row where row: "cur \<in> set ls" "lifecycle_step cur nxt"
    "transfers db' = map lifecycle_row (advance cur nxt ls)" "outbox_events db' = outbox_events db @ [row]"
    "o_aggregate_id row = l_id cur" "event_of row = (ty, l_version nxt)" by (auto simp: stepped_def)
  note nxt = lifecycle_step_facts [OF stored_ok [OF consistentD(1) [OF assms(1)] row(1)] row(2)]
  have "event_log (l_status nxt) (l_version nxt) (events_of db (l_id cur) @ [event_of row])"
    using assms(5) consistentD(5) [OF assms(1) row(1)] nxt(3) row(6) by (simp add: announced_def)
  from consistent_advance [OF assms(1) row(1) nxt(1,2) row(3) assms(3,4) row(4,5) this assms(6-8)] show ?thesis .
qed

lemma booked_untouched:
  assumes "booked db cur" "l_transfer nxt = l_transfer cur" "posted_of db' = posted_of db" "entry_ids db' = entry_ids db"
    and "l_status cur \<noteq> StatusCompleted" "l_status nxt \<noteq> StatusCompleted"
  shows "booked db' nxt"
  using assms by (simp add: booked_def)

lemma status_step_completed: "status_step s s' \<Longrightarrow> s \<noteq> StatusCompleted"
  by (cases s) simp_all

lemma canonical_id: "lifecycle_ok l \<Longrightarrow> isCanonicalUUID (l_id l)"
  by (simp add: lifecycle_ok_def transfer_ok_def)

text \<open>The assessment of a pending transfer.\<close>

lemma risk_body_effect:
  assumes "consistent db ls" "transfers_deferred db' = None"
    "risk_body scan store jsonb eventID sequence now velocity policy requested e db = (Inr u, db')"
  shows "db' = db \<and> (risk_consumerName, en_eventID e) \<in> reserved db \<or>
    (\<exists>cur nxt ev. stepped RiskAssessedType cur nxt db db' ls \<and> consistent db' (advance cur nxt ls) \<and>
      matches_request cur requested \<and> Evaluate policy (captureInput velocity cur now) = Inr ev \<and>
      matchesRiskDecision (l_status nxt) (ev_decision ev) \<and>
      (risk_consumerName, en_eventID e) \<notin> reserved db \<and>
      (risk_consumerName, en_eventID e) \<in> reserved db' \<and> same_ledger db db' \<and> inboxed risk_consumerName e db db')"
proof -
  from assms(3) obtain b db1 where b: "ReserveTx risk_consumerName e db = (Inr b, db1)"
    by (auto simp: risk_body_def tx_bind_Inr)
  note rb = ReserveTx_Inr [OF b]
  show ?thesis
  proof (cases b)
    case False
    with b rb assms(3) show ?thesis by (simp add: risk_body_def tx_bind_def tx_return_def)
  next
    case True
    with rb have r: "(risk_consumerName, en_eventID e) \<notin> reserved db"
      "db1 = db\<lparr>consumer_inbox := consumer_inbox db @ [new_inbox_row (clock db) risk_consumerName e]\<rparr>" by auto
    have c1: "consistent db1 ls" using assms(1) by (simp add: r(2))
    from assms(3) b True obtain cur ev nxt d db2 db3 ev_id where
      load: "LoadLifecycleForUpdateTx scan (l_id requested) db1 = (Inr cur, db2)" and m: "matches_request cur requested"
      and ev: "Evaluate policy (captureInput velocity cur now) = Inr ev"
      and nxt: "risk_transition cur (ev_decision ev) = Inr nxt"
      and st: "StoreRiskAssessmentTx scan store jsonb cur nxt (captureInput velocity cur now) ev (en_eventID e) now db2
        = (Inr (), db3)"
      and d: "RiskAssessed nxt ev now (en_eventID e) = Inr d"
      and add: "AddTx jsonb store eventID sequence d db3 = (Inr ev_id, db')"
      by (auto simp: risk_body_def result_simps Let_def split: if_splits)
    note l = Load_Inr [OF consistentD(1) [OF c1] load]
    note step = risk_transition_step [OF nxt] and status = risk_transition_status [OF nxt]
    note f = lifecycle_step_facts [OF l(4) step]
    obtain a cs where db3: "db3 = db1\<lparr>transfers := map lifecycle_row (advance cur nxt ls),
       transfer_risk_assessments := transfer_risk_assessments db1 @ [a],
       transfer_review_cases := transfer_review_cases db1 @ cs\<rparr>" "l_status cur = StatusPendingRisk"
      "if l_status nxt = StatusReviewRequired
       then \<exists>c. cs = [c] \<and> rc_transfer_id c = l_id cur \<and> rc_status c = ''open'' \<and>
         l_id cur \<notin> rc_transfer_id ` set (transfer_review_cases db1)
       else cs = []"
      using StoreRiskAssessmentTx_Inr [OF consistentD(1) [OF c1] l(2) step st [unfolded l(1)]] .
    obtain row where row: "db' = db3\<lparr>outbox_events := outbox_events db3 @ [row]\<rparr>" "o_aggregate_id row = l_id cur"
      "event_of row = (RiskAssessedType, l_version nxt)"
      using AddTx_event [OF add event_drafts(2) [OF canonical_id [OF f(1)] d]] f(2) by metis
    have s: "stepped RiskAssessedType cur nxt db1 db' ls"
      using l(2) step row by (auto simp: stepped_def db3(1))
    have "cases_ok db' (advance cur nxt ls)"
    proof (cases "l_status nxt = StatusReviewRequired")
      case True
      with db3(3) obtain c where "cs = [c]" "rc_transfer_id c = l_id cur" "rc_status c = ''open''"
        "l_id cur \<notin> rc_transfer_id ` set (transfer_review_cases db1)" by auto
      with True show ?thesis
        by (intro cases_ok_opened [OF consistentD(7,1) [OF c1] l(2) f(2)]) (simp_all add: row(1) db3(1))
    next
      case False
      with db3(2,3) show ?thesis
        by (intro cases_ok_untouched [OF consistentD(7,1) [OF c1] l(2) f(2)]) (simp_all add: row(1) db3(1))
    qed
    moreover have "l_status nxt \<in> {StatusApproved, StatusReviewRequired, StatusDeclined}"
      using f(5) db3(2) by auto
    ultimately have "consistent db' (advance cur nxt ls)"
      using consistentD(2) [OF c1] db3(2)
      by (intro stepped_consistent [OF c1 s _ assms(2)] booked_untouched [OF consistentD(4) [OF c1 l(2)] f(2)])
        (auto simp: row(1) db3(1) intro!: only_books_same intro: event_log.assessed)
    moreover have "stepped RiskAssessedType cur nxt db db' ls" using s by (simp add: stepped_def r(2))
    moreover have "(risk_consumerName, en_eventID e) \<in> reserved db'"
      using reserved_after [of risk_consumerName e db "clock db"] by (simp add: row(1) db3(1) r(2) reserved_def)
    moreover have "same_ledger db db'" by (simp add: same_ledger_def row(1) db3(1) r(2))
    moreover have "inboxed risk_consumerName e db db'" by (simp add: inboxed_def row(1) db3(1) r(2))
    ultimately show ?thesis using m ev status r(1) by blast
  qed
qed

end
