(* ===== verification/Transfer_Settlement.thy ===== *)
theory Transfer_Settlement
  imports Transfer_Handlers
begin

text \<open>
  The transaction worker's settlement of an approved transfer: it posts the entry of the transfer and completes it
  exactly when both accounts can take their changes, and fails it otherwise. The analyst's decision is here too.
\<close>

section \<open>Settlement\<close>

lemma transition_event:
  assumes "stored db ls" "cur \<in> set ls" "lifecycle_step cur nxt"
    "draft_for ty (l_id nxt) (l_version nxt) d"
    "tx_bind (StoreLifecycleTransitionTx cur nxt) (\<lambda>_.
       tx_bind (tx_lift (Inr d)) (\<lambda>draft. tx_bind (AddTx jsonb store eventID sequence draft) (\<lambda>_. tx_return ()))) db =
     (Inr u, db')"
  obtains row where "o_aggregate_id row = l_id cur" "event_of row = (ty, l_version nxt)"
    "db' = db\<lparr>transfers := map lifecycle_row (advance cur nxt ls), outbox_events := outbox_events db @ [row]\<rparr>"
proof -
  note f = lifecycle_step_facts [OF stored_ok [OF assms(1,2)] assms(3)]
  from assms(5) obtain e where
    "AddTx jsonb store eventID sequence d (db\<lparr>transfers := map lifecycle_row (advance cur nxt ls)\<rparr>) = (Inr e, db')"
    by (auto simp: tx_bind_Inr tx_lift_eq tx_return_eq StoreLifecycleTransitionTx_row [OF assms(1,2) f(1,2,4)])
  from AddTx_event [OF this assms(4)] obtain row where "o_aggregate_id row = l_id nxt" "event_of row = (ty, l_version nxt)"
    "db' = db\<lparr>transfers := map lifecycle_row (advance cur nxt ls), outbox_events := outbox_events db @ [row]\<rparr>"
    by auto
  with f(2) show thesis by (intro that [of row]) simp_all
qed


text \<open>The net changes that the entry of a transfer makes, and the balances after them.\<close>

definition change :: "uuid \<Rightarrow> money \<Rightarrow> accountChange" where
  "change account amount =
     \<lparr>ac_accountID = account, ac_currency = currency amount, ac_delta = minorUnits amount, ac_newBalance = 0,
      ac_newVersion = 0\<rparr>"

definition transfer_changes :: "Transfer \<Rightarrow> accountChange set" where
  "transfer_changes t = (\<lambda>p. change (p_accountID p) (p_amount p)) ` set (transfer_postings t)"

definition funded :: "database \<Rightarrow> Transfer \<Rightarrow> bool" where
  "funded db t \<longleftrightarrow>
     (\<forall>c \<in> transfer_changes t. \<exists>b. row_of (account_balances db) (ac_accountID c) = Some b \<and> accepts b c)"

definition moved :: "Transfer \<Rightarrow> balance_row \<Rightarrow> uuid \<times> int64" where
  "moved t b =
     (b_account_id b,
      if b_account_id b = t_sourceAccountID t then b_balance_minor b - minorUnits (t_amount t)
      else if b_account_id b = t_destinationAccountID t then b_balance_minor b + minorUnits (t_amount t)
      else b_balance_minor b)"

definition balances :: "database \<Rightarrow> (uuid \<times> int64) list" where
  "balances db = map (\<lambda>b. (b_account_id b, b_balance_minor b)) (account_balances db)"

lemma balances_frame [simp]:
  "balances (db\<lparr>transfers := x\<rparr>) = balances db" "balances (db\<lparr>outbox_events := es\<rparr>) = balances db"
  "balances (db\<lparr>consumer_inbox := is\<rparr>) = balances db"
  by (simp_all add: balances_def)

lemma funded_iff: "set (pe_changes q) = transfer_changes t \<Longrightarrow> affordable db (pe_changes q) \<longleftrightarrow> funded db t"
  by (simp add: affordable_iff funded_def)

lemma funded_frame [simp]: "funded (db\<lparr>consumer_inbox := is\<rparr>) t = funded db t" "funded (db\<lparr>transfers := x\<rparr>) t = funded db t"
  by (simp_all add: funded_def)

lemma transfer_changes_eq:
  "transfer_changes t =
     {change (t_sourceAccountID t) \<lparr>minorUnits = - minorUnits (t_amount t), currency = currency (t_amount t)\<rparr>,
      change (t_destinationAccountID t) (t_amount t)}"
  by (simp add: transfer_changes_def transfer_postings_def)

lemma balances_posted:
  assumes "prepared_ok q" "set (pe_changes q) = transfer_changes t" "t_sourceAccountID t \<noteq> t_destinationAccountID t"
  shows "balances (posted_db store q db) = map (moved t) (account_balances db)"
proof -
  have d: "distinct (map ac_accountID (pe_changes q))" using assms(1) by (simp add: prepared_ok_def changes_of_def)
  have c: "change_for (pe_changes q) (ac_accountID c) = Some c" if "c \<in> set (pe_changes q)" for c
    unfolding change_for_def using that distinct_map_eq [OF d] by (intro find_unique) auto
  have "(b_account_id b, b_balance_minor (settled (clock db) (pe_changes q) b)) = moved t b" for b
  proof -
    consider "b_account_id b = t_sourceAccountID t" | "b_account_id b = t_destinationAccountID t"
      | "b_account_id b \<notin> ac_accountID ` set (pe_changes q)"
        "b_account_id b \<noteq> t_sourceAccountID t" "b_account_id b \<noteq> t_destinationAccountID t"
      using assms(2) by (auto simp: transfer_changes_eq change_def)
    then show ?thesis
      using c [of "change (t_sourceAccountID t) \<lparr>minorUnits = - minorUnits (t_amount t), currency = currency (t_amount t)\<rparr>"]
        c [of "change (t_destinationAccountID t) (t_amount t)"] assms(2,3)
      by cases (simp_all add: settled_def moved_def transfer_changes_eq change_def change_for_None [THEN iffD2])
  qed
  then show ?thesis by (simp add: balances_def posted_db_def)
qed

definition entered ::
  "(string \<Rightarrow> uuid option) \<Rightarrow> (gotime \<Rightarrow> gotime) \<Rightarrow> JournalEntry \<Rightarrow> database \<Rightarrow> database \<Rightarrow> bool" where
  "entered scan store entry db db' \<longleftrightarrow>
     (\<exists>q. prepareEntry scan entry = Inr q \<and> pe_reversesID q = None \<and> affordable db (pe_changes q) \<and>
        pe_id q \<notin> entry_ids db \<and> same_ledger (posted_db store q db) db')"

definition settlement ::
  "(string \<Rightarrow> uuid option) \<Rightarrow> (gotime \<Rightarrow> gotime) \<Rightarrow> gotime \<Rightarrow> Lifecycle \<Rightarrow> database \<Rightarrow> database \<Rightarrow> Lifecycle list
     \<Rightarrow> bool" where
  "settlement scan store at cur db db' ls \<longleftrightarrow>
     (\<exists>nxt. consistent db' (advance cur nxt ls) \<and>
       (if funded db (l_transfer cur)
        then stepped CompletedType cur nxt db db' ls \<and> l_status nxt = StatusCompleted \<and>
          balances db' = map (moved (l_transfer cur)) (account_balances db) \<and>
          posted_of db' (l_id cur) = movements (l_transfer cur) \<and>
          entered scan store (transfer_entry (l_transfer cur) at) db db'
        else stepped FailedType cur nxt db db' ls \<and> l_status nxt = StatusFailed \<and>
          l_failureReason nxt = insufficientFundsReason \<and> same_ledger db db'))"

lemma settlement_frame [simp]: "settlement scan store at cur (db\<lparr>consumer_inbox := is\<rparr>) db' ls =
  settlement scan store at cur db db' ls"
  by (simp add: settlement_def stepped_def entered_def same_ledger_def affordable_def posted_db_def
      cong: if_cong)

lemma journalEntry_time: "lifecycle_ok l \<Longrightarrow> journalEntry l at = Inr entry \<Longrightarrow> \<not> IsZero at"
  using transfer_posting_steps [of "l_transfer l"]
  by (auto simp: journalEntry_def Let_def NewJournalEntry_def newJournalEntry_Inr entry_ok_def lifecycle_ok_def split: if_splits)

context uuid_scanner
begin

lemma prepareEntry_transfer:
  assumes "transfer_ok t" "\<not> IsZero at"
  obtains p where "prepareEntry scan (transfer_entry t at) = Inr p" "set (pe_changes p) = transfer_changes t"
proof -
  have ids: "scan (t_id t) = Some (t_id t)" "scan (t_sourceAccountID t) = Some (t_sourceAccountID t)"
    "scan (t_destinationAccountID t) = Some (t_destinationAccountID t)" "t_sourceAccountID t \<noteq> t_destinationAccountID t"
    "TrimSpace (t_id t) = t_id t"
    using assms(1) scan_canonical by (auto simp: transfer_ok_def)
  have "\<exists>e. NewJournalEntry \<lparr>jp_ID = t_id t, jp_Postings = transfer_postings t, jp_RecordedAt = at\<rparr> = Inr e"
    using transfer_entry_ok [OF assms] ids(5) by (simp add: NewJournalEntry_def newJournalEntry_Inr transfer_entry_def)
  moreover have "\<exists>qs cs. preparePostings scan (transfer_postings t) = Inr (qs, cs) \<and> set cs = transfer_changes t"
    using ids(2-4)
    by (auto simp: preparePostings_def transfer_postings_def parseUUID_def transfer_changes_def change_of_def change_def
        Let_def)
  ultimately show thesis using that ids(1)
    by (auto simp: prepareEntry_def transfer_entry_def parseUUID_def prepareReversesID_def)
qed

lemma PostTx_refused:
  assumes "transfer_ok t" "\<not> IsZero at" "schema_ok db" "PostTx scan store (transfer_entry t at) db = (Inl e, db')"
    "errors_Is e (E LedgerRepository ErrInsufficientFunds)"
  shows "\<not> funded db t"
proof
  assume f: "funded db t"
  obtain p where p: "prepareEntry scan (transfer_entry t at) = Inr p" "set (pe_changes p) = transfer_changes t"
    using prepareEntry_transfer [OF assms(1,2)] .
  note ok = prepareEntry_ok [OF p(1)] and rev = prepare_transfer_entry(2) [OF assms(1) p(1)]
  from assms(4) p(1) obtain e' where e': "postPrepared store p db = (Inl e', db')" "e = classifyPostError e'"
    by (auto simp: PostTx_def split: prod.splits sum.splits)
  have a: "affordable db (pe_changes p)" using f funded_iff [OF p(2)] by simp
  show False
  proof (cases "pe_id p \<in> e_id ` set (journal_entries db)")
    case True
    from postPrepared_exists [OF ok assms(3) rev a True] e' assms(5) show False
      by (auto simp: errors_Is_def classifyPostError_def as_PgError_def unique_violation_def)
  next
    case False
    then have "postable db p" using a rev by (simp add: postable_def)
    with postPrepared_Inr [OF ok assms(3), of store "posted_db store p db"] e'(1) show False by auto
  qed
qed

lemma PostTx_clean:
  assumes "schema_ok db" "PostTx scan store entry db = (Inl e, db')"
  shows "db' = db"
proof -
  from assms(2) consider "db' = db"
    | p e' where "prepareEntry scan entry = Inr p" "postPrepared store p db = (Inl e', db')"
    by (auto simp: PostTx_def split: sum.splits prod.splits)
  then show ?thesis by cases (use postPrepared_Inl [OF prepareEntry_ok] assms(1) in auto)
qed

lemma complete_effect:
  assumes at: "\<not> IsZero at" and "consistent db ls" "cur \<in> set ls" "l_status cur = StatusApproved" "transfers_deferred db' = None"
    "PostTx scan store (transfer_entry (l_transfer cur) at) db = (Inr v, db1)"
    "tx_bind (tx_lift (Complete cur)) (\<lambda>nxt.
       tx_bind (StoreLifecycleTransitionTx cur nxt) (\<lambda>_.
       tx_bind (tx_lift (CompletedLifecycle nxt at cause)) (\<lambda>draft.
       tx_bind (AddTx jsonb store eventID sequence draft) (\<lambda>_. tx_return ())))) db1 = (Inr u, db')"
  shows "settlement scan store at cur db db' ls \<and> consumer_inbox db' = consumer_inbox db \<and>
    consumer_quarantine db' = consumer_quarantine db"
proof -
  note c = consistentD [OF assms(2)]
  have ok: "lifecycle_ok cur" by (rule stored_ok [OF c(1) assms(3)])
  then have tr: "transfer_ok (l_transfer cur)" by (simp add: lifecycle_ok_def)
  obtain q where q: "prepareEntry scan (transfer_entry (l_transfer cur) at) = Inr q" "pe_id q = l_id cur"
    "affordable db (pe_changes q)" "db1 = posted_db store q db" "schema_ok db1"
    "posted_of db1 (l_id cur) = movements (l_transfer cur)" "\<And>i. i \<noteq> l_id cur \<Longrightarrow> posted_of db1 i = posted_of db i"
    by (rule PostTx_transfer [OF tr c(2) assms(6)]) metis
  have post: "postable db q"
    using assms(6) q(1) postPrepared_Inr [OF prepareEntry_ok [OF q(1)] c(2)]
    by (auto simp: PostTx_def split: prod.splits sum.splits)
  obtain q' where "prepareEntry scan (transfer_entry (l_transfer cur) at) = Inr q'"
    "set (pe_changes q') = transfer_changes (l_transfer cur)" by (rule prepareEntry_transfer [OF tr at])
  with q(1) have ch: "set (pe_changes q) = transfer_changes (l_transfer cur)" by simp
  from assms(7) obtain nxt d where nxt: "Complete cur = Inr nxt" "CompletedLifecycle nxt at cause = Inr d"
    "tx_bind (StoreLifecycleTransitionTx cur nxt) (\<lambda>_. tx_bind (tx_lift (Inr d)) (\<lambda>draft.
       tx_bind (AddTx jsonb store eventID sequence draft) (\<lambda>_. tx_return ()))) db1 = (Inr u, db')"
    by (auto simp: tx_bind_Inr tx_lift_eq)
  note step = lifecycle_step.complete [OF nxt(1)]
  note f = lifecycle_step_facts [OF ok step]
  have st: "l_status nxt = StatusCompleted"
    using nxt(1) by (auto simp: Complete_def transition_def NewLifecycle_Inr split: if_splits)
  have stored: "stored db1 ls" using c(1) stored_cong [of db1 db ls] by (simp add: q(4) posted_db_def)
  obtain row where row: "o_aggregate_id row = l_id cur" "event_of row = (CompletedType, l_version nxt)"
    "db' = db1\<lparr>transfers := map lifecycle_row (advance cur nxt ls), outbox_events := outbox_events db1 @ [row]\<rparr>"
    by (rule transition_event [OF stored assms(3) step event_drafts(4) [OF canonical_id [OF f(1)] nxt(2)] nxt(3)])
  have s: "stepped CompletedType cur nxt db db' ls"
    using assms(3) step row by (auto simp: stepped_def q(4) posted_db_def)
  have "l_id cur \<in> entry_ids db'"
    using q(2) by (simp add: row(3) q(4) posted_db_def entry_ids_def entry_row_of_def)
  then have "booked db' nxt" using q(6) st f(2) by (simp add: booked_def row(3))
  moreover have "only_books (l_id cur) db db'"
    using q(7) q(2) by (simp add: only_books_def row(3) q(4) entry_ids_def posted_db_def entry_row_of_def)
  moreover have "cases_ok db' (advance cur nxt ls)"
    by (rule cases_ok_untouched [OF c(7,1) assms(3) f(2)])
      (simp_all add: row(3) q(4) posted_db_def st assms(4))
  ultimately have "consistent db' (advance cur nxt ls)"
    using stepped_consistent [OF assms(2) s _ assms(5)] q(5) st assms(4) by (simp add: row(3) event_log.completed)
  moreover have "funded db (l_transfer cur)" "balances db' = map (moved (l_transfer cur)) (account_balances db)"
    using q(3) funded_iff [OF ch] balances_posted [OF prepareEntry_ok [OF q(1)] ch] tr
    by (simp_all add: row(3) q(4) transfer_ok_def)
  moreover have "posted_of db' (l_id cur) = movements (l_transfer cur)" using q(6) by (simp add: row(3))
  moreover have "entered scan store (transfer_entry (l_transfer cur) at) db db'"
    using q(1) post prepare_transfer_entry(2) [OF tr q(1)]
    by (auto simp: entered_def row(3) q(4) same_ledger_def postable_def entry_ids_def)
  ultimately have "settlement scan store at cur db db' ls" using s st unfolding settlement_def by auto
  then show ?thesis by (simp add: row(3) q(4) posted_db_def)
qed

lemma fail_effect:
  assumes at: "\<not> IsZero at" and "consistent db ls" "cur \<in> set ls" "l_status cur = StatusApproved" "transfers_deferred db' = None"
    "PostTx scan store (transfer_entry (l_transfer cur) at) db = (Inl e, db)"
    "errors_Is e (E LedgerRepository ErrInsufficientFunds)"
    "fail_transfer store jsonb eventID sequence cur cause at db = (Inr u, db')"
  shows "settlement scan store at cur db db' ls \<and> consumer_inbox db' = consumer_inbox db \<and>
    consumer_quarantine db' = consumer_quarantine db"
proof -
  note c = consistentD [OF assms(2)]
  have ok: "lifecycle_ok cur" by (rule stored_ok [OF c(1) assms(3)])
  from assms(8) obtain nxt d where nxt: "Fail cur insufficientFundsReason = Inr nxt" "Failed nxt at cause = Inr d"
    "tx_bind (StoreLifecycleTransitionTx cur nxt) (\<lambda>_. tx_bind (tx_lift (Inr d)) (\<lambda>draft.
       tx_bind (AddTx jsonb store eventID sequence draft) (\<lambda>_. tx_return ()))) db = (Inr u, db')"
    by (auto simp: fail_transfer_def tx_bind_Inr tx_lift_eq)
  note step = lifecycle_step.failure [OF nxt(1)]
  note f = lifecycle_step_facts [OF ok step]
  have st: "l_status nxt = StatusFailed" "l_failureReason nxt = insufficientFundsReason"
    using nxt(1) by (auto simp: Fail_def transition_def NewLifecycle_Inr insufficientFundsReason_def TrimSpace_visible
        visible_def split: if_splits)
  obtain row where row: "o_aggregate_id row = l_id cur" "event_of row = (FailedType, l_version nxt)"
    "db' = db\<lparr>transfers := map lifecycle_row (advance cur nxt ls), outbox_events := outbox_events db @ [row]\<rparr>"
    by (rule transition_event [OF c(1) assms(3) step event_drafts(5) [OF canonical_id [OF f(1)] nxt(2)] nxt(3)])
  have s: "stepped FailedType cur nxt db db' ls" using assms(3) step row by (auto simp: stepped_def)
  have "booked db' nxt" by (rule booked_untouched [OF c(4) [OF assms(3)] f(2)]) (simp_all add: row(3) st assms(4))
  moreover have "only_books (l_id cur) db db'" by (simp add: only_books_same row(3))
  moreover have "cases_ok db' (advance cur nxt ls)"
    by (rule cases_ok_untouched [OF c(7,1) assms(3) f(2)]) (simp_all add: row(3) st assms(4))
  ultimately have "consistent db' (advance cur nxt ls)"
    using stepped_consistent [OF assms(2) s _ assms(5)] c(2) st assms(4) by (simp add: row(3) event_log.failed)
  moreover have "\<not> funded db (l_transfer cur)"
    using PostTx_refused [OF _ at c(2) assms(6,7)] ok by (simp add: lifecycle_ok_def)
  ultimately have "settlement scan store at cur db db' ls" using s st unfolding settlement_def by (auto simp: row(3) same_ledger_def)
  then show ?thesis by (simp add: row(3))
qed

lemma post_effect:
  assumes "consistent db ls" "cur \<in> set ls" "transfers_deferred db' = None"
    "post scan store jsonb eventID sequence cur cause at db = (Inr u, db')"
  shows "l_status cur = StatusApproved \<and> settlement scan store at cur db db' ls \<and>
    consumer_inbox db' = consumer_inbox db \<and> consumer_quarantine db' = consumer_quarantine db"
proof -
  note c = consistentD [OF assms(1)]
  from assms(4) obtain entry where entry: "journalEntry cur at = Inr entry" by (auto simp: post_def split: sum.splits)
  note j = journalEntry_Inr [OF stored_ok [OF c(1) assms(2)] entry] journalEntry_time [OF stored_ok [OF c(1) assms(2)] entry]
  show ?thesis
  proof (cases "PostTx scan store entry db")
    case (Pair r db1)
    show ?thesis
    proof (cases r)
      case (Inl e)
      with Pair assms(4) entry PostTx_clean [OF c(2)] have e: "db1 = db" "errors_Is e (E LedgerRepository ErrInsufficientFunds)"
        "fail_transfer store jsonb eventID sequence cur cause at db = (Inr u, db')"
        by (auto simp: post_def split: if_splits)
      from fail_effect [OF j(3) assms(1,2) j(2) assms(3) _ e(2,3)] Pair Inl e(1) j show ?thesis by simp
    next
      case (Inr v)
      from Pair [unfolded Inr j(1)]
      have p: "PostTx scan store (transfer_entry (l_transfer cur) at) db = (Inr v, db1)" .
      from assms(4) have "tx_bind (tx_lift (Complete cur)) (\<lambda>nxt.
       tx_bind (StoreLifecycleTransitionTx cur nxt) (\<lambda>_.
       tx_bind (tx_lift (CompletedLifecycle nxt at cause)) (\<lambda>draft.
       tx_bind (AddTx jsonb store eventID sequence draft) (\<lambda>_. tx_return ())))) db1 = (Inr u, db')"
        by (simp add: post_def entry Pair Inr)
      from complete_effect [OF j(3) assms(1,2) j(2) assms(3) p this] j(2) show ?thesis by simp
    qed
  qed
qed

text \<open>The two handlers of the transaction worker, after their own reads.\<close>

lemma settle_effect:
  assumes "consistent db ls" "transfers_deferred db' = None"
    "tx_bind (ReserveTx transaction_consumerName e) (\<lambda>reserved.
       if \<not> reserved then tx_return ()
       else tx_bind (LoadLifecycleForUpdateTx scan i) (\<lambda>current.
         if conflict current then tx_lift (fail TransferRepository ErrStateConflict)
         else if ignore then tx_return ()
         else post scan store jsonb eventID sequence current (en_eventID e) now)) db = (Inr u, db')"
  shows "db' = db \<and> (transaction_consumerName, en_eventID e) \<in> reserved db \<or>
    (transaction_consumerName, en_eventID e) \<notin> reserved db \<and>
    (transaction_consumerName, en_eventID e) \<in> reserved db' \<and> inboxed transaction_consumerName e db db' \<and>
    (\<exists>cur \<in> set ls. scan i = Some (l_id cur) \<and> \<not> conflict cur \<and>
       (if ignore
        then db' = db\<lparr>consumer_inbox := consumer_inbox db @ [new_inbox_row (clock db) transaction_consumerName e]\<rparr>
        else l_status cur = StatusApproved \<and> settlement scan store now cur db db' ls))"
proof -
  from assms(3) obtain b db1 where b: "ReserveTx transaction_consumerName e db = (Inr b, db1)"
    by (auto simp: tx_bind_Inr)
  note rb = ReserveTx_Inr [OF b]
  show ?thesis
  proof (cases b)
    case False
    with b rb assms(3) show ?thesis by (simp add: tx_bind_def tx_return_def)
  next
    case True
    let ?row = "new_inbox_row (clock db) transaction_consumerName e"
    from True rb have r: "(transaction_consumerName, en_eventID e) \<notin> reserved db"
      "db1 = db\<lparr>consumer_inbox := consumer_inbox db @ [?row]\<rparr>" by auto
    have c1: "consistent db1 ls" using assms(1) by (simp add: r(2))
    from assms(3) b True obtain cur db2 where load: "LoadLifecycleForUpdateTx scan i db1 = (Inr cur, db2)"
      and ok: "\<not> conflict cur"
      and rest: "(if ignore then tx_return () else post scan store jsonb eventID sequence cur (en_eventID e) now) db2 =
        (Inr u, db')"
      by (auto simp: result_simps split: if_splits)
    note l = Load_Inr [OF consistentD(1) [OF c1] load]
    have res: "(transaction_consumerName, en_eventID e) \<in> reserved db1"
      unfolding r(2) by (rule reserved_after)
    show ?thesis
    proof (cases ignore)
      case True
      with rest l(1) have "db' = db1" by (simp add: tx_return_eq)
      with True res r l(2,3) ok show ?thesis by (auto simp: inboxed_def)
    next
      case False
      with rest l(1) have "post scan store jsonb eventID sequence cur (en_eventID e) now db1 = (Inr u, db')" by simp
      note p = post_effect [OF c1 l(2) assms(2) this]
      have "settlement scan store now cur db db' ls" using p by (simp add: r(2))
      moreover have "(transaction_consumerName, en_eventID e) \<in> reserved db'" using p res by (simp add: reserved_def)
      moreover have "inboxed transaction_consumerName e db db'" using p by (simp add: inboxed_def r(2))
      ultimately show ?thesis using False r(1) l(2,3) ok p by auto
    qed
  qed
qed

lemma decide_body_effect:
  assumes "consistent db ls" "transfers_deferred db' = None" "decision = case_DecisionApprove \<or> decision = case_DecisionDecline"
    "decide_body scan store jsonb eventID sequence now who i decision db = (Inr u, db')"
  shows "\<exists>cur nxt a. scan i = Some (l_id cur) \<and> l_status cur = StatusReviewRequired \<and>
    stepped ReviewDecidedType cur nxt db db' ls \<and> consistent db' (advance cur nxt ls) \<and>
    l_status nxt = (if decision = case_DecisionApprove then StatusApproved else StatusDeclined) \<and>
    transfer_review_audit_records db' = transfer_review_audit_records db @ [a] \<and>
    au_transfer_id a = l_id cur \<and> au_decision a = decision \<and> au_actor_subject a = pr_Subject who \<and>
    au_occurred_at a = store now \<and> same_ledger db db' \<and>
    consumer_inbox db' = consumer_inbox db"
proof -
  note c = consistentD [OF assms(1)]
  from assms(4) obtain cur db0 where load: "LoadLifecycleForUpdateTx scan i db = (Inr cur, db0)"
    by (auto simp: decide_body_def tx_bind_Inr)
  note l = Load_Inr [OF c(1) load]
  from assms(4) load [unfolded l(1)] obtain nxt d db1 db2 db3 eid where st: "l_status cur = StatusReviewRequired"
    and nxt: "(if decision = case_DecisionApprove then Approve cur else Decline cur) = Inr nxt"
    and up: "StoreLifecycleTransitionTx cur nxt db = (Inr (), db1)"
    and rc: "DecideReviewCaseTx scan store i decision (pr_Subject who) now db1 = (Inr (), db2)"
    and au: "AppendReviewDecisionTx scan store
         \<lparr>rv_TransferID = i, rv_LifecycleVersion = l_version nxt, rv_Decision = decision,
          rv_ActorSubject = pr_Subject who, rv_OccurredAt = now\<rparr> db2 = (Inr (), db3)"
    and d: "ReviewDecided nxt (pr_Subject who) now = Inr d"
    and add: "AddTx jsonb store eventID sequence d db3 = (Inr eid, db')"
    by (auto simp: decide_body_def result_simps split: if_splits)
  have step: "lifecycle_step cur nxt" using nxt by (auto intro: lifecycle_step.intros split: if_splits)
  note f = lifecycle_step_facts [OF l(4) step]
  have ns: "l_status nxt = (if decision = case_DecisionApprove then StatusApproved else StatusDeclined)"
    using nxt by (auto simp: lifecycle_ops transition_def NewLifecycle_Inr split: if_splits)
  have db1: "db1 = db\<lparr>transfers := map lifecycle_row (advance cur nxt ls)\<rparr>"
    using up StoreLifecycleTransitionTx_row [OF c(1) l(2) f(1,2,4)] by simp
  have db2: "db2 = db1\<lparr>transfer_review_cases := map (\<lambda>r. if rc_transfer_id r = l_id cur \<and> rc_status r = ''open''
      then decided_row decision (pr_Subject who) (store now) r else r) (transfer_review_cases db1)\<rparr>"
    using rc l(3) by (auto simp: DecideReviewCaseTx_def result_simps transfer_parseUUID_def update_review_rows_Inr split: if_splits)
  from au l(3) obtain a where a: "db3 = db2\<lparr>transfer_review_audit_records := transfer_review_audit_records db2 @ [a]\<rparr>"
    "au_transfer_id a = l_id cur" "au_decision a = decision" "au_actor_subject a = pr_Subject who"
    "au_occurred_at a = store now"
    by (auto simp: AppendReviewDecisionTx_def insert_audit_row_def constrained_Inr split: option.splits)
  obtain row where row: "db' = db3\<lparr>outbox_events := outbox_events db3 @ [row]\<rparr>" "o_aggregate_id row = l_id cur"
    "event_of row = (ReviewDecidedType, l_version nxt)"
    using AddTx_event [OF add event_drafts(3) [OF canonical_id [OF f(1)] d]] f(2) by metis
  have s: "stepped ReviewDecidedType cur nxt db db' ls"
    using l(2) step row by (auto simp: stepped_def a(1) db2 db1)
  have "cases_ok db' (advance cur nxt ls)"
    using assms(3) a(2-5) ns
    by (intro cases_ok_closed [OF c(7,1) l(2) f(2), where decision = decision and subject = "pr_Subject who" and
          at = "store now" and a = a])
      (auto simp: row(1) a(1) db2 db1 case_DecisionApprove_def case_DecisionDecline_def)
  then have "consistent db' (advance cur nxt ls)"
    using c(2) st ns
    by (intro stepped_consistent [OF assms(1) s _ assms(2)] booked_untouched [OF c(4) [OF l(2)] f(2)])
      (auto simp: row(1) a(1) db2 db1 intro!: only_books_same intro: event_log.decided)
  with s l(3) st ns a(2-5) show ?thesis
    by (intro exI [of _ cur] exI [of _ nxt] exI [of _ a]) (simp add: row(1) a(1) db2 db1 same_ledger_def)
qed

end

end
