(* ===== verification/Wallet_Repository.thy ===== *)
theory Wallet_Repository
  imports Ledger_Domain Schema
begin

text \<open>
  Wallets and their accounts (\<open>internal/wallet/model.go\<close>, \<open>internal/wallet/postgres/repository.go\<close>):
  creating a wallet with one zero-balance account per currency, and reading it back.

  The identifiers that \<open>gen_random_uuid()\<close> generates are arguments: \<open>walletID\<close> for the wallet and
  \<open>accountID code\<close> for the account in the currency \<open>code\<close>.
\<close>

section \<open>Read models\<close>

datatype wallet_status = StatusActive | StatusFrozen | StatusClosed

definition ParseStatus :: "string \<Rightarrow> wallet_status result" where
  "ParseStatus value =
     (if value = ''active'' then Inr StatusActive
      else if value = ''frozen'' then Inr StatusFrozen
      else if value = ''closed'' then Inr StatusClosed
      else fail WalletDomain ErrInvalidStatus)"

record Account =
  acct_ID :: string
  acct_WalletID :: string
  acct_Status :: wallet_status
  acct_Balance :: money
  acct_BalanceVersion :: int64
  acct_CreatedAt :: gotime
  acct_UpdatedAt :: gotime

record Wallet =
  wl_ID :: string
  wl_OwnerID :: string
  wl_Status :: wallet_status
  wl_Accounts :: "Account list"
  wl_CreatedAt :: gotime
  wl_UpdatedAt :: gotime

section \<open>Operations\<close>

definition maxCurrenciesPerWallet :: nat where "maxCurrenciesPerWallet = 32"

fun collect_codes :: "string list \<Rightarrow> string list \<Rightarrow> currency list \<Rightarrow> string list result" where
  "collect_codes seen codes [] = Inr codes"
| "collect_codes seen codes (c # cs) =
     (let code = currency_String c in
      if code = [] then fail WalletRepository ErrInvalidArgument
      else if code \<in> set seen then fail WalletRepository ErrInvalidArgument
      else collect_codes (code # seen) (codes @ [code]) cs)"

definition normalizeCurrencies :: "currency list \<Rightarrow> string list result" where
  "normalizeCurrencies currencies =
     (if length currencies = 0 then fail WalletRepository ErrInvalidArgument
      else if maxCurrenciesPerWallet < length currencies then fail WalletRepository ErrInvalidArgument
      else andThen (collect_codes [] [] currencies) (\<lambda>codes. Inr (sort codes)))"

definition wallet_parseUUID :: "(string \<Rightarrow> uuid option) \<Rightarrow> string \<Rightarrow> uuid result" where
  "wallet_parseUUID scan value =
     (case scan value of None \<Rightarrow> Inl [Opaque ''parsing UUID''] | Some u \<Rightarrow> Inr u)"

definition decodeAccount ::
  "uuid \<Rightarrow> uuid \<Rightarrow> gotime \<Rightarrow> int64 \<Rightarrow> gotime \<Rightarrow> string \<Rightarrow> string \<Rightarrow> int64 \<Rightarrow> Account result" where
  "decodeAccount i walletID createdAt version updatedAt currencyCode statusValue balanceMinor =
     andThen (ParseCurrency currencyCode) (\<lambda>c.
     andThen (ParseStatus statusValue) (\<lambda>status.
     andThen (NewMoney balanceMinor c) (\<lambda>balance.
     Inr \<lparr>acct_ID = i, acct_WalletID = walletID, acct_Status = status, acct_Balance = balance,
          acct_BalanceVersion = version, acct_CreatedAt = createdAt, acct_UpdatedAt = updatedAt\<rparr>)))"

definition decodeWallet :: "wallet_row \<Rightarrow> Wallet result" where
  "decodeWallet w =
     andThen (ParseStatus (w_status w)) (\<lambda>status.
     Inr \<lparr>wl_ID = w_id w, wl_OwnerID = w_owner_id w, wl_Status = status, wl_Accounts = [],
          wl_CreatedAt = w_created_at w, wl_UpdatedAt = w_updated_at w\<rparr>)"

definition new_wallet_row :: "gotime \<Rightarrow> uuid \<Rightarrow> uuid \<Rightarrow> wallet_row" where
  "new_wallet_row now walletID ownerID =
     \<lparr>w_id = walletID, w_owner_id = ownerID, w_status = ''active'', w_created_at = now,
      w_updated_at = now\<rparr>"

definition new_account_row :: "gotime \<Rightarrow> uuid \<Rightarrow> uuid \<Rightarrow> string \<Rightarrow> account_row" where
  "new_account_row now accountID walletID code =
     \<lparr>a_id = accountID, a_wallet_id = walletID, a_currency = code, a_status = ''active'',
      a_created_at = now, a_updated_at = now, a_account_type = ''customer''\<rparr>"

definition new_balance_row :: "gotime \<Rightarrow> uuid \<Rightarrow> string \<Rightarrow> balance_row" where
  "new_balance_row now accountID code =
     \<lparr>b_account_id = accountID, b_currency = code, b_balance_minor = 0, b_version = 0,
      b_updated_at = now, b_account_type = ''customer''\<rparr>"

definition insertWallet :: "uuid \<Rightarrow> uuid \<Rightarrow> (database, Wallet) tx" where
  "insertWallet walletID ownerID db =
     (let row = new_wallet_row (clock db) walletID ownerID
      in tx_bind (insert_wallet_row row) (\<lambda>_. tx_lift (decodeWallet row)) db)"

definition insertAccount :: "uuid \<Rightarrow> uuid \<Rightarrow> string \<Rightarrow> (database, Account) tx" where
  "insertAccount accountID walletID currencyCode db =
     (let account = new_account_row (clock db) accountID walletID currencyCode;
          balance = new_balance_row (clock db) accountID currencyCode
      in tx_bind
           (tx_atomic (tx_bind (insert_account_row account) (\<lambda>_. insert_balance_row balance)))
           (\<lambda>_. tx_lift (decodeAccount accountID walletID (a_created_at account) (b_version balance)
              (b_updated_at balance) currencyCode (a_status account) (b_balance_minor balance))) db)"

fun insertAccounts :: "(string \<Rightarrow> uuid) \<Rightarrow> uuid \<Rightarrow> string list \<Rightarrow> (database, Account list) tx" where
  "insertAccounts accountID walletID [] = tx_return []"
| "insertAccounts accountID walletID (code # codes) =
     tx_bind (insertAccount (accountID code) walletID code) (\<lambda>account.
     tx_bind (insertAccounts accountID walletID codes) (\<lambda>rest. tx_return (account # rest)))"

definition wallet_Create ::
  "(string \<Rightarrow> uuid option) \<Rightarrow> uuid \<Rightarrow> (string \<Rightarrow> uuid) \<Rightarrow> tx_env \<Rightarrow> string \<Rightarrow> currency list
     \<Rightarrow> (database, Wallet) tx" where
  "wallet_Create scan walletID accountID env ownerID currencies db =
     (case wallet_parseUUID scan ownerID of
        Inl e \<Rightarrow> (Inl (E WalletRepository ErrInvalidArgument # e), db)
      | Inr ownerUUID \<Rightarrow>
          (case normalizeCurrencies currencies of
             Inl e \<Rightarrow> (Inl e, db)
           | Inr currencyCodes \<Rightarrow>
               run_tx env
                 (tx_bind (insertWallet walletID ownerUUID) (\<lambda>created.
                  tx_bind (insertAccounts accountID (wl_ID created) currencyCodes) (\<lambda>accts.
                  tx_return (created\<lparr>wl_Accounts := accts\<rparr>)))) db))"

definition selectWallet :: "uuid \<Rightarrow> database \<Rightarrow> Wallet result" where
  "selectWallet walletID db =
     (case find (\<lambda>w. w_id w = walletID) (wallets db) of
        None \<Rightarrow> fail WalletRepository ErrNotFound
      | Some w \<Rightarrow> decodeWallet w)"

definition selectAccountsQuery :: "uuid \<Rightarrow> database \<Rightarrow> (account_row \<times> balance_row) list" where
  "selectAccountsQuery walletID db =
     sort_key (\<lambda>(a, b). a_currency a)
       (concat (map
          (\<lambda>a. map (Pair a) (filter (\<lambda>b. b_account_id b = a_id a \<and> b_currency b = a_currency a)
                 (account_balances db)))
          (filter (\<lambda>a. a_wallet_id a = walletID) (accounts db))))"

definition selectAccounts :: "uuid \<Rightarrow> database \<Rightarrow> Account list result" where
  "selectAccounts walletID db =
     map_result (\<lambda>(a, b). decodeAccount (a_id a) (a_wallet_id a) (a_created_at a) (b_version b)
        (b_updated_at b) (a_currency a) (a_status a) (b_balance_minor b))
       (selectAccountsQuery walletID db)"

definition wallet_Get :: "(string \<Rightarrow> uuid option) \<Rightarrow> tx_env \<Rightarrow> string \<Rightarrow> (database, Wallet) tx" where
  "wallet_Get scan env walletID db =
     (case wallet_parseUUID scan walletID of
        Inl e \<Rightarrow> (Inl (E WalletRepository ErrInvalidArgument # e), db)
      | Inr walletUUID \<Rightarrow>
          run_tx env (tx_read (\<lambda>db.
            andThen (selectWallet walletUUID db) (\<lambda>w.
            andThen (selectAccounts walletUUID db) (\<lambda>accts.
            Inr (w\<lparr>wl_Accounts := accts\<rparr>))))) db)"

section \<open>Currencies\<close>

lemma collect_codes_Inr:
  "collect_codes seen codes cs = Inr out \<longleftrightarrow>
     list_all currency_valid cs \<and> distinct cs \<and> set (map currency_String cs) \<inter> set seen = {} \<and>
     out = codes @ map currency_String cs"
proof (induction cs arbitrary: seen codes)
  case (Cons c cs)
  have "currency_String c \<in> currency_String ` set cs \<longleftrightarrow> c \<in> set cs" if "currency_valid c"
    using currency_String_inject [OF that] by (metis imageE image_eqI)
  then show ?case by (auto simp: Cons.IH Let_def)
qed auto

lemma normalizeCurrencies_Inr:
  "normalizeCurrencies cs = Inr codes \<longleftrightarrow>
     1 \<le> length cs \<and> length cs \<le> 32 \<and> list_all currency_valid cs \<and> distinct cs \<and>
     codes = sort (map currency_String cs)"
  by (auto simp: normalizeCurrencies_def result_simps collect_codes_Inr maxCurrenciesPerWallet_def
      Suc_le_eq)

lemma codes_valid:
  assumes "normalizeCurrencies cs = Inr codes"
  shows "sorted codes" "distinct codes" "\<forall>code \<in> set codes. \<exists>c. currency_valid c \<and> code = currency_String c"
proof -
  have "inj_on currency_String (set cs)" "distinct cs"
    using assms currency_String_inject by (auto simp: normalizeCurrencies_Inr inj_on_def list_all_iff)
  then have "distinct (map currency_String cs)" by (simp add: distinct_map)
  with assms show "sorted codes" "distinct codes"
    "\<forall>code \<in> set codes. \<exists>c. currency_valid c \<and> code = currency_String c"
    by (auto simp: normalizeCurrencies_Inr list_all_iff)
qed

lemma collect_codes_Inl: "collect_codes seen codes cs = Inl e \<Longrightarrow> e = [E WalletRepository ErrInvalidArgument]"
  by (induction cs arbitrary: seen codes) (auto simp: Let_def split: if_splits)

end
