(* ===== verification/Ledger_Journal.thy ===== *)
theory Ledger_Journal
  imports Ledger_Posting
begin

text \<open>
  The stored journal. \<open>journal_ok\<close> says that every stored entry reads back as a balanced entry of at
  least two valid postings and that a reversal's postings negate its source's. Posting keeps it, and
  under it \<open>Get\<close> returns every stored entry: no entry is ever reported corrupt.
\<close>

section \<open>The journal's invariant\<close>

definition posting_of :: "preparedPosting \<Rightarrow> posting" where
  "posting_of q =
     \<lparr>p_accountID = q_accountID q, p_amount = \<lparr>minorUnits = q_amount q, currency = q_currency q\<rparr>\<rparr>"

lemma posting_of_sels [simp]:
  "p_accountID (posting_of q) = q_accountID q" "minorUnits (p_amount (posting_of q)) = q_amount q"
  "currency (p_amount (posting_of q)) = q_currency q"
  by (simp_all add: posting_of_def)

definition journal_entry_ok :: "database \<Rightarrow> entry_row \<Rightarrow> bool" where
  "journal_entry_ok db e \<longleftrightarrow>
     isCanonicalUUID (e_id e) \<and> \<not> IsZero (e_recorded_at e) \<and>
     (case selectPostings (e_id e) db of
        Inl _ \<Rightarrow> False
      | Inr ps \<Rightarrow>
          2 \<le> length ps \<and> length ps \<le> 1024 \<and> list_all posting_inv ps \<and> balanced ps \<and>
          (\<forall>src \<in> set_option (e_reverses_entry_id e). selectPostings src db = Inr (map negated ps)))"

lemma journal_entry_ok_iff:
  "journal_entry_ok db e \<longleftrightarrow>
     isCanonicalUUID (e_id e) \<and> \<not> IsZero (e_recorded_at e) \<and>
     (\<exists>ps. selectPostings (e_id e) db = Inr ps \<and> 2 \<le> length ps \<and> length ps \<le> 1024 \<and>
        list_all posting_inv ps \<and> balanced ps \<and>
        (\<forall>src. e_reverses_entry_id e = Some src \<longrightarrow> selectPostings src db = Inr (map negated ps)))"
  by (cases "selectPostings (e_id e) db") (auto simp: journal_entry_ok_def)

definition journal_ok :: "database \<Rightarrow> bool" where
  "journal_ok db \<longleftrightarrow> (\<forall>e \<in> set (journal_entries db). journal_entry_ok db e)"

lemma posting_rows_positions: "map r_position (posting_rows i qs) = [0..<length qs]"
  by (auto simp: posting_rows_def enumerate_eq_zip intro!: nth_equalityI)

lemma posting_rows_entry: "r \<in> set (posting_rows i qs) \<Longrightarrow> r_journal_entry_id r = i"
  by (auto simp: posting_rows_def)

lemma sort_key_sorted: "sorted (map f xs) \<Longrightarrow> sort_key f xs = xs"
  by (simp add: sort_key_id_if_sorted)

lemma selectPostingsQuery_new:
  assumes "\<forall>r \<in> set (postings db). r_journal_entry_id r \<noteq> i"
  shows "selectPostingsQuery i (db\<lparr>postings := postings db @ posting_rows i qs\<rparr>) = posting_rows i qs"
proof -
  have "filter (\<lambda>r. r_journal_entry_id r = i) (postings db) = []"
    using assms by (simp add: filter_empty_conv)
  moreover have "filter (\<lambda>r. r_journal_entry_id r = i) (posting_rows i qs) = posting_rows i qs"
    using posting_rows_entry by (simp add: filter_id_conv)
  ultimately show ?thesis
    by (simp add: selectPostingsQuery_def sort_key_sorted posting_rows_positions)
qed

lemma selectPostingsQuery_old:
  "j \<noteq> i \<Longrightarrow> selectPostingsQuery j (db\<lparr>postings := postings db @ posting_rows i qs\<rparr>) =
     selectPostingsQuery j db"
proof -
  assume "j \<noteq> i"
  then have "filter (\<lambda>r. r_journal_entry_id r = j) (posting_rows i qs) = []"
    using posting_rows_entry by (fastforce simp: filter_empty_conv)
  then show ?thesis by (simp add: selectPostingsQuery_def)
qed

lemma selectPostingsQuery_cong: "postings db = postings db' \<Longrightarrow> selectPostingsQuery i db = selectPostingsQuery i db'"
  by (simp add: selectPostingsQuery_def)

lemma decode_row:
  assumes "isCanonicalUUID a" "currency_valid c" "m \<noteq> 0" "m \<noteq> MinInt64"
  shows "decode_posting \<lparr>r_journal_entry_id = i, r_position = j, r_account_id = a,
      r_currency = currency_String c, r_amount_minor = m\<rparr> =
    Inr \<lparr>p_accountID = a, p_amount = \<lparr>minorUnits = m, currency = c\<rparr>\<rparr>"
  using assms
  by (simp add: decode_posting_def result_simps NewMoney_def NewPosting_Inr posting_validate_None)

lemma decode_rows:
  assumes "\<forall>q \<in> set qs. isCanonicalUUID (q_accountID q) \<and> currency_valid (q_currency q) \<and>
        q_amount q \<noteq> 0 \<and> q_amount q \<noteq> MinInt64"
  shows "map_result decode_posting (map (\<lambda>(j, q).
     \<lparr>r_journal_entry_id = i, r_position = j, r_account_id = q_accountID q,
      r_currency = currency_String (q_currency q), r_amount_minor = q_amount q\<rparr>) (enumerate n qs)) =
    Inr (map posting_of qs)"
  using assms by (induction qs arbitrary: n) (simp_all add: decode_row posting_of_def)

lemma selectPostings_posted:
  assumes "prepared_ok p" "schema_ok db" "pe_id p \<notin> e_id ` set (journal_entries db)"
  shows "selectPostings (pe_id p) (posted_db store p db) = Inr (map posting_of (pe_postings p))"
    and "j \<noteq> pe_id p \<Longrightarrow> selectPostings j (posted_db store p db) = selectPostings j db"
proof -
  let ?db = "db\<lparr>postings := postings db @ posting_rows (pe_id p) (pe_postings p)\<rparr>"
  have q: "selectPostingsQuery j (posted_db store p db) = selectPostingsQuery j ?db" for j
    by (rule selectPostingsQuery_cong) (simp add: posted_db_def)
  have "\<forall>r \<in> set (postings db). r_journal_entry_id r \<noteq> pe_id p"
    using assms(2,3) unfolding schema_ok_def postings_ok_def by metis
  then show "selectPostings (pe_id p) (posted_db store p db) = Inr (map posting_of (pe_postings p))"
    using assms(1) decode_rows [of "pe_postings p" "pe_id p" 0, folded posting_rows_def]
    by (simp add: selectPostings_def q selectPostingsQuery_new prepared_ok_def)
  show "j \<noteq> pe_id p \<Longrightarrow> selectPostings j (posted_db store p db) = selectPostings j db"
    by (simp add: selectPostings_def q selectPostingsQuery_old)
qed

lemma currency_total_posting_of: "currency_total c (map posting_of qs) = prepared_total c qs"
  by (induction qs) simp_all

lemma posting_of_inv:
  assumes "prepared_ok p"
  shows "list_all posting_inv (map posting_of (pe_postings p))"
  using assms by (auto simp: prepared_ok_def list_all_iff posting_inv_def posting_validate_None)

lemma not_differs:
  "length ps = length qs \<Longrightarrow> \<not> differs ps qs \<Longrightarrow> ps = map negated (map posting_of qs)"
  by (induction ps qs rule: list_induct2) (auto simp: negated_def posting_of_def)

lemma posted_db_journal:
  assumes "prepared_ok p" "schema_ok db" "postable db p" "journal_ok db"
    and "\<not> IsZero (store (je_recordedAt (pe_entry p)))"
  shows "journal_ok (posted_db store p db)"
proof -
  let ?db = "posted_db store p db" and ?ps = "map posting_of (pe_postings p)"
  have new: "pe_id p \<notin> e_id ` set (journal_entries db)" using assms(3) by (simp add: postable_def)
  note sel = selectPostings_posted [OF assms(1,2) new]
  have ne: "j \<noteq> pe_id p" if "j \<in> e_id ` set (journal_entries db)" for j using new that by blast
  have "selectPostings src ?db = Inr (map negated ?ps)" if "pe_reversesID p = Some src" for src
  proof -
    from assms(3) that have v: "validatePersistedReversal src p db = (Inr (), db)"
      by (auto simp: postable_def prod_eq_iff validatePersistedReversal_state [OF surjective_pairing])
    then obtain r where "selectEntry src db = Inr r" by (auto simp: validatePersistedReversal_Inr)
    then have "src \<noteq> pe_id p" by (intro ne selectEntry_Inr)
    with v sel(2) show ?thesis by (auto simp: validatePersistedReversal_Inr dest: not_differs)
  qed
  then have "journal_entry_ok ?db (entry_row_of store p)"
    using assms(1,5) sel(1) posting_of_inv [OF assms(1)]
    by (auto simp: journal_entry_ok_iff entry_row_of_def prepared_ok_def balanced_def
        currency_total_posting_of)
  moreover have "journal_entry_ok ?db e" if "e \<in> set (journal_entries db)" for e
  proof -
    have "src \<in> e_id ` set (journal_entries db)" if "e_reverses_entry_id e = Some src" for src
      using assms(2) \<open>e \<in> set (journal_entries db)\<close> that by (auto simp: schema_defs)
    then show ?thesis
      using assms(4) that ne sel(2) by (auto simp: journal_ok_def journal_entry_ok_iff)
  qed
  ultimately show ?thesis by (auto simp: journal_ok_def posted_db_def)
qed

section \<open>Reading back\<close>

definition entry_of :: "entry_row \<Rightarrow> posting list \<Rightarrow> JournalEntry" where
  "entry_of e ps =
     \<lparr>je_id = e_id e,
      je_entryType = (case e_reverses_entry_id e of None \<Rightarrow> JournalEntryTypeStandard
        | Some _ \<Rightarrow> JournalEntryTypeReversal),
      je_reversesEntryID = (case e_reverses_entry_id e of None \<Rightarrow> [] | Some src \<Rightarrow> src),
      je_postings = ps, je_recordedAt = e_recorded_at e\<rparr>"

definition stored_of :: "entry_row \<Rightarrow> storedEntry" where
  "stored_of e =
     \<lparr>se_id = e_id e, se_entryType = e_entry_type e,
      se_reversesID = (case e_reverses_entry_id e of None \<Rightarrow> [] | Some src \<Rightarrow> src),
      se_recordedAt = e_recorded_at e\<rparr>"

lemma selectEntry_row:
  assumes "schema_ok db" "e \<in> set (journal_entries db)"
  shows "selectEntry (e_id e) db = Inr (stored_of e)"
proof -
  have "find (\<lambda>x. e_id x = e_id e) es = Some e" if "distinct (map e_id es)" "e \<in> set es" for es
    using that by (induction es) (auto simp: image_iff)
  then show ?thesis using assms by (simp add: selectEntry_def stored_of_def schema_defs)
qed

lemma restored_standard:
  assumes "journal_entry_ok db e" "selectPostings (e_id e) db = Inr ps"
  shows "NewJournalEntry \<lparr>jp_ID = e_id e, jp_Postings = ps, jp_RecordedAt = e_recorded_at e\<rparr> =
    Inr (entry_of (e\<lparr>e_reverses_entry_id := None\<rparr>) ps)"
  using assms
  by (auto simp: NewJournalEntry_def newJournalEntry_Inr entry_of_def journal_entry_ok_iff entry_ok_def
      list_all_iff posting_inv_def)

lemma equalPostings_refl [simp]: "equalPostings ps ps"
  by (auto simp: equalPostings_def list_all_iff set_zip)



context uuid_scanner
begin

lemma restoreEntry_row:
  assumes "schema_ok db" "journal_ok db" "e \<in> set (journal_entries db)"
    and "selectPostings (e_id e) db = Inr ps"
  shows "restoreEntry scan db (stored_of e) ps = Inr (entry_of e ps)"
proof (cases "e_reverses_entry_id e")
  case None
  then have "e_entry_type e = ''standard''" using assms(1,3) by (simp add: schema_defs)
  moreover have "e\<lparr>e_reverses_entry_id := None\<rparr> = e" using None by simp
  ultimately show ?thesis
    using restored_standard [OF _ assms(4)] assms(2,3)
    by (simp add: restoreEntry_def stored_of_def journal_ok_def)
next
  case (Some src)
  have e: "e_entry_type e = ''reversal''" "src \<noteq> e_id e" "src \<in> e_id ` set (journal_entries db)"
    using assms(1,3) Some by (auto simp: schema_defs)
  then obtain s where s: "s \<in> set (journal_entries db)" "e_id s = src" by auto
  have ok: "journal_entry_ok db e" "journal_entry_ok db s"
    using assms(2,3) s(1) by (simp_all add: journal_ok_def)
  then have src: "selectPostings src db = Inr (map negated ps)"
    using assms(4) Some by (auto simp: journal_entry_ok_iff)
  let ?s = "entry_of (s\<lparr>e_reverses_entry_id := None\<rparr>) (map negated ps)"
  have new: "NewJournalEntry \<lparr>jp_ID = src, jp_Postings = map negated ps,
      jp_RecordedAt = e_recorded_at s\<rparr> = Inr ?s"
    using restored_standard [OF ok(2)] src s(2) by simp
  then have sok: "entry_ok ?s"
    by (auto simp: NewJournalEntry_def newJournalEntry_Inr)
  have "list_all posting_inv (map negated ps)"
    using ok(2) src s(2) by (auto simp: journal_entry_ok_iff)
  then have "Reverse ?s (e_id e) (e_recorded_at e) = Inr (reversal_of ?s (e_id e) (e_recorded_at e))"
    using sok ok(1) e(2) s(2)
    by (intro Reverse_eq) (simp_all add: entry_of_def journal_entry_ok_iff)
  moreover have "reversal_of ?s (e_id e) (e_recorded_at e) = entry_of e ps"
    using Some s(2) ok(1)
    by (simp add: reversal_of_def entry_of_def journal_entry_ok_iff o_def)
  moreover have "scan src = Some src"
    using ok(2) s(2) by (auto simp: journal_entry_ok_iff scan_canonical)
  moreover have "selectEntry src db = Inr (stored_of s)"
    using selectEntry_row [OF assms(1) s(1)] s(2) by simp
  moreover have "je_postings (entry_of e ps) = ps" by (simp add: entry_of_def)
  ultimately show ?thesis
    using e(1) Some new src s(2)
    by (simp add: restoreEntry_def stored_of_def parseUUID_def)
qed

lemma Get_row:
  assumes "schema_ok db" "journal_ok db" "e \<in> set (journal_entries db)"
    and "selectPostings (e_id e) db = Inr ps" "scan i = Some (e_id e)"
  shows "Get scan quiet i db = (Inr (entry_of e ps), db)"
  using restoreEntry_row [OF assms(1-4)] selectEntry_row [OF assms(1,3)] assms(4,5)
  by (simp add: Get_def parseUUID_def run_tx_quiet tx_read_def)

end

text \<open>An entry whose identifiers are canonical texts.\<close>

definition canonical_ids :: "JournalEntry \<Rightarrow> bool" where
  "canonical_ids e \<longleftrightarrow>
     isCanonicalUUID (je_id e) \<and>
     (je_entryType e = JournalEntryTypeReversal \<longrightarrow> isCanonicalUUID (je_reversesEntryID e)) \<and>
     list_all (\<lambda>p. isCanonicalUUID (p_accountID p)) (je_postings e)"

lemma posting_of_prepared:
  assumes "uuid_scanner scan" "list_all (\<lambda>p. isCanonicalUUID (p_accountID p)) ps"
    and "list_all2 (\<lambda>p q. scan (p_accountID p) = Some (q_accountID q) \<and>
      q = prepared_posting (q_accountID q) (p_amount p)) ps qs"
  shows "map posting_of qs = ps"
  using assms(3,2)
proof (induction rule: list_all2_induct)
  case (Cons p ps q qs)
  then have "q = prepared_posting (p_accountID p) (p_amount p)"
    using uuid_scanner.scan_canonical [OF assms(1)] by auto
  with Cons show ?case by (simp add: posting_of_def)
qed simp

lemma entry_of_prepared:
  assumes "uuid_scanner scan" "prepareEntry scan e = Inr p" "canonical_ids e"
  shows "entry_of (entry_row_of store p) (map posting_of (pe_postings p)) =
    e\<lparr>je_recordedAt := store (je_recordedAt e)\<rparr>"
proof -
  note p = uuid_scanner.prepareEntry_Inr [OF assms(1,2)]
  have "map posting_of (pe_postings p) = je_postings e"
    using posting_of_prepared [OF assms(1)] preparePostings_Inr(1) [OF p(4)] assms(3)
    by (simp add: canonical_ids_def)
  moreover have "pe_id p = je_id e"
    using p(2) assms(3) uuid_scanner.scan_canonical [OF assms(1)] by (simp add: canonical_ids_def)
  ultimately show ?thesis
    using p(1,3) assms(3) uuid_scanner.scan_canonical [OF assms(1)]
    by (auto simp: entry_of_def entry_row_of_def canonical_ids_def prepareReversesID_Inr)
qed

end
