(* ===== verification/Wallet_Accounts.thy ===== *)
theory Wallet_Accounts
  imports Wallet_Repository Ledger_Journal
begin

text \<open>
  What creating a wallet does: it succeeds exactly for fresh identifiers, with \<open>created_db\<close> as its
  effect; the ledger's invariants survive it; and the wallet it returned is the one that is read back.
\<close>

section \<open>The effect of creating a wallet\<close>

definition parsed :: "string \<Rightarrow> currency" where
  "parsed code = (case ParseCurrency code of Inr c \<Rightarrow> c | Inl _ \<Rightarrow> zero_currency)"

definition new_account :: "gotime \<Rightarrow> uuid \<Rightarrow> (string \<Rightarrow> uuid) \<Rightarrow> string \<Rightarrow> Account" where
  "new_account now walletID accountID code =
     \<lparr>acct_ID = accountID code, acct_WalletID = walletID, acct_Status = StatusActive,
      acct_Balance = \<lparr>minorUnits = 0, currency = parsed code\<rparr>, acct_BalanceVersion = 0,
      acct_CreatedAt = now, acct_UpdatedAt = now\<rparr>"

definition with_accounts :: "uuid \<Rightarrow> (string \<Rightarrow> uuid) \<Rightarrow> string list \<Rightarrow> database \<Rightarrow> database" where
  "with_accounts walletID accountID codes db =
     db\<lparr>accounts := accounts db @
          map (\<lambda>code. new_account_row (clock db) (accountID code) walletID code) codes,
        account_balances := account_balances db @
          map (\<lambda>code. new_balance_row (clock db) (accountID code) code) codes\<rparr>"

definition fresh_accounts :: "uuid \<Rightarrow> (string \<Rightarrow> uuid) \<Rightarrow> string list \<Rightarrow> database \<Rightarrow> bool" where
  "fresh_accounts walletID accountID codes db \<longleftrightarrow>
     distinct (map accountID codes) \<and>
     accountID ` set codes \<inter> (a_id ` set (accounts db) \<union> b_account_id ` set (account_balances db)) = {} \<and>
     (\<forall>code \<in> set codes. \<forall>a \<in> set (accounts db). a_wallet_id a = walletID \<longrightarrow> a_currency a \<noteq> code)"

definition valid_code :: "string \<Rightarrow> bool" where
  "valid_code code \<longleftrightarrow> (\<exists>c. currency_valid c \<and> code = currency_String c)"

lemma valid_code_parsed:
  "valid_code code \<Longrightarrow> ParseCurrency code = Inr (parsed code) \<and> currency_valid (parsed code) \<and>
     sql_currency code \<and> currency_String (parsed code) = code"
proof -
  assume "valid_code code"
  then obtain c where c: "currency_valid c" "code = currency_String c" by (auto simp: valid_code_def)
  moreover have "sql_currency (currency_String c)" using c(1) by (cases c) (simp add: sql_currency_def)
  ultimately show ?thesis by (simp add: parsed_def)
qed

lemma decodeAccount_new:
  assumes "valid_code code"
  shows "decodeAccount (accountID code) walletID now 0 now code ''active'' 0 =
    Inr (new_account now walletID accountID code)"
  using valid_code_parsed [OF assms]
  by (simp add: decodeAccount_def ParseStatus_def NewMoney_def new_account_def)

lemma wallet_code_new:
  "(w, code) \<notin> (\<lambda>a. (a_wallet_id a, a_currency a)) ` S \<longleftrightarrow>
     (\<forall>a \<in> S. a_wallet_id a = w \<longrightarrow> a_currency a \<noteq> code)"
  by auto

lemma insertAccount_Inr:
  assumes "valid_code code" "walletID \<in> w_id ` set (wallets db)"
  shows "insertAccount (accountID code) walletID code db = (Inr x, db') \<longleftrightarrow>
    fresh_accounts walletID accountID [code] db \<and> x = new_account (clock db) walletID accountID code \<and>
    db' = with_accounts walletID accountID [code] db"
  using assms(2) valid_code_parsed [OF assms(1)] decodeAccount_new [OF assms(1), of accountID walletID "clock db"]
  by (auto simp: insertAccount_def Let_def result_simps insert_account_row_def insert_balance_row_def
      new_account_row_def new_balance_row_def sql_status_def sql_account_type_def balance_checks_def
      account_key_def fresh_accounts_def with_accounts_def wallet_code_new)

lemma with_accounts_Cons:
  "with_accounts w f codes (with_accounts w f [code] db) = with_accounts w f (code # codes) db"
  by (simp add: with_accounts_def)

lemma fresh_accounts_Cons:
  assumes "code \<notin> set codes"
  shows "fresh_accounts w f [code] db \<and> fresh_accounts w f codes (with_accounts w f [code] db) \<longleftrightarrow>
    fresh_accounts w f (code # codes) db"
  using assms
  by (auto simp: fresh_accounts_def with_accounts_def new_account_row_def new_balance_row_def)

lemma insertAccounts_Inr:
  assumes "list_all valid_code codes" "distinct codes" "walletID \<in> w_id ` set (wallets db)"
  shows "insertAccounts accountID walletID codes db = (Inr xs, db') \<longleftrightarrow>
    fresh_accounts walletID accountID codes db \<and>
    xs = map (new_account (clock db) walletID accountID) codes \<and>
    db' = with_accounts walletID accountID codes db"
  using assms
proof (induction codes arbitrary: db xs)
  case Nil
  then show ?case by (auto simp: result_simps fresh_accounts_def with_accounts_def)
next
  case (Cons code codes)
  let ?db = "with_accounts walletID accountID [code] db"
  have keep: "wallets ?db = wallets db" "clock ?db = clock db" by (simp_all add: with_accounts_def)
  have "insertAccounts accountID walletID (code # codes) db = (Inr xs, db') \<longleftrightarrow>
      fresh_accounts walletID accountID [code] db \<and>
      (\<exists>ys. insertAccounts accountID walletID codes ?db = (Inr ys, db') \<and>
        xs = new_account (clock db) walletID accountID code # ys)"
    using Cons.prems by (auto simp: result_simps insertAccount_Inr)
  also have "\<dots> \<longleftrightarrow> fresh_accounts walletID accountID (code # codes) db \<and>
      xs = map (new_account (clock db) walletID accountID) (code # codes) \<and>
      db' = with_accounts walletID accountID (code # codes) db"
    using Cons.IH [of ?db] Cons.prems keep fresh_accounts_Cons [of code codes walletID accountID db]
    by (auto simp: with_accounts_Cons)
  finally show ?case .
qed

definition created_db ::
  "uuid \<Rightarrow> (string \<Rightarrow> uuid) \<Rightarrow> uuid \<Rightarrow> string list \<Rightarrow> database \<Rightarrow> database" where
  "created_db walletID accountID owner codes db =
     with_accounts walletID accountID codes
       (db\<lparr>wallets := wallets db @ [new_wallet_row (clock db) walletID owner]\<rparr>)"

definition created_wallet ::
  "gotime \<Rightarrow> uuid \<Rightarrow> (string \<Rightarrow> uuid) \<Rightarrow> uuid \<Rightarrow> string list \<Rightarrow> Wallet" where
  "created_wallet now walletID accountID owner codes =
     \<lparr>wl_ID = walletID, wl_OwnerID = owner, wl_Status = StatusActive,
      wl_Accounts = map (new_account now walletID accountID) codes,
      wl_CreatedAt = now, wl_UpdatedAt = now\<rparr>"

definition fresh_wallet :: "uuid \<Rightarrow> (string \<Rightarrow> uuid) \<Rightarrow> string list \<Rightarrow> database \<Rightarrow> bool" where
  "fresh_wallet walletID accountID codes db \<longleftrightarrow>
     walletID \<notin> w_id ` set (wallets db) \<and> distinct (map accountID codes) \<and>
     accountID ` set codes \<inter> a_id ` set (accounts db) = {}"

lemma balance_account:
  "schema_ok db \<Longrightarrow> b \<in> set (account_balances db) \<Longrightarrow> b_account_id b \<in> a_id ` set (accounts db)"
  by (force simp: schema_defs account_key_def)

lemma fresh_accounts_wallet:
  assumes "schema_ok db" "walletID \<notin> w_id ` set (wallets db)"
  shows "fresh_accounts walletID accountID codes
      (db\<lparr>wallets := wallets db @ [new_wallet_row (clock db) walletID owner]\<rparr>) \<longleftrightarrow>
    distinct (map accountID codes) \<and> accountID ` set codes \<inter> a_id ` set (accounts db) = {}"
proof -
  have "a_wallet_id a \<noteq> walletID" if "a \<in> set (accounts db)" for a
    using assms that unfolding schema_ok_def accounts_ok_def by metis
  moreover have "b_account_id ` set (account_balances db) \<subseteq> a_id ` set (accounts db)"
    using balance_account [OF assms(1)] by blast
  ultimately show ?thesis by (auto simp: fresh_accounts_def)
qed

lemma wallet_body_Inr:
  assumes "schema_ok db" "list_all valid_code codes" "distinct codes"
  shows "tx_bind (insertWallet walletID owner) (\<lambda>created.
      tx_bind (insertAccounts accountID (wl_ID created) codes) (\<lambda>accts.
      tx_return (created\<lparr>wl_Accounts := accts\<rparr>))) db = (Inr w, db') \<longleftrightarrow>
    fresh_wallet walletID accountID codes db \<and>
    w = created_wallet (clock db) walletID accountID owner codes \<and>
    db' = created_db walletID accountID owner codes db"
proof -
  let ?row = "new_wallet_row (clock db) walletID owner"
  let ?db = "db\<lparr>wallets := wallets db @ [?row]\<rparr>"
  let ?w = "\<lparr>wl_ID = walletID, wl_OwnerID = owner, wl_Status = StatusActive, wl_Accounts = [],
      wl_CreatedAt = clock db, wl_UpdatedAt = clock db\<rparr>"
  have row: "w_id ?row = walletID" "walletID \<in> w_id ` set (wallets ?db)" by (simp_all add: new_wallet_row_def)
  have ins: "insertWallet walletID owner db = (Inr x, db1) \<longleftrightarrow>
      walletID \<notin> w_id ` set (wallets db) \<and> x = ?w \<and> db1 = ?db" for x db1
    by (auto simp: insertWallet_def Let_def result_simps insert_wallet_row_def new_wallet_row_def
        sql_status_def decodeWallet_def ParseStatus_def)
  have "tx_bind (insertWallet walletID owner) (\<lambda>created.
      tx_bind (insertAccounts accountID (wl_ID created) codes) (\<lambda>accts.
      tx_return (created\<lparr>wl_Accounts := accts\<rparr>))) db = (Inr w, db') \<longleftrightarrow>
      walletID \<notin> w_id ` set (wallets db) \<and>
      (\<exists>xs. insertAccounts accountID walletID codes ?db = (Inr xs, db') \<and> w = ?w\<lparr>wl_Accounts := xs\<rparr>)"
    by (auto simp: result_simps ins)
  also have "\<dots> \<longleftrightarrow> walletID \<notin> w_id ` set (wallets db) \<and>
      fresh_accounts walletID accountID codes ?db \<and>
      w = created_wallet (clock db) walletID accountID owner codes \<and>
      db' = created_db walletID accountID owner codes db"
    unfolding insertAccounts_Inr [OF assms(2,3) row(2)] created_wallet_def created_db_def by auto
  also have "\<dots> \<longleftrightarrow> fresh_wallet walletID accountID codes db \<and>
      w = created_wallet (clock db) walletID accountID owner codes \<and>
      db' = created_db walletID accountID owner codes db"
    using fresh_accounts_wallet [OF assms(1)] unfolding fresh_wallet_def by metis
  finally show ?thesis .
qed

lemma wallet_Create_Inr:
  assumes "schema_ok db"
  shows "wallet_Create scan walletID accountID env ownerID cs db = (Inr w, db') \<longleftrightarrow>
    (\<exists>owner codes. scan ownerID = Some owner \<and> normalizeCurrencies cs = Inr codes \<and>
       tx_begin env = None \<and> tx_stmt env = None \<and> tx_commit env = Committed \<and>
       fresh_wallet walletID accountID codes db \<and>
       w = created_wallet (clock db) walletID accountID owner codes \<and>
       db' = created_db walletID accountID owner codes db)"
proof -
  have "list_all valid_code codes" "distinct codes" if "normalizeCurrencies cs = Inr codes" for codes
    using codes_valid [OF that] by (auto simp: list_all_iff valid_code_def)
  then show ?thesis
    by (auto simp: wallet_Create_def wallet_parseUUID_def run_tx_Inr wallet_body_Inr [OF assms]
        split: option.splits sum.splits)
qed


lemma insertAccounts_schema:
  "insertAccounts accountID walletID codes db = (Inr xs, db') \<Longrightarrow> schema_ok db \<Longrightarrow> schema_ok db'"
  by (induction codes arbitrary: db xs)
    (auto simp: result_simps insertAccount_def Let_def
      dest!: insert_account_row_schema insert_balance_row_schema)

lemma created_db_schema:
  assumes "schema_ok db" "list_all valid_code codes" "distinct codes"
    and "fresh_wallet walletID accountID codes db"
  shows "schema_ok (created_db walletID accountID owner codes db)"
proof -
  let ?row = "new_wallet_row (clock db) walletID owner"
  let ?db = "db\<lparr>wallets := wallets db @ [?row]\<rparr>"
  have "insert_wallet_row ?row db = (Inr (), ?db)"
    using assms(4) by (simp add: insert_wallet_row_def result_simps new_wallet_row_def sql_status_def
        fresh_wallet_def)
  then have "schema_ok ?db" using assms(1) by (rule insert_wallet_row_schema)
  moreover have "insertAccounts accountID walletID codes ?db =
      (Inr (map (new_account (clock ?db) walletID accountID) codes), created_db walletID accountID owner codes db)"
    using insertAccounts_Inr [OF assms(2,3), of walletID ?db] assms(4)
      fresh_accounts_wallet [OF assms(1), of walletID]
    by (simp add: created_db_def fresh_wallet_def new_wallet_row_def)
  ultimately show ?thesis using insertAccounts_schema by blast
qed

lemma created_db_sels [simp]:
  "journal_entries (created_db w f owner codes db) = journal_entries db"
  "postings (created_db w f owner codes db) = postings db"
  "clock (created_db w f owner codes db) = clock db"
  "account_balances (created_db w f owner codes db) =
     account_balances db @ map (\<lambda>code. new_balance_row (clock db) (f code) code) codes"
  "accounts (created_db w f owner codes db) =
     accounts db @ map (\<lambda>code. new_account_row (clock db) (f code) w code) codes"
  "wallets (created_db w f owner codes db) = wallets db @ [new_wallet_row (clock db) w owner]"
  by (simp_all add: created_db_def with_accounts_def)

lemma ledger_total_cong: "postings db = postings db' \<Longrightarrow> ledger_total a s db = ledger_total a s db'"
  by (simp add: ledger_total_def ledger_group_def)

lemma created_db_snapshots:
  assumes "schema_ok db" "fresh_wallet w f codes db" "snapshots_match db"
  shows "snapshots_match (created_db w f owner codes db)"
proof -
  have "ledger_group (f code) code db = []" if "code \<in> set codes" for code
  proof -
    have "f code \<notin> a_id ` set (accounts db)" using assms(2) that by (auto simp: fresh_wallet_def)
    moreover have "r_account_id r \<in> a_id ` set (accounts db)" if "r \<in> set (postings db)" for r
      using assms(1) that by (force simp: schema_ok_def postings_ok_def)
    ultimately show ?thesis unfolding ledger_group_def filter_empty_conv by metis
  qed
  then have "ledger_total (f code) code db = 0" if "code \<in> set codes" for code
    using that by (simp add: ledger_total_def posted_total_def)
  moreover have "ledger_total a s (created_db w f owner codes db) = ledger_total a s db" for a s
    by (rule ledger_total_cong) simp
  ultimately show ?thesis
    using assms(3) by (auto simp: snapshots_match_def new_balance_row_def)
qed

lemma journal_ok_cong:
  assumes "postings db = postings db'" "journal_entries db = journal_entries db'"
  shows "journal_ok db \<longleftrightarrow> journal_ok db'"
  using selectPostingsQuery_cong [OF assms(1)]
  by (simp add: journal_ok_def journal_entry_ok_iff selectPostings_def assms(2))

lemma created_db_journal: "journal_ok (created_db w f owner codes db) \<longleftrightarrow> journal_ok db"
  by (rule journal_ok_cong) simp_all

lemma created_db_supply: "currency_supply s (created_db w f owner codes db) = currency_supply s db"
proof -
  have "(\<Sum>b \<leftarrow> filter (\<lambda>b. b_currency b = s)
      (map (\<lambda>code. new_balance_row (clock db) (f code) code) codes). sint (b_balance_minor b)) = 0"
    by (induction codes) (simp_all add: new_balance_row_def)
  then show ?thesis by (simp add: currency_supply_def)
qed

section \<open>Reading a created wallet\<close>

lemma filter_new_balances:
  assumes "distinct (map f codes)" "code \<in> set codes"
  shows "filter (\<lambda>b. b_account_id b = f code \<and> b_currency b = code)
      (map (\<lambda>code. new_balance_row t (f code) code) codes) = [new_balance_row t (f code) code]"
  using assms
proof (induction codes)
  case (Cons c codes)
  have none: "filter (\<lambda>b. b_account_id b = f code \<and> b_currency b = code)
      (map (\<lambda>code. new_balance_row t (f code) code) codes) = []" if "f code \<notin> f ` set codes"
    using that by (auto simp: filter_empty_conv new_balance_row_def)
  show ?case
  proof (cases "code = c")
    case True
    with Cons.prems none show ?thesis by (simp add: new_balance_row_def)
  next
    case False
    with Cons.prems have "code \<in> set codes" "f c \<noteq> f code" by auto
    with Cons show ?thesis by (simp add: new_balance_row_def)
  qed
qed simp

lemma selectAccountsQuery_created:
  assumes "schema_ok db" "fresh_wallet w f codes db" "sorted codes"
  shows "selectAccountsQuery w (created_db w f owner codes db) =
    map (\<lambda>code. (new_account_row (clock db) (f code) w code, new_balance_row (clock db) (f code) code)) codes"
proof -
  let ?A = "\<lambda>code. new_account_row (clock db) (f code) w code"
  let ?B = "\<lambda>code. new_balance_row (clock db) (f code) code"
  let ?bs = "account_balances db @ map ?B codes"
  let ?join = "\<lambda>a. map (Pair a) (filter (\<lambda>b. b_account_id b = a_id a \<and> b_currency b = a_currency a) ?bs)"
  have old: "a_wallet_id a \<noteq> w" if "a \<in> set (accounts db)" for a
    using assms(1,2) that unfolding schema_ok_def accounts_ok_def fresh_wallet_def by metis
  have "filter (\<lambda>b. b_account_id b = f code \<and> b_currency b = code) (account_balances db) = []"
    if "code \<in> set codes" for code
    using balance_account [OF assms(1)] assms(2) that
    by (fastforce simp: filter_empty_conv fresh_wallet_def)
  then have new: "?join (?A code) = [(?A code, ?B code)]" if "code \<in> set codes" for code
    using filter_new_balances [of f codes code] assms(2) that
    by (simp add: new_account_row_def fresh_wallet_def)
  have "filter (\<lambda>a. a_wallet_id a = w) (accounts db @ map ?A codes) = map ?A codes"
  proof -
    have "filter (\<lambda>a. a_wallet_id a = w) (accounts db) = []" using old by (simp add: filter_empty_conv)
    moreover have "filter (\<lambda>a. a_wallet_id a = w) (map ?A codes) = map ?A codes"
      by (auto simp: filter_id_conv new_account_row_def)
    ultimately show ?thesis by simp
  qed
  moreover have "map ?join (map ?A codes) = map (\<lambda>code. [(?A code, ?B code)]) codes"
    using new by simp
  ultimately show ?thesis
    using assms(3)
    by (simp add: selectAccountsQuery_def concat_map_singleton sort_key_sorted del: map_map)
      (simp add: new_account_row_def o_def sort_key_sorted)
qed

lemma selectAccounts_created:
  assumes "schema_ok db" "fresh_wallet w f codes db" "sorted codes" "list_all valid_code codes"
  shows "selectAccounts w (created_db w f owner codes db) = Inr (map (new_account (clock db) w f) codes)"
proof -
  have "map_result (\<lambda>(a, b). decodeAccount (a_id a) (a_wallet_id a) (a_created_at a) (b_version b)
        (b_updated_at b) (a_currency a) (a_status a) (b_balance_minor b))
      (map (\<lambda>code. (new_account_row (clock db) (f code) w code, new_balance_row (clock db) (f code) code)) codes)
      = Inr (map (new_account (clock db) w f) codes)"
    using assms(4) by (induction codes)
      (simp_all add: decodeAccount_new new_account_row_def new_balance_row_def)
  then show ?thesis
    using selectAccountsQuery_created [OF assms(1-3)] by (simp add: selectAccounts_def)
qed

lemma wallet_Get_created:
  assumes "schema_ok db" "fresh_wallet w f codes db" "sorted codes" "list_all valid_code codes"
    and "scan i = Some w"
  shows "wallet_Get scan quiet i (created_db w f owner codes db) =
    (Inr (created_wallet (clock db) w f owner codes), created_db w f owner codes db)"
proof -
  have last: "find (\<lambda>x. w_id x = w) (ws @ [r]) = Some r" if "w \<notin> w_id ` set ws" "w_id r = w" for ws r
    using that by (induction ws) auto
  have "find (\<lambda>x. w_id x = w) (wallets db @ [new_wallet_row (clock db) w owner]) =
      Some (new_wallet_row (clock db) w owner)"
    using assms(2) by (intro last) (simp_all add: fresh_wallet_def new_wallet_row_def)
  moreover have "decodeWallet (new_wallet_row (clock db) w owner) =
      Inr \<lparr>wl_ID = w, wl_OwnerID = owner, wl_Status = StatusActive, wl_Accounts = [],
          wl_CreatedAt = clock db, wl_UpdatedAt = clock db\<rparr>"
    by (simp add: decodeWallet_def new_wallet_row_def ParseStatus_def)
  ultimately show ?thesis
    using selectAccounts_created [OF assms(1-4)] assms(5)
    by (simp add: wallet_Get_def wallet_parseUUID_def run_tx_quiet tx_read_def selectWallet_def
        created_wallet_def)
qed

end
