(* ===== verification/Ledger_System.thy ===== *)
theory Ledger_System
  imports Ledger_Failures Wallet_Accounts
begin

text \<open>
  The ledger as a whole: databases reachable from freshly provisioned accounts by posting entries
  (with any driver and server behaviour), creating wallets and the passage of time. The one
  restriction on a posted entry is that its recording time is still no zero time once stored, which
  excludes the first microsecond of the year 1 only.

  \<open>ledger_inv\<close> collects the invariants of the earlier theories; the sublocale makes it available for
  every scanner that satisfies the contract \<open>uuid_scanner\<close>.
\<close>

section \<open>The ledger as a transition system\<close>

inductive ledger_step ::
  "(string \<Rightarrow> uuid option) \<Rightarrow> (gotime \<Rightarrow> gotime) \<Rightarrow> database \<Rightarrow> database \<Rightarrow> bool"
  for scan :: "string \<Rightarrow> uuid option" and store :: "gotime \<Rightarrow> gotime" where
  post: "Post scan store ctx env entry db = (r, db') \<Longrightarrow> \<not> IsZero (store (je_recordedAt entry)) \<Longrightarrow>
    ledger_step scan store db db'"
| create_wallet: "wallet_Create scan walletID accountID env ownerID currencies db = (w, db') \<Longrightarrow>
    ledger_step scan store db db'"
| tick: "clock db \<le> now \<Longrightarrow> ledger_step scan store db (db\<lparr>clock := now\<rparr>)"

definition ledger_init :: "database \<Rightarrow> bool" where
  "ledger_init db \<longleftrightarrow>
     schema_ok db \<and> journal_entries db = [] \<and> postings db = [] \<and>
     (\<forall>b \<in> set (account_balances db). b_balance_minor b = 0)"

definition ledger_inv :: "database \<Rightarrow> bool" where
  "ledger_inv db \<longleftrightarrow>
     schema_ok db \<and> snapshots_match db \<and> journal_ok db \<and> (\<forall>code. currency_supply code db = 0)"

lemma posted_db_inv:
  assumes "uuid_scanner scan" "prepareEntry scan entry = Inr p" "postable db p" "ledger_inv db"
    and "\<not> IsZero (store (je_recordedAt entry))"
  shows "ledger_inv (posted_db store p db)"
proof -
  have p: "prepared_ok p" "pe_entry p = entry"
    using uuid_scanner.prepareEntry_ok [OF assms(1,2)] uuid_scanner.prepareEntry_Inr(1) [OF assms(1,2)]
    by simp_all
  have db: "schema_ok db" "snapshots_match db" "journal_ok db" using assms(4) by (simp_all add: ledger_inv_def)
  have aff: "affordable db (pe_changes p)" using assms(3) by (simp add: postable_def)
  have "schema_ok (posted_db store p db)"
    using postPrepared_Inr [OF p(1) db(1)] postPrepared_schema assms(3) db(1) by blast
  moreover have "snapshots_match (posted_db store p db)"
    by (rule posted_db_snapshots [OF p(1) db(1) aff db(2)])
  moreover have "journal_ok (posted_db store p db)"
    using posted_db_journal [OF p(1) db(1) assms(3) db(3)] p(2) assms(5) by simp
  moreover have "currency_supply code (posted_db store p db) = 0" for code
    using posted_db_supply [OF p(1) db(1) aff] assms(4) by (simp add: ledger_inv_def)
  ultimately show ?thesis by (simp add: ledger_inv_def)
qed

lemma created_db_inv:
  assumes "ledger_inv db" "normalizeCurrencies cs = Inr codes" "fresh_wallet w f codes db"
  shows "ledger_inv (created_db w f owner codes db)"
proof -
  have "list_all valid_code codes" "distinct codes"
    using codes_valid [OF assms(2)] by (auto simp: list_all_iff valid_code_def)
  then show ?thesis
    using assms created_db_schema created_db_snapshots created_db_journal created_db_supply
    by (simp add: ledger_inv_def)
qed

lemma clock_inv: "ledger_inv (db\<lparr>clock := now\<rparr>) \<longleftrightarrow> ledger_inv db"
proof -
  have "journal_ok (db\<lparr>clock := now\<rparr>) \<longleftrightarrow> journal_ok db" by (rule journal_ok_cong) simp_all
  moreover have "ledger_total a s (db\<lparr>clock := now\<rparr>) = ledger_total a s db" for a s
    by (rule ledger_total_cong) simp
  ultimately show ?thesis
    by (simp add: ledger_inv_def schema_defs snapshots_match_def currency_supply_def)
qed

lemma run_tx_failed:
  assumes "run_tx env body db = (r, db')"
  shows "db' = db \<or> (\<exists>x. body db = (Inr x, db'))"
proof (cases r)
  case (Inl e)
  with assms show ?thesis using run_tx_Inl [of env body db e db'] by auto
next
  case (Inr x)
  with assms show ?thesis by (simp add: run_tx_Inr)
qed

lemma ledger_step_inv:
  assumes "uuid_scanner scan" "ledger_inv db" "ledger_step scan store db db'"
  shows "ledger_inv db'"
  using assms(3)
proof (cases rule: ledger_step.cases)
  case (post ctx env entry r)
  have "schema_ok db" using assms(2) by (simp add: ledger_inv_def)
  then have "db' = db \<or> (\<exists>p. prepareEntry scan entry = Inr p \<and> postable db p \<and> db' = posted_db store p db)"
    using post(1) Post_Inr [OF assms(1)] Post_Inl [OF assms(1)] by (cases r) blast+
  with assms(1,2) post(2) posted_db_inv show ?thesis by blast
next
  case (create_wallet walletID accountID env ownerID currencies w)
  have s: "schema_ok db" using assms(2) by (simp add: ledger_inv_def)
  have "db' = db \<or> (\<exists>codes owner. normalizeCurrencies currencies = Inr codes \<and>
      fresh_wallet walletID accountID codes db \<and> db' = created_db walletID accountID owner codes db)"
  proof -
    have "list_all valid_code codes" "distinct codes" if "normalizeCurrencies currencies = Inr codes" for codes
      using codes_valid [OF that] by (auto simp: list_all_iff valid_code_def)
    with create_wallet(1) show ?thesis
      by (auto simp: wallet_Create_def wallet_body_Inr [OF s] split: sum.splits dest!: run_tx_failed)
  qed
  with assms(2) created_db_inv show ?thesis by blast
next
  case (tick now)
  with assms(2) show ?thesis by (simp add: clock_inv)
qed

lemma ledger_init_inv: "ledger_init db \<Longrightarrow> ledger_inv db"
proof -
  assume db: "ledger_init db"
  have "currency_supply code db = 0" for code
  proof -
    have "map (\<lambda>b. sint (b_balance_minor b)) (filter (\<lambda>b. b_currency b = code) (account_balances db)) =
        map (\<lambda>_. 0) (filter (\<lambda>b. b_currency b = code) (account_balances db))"
      using db by (simp add: ledger_init_def)
    then show ?thesis by (simp only: currency_supply_def sum_list_0)
  qed
  with db show "ledger_inv db"
    by (auto simp: ledger_init_def ledger_inv_def snapshots_match_def journal_ok_def
        ledger_total_def ledger_group_def posted_total_def)
qed

sublocale uuid_scanner \<subseteq> ledger: invariant_system ledger_init "ledger_step scan store" ledger_inv for store
  using ledger_init_inv ledger_step_inv uuid_scanner_axioms by unfold_locales blast+

context uuid_scanner
begin

lemma reachable_ledger:
  assumes "reachable ledger_init (ledger_step scan store) db"
  shows "schema_ok db" "snapshots_match db" "journal_ok db" "currency_supply code db = 0"
  using ledger.reachable_inv [OF assms] by (simp_all add: ledger_inv_def)

end

lemma overdrawn_iff:
  assumes "prepared_ok p" "schema_ok db"
    and "\<forall>c \<in> set (pe_changes p). \<exists>b. row_of (account_balances db) (ac_accountID c) = Some b \<and> holds b c"
  shows "\<not> affordable db (pe_changes p) \<longleftrightarrow>
    list_ex (\<lambda>b. b_account_type b = ''customer'' \<and>
      sint (b_balance_minor b) + posted (b_account_id b) (pe_postings p) < 0) (account_balances db)"
proof -
  let ?cs = "pe_changes p" and ?bs = "account_balances db"
  have d: "distinct (map b_account_id ?bs)" using assms(2) by (simp add: schema_defs)
  have delta: "sint (ac_delta c) = posted (ac_accountID c) (pe_postings p)" if "c \<in> set ?cs" for c
    using assms(1) that by (simp add: prepared_ok_def changes_of_def)
  have acc: "accepts b c \<longleftrightarrow> \<not> (b_account_type b = ''customer'' \<and>
      sint (b_balance_minor b) + sint (ac_delta c) < 0)" if "holds b c" for b c
    using that by (auto simp: accepts_def holds_def)
  have untouched: "0 \<le> sint (b_balance_minor b) + posted (b_account_id b) (pe_postings p)"
    if "b \<in> set ?bs" "b_account_type b = ''customer''" "b_account_id b \<notin> ac_accountID ` set ?cs" for b
  proof -
    have "b_account_id b \<notin> q_accountID ` set (pe_postings p)"
      using assms(1) that(3) by (simp add: prepared_ok_def changes_of_def)
    moreover have "0 \<le> sint (b_balance_minor b)"
      using assms(2) that(1,2) by (auto simp: schema_defs balance_checks_def)
    ultimately show ?thesis by (simp add: posted_absent)
  qed
  show ?thesis
  proof
    assume "\<not> affordable db ?cs"
    then obtain c b where c: "c \<in> set ?cs" "row_of ?bs (ac_accountID c) = Some b" "holds b c" "\<not> accepts b c"
      using assms(3) by (force simp: affordable_iff)
    then have "b \<in> set ?bs" "b_account_id b = ac_accountID c" by (simp_all add: row_of_SomeD)
    with c delta [OF c(1)] acc [OF c(3)] show "list_ex (\<lambda>b. b_account_type b = ''customer'' \<and>
      sint (b_balance_minor b) + posted (b_account_id b) (pe_postings p) < 0) ?bs"
      by (auto simp: list_ex_iff)
  next
    assume "list_ex (\<lambda>b. b_account_type b = ''customer'' \<and>
      sint (b_balance_minor b) + posted (b_account_id b) (pe_postings p) < 0) ?bs"
    then obtain b where b: "b \<in> set ?bs" "b_account_type b = ''customer''"
      "sint (b_balance_minor b) + posted (b_account_id b) (pe_postings p) < 0" by (auto simp: list_ex_iff)
    then obtain c where c: "c \<in> set ?cs" "ac_accountID c = b_account_id b" using untouched by force
    with assms(3) b(1) have "holds b c" by (metis option.inject row_of_Some [OF d])
    with b c delta [OF c(1)] acc have "\<not> accepts b c" by auto
    with c b(1) show "\<not> affordable db ?cs" using affordable_accepts [OF _ d] by blast
  qed
qed

lemma posted_negated:
  assumes "map posting_of qs = map negated (map posting_of rs)"
    and "\<forall>r \<in> set rs. q_amount r \<noteq> MinInt64"
  shows "posted a qs = - posted a rs"
  using assms
proof (induction qs arbitrary: rs)
  case (Cons q qs)
  then obtain r rs' where rs: "rs = r # rs'" "posting_of q = negated (posting_of r)"
    "map posting_of qs = map negated (map posting_of rs')" by (cases rs) auto
  from rs(2) have "q_accountID q = q_accountID r" "q_amount q = - q_amount r"
    by (metis posting_of_sels negated_sels)+
  with Cons.IH [OF rs(3)] Cons.prems(2) rs(1) show ?case by (simp add: sint_minus_nonmin)
qed simp

text \<open>A reversal that follows its source brings every balance back.\<close>

lemma reversal_restores:
  assumes "prepared_ok p" "prepared_ok p'" "schema_ok db" "postable db p"
    and "postable (posted_db store p db) p'" "pe_reversesID p' = Some (pe_id p)"
    and "db2 = posted_db store p' (posted_db store p db)"
  shows "map (\<lambda>b. (b_account_id b, b_currency b, b_balance_minor b)) (account_balances db2) =
    map (\<lambda>b. (b_account_id b, b_currency b, b_balance_minor b)) (account_balances db)"
proof -
  let ?db1 = "posted_db store p db"
  have aff: "affordable db (pe_changes p)" "affordable ?db1 (pe_changes p')"
    and new: "pe_id p \<notin> e_id ` set (journal_entries db)"
    using assms(4,5) by (auto simp: postable_def)
  have d: "distinct (map b_account_id (account_balances db))" using assms(3) by (simp add: schema_defs)
  have bs1: "account_balances ?db1 = map (settled (clock db) (pe_changes p)) (account_balances db)"
    by (simp add: posted_db_def)
  then have d1: "distinct (map b_account_id (account_balances ?db1))" using d by (simp add: o_def)
  have "validatePersistedReversal (pe_id p) p' ?db1 = (Inr (), ?db1)"
    using assms(5,6)
    by (auto simp: postable_def prod_eq_iff validatePersistedReversal_state [OF surjective_pairing])
  then have "map posting_of (pe_postings p) = map negated (map posting_of (pe_postings p'))"
    using selectPostings_posted(1) [OF assms(1,3) new, of store]
      not_differs [of "map posting_of (pe_postings p)" "pe_postings p'"]
    by (auto simp: validatePersistedReversal_Inr simp del: map_map)
  moreover have "\<forall>r \<in> set (pe_postings p'). q_amount r \<noteq> MinInt64"
    using assms(2) by (simp add: prepared_ok_def)
  ultimately have neg: "posted a (pe_postings p) = - posted a (pe_postings p')" for a
    by (rule posted_negated)
  have "sint (b_balance_minor (settled t' (pe_changes p') (settled (clock db) (pe_changes p) b))) =
      sint (b_balance_minor b)" if "b \<in> set (account_balances db)" for b t'
  proof -
    have "settled (clock db) (pe_changes p) b \<in> set (account_balances ?db1)" using that bs1 by simp
    from settled_balance [OF assms(2) aff(2) d1 this] settled_balance [OF assms(1) aff(1) d that] neg
    show ?thesis by simp
  qed
  then show ?thesis
    by (simp add: assms(7) posted_db_def int64_eq_iff)
qed

lemma Post_refused:
  assumes "uuid_scanner scan" "schema_ok db" "prepareEntry scan entry = Inr p" "\<not> postable db p"
  shows "\<exists>e. postPrepared store p db = (Inl e, db) \<and>
    (\<not> isRetryableTransaction e \<longrightarrow>
      Post scan store (\<lambda>_. None) (\<lambda>_. quiet) entry db = (Inl (classifyPostError e), db))"
proof -
  note ok = uuid_scanner.prepareEntry_ok [OF assms(1,3)]
  obtain e where e: "postPrepared store p db = (Inl e, db)"
  proof (cases "postPrepared store p db")
    case (Pair r db')
    show thesis
    proof (cases r)
      case (Inl e)
      with Pair that postPrepared_Inl [OF ok assms(2)] show thesis by blast
    next
      case (Inr u)
      with Pair have "postPrepared store p db = (Inr (), db')" by simp
      with assms(4) postPrepared_Inr [OF ok assms(2)] show thesis by blast
    qed
  qed
  have "Post scan store (\<lambda>_. None) (\<lambda>_. quiet) entry db = (Inl (classifyPostError e), db)"
    if "\<not> isRetryableTransaction e"
  proof -
    have "retry (\<lambda>_. None) (\<lambda>i. postOnce store quiet p) isRetryableTransaction classifyPostError
      (E LedgerRepository ErrSerializationFailure) 0 3 [] db = (Inl (classifyPostError e), db)"
      using retry_after [of 0 "\<lambda>i. postOnce store quiet p" db isRetryableTransaction "(Inl e, db)"
          "\<lambda>_. None" 0 3] e that by (simp add: postOnce_def run_tx_quiet)
    with assms(3) show ?thesis by (simp add: Post_def maxTransactionAttempts_def)
  qed
  with e show ?thesis by blast
qed

lemma postPrepared_already_reversed:
  assumes "schema_ok db" "journal_ok db" "pe_reversesID p = Some src"
    and "r \<in> set (journal_entries db)" "e_reverses_entry_id r = Some src"
  shows "postPrepared store p db = (fail LedgerRepository ErrAlreadyReversed, db)"
proof -
  have "src \<in> e_id ` set (journal_entries db)" using assms(1,4,5) by (auto simp: schema_defs)
  then obtain s where s: "s \<in> set (journal_entries db)" "e_id s = src" by auto
  have "selectEntry src db = Inr (stored_of s)" using selectEntry_row [OF assms(1) s(1)] s(2) by simp
  moreover obtain ps where "selectPostings src db = Inr ps"
    using assms(2) s by (auto simp: journal_ok_def journal_entry_ok_iff)
  ultimately show ?thesis
    using assms(3-5)
    by (auto simp: postPrepared_def tx_bind_def validatePersistedReversal_def tx_read_def list_ex_iff)
qed

end
