(* ===== verification/Wallet_System.thy ===== *)
theory Wallet_System
  imports Transfer_Settlement Ledger_System
begin

text \<open>
  The program as a whole: every operation that changes the database, in any order and with any behaviour of the
  driver and the server. The invariant joins those of the ledger and of the transfers; the statuses of the
  transfers refine the abstract lifecycle.

  Two steps restrict what their callers choose, where the code has no check: a transfer is not accepted for assessment under
  the identifier of an existing journal entry, and an entry posted for another purpose does not use the identifier of a
  stored transfer. Times that become the zero time when stored are excluded as in \<open>ledger_step\<close>.
\<close>

section \<open>Steps\<close>

inductive system_step ::
  "(string \<Rightarrow> uuid option) \<Rightarrow> (gotime \<Rightarrow> gotime) \<Rightarrow> (string \<Rightarrow> string result) \<Rightarrow> database \<Rightarrow> database \<Rightarrow> bool"
  for scan :: "string \<Rightarrow> uuid option" and store :: "gotime \<Rightarrow> gotime" and jsonb :: "string \<Rightarrow> string result" where
  create: "Create scan store jsonb ctx attempts t db = (created, db') \<Longrightarrow> \<not> IsZero (store (t_requestedAt t)) \<Longrightarrow>
    system_step scan store jsonb db db'"
| create_pending: "CreatePending scan store jsonb ctx attempts l db = (accepted, db') \<Longrightarrow>
    \<not> IsZero (store (t_requestedAt (l_transfer l))) \<Longrightarrow> l_id l \<notin> entry_ids db \<Longrightarrow>
    system_step scan store jsonb db db'"
| assess: "risk_Handle scan store jsonb eventID sequence env now h e db = (r, db') \<Longrightarrow>
    system_step scan store jsonb db db'"
| settle: "transaction_Handle scan store jsonb eventID sequence env now e db = (r, db') \<Longrightarrow> \<not> IsZero (store now) \<Longrightarrow>
    system_step scan store jsonb db db'"
| decide: "Decide scan store jsonb eventID sequence env now who transferID decision db = (r, db') \<Longrightarrow>
    system_step scan store jsonb db db'"
| post: "Post scan store ctxs envs entry db = (r, db') \<Longrightarrow> \<not> IsZero (store (je_recordedAt entry)) \<Longrightarrow>
    (\<And>i. scan (je_id entry) = Some i \<Longrightarrow> i \<notin> tr_id ` set (transfers db)) \<Longrightarrow> system_step scan store jsonb db db'"
| create_wallet: "wallet_Create scan walletID accountID env ownerID currencies db = (w, db') \<Longrightarrow>
    system_step scan store jsonb db db'"
| claim: "Claim random env locked limit lease db = (claimed, db') \<Longrightarrow> system_step scan store jsonb db db'"
| published: "MarkPublished scan env i token db = (r, db') \<Longrightarrow> system_step scan store jsonb db db'"
| unpublished: "MarkFailed scan env i token retryAfter diagnostic db = (r, db') \<Longrightarrow> system_step scan store jsonb db db'"
| quarantine: "quarantine_Store digest env q db = (r, db') \<Longrightarrow> system_step scan store jsonb db db'"
| tick: "clock db \<le> now \<Longrightarrow> system_step scan store jsonb db (db\<lparr>clock := now\<rparr>)"

definition system_init :: "database \<Rightarrow> bool" where
  "system_init db \<longleftrightarrow>
     ledger_init db \<and> transfers db = [] \<and> outbox_events db = [] \<and> transfer_review_cases db = []"

text \<open>How a step changes the stored lifecycles.\<close>

inductive evolves :: "Lifecycle list \<Rightarrow> Lifecycle list \<Rightarrow> bool" where
  idle: "evolves ls ls"
| accepted: "l_id l \<notin> l_id ` set ls \<Longrightarrow> spec_of l = (StatusPendingRisk, 1) \<Longrightarrow> evolves ls (ls @ [l])"
| direct: "l_id l \<notin> l_id ` set ls \<Longrightarrow> spec_of l = (StatusCompleted, 1) \<Longrightarrow> evolves ls (ls @ [l])"
| moved: "cur \<in> set ls \<Longrightarrow> lifecycle_step cur nxt \<Longrightarrow> evolves ls (advance cur nxt ls)"

definition system_inv :: "database \<Rightarrow> Lifecycle list \<Rightarrow> bool" where
  "system_inv db ls \<longleftrightarrow> ledger_inv db \<and> consistent db ls"

section \<open>Steps outside of the transfers\<close>

definition contents :: "database \<Rightarrow> (uuid \<times> string \<times> int64) list" where
  "contents db = map (\<lambda>e. (o_aggregate_id e, event_of e)) (outbox_events db)"

lemma events_of_contents: "events_of db i = map snd (filter (\<lambda>x. fst x = i) (contents db))"
  by (simp add: events_of_def contents_def filter_map comp_def)

lemma aggregates_contents: "o_aggregate_id ` set (outbox_events db) = fst ` set (contents db)"
  by (simp add: contents_def image_image)

lemma transfer_fks_mono:
  assumes "list_all snd (transfer_fks db r)" "set (accounts db) \<subseteq> set (accounts db')" "entry_ids db \<subseteq> entry_ids db'"
  shows "list_all snd (transfer_fks db' r)"
  using assms(1,3) image_mono [OF assms(2), of "\<lambda>a. (a_id a, a_currency a)"]
  by (cases "tr_journal_entry_id r") (auto simp only: transfer_fks_def entry_ids_def list.pred_inject optional_simps snd_conv subset_iff)

lemma consistent_outside:
  assumes c: "consistent db ls" and "schema_ok db'"
    and t: "transfers db' = transfers db" "transfer_review_cases db' = transfer_review_cases db"
      "transfer_review_audit_records db' = transfer_review_audit_records db" "contents db' = contents db"
    and g: "set (accounts db) \<subseteq> set (accounts db')" "entry_ids db \<subseteq> entry_ids db'"
    and b: "\<And>i. i \<in> tr_id ` set (transfers db) \<Longrightarrow>
      posted_of db' i = posted_of db i \<and> (i \<in> entry_ids db' \<longleftrightarrow> i \<in> entry_ids db)"
  shows "consistent db' ls"
proof -
  note st = consistentD(1) [OF c]
  have e: "events_of db' = events_of db" by (simp add: events_of_contents t(4) fun_eq_iff)
  have "transfers_deferred db' = None"
    using consistentD(3) [OF c] transfer_fks_mono [OF _ g] by (simp add: transfers_deferred_None t(1))
  moreover have "booked db' l" if "l \<in> set ls" for l
    using consistentD(4) [OF c that] b [of "l_id l"] that transfer_ids [OF st] by (simp add: booked_def)
  moreover have "cases_ok db' ls"
    using consistentD(7) [OF c] by (simp add: cases_ok_def open_case_def audited_def t)
  ultimately show ?thesis
    using consistentD(5,6) [OF c] assms(2) st
    by (simp add: consistent_def stored_cong [OF t(1)] announced_def e aggregates_contents t(4))
qed

lemma ledger_inv_cong:
  assumes "same_ledger db db'"
  shows "ledger_inv db' \<longleftrightarrow> ledger_inv db"
proof -
  note s = assms [unfolded same_ledger_def]
  have "journal_ok db' \<longleftrightarrow> journal_ok db" by (rule journal_ok_cong) (use s in simp_all)
  moreover have "ledger_total a c db' = ledger_total a c db" for a c by (rule ledger_total_cong) (use s in simp)
  ultimately show ?thesis
    using s by (simp add: ledger_inv_def schema_defs snapshots_match_def currency_supply_def)
qed

lemma system_inv_updated:
  assumes "system_inv db ls" "\<And>e. same_content e (new e)"
  shows "system_inv (updated hit new db) ls"
proof -
  have "event_of (new e) = event_of e" "o_aggregate_id (new e) = o_aggregate_id e" for e
    using assms(2) [of e] by (simp_all add: same_content_def event_of_def scanned_params_def)
  then have "contents (updated hit new db) = contents db" by (simp add: contents_def updated_def)
  moreover have "same_ledger db (updated hit new db)" by (simp add: same_ledger_def updated_def)
  ultimately show ?thesis
    using assms(1) ledger_inv_cong
    by (auto simp: system_inv_def updated_def ledger_inv_def entry_ids_def posted_of_def intro!: consistent_outside [of db])
qed


lemma update_outbox_rows_updated:
  "update_outbox_rows hit new db = (Inr rows, db') \<Longrightarrow> db' = updated hit new db"
  by (simp add: update_outbox_rows_Inr updated_def)

lemma Claim_updates:
  assumes "Claim random env locked limit lease db = (r, db')"
  shows "db' = db \<or> (\<exists>hit token until. db' = updated hit (leased_row token until) db)"
proof (cases "db' = db")
  case False
  with assms obtain token rows until where
    "update_outbox_rows (\<lambda>e. o_event_id e \<in> set (map o_event_id (candidates locked (sint limit) db)))
      (leased_row token until) db = (Inr rows, db')"
    by (auto simp: Claim_def claimEventsQuery_def Let_def tx_bind_Inr tx_lift_eq split: if_splits sum.splits
        dest!: run_tx_failed)
  then show ?thesis by (blast dest: update_outbox_rows_updated)
qed simp

lemma quarantine_effect:
  assumes "quarantine_Store digest env q db = (r, db')"
  shows "db' = db \<or> (\<exists>row. db' = db\<lparr>consumer_quarantine := consumer_quarantine db @ [row]\<rparr>)"
  using assms
  by (auto simp: quarantine_Store_def insert_quarantine_row_def tx_bind_Inr constrained_Inr split: option.splits if_splits
      dest!: run_tx_failed)

lemma ledger_inv_frame [simp]:
  "ledger_inv (db\<lparr>consumer_quarantine := qs\<rparr>) = ledger_inv db" "ledger_inv (db\<lparr>clock := now\<rparr>) = ledger_inv db"
  by (rule ledger_inv_cong, simp add: same_ledger_def)+

lemma system_inv_frame [simp]:
  "system_inv (db\<lparr>consumer_quarantine := qs\<rparr>) ls = system_inv db ls" "system_inv (db\<lparr>clock := now\<rparr>) ls = system_inv db ls"
  by (simp_all add: system_inv_def)

lemma with_accounts_accounts:
  "set (accounts db) \<subseteq> set (accounts (with_accounts w f codes db))"
  "transfers (with_accounts w f codes db) = transfers db"
  "journal_entries (with_accounts w f codes db) = journal_entries db" "postings (with_accounts w f codes db) = postings db"
  "outbox_events (with_accounts w f codes db) = outbox_events db"
  "transfer_review_cases (with_accounts w f codes db) = transfer_review_cases db"
  "transfer_review_audit_records (with_accounts w f codes db) = transfer_review_audit_records db"
  by (auto simp: with_accounts_def)

lemma system_inv_created:
  assumes "system_inv db ls" "normalizeCurrencies cs = Inr codes" "fresh_wallet w f codes db"
  shows "system_inv (created_db w f owner codes db) ls"
proof -
  let ?db = "created_db w f owner codes db"
  have l: "ledger_inv ?db" and c: "consistent db ls"
    using created_db_inv [of db cs codes w f owner] assms by (simp_all add: system_inv_def)
  have "set (accounts db) \<subseteq> set (accounts ?db)"
    using with_accounts_accounts(1) [of "db\<lparr>wallets := wallets db @ [new_wallet_row (clock db) w owner]\<rparr>"]
    by (simp add: created_db_def)
  moreover have "transfers ?db = transfers db" "transfer_review_cases ?db = transfer_review_cases db"
    "transfer_review_audit_records ?db = transfer_review_audit_records db" "contents ?db = contents db"
    "entry_ids ?db = entry_ids db" "posted_of ?db = posted_of db"
    by (simp_all add: created_db_def with_accounts_accounts contents_def entry_ids_def posted_of_def fun_eq_iff)
  moreover have "schema_ok ?db" using l by (simp add: ledger_inv_def)
  ultimately have "consistent ?db ls" by (intro consistent_outside [OF c]) simp_all
  with l show ?thesis by (simp add: system_inv_def)
qed

context uuid_scanner
begin

lemma system_inv_posted:
  assumes "system_inv db ls" "prepareEntry scan entry = Inr p" "postable db p" "\<not> IsZero (store (je_recordedAt entry))"
    "pe_id p \<notin> tr_id ` set (transfers db)"
  shows "system_inv (posted_db store p db) ls"
proof -
  have l: "ledger_inv (posted_db store p db)"
    using posted_db_inv [where store = store, OF uuid_scanner_axioms assms(2,3) _ assms(4)] assms(1)
    by (simp add: system_inv_def)
  have "posted_of (posted_db store p db) i = posted_of db i \<and> (i \<in> entry_ids (posted_db store p db) \<longleftrightarrow> i \<in> entry_ids db)"
    if "i \<in> tr_id ` set (transfers db)" for i
  proof -
    have "i \<noteq> pe_id p" using that assms(5) by blast
    then show ?thesis
      by (auto simp: posted_of_def posted_db_def entry_ids_def entry_row_of_def posting_rows_entry filter_empty_conv)
  qed
  moreover have "entry_ids db \<subseteq> entry_ids (posted_db store p db)" by (auto simp: posted_db_def entry_ids_def)
  moreover have "contents (posted_db store p db) = contents db" "accounts (posted_db store p db) = accounts db"
    "transfers (posted_db store p db) = transfers db"
    "transfer_review_cases (posted_db store p db) = transfer_review_cases db"
    "transfer_review_audit_records (posted_db store p db) = transfer_review_audit_records db"
    by (simp_all add: posted_db_def contents_def)
  moreover have c: "consistent db ls" using assms(1) by (simp add: system_inv_def)
  moreover have "schema_ok (posted_db store p db)" using l by (simp add: ledger_inv_def)
  ultimately have "consistent (posted_db store p db) ls"
    by (intro consistent_outside [OF c]) simp_all
  with l show ?thesis by (simp add: system_inv_def)
qed

lemma entered_inv:
  assumes "ledger_inv db" "entered scan store entry db db'" "\<not> IsZero (store (je_recordedAt entry))"
  shows "ledger_inv db'"
proof -
  from assms(2) obtain q where q: "prepareEntry scan entry = Inr q" "pe_reversesID q = None" "affordable db (pe_changes q)"
    "pe_id q \<notin> entry_ids db" "same_ledger (posted_db store q db) db'" by (auto simp: entered_def)
  then have "postable db q" by (simp add: postable_def entry_ids_def)
  from posted_db_inv [where store = store, OF uuid_scanner_axioms q(1) this assms(1,3)] ledger_inv_cong [OF q(5)] show ?thesis by simp
qed

lemma create_step:
  assumes "system_inv db ls" "Create scan store jsonb ctx attempts t db = (r, db')" "\<not> IsZero (store (t_requestedAt t))"
  shows "\<exists>ls'. system_inv db' ls' \<and> evolves ls ls'"
proof (cases "db' = db")
  case True
  with assms(1) show ?thesis using evolves.idle by blast
next
  case False
  obtain p j x where p: "prepareTransfer scan t = Inr p"
    "create_body scan store jsonb (at_eventID (attempts j)) (at_sequence (attempts j)) (at_seen (attempts j)) p db =
      (Inr x, db')" "transfers_deferred db' = None"
    using assms(2) False by (cases r) (metis Create_Inl, metis Create_Inr)
  have c: "consistent db ls" and l: "ledger_inv db" using assms(1) by (simp_all add: system_inv_def)
  let ?l = "completed_lifecycle (recorded store x)"
  from create_body_effect [OF consistentD(1,2) [OF c] p(1,2)] False obtain row q where
    new: "x = pt_transfer p" "t_id x \<notin> l_id ` set ls" "t_id x \<notin> entry_ids db"
    and q: "prepareEntry scan (pt_entry p) = Inr q" "affordable db (pe_changes q)"
      "db' = (posted_db store q db)\<lparr>transfers := transfers db @ [lifecycle_row ?l],
         outbox_events := outbox_events db @ [row]\<rparr>"
    by auto
  note pt = prepareTransfer_Inr [OF p(1)]
  note entry = prepare_transfer_entry [OF pt(1) q(1) [unfolded pt(6)]]
  have "entered scan store (pt_entry p) db db'"
    using q entry(1,2) new by (auto simp: entered_def same_ledger_def)
  then have "ledger_inv db'"
    using entered_inv [OF l] assms(3) prepareTransfer_requestedAt [OF p(1)] by (simp add: pt(6) transfer_entry_def)
  moreover have "\<not> consistent db' ls"
  proof
    assume "consistent db' ls"
    from storedD(1) [OF consistentD(1) [OF this]] storedD(1) [OF consistentD(1) [OF c]] q(3) show False
      by (simp add: posted_db_def)
  qed
  then have "consistent db' (ls @ [?l])" using create_body_consistent [OF c p(1) assms(3) p(2,3)] by blast
  moreover have "evolves ls (ls @ [?l])" using new(2) by (intro evolves.direct) (simp_all add: spec_of_def)
  ultimately show ?thesis by (auto simp: system_inv_def)
qed

lemma pending_step:
  assumes "system_inv db ls" "CreatePending scan store jsonb ctx attempts l db = (r, db')"
    "\<not> IsZero (store (t_requestedAt (l_transfer l)))" "l_id l \<notin> entry_ids db"
  shows "\<exists>ls'. system_inv db' ls' \<and> evolves ls ls'"
proof (cases "db' = db")
  case True
  with assms(1) show ?thesis using evolves.idle by blast
next
  case False
  obtain p j x where p: "preparePendingTransfer scan l = Inr p"
    "pending_body store jsonb (at_eventID (attempts j)) (at_sequence (attempts j)) (at_seen (attempts j)) p db =
      (Inr x, db')" "transfers_deferred db' = None"
    using assms(2) False by (cases r) (metis CreatePending_Inl, metis CreatePending_Inr)
  have c: "consistent db ls" and l: "ledger_inv db" using assms(1) by (simp_all add: system_inv_def)
  let ?l = "recorded_lifecycle store x"
  from pending_body_effect [OF consistentD(1) [OF c] p(1,2)] False obtain row where
    new: "x = pp_lifecycle p" "l_id x \<notin> l_id ` set ls"
    "db' = db\<lparr>transfers := transfers db @ [lifecycle_row ?l], outbox_events := outbox_events db @ [row]\<rparr>"
    by auto
  have "ledger_inv db'" using ledger_inv_cong [of db db'] l by (simp add: new(3) same_ledger_def)
  moreover have "\<not> consistent db' ls"
  proof
    assume "consistent db' ls"
    from storedD(1) [OF consistentD(1) [OF this]] storedD(1) [OF consistentD(1) [OF c]] new(3) show False by simp
  qed
  then have "consistent db' (ls @ [?l])" using pending_body_consistent [OF c p(1) assms(3,4) p(2,3)] by blast
  moreover have "spec_of ?l = (StatusPendingRisk, 1)"
    using preparePendingTransfer_Inr(1,2) [OF p(1)] new(1) by (auto simp: spec_of_def lifecycle_ok_def)
  then have "evolves ls (ls @ [?l])" using new(2) by (intro evolves.accepted) simp_all
  ultimately show ?thesis by (auto simp: system_inv_def)
qed

lemma risk_step:
  assumes "system_inv db ls" "risk_Handle scan store jsonb eventID sequence env now h e db = (r, db')"
  shows "\<exists>ls'. system_inv db' ls' \<and> evolves ls ls'"
proof -
  have c: "consistent db ls" and l: "ledger_inv db" using assms(1) by (simp_all add: system_inv_def)
  from assms(2) consider "db' = db" | policy requested x where
    "risk_body scan store jsonb eventID sequence now (rh_velocity h) policy requested e db = (Inr x, db')"
    "transfers_deferred db' = None"
    by (auto simp: risk_Handle_def split: sum.splits option.splits dest!: run_handler_effect)
  then show ?thesis
  proof cases
    case 1
    with assms(1) show ?thesis using evolves.idle by blast
  next
    case 2
    from risk_body_effect [OF c 2(2,1)] show ?thesis
    proof (elim disjE exE conjE, goal_cases)
      case 1
      with assms(1) show ?case using evolves.idle by blast
    next
      case (2 cur nxt ev)
      moreover have "ledger_inv db'" using ledger_inv_cong l 2 by blast
      ultimately show ?case by (auto simp: system_inv_def stepped_def intro!: evolves.moved)
    qed
  qed
qed

lemma decide_step:
  assumes "system_inv db ls" "Decide scan store jsonb eventID sequence env now who i decision db = (r, db')"
  shows "\<exists>ls'. system_inv db' ls' \<and> evolves ls ls'"
proof -
  have c: "consistent db ls" and l: "ledger_inv db" using assms(1) by (simp_all add: system_inv_def)
  from assms(2) consider "db' = db" | x where "decision = case_DecisionApprove \<or> decision = case_DecisionDecline"
    "decide_body scan store jsonb eventID sequence now who i decision db = (Inr x, db')" "transfers_deferred db' = None"
    by (auto simp: Decide_def split: if_splits dest!: run_handler_effect)
  then show ?thesis
  proof cases
    case 1
    with assms(1) show ?thesis using evolves.idle by blast
  next
    case 2
    from decide_body_effect [OF c 2(3,1,2)] obtain cur nxt where n: "stepped ReviewDecidedType cur nxt db db' ls"
      "consistent db' (advance cur nxt ls)" "same_ledger db db'" by blast
    moreover have "ledger_inv db'" using ledger_inv_cong l n(3) by blast
    ultimately show ?thesis by (auto simp: system_inv_def stepped_def intro!: evolves.moved)
  qed
qed

lemma settlement_step:
  assumes "system_inv db ls" "settlement scan store now cur db db' ls" "\<not> IsZero (store now)"
  shows "\<exists>ls'. system_inv db' ls' \<and> evolves ls ls'"
proof -
  have l: "ledger_inv db" using assms(1) by (simp add: system_inv_def)
  from assms(2) obtain nxt where n: "consistent db' (advance cur nxt ls)" "cur \<in> set ls" "lifecycle_step cur nxt"
    "entered scan store (transfer_entry (l_transfer cur) now) db db' \<or> same_ledger db db'"
    by (auto simp: settlement_def stepped_def split: if_splits)
  have "ledger_inv db'"
    using n(4) entered_inv [OF l] ledger_inv_cong l assms(3) by (auto simp: transfer_entry_def)
  with n show ?thesis by (auto simp: system_inv_def intro!: evolves.moved)
qed

lemma ignored_step:
  assumes "system_inv db ls"
  shows "\<exists>ls'. system_inv (db\<lparr>consumer_inbox := is\<rparr>) ls' \<and> evolves ls ls'"
proof -
  have "ledger_inv (db\<lparr>consumer_inbox := is\<rparr>) = ledger_inv db" by (rule ledger_inv_cong) (simp add: same_ledger_def)
  with assms have "system_inv (db\<lparr>consumer_inbox := is\<rparr>) ls" by (simp add: system_inv_def)
  then show ?thesis using evolves.idle by blast
qed

lemma transaction_step:
  assumes "system_inv db ls" "transaction_Handle scan store jsonb eventID sequence env now e db = (r, db')"
    "\<not> IsZero (store now)"
  shows "\<exists>ls'. system_inv db' ls' \<and> evolves ls ls'"
proof -
  have c: "consistent db ls" using assms(1) by (simp add: system_inv_def)
  from assms(2) consider "db' = db" | x i conflict ignore where
    "tx_bind (ReserveTx transaction_consumerName e) (\<lambda>reserved.
       if \<not> reserved then tx_return ()
       else tx_bind (LoadLifecycleForUpdateTx scan i) (\<lambda>current.
         if conflict current then tx_lift (fail TransferRepository ErrStateConflict)
         else if ignore then tx_return ()
         else post scan store jsonb eventID sequence current (en_eventID e) now)) db = (Inr x, db')"
    "transfers_deferred db' = None"
    unfolding transaction_Handle_def handleReviewDecision_def decided_body_def assessed_body_def
    by (auto split: if_splits sum.splits dest!: run_handler_effect)
  then show ?thesis
  proof cases
    case 1
    with assms(1) show ?thesis using evolves.idle by blast
  next
    case 2
    from settle_effect [OF c 2(2,1)] consider "db' = db" | rows where "db' = db\<lparr>consumer_inbox := rows\<rparr>"
      | cur where "settlement scan store now cur db db' ls" by (auto split: if_splits)
    then show ?thesis
      using settlement_step [where store = store, OF assms(1) _ assms(3)] ignored_step [OF assms(1)] assms(1) evolves.idle by cases blast+
  qed
qed

lemma posting_step:
  assumes "system_inv db ls" "Post scan store ctx env entry db = (r, db')" "\<not> IsZero (store (je_recordedAt entry))"
    "\<And>i. scan (je_id entry) = Some i \<Longrightarrow> i \<notin> tr_id ` set (transfers db)"
  shows "system_inv db' ls"
proof -
  have "schema_ok db" using assms(1) by (simp add: system_inv_def ledger_inv_def)
  then have "db' = db \<or> (\<exists>p. prepareEntry scan entry = Inr p \<and> postable db p \<and> db' = posted_db store p db)"
    using assms(2) Post_Inr [OF uuid_scanner_axioms] Post_Inl [OF uuid_scanner_axioms] by (cases r) blast+
  then show ?thesis
    using system_inv_posted [where store = store, OF assms(1) _ _ assms(3)] prepareEntry_Inr(2) assms(1,4) by blast
qed

lemma wallet_step:
  assumes "system_inv db ls" "wallet_Create scan walletID accountID env ownerID currencies db = (w, db')"
  shows "system_inv db' ls"
proof -
  have s: "schema_ok db" using assms(1) by (simp add: system_inv_def ledger_inv_def)
  have "list_all valid_code codes" "distinct codes" if "normalizeCurrencies currencies = Inr codes" for codes
    using codes_valid [OF that] by (auto simp: list_all_iff valid_code_def)
  then have "db' = db \<or> (\<exists>codes owner. normalizeCurrencies currencies = Inr codes \<and>
      fresh_wallet walletID accountID codes db \<and> db' = created_db walletID accountID owner codes db)"
    using assms(2) by (auto simp: wallet_Create_def wallet_body_Inr [OF s] split: sum.splits dest!: run_tx_failed)
  then show ?thesis using system_inv_created assms(1) by blast
qed

lemma outbox_steps:
  assumes "system_inv db ls"
  shows "Claim random env locked limit lease db = (cs, db') \<Longrightarrow> system_inv db' ls"
    and "MarkPublished scan env i token db = (r, db') \<Longrightarrow> system_inv db' ls"
    and "MarkFailed scan env i token retryAfter diagnostic db = (r, db') \<Longrightarrow> system_inv db' ls"
  using assms system_inv_updated [OF assms] same_content_rows
  by (auto dest!: Claim_updates MarkPublished_effect MarkFailed_effect update_outbox_rows_updated)

lemma idle_step: "system_inv db' ls \<Longrightarrow> \<exists>ls'. system_inv db' ls' \<and> evolves ls ls'"
  by (blast intro: evolves.idle)

lemma system_step_evolves:
  assumes "system_inv db ls" "system_step scan store jsonb db db'"
  shows "\<exists>ls'. system_inv db' ls' \<and> evolves ls ls'"
  using assms(2)
proof (cases rule: system_step.cases)
  case create
  then show ?thesis by (rule create_step [OF assms(1)])
next
  case create_pending
  then show ?thesis by (rule pending_step [OF assms(1)])
next
  case assess
  then show ?thesis by (rule risk_step [OF assms(1)])
next
  case settle
  then show ?thesis by (rule transaction_step [OF assms(1)])
next
  case decide
  then show ?thesis by (rule decide_step [OF assms(1)])
next
  case post
  then show ?thesis by (rule idle_step [OF posting_step [OF assms(1)]])
next
  case create_wallet
  then show ?thesis by (rule idle_step [OF wallet_step [OF assms(1)]])
next
  case claim
  then show ?thesis by (rule idle_step [OF outbox_steps(1) [OF assms(1)]])
next
  case published
  then show ?thesis by (rule idle_step [OF outbox_steps(2) [OF assms(1)]])
next
  case unpublished
  then show ?thesis by (rule idle_step [OF outbox_steps(3) [OF assms(1)]])
next
  case quarantine
  then show ?thesis using quarantine_effect assms(1) evolves.idle by (metis system_inv_frame(1))
next
  case tick
  then show ?thesis using assms(1) evolves.idle by (metis system_inv_frame(2))
qed

end

end
