(* ===== verification/Wallet_Progress.thy ===== *)
theory Wallet_Progress
  imports Wallet_System
begin

text \<open>
  The stored transfers as an abstract machine: each identifier has at most one status and version, a new
  transfer is pending or already completed, and from then on it follows the lifecycle of \<open>spec_step\<close>.
\<close>

section \<open>The abstraction\<close>

type_synonym registry = "uuid \<rightharpoonup> Status \<times> int"

definition progress :: "database \<Rightarrow> registry" where
  "progress db =
     map_of (map (\<lambda>r. (tr_id r, (fst (lifecycleStatus (tr_status r)), sint (tr_state_version r)))) (transfers db))"

definition progress_init :: "registry \<Rightarrow> bool" where
  "progress_init m \<longleftrightarrow> m = Map.empty"

inductive progress_step :: "registry \<Rightarrow> registry \<Rightarrow> bool" where
  idle: "progress_step m m"
| accept: "m i = None \<Longrightarrow> progress_step m (m(i \<mapsto> (StatusPendingRisk, 1)))"
| direct: "m i = None \<Longrightarrow> progress_step m (m(i \<mapsto> (StatusCompleted, 1)))"
| move: "m i = Some s \<Longrightarrow> spec_step s s' \<Longrightarrow> progress_step m (m(i \<mapsto> s'))"

definition registry_of :: "Lifecycle list \<Rightarrow> registry" where
  "registry_of ls = map_of (map (\<lambda>l. (l_id l, spec_of l)) ls)"

lemma progress_stored: "stored db ls \<Longrightarrow> progress db = registry_of ls"
  by (auto simp: progress_def registry_of_def stored_def spec_of_def list_all_iff lifecycle_ok_known lifecycleStatus_String
      intro!: arg_cong [of _ _ map_of])

lemma registry_of_None: "registry_of ls i = None \<longleftrightarrow> i \<notin> l_id ` set ls"
  by (simp add: registry_of_def map_of_eq_None_iff image_image)

lemma registry_of_append: "l_id l \<notin> l_id ` set ls \<Longrightarrow> registry_of (ls @ [l]) = (registry_of ls)(l_id l \<mapsto> spec_of l)"
  using registry_of_None [of ls "l_id l"] by (auto simp: registry_of_def map_add_def split: option.splits)

lemma registry_of_member: "stored db ls \<Longrightarrow> l \<in> set ls \<Longrightarrow> registry_of ls (l_id l) = Some (spec_of l)"
  by (auto simp: registry_of_def stored_def comp_def intro!: map_of_is_SomeI)

lemma registry_of_advance:
  assumes "cur \<in> set ls" "l_transfer nxt = l_transfer cur"
  shows "registry_of (advance cur nxt ls) = (registry_of ls)(l_id cur \<mapsto> spec_of nxt)"
proof -
  have "registry_of (advance cur nxt ls) i =
    (if i = l_id cur \<and> i \<in> l_id ` set ls then Some (spec_of nxt) else registry_of ls i)" for i
    using assms(2) by (induction ls) (auto simp: registry_of_def advance_def)
  with imageI [OF assms(1), of l_id] show ?thesis by (auto simp: fun_eq_iff)
qed

lemma evolves_progress:
  assumes "evolves ls ls'" "stored db ls"
  shows "progress_step (registry_of ls) (registry_of ls')"
  using assms(1)
proof (cases rule: evolves.cases)
  case idle
  then show ?thesis using progress_step.idle by simp
next
  case (accepted l)
  then show ?thesis
    using progress_step.accept [of "registry_of ls" "l_id l"] by (simp add: registry_of_append registry_of_None)
next
  case (direct l)
  then show ?thesis
    using progress_step.direct [of "registry_of ls" "l_id l"] by (simp add: registry_of_append registry_of_None)
next
  case (moved cur nxt)
  have ok: "lifecycle_ok cur" by (rule stored_ok [OF assms(2) moved(2)])
  have "spec_step (spec_of cur) (spec_of nxt)" using ok moved(3) by (rule lifecycle.sim_step)
  with registry_of_member [OF assms(2) moved(2)] show ?thesis
    using progress_step.move registry_of_advance [OF moved(2) lifecycle_step_facts(2) [OF ok moved(3)]] moved(1) by metis
qed

definition wallet_inv :: "database \<Rightarrow> bool" where
  "wallet_inv db \<longleftrightarrow> (\<exists>ls. system_inv db ls)"

lemma system_init_inv: "system_init db \<Longrightarrow> system_inv db []"
  using ledger_init_inv
  by (auto simp: system_init_def system_inv_def consistent_def stored_def transfers_deferred_def cases_ok_def ledger_inv_def)

sublocale uuid_scanner \<subseteq> wallet: simulation system_init "system_step scan store jsonb" wallet_inv progress progress_init
    progress_step
  for store jsonb
proof unfold_locales
  show "wallet_inv db" if "system_init db" for db using system_init_inv [OF that] by (auto simp: wallet_inv_def)
  show "wallet_inv db'" if "wallet_inv db" "system_step scan store jsonb db db'" for db db'
    using that system_step_evolves by (auto simp: wallet_inv_def) blast
  show "progress_init (progress db)" if "system_init db" for db
    using that by (simp add: system_init_def progress_init_def progress_def)
  show "progress_step (progress db) (progress db')" if i: "wallet_inv db" and s: "system_step scan store jsonb db db'" for db db'
  proof -
    from i obtain ls where ls: "system_inv db ls" by (auto simp: wallet_inv_def)
    obtain ls' where ls': "system_inv db' ls'" "evolves ls ls'" using system_step_evolves [OF ls s] by blast
    have "stored db ls" "stored db' ls'" using ls ls' consistentD(1) by (auto simp: system_inv_def)
    with evolves_progress [OF ls'(2)] show ?thesis by (simp add: progress_stored)
  qed
qed

section \<open>Terminal statuses\<close>

definition terminal :: "Status \<Rightarrow> bool" where
  "terminal s \<longleftrightarrow> s \<in> {StatusCompleted, StatusDeclined, StatusFailed}"

lemma progress_step_terminal:
  assumes "progress_step m m'" "m i = Some (s, v)" "terminal s"
  shows "m' i = Some (s, v)"
  using assms by (cases rule: progress_step.cases) (auto simp: terminal_def spec_step_def)

lemma progress_step_versions:
  assumes "progress_step m m'" "m i = Some (s, v)"
  shows "\<exists>s' v'. m' i = Some (s', v') \<and> v \<le> v'"
  using assms by (cases rule: progress_step.cases) (auto simp: spec_step_def)

context uuid_scanner
begin

lemma system_steps_progress:
  "(system_step scan store jsonb)\<^sup>*\<^sup>* db db' \<Longrightarrow> wallet_inv db \<Longrightarrow> wallet_inv db' \<and> progress_step\<^sup>*\<^sup>* (progress db) (progress db')"
proof (induction rule: rtranclp_induct)
  case (step y z)
  then show ?case using wallet.inv_step wallet.sim_step by (meson rtranclp.rtrancl_into_rtrancl)
qed simp

end

end
