(* ===== verification/Transfer_Forward.thy ===== *)
theory Transfer_Forward
  imports Wallet_Progress
begin

text \<open>
  What the operations on transfers achieve when nothing disturbs them: an announcement is always stored, a request
  from an authorized customer is always accepted, and an approved transfer is always settled.

  \<open>takes_plain\<close> is what they rely on of the \<open>jsonb\<close> column: it stores every printed value of bounded size and
  depth whose strings are visible ASCII.
\<close>

section \<open>Events\<close>

definition takes_plain :: "(string \<Rightarrow> string result) \<Rightarrow> bool" where
  "takes_plain jsonb \<longleftrightarrow>
     (\<forall>v. plain v \<longrightarrow> fits 3 v \<longrightarrow> jbound v \<le> 32768 \<longrightarrow>
       (\<exists>t. jsonb (json_print v) = Inr t \<and> take 1 t = take 1 (json_print v) \<and> len t \<le> max_payload_octets))"

lemma takes_plain_text: "takes_plain Inr"
  using length_print by (fastforce simp: takes_plain_def max_payload_octets_def)

definition fresh_event :: "uuid \<Rightarrow> int64 \<Rightarrow> database \<Rightarrow> bool" where
  "fresh_event i n db \<longleftrightarrow>
     isCanonicalUUID i \<and> i \<notin> o_event_id ` set (outbox_events db) \<and> n \<notin> o_sequence ` set (outbox_events db)"

definition stored_draft :: "draft \<Rightarrow> bool" where
  "stored_draft d \<longleftrightarrow> (\<exists>ps kvs. NewDraft ps = Inr d \<and> dr_payload d = json_print (JObject kvs) \<and>
     plain (JObject kvs) \<and> fits 3 (JObject kvs) \<and> jbound (JObject kvs) \<le> 32768)"

lemma AddTx_fresh:
  assumes "takes_plain jsonb" "stored_draft d" "draft_for ty a v d" "fresh_event i n db"
    "(ty, v) \<notin> set (events_of db a)"
  obtains e row where "AddTx jsonb store i n d db = (Inr e, db\<lparr>outbox_events := outbox_events db @ [row]\<rparr>)"
    "o_aggregate_id row = a" "event_of row = (ty, v)" "e = \<lparr>en_eventID = i, en_draft = d\<rparr>"
    "o_event_id row = i" "o_sequence row = n"
proof -
  from assms(2) obtain ps kvs where d: "NewDraft ps = Inr d" "dr_payload d = json_print (JObject kvs)"
    "plain (JObject kvs)" "fits 3 (JObject kvs)" "jbound (JObject kvs) \<le> 32768" unfolding stored_draft_def by blast
  obtain t where t: "jsonb (dr_payload d) = Inr t" "take 1 t = ''{''" "len t \<le> max_payload_octets"
    using assms(1) d(2-5) unfolding takes_plain_def by fastforce
  have v: "validateDraft d = Inr d" "draft_validate d = None"
    using NewDraft_params_of [OF d(1)] d(1) by (simp_all add: validateDraft_def NewDraft_Inr)
  let ?row = "new_outbox_row store (clock db) i n d t"
  have f: "o_aggregate_id ?row = a" "event_of ?row = (ty, v)" "o_event_id ?row = i" "o_sequence ?row = n"
    using assms(3) by (simp_all add: new_outbox_row_def event_of_def draft_for_def)
  have "list_all snd (outbox_checks ?row)"
    using v(2) t(2,3)
    by (simp add: draft_validate_None outbox_checks_def new_outbox_row_def validEventType_sql validAggregateType_sql)
  moreover have "outbox_event_key ?row \<notin> outbox_event_key ` set (outbox_events db)"
    using assms(5) f(1,2) by (force simp: events_of_def event_of_def outbox_event_key_def)
  ultimately have "insert_outbox_row ?row db = (Inr (), db\<lparr>outbox_events := outbox_events db @ [?row]\<rparr>)"
    using assms(4) f(3,4) by (simp add: insert_outbox_row_Inr fresh_event_def)
  moreover have "NewEnvelope i d = Inr \<lparr>en_eventID = i, en_draft = d\<rparr>"
    using assms(4) v(2) by (simp add: NewEnvelope_Inr fresh_event_def normalizeUUID_canonical)
  ultimately have "AddTx jsonb store i n d db =
      (Inr \<lparr>en_eventID = i, en_draft = d\<rparr>, db\<lparr>outbox_events := outbox_events db @ [?row]\<rparr>)"
    by (simp add: AddTx_def v(1) insertEvent_def t(1) tx_bind_def tx_return_def)
  with f show thesis using that by blast
qed

text \<open>The history of a status is one of a few lists.\<close>

fun histories :: "Status \<Rightarrow> (string \<times> int64) list list" where
  "histories StatusPendingRisk = [[(RequestedType, 1)]]"
| "histories StatusReviewRequired = [[(RequestedType, 1), (RiskAssessedType, 2)]]"
| "histories StatusApproved =
    [[(RequestedType, 1), (RiskAssessedType, 2)],
     [(RequestedType, 1), (RiskAssessedType, 2), (ReviewDecidedType, 3)]]"
| "histories StatusDeclined =
    [[(RequestedType, 1), (RiskAssessedType, 2)],
     [(RequestedType, 1), (RiskAssessedType, 2), (ReviewDecidedType, 3)]]"
| "histories StatusCompleted =
    [[(CompletedType, 1)],
     [(RequestedType, 1), (RiskAssessedType, 2), (CompletedType, 3)],
     [(RequestedType, 1), (RiskAssessedType, 2), (ReviewDecidedType, 3), (CompletedType, 4)]]"
| "histories StatusFailed =
    [[(RequestedType, 1), (RiskAssessedType, 2), (FailedType, 3)],
     [(RequestedType, 1), (RiskAssessedType, 2), (ReviewDecidedType, 3), (FailedType, 4)]]"
| "histories StatusUnknown = []"

lemma event_log_histories: "event_log s v es \<Longrightarrow> es \<in> set (histories s) \<and> snd (last es) = v"
  by (induction rule: event_log.induct) auto

lemma histories_event_log: "es \<in> set (histories s) \<Longrightarrow> event_log s (snd (last es)) es"
proof -
  have p: "event_log StatusPendingRisk 1 [(RequestedType, 1)]" by (rule event_log.requested)
  have a: "event_log s 2 [(RequestedType, 1), (RiskAssessedType, 2)]"
    if "s \<in> {StatusApproved, StatusReviewRequired, StatusDeclined}" for s
    using event_log.assessed [OF p that] by simp
  have d: "event_log s 3 [(RequestedType, 1), (RiskAssessedType, 2), (ReviewDecidedType, 3)]"
    if "s \<in> {StatusApproved, StatusDeclined}" for s
    using event_log.decided [OF a that] by simp
  have c: "event_log StatusCompleted 3 [(RequestedType, 1), (RiskAssessedType, 2), (CompletedType, 3)]"
    "event_log StatusCompleted 4 [(RequestedType, 1), (RiskAssessedType, 2), (ReviewDecidedType, 3), (CompletedType, 4)]"
    "event_log StatusFailed 3 [(RequestedType, 1), (RiskAssessedType, 2), (FailedType, 3)]"
    "event_log StatusFailed 4 [(RequestedType, 1), (RiskAssessedType, 2), (ReviewDecidedType, 3), (FailedType, 4)]"
    using event_log.completed [OF a] event_log.completed [OF d] event_log.failed [OF a] event_log.failed [OF d] by simp_all
  have "list_all (\<lambda>es. event_log s (snd (last es)) es) (histories s)"
    by (cases s) (simp_all add: p a d c event_log.direct)
  then show "es \<in> set (histories s) \<Longrightarrow> event_log s (snd (last es)) es" by (simp add: list_all_iff)
qed

lemma event_log_version:
  assumes "event_log s v es"
  shows "sint v \<in> {1..4}" "v \<noteq> MaxInt64" "(ty, v + 1) \<notin> set es"
  using event_log_histories [OF assms] by (cases s; auto simp: MaxInt64_def)+


section \<open>Settlement\<close>

text \<open>Both accounts exist in the transfer's currency and can take the changes, but for the funds.\<close>

definition room :: "database \<Rightarrow> Transfer \<Rightarrow> bool" where
  "room db t \<longleftrightarrow>
     (\<forall>c \<in> transfer_changes t. \<exists>b. row_of (account_balances db) (ac_accountID c) = Some b \<and> holds b c)"

lemma room_frame [simp]: "room (db\<lparr>consumer_inbox := x\<rparr>) t = room db t"
  by (simp add: room_def)

lemma fresh_event_frame [simp]:
  "fresh_event i n (db\<lparr>consumer_inbox := x\<rparr>) = fresh_event i n db" "fresh_event i n (db\<lparr>transfers := y\<rparr>) = fresh_event i n db"
  by (simp_all add: fresh_event_def)

lemma deferred_advance:
  assumes "stored db ls" "transfers_deferred db = None" "cur \<in> set ls" "lifecycle_ok nxt" "l_transfer nxt = l_transfer cur"
    and "transfers db' = map lifecycle_row (advance cur nxt ls)" "accounts db' = accounts db" "entry_ids db \<subseteq> entry_ids db'"
    and "l_status nxt = StatusCompleted \<Longrightarrow> l_id cur \<in> entry_ids db'"
  shows "transfers_deferred db' = None"
proof -
  have old: "list_all snd (transfer_fks db' (lifecycle_row l))" if "l \<in> set ls" for l
  proof (rule transfer_fks_mono [of db])
    show "list_all snd (transfer_fks db (lifecycle_row l))"
      using that assms(1,2) by (simp add: transfers_deferred_None stored_def)
  qed (use assms(7,8) in simp_all)
  have "l_journalEntryID nxt = (if l_status nxt = StatusCompleted then l_id cur else [])"
    using assms(4,5) by (cases "l_status nxt") (auto simp: lifecycle_ok_def)
  with old [OF assms(3)] assms(5,9) have "list_all snd (transfer_fks db' (lifecycle_row nxt))"
    by (auto simp: transfer_fks_def null_if_empty_def entry_ids_def)
  with old set_advance [OF assms(1,3)] show ?thesis
    by (auto simp: transfers_deferred_None assms(6))
qed

lemma Complete_Approved:
  assumes "lifecycle_ok cur" "l_status cur = StatusApproved" "l_version cur \<noteq> MaxInt64"
  obtains nxt where "Complete cur = Inr nxt" "l_status nxt = StatusCompleted"
  using transition_enabled [OF assms(1,3), of StatusCompleted "l_id cur" "[]"] assms(1,2) lifecycle_ok_trim(4) [OF assms(1)]
  by (auto simp: Complete_def)

lemma Fail_Approved:
  assumes "lifecycle_ok cur" "l_status cur = StatusApproved" "l_version cur \<noteq> MaxInt64"
  obtains nxt where "Fail cur insufficientFundsReason = Inr nxt" "l_status nxt = StatusFailed"
proof -
  have r: "TrimSpace insufficientFundsReason = insufficientFundsReason" "validLifecycleCode insufficientFundsReason" by code_simp+
  from transition_enabled [OF assms(1,3), of StatusFailed "[]" insufficientFundsReason] assms(2) r that show thesis
    by (auto simp: Fail_def)
qed

lemma announce:
  assumes "takes_plain jsonb" "stored_draft d" "draft_for ty (l_id nxt) (l_version nxt) d" "fresh_event i n db"
    "stored db ls" "cur \<in> set ls" "lifecycle_step cur nxt" "event_log (l_status cur) (l_version cur) (events_of db (l_id cur))"
  obtains row where "o_event_id row = i" "o_sequence row = n"
    "tx_bind (StoreLifecycleTransitionTx cur nxt) (\<lambda>_.
      tx_bind (tx_lift (Inr d)) (\<lambda>draft. tx_bind (AddTx jsonb store i n draft) (\<lambda>_. tx_return ()))) db =
    (Inr (), db\<lparr>transfers := map lifecycle_row (advance cur nxt ls), outbox_events := outbox_events db @ [row]\<rparr>)"
proof -
  note f = lifecycle_step_facts [OF stored_ok [OF assms(5,6)] assms(7)]
  let ?db = "db\<lparr>transfers := map lifecycle_row (advance cur nxt ls)\<rparr>"
  have "(ty, l_version nxt) \<notin> set (events_of ?db (l_id nxt))"
    using event_log_version(3) [OF assms(8)] f(2,3) by (simp add: events_of_def)
  moreover have "fresh_event i n ?db" using assms(4) by simp
  ultimately obtain e row where "AddTx jsonb store i n d ?db = (Inr e, ?db\<lparr>outbox_events := outbox_events ?db @ [row]\<rparr>)"
    "o_event_id row = i" "o_sequence row = n"
    using AddTx_fresh [where store = store, OF assms(1-3)] by metis
  with that [of row] show thesis
    by (simp add: tx_bind_def StoreLifecycleTransitionTx_row [OF assms(5,6) f(1,2,4)] tx_lift_def tx_return_def)
qed


lemma transfer_draft_stored:
  assumes "validEventType ty" "isCanonicalUUID i" "0 < sint v" "cause = [] \<or> isCanonicalUUID cause" "\<not> IsZero at"
    "plain (JObject kvs)" "fits 3 (JObject kvs)" "jbound (JObject kvs) \<le> 32768"
  shows "stored_draft (transfer_draft ty i v cause at (JObject kvs))" "draft_for ty i v (transfer_draft ty i v cause at (JObject kvs))"
proof -
  note n = NewDraft_transfer [OF assms]
  then show "stored_draft (transfer_draft ty i v cause at (JObject kvs))"
    using assms(6-8) unfolding stored_draft_def
    by (intro exI conjI) (simp_all add: transfer_draft_def del: json_print.simps)
  show "draft_for ty i v (transfer_draft ty i v cause at (JObject kvs))"
    using NewDraft_for [OF n] assms(2) by simp
qed

lemma CompletedLifecycle_stored:
  assumes "lifecycle_ok l" "l_status l = StatusCompleted" "in_calendar (t_requestedAt (l_transfer l))"
    "isCanonicalUUID cause" "\<not> IsZero at"
  obtains d where "CompletedLifecycle l at cause = Inr d" "stored_draft d" "draft_for CompletedType (l_id l) (l_version l) d"
proof -
  have "transfer_ok (l_transfer l)" using assms(1) by (simp add: lifecycle_ok_def)
  from transfer_draft_stored [OF transfer_event_types(1) canonical_id [OF assms(1)] lifecycle_ok_version [OF assms(1)] _
      assms(5) intent_object [OF this assms(3)]] assms(4) CompletedLifecycle_total [OF assms] that
  show thesis by blast
qed

lemma failed_object:
  assumes "lifecycle_ok l" "l_status l = StatusFailed"
  shows "plain (JObject [(''transfer_id'', JString (l_id l)), (''reason_code'', JString (l_failureReason l))])"
    "fits 3 (JObject [(''transfer_id'', JString (l_id l)), (''reason_code'', JString (l_failureReason l))])"
    "jbound (JObject [(''transfer_id'', JString (l_id l)), (''reason_code'', JString (l_failureReason l))]) \<le> 32768"
proof -
  have t: "isCanonicalUUID (l_id l)" "validLifecycleCode (l_failureReason l)"
    using assms by (auto simp: lifecycle_ok_def transfer_ok_def)
  with code_length [OF t(2)]
  show "plain (JObject [(''transfer_id'', JString (l_id l)), (''reason_code'', JString (l_failureReason l))])"
    "fits 3 (JObject [(''transfer_id'', JString (l_id l)), (''reason_code'', JString (l_failureReason l))])"
    "jbound (JObject [(''transfer_id'', JString (l_id l)), (''reason_code'', JString (l_failureReason l))]) \<le> 32768"
    by (simp_all add: canonical_ascii code_ascii canonical_length)
qed

lemma Failed_stored:
  assumes "lifecycle_ok l" "l_status l = StatusFailed" "isCanonicalUUID cause" "\<not> IsZero at"
  obtains d where "Failed l at cause = Inr d" "stored_draft d" "draft_for FailedType (l_id l) (l_version l) d"
  using transfer_draft_stored [OF transfer_event_types(2) canonical_id [OF assms(1)] lifecycle_ok_version [OF assms(1)] _
      assms(4) failed_object [OF assms(1,2)]] assms(3) Failed_total [OF assms] that
  by blast

context uuid_scanner
begin

lemma PostTx_room:
  assumes "transfer_ok t" "\<not> IsZero at" "schema_ok db" "t_id t \<notin> entry_ids db" "room db t"
  shows "if funded db t then \<exists>q. prepareEntry scan (transfer_entry t at) = Inr q \<and>
      PostTx scan store (transfer_entry t at) db = (Inr (), posted_db store q db) \<and> pe_id q = t_id t
    else \<exists>e. PostTx scan store (transfer_entry t at) db = (Inl e, db) \<and>
      errors_Is e (E LedgerRepository ErrInsufficientFunds)"
proof -
  obtain q where q: "prepareEntry scan (transfer_entry t at) = Inr q" "set (pe_changes q) = transfer_changes t"
    using prepareEntry_transfer [OF assms(1,2)] .
  note ok = prepareEntry_ok [OF q(1)] and e = prepare_transfer_entry [OF assms(1) q(1)]
  show ?thesis
  proof (cases "funded db t")
    case True
    then have "postable db q" using funded_iff [OF q(2)] e(1,2) assms(4) by (simp add: postable_def entry_ids_def)
    then have "postPrepared store q db = (Inr (), posted_db store q db)"
      using postPrepared_Inr [OF ok assms(3)] by blast
    with True q(1) e(1) show ?thesis by (simp add: PostTx_def)
  next
    case False
    then have "postPrepared store q db = (fail LedgerRepository ErrInsufficientFunds, db)"
      using postPrepared_insufficient [OF ok assms(3) e(2)] funded_iff [OF q(2)] assms(5) by (simp add: room_def q(2))
    with False q(1) show ?thesis
      by (simp add: PostTx_def classifyPostError_def errors_Is_def as_PgError_def)
  qed
qed

lemma complete_forward:
  assumes "consistent db ls" "cur \<in> set ls" "l_status cur = StatusApproved" "\<not> IsZero at" "isCanonicalUUID cause"
    and "in_calendar (t_requestedAt (l_transfer cur))" "takes_plain jsonb" "fresh_event i n db"
    and q: "PostTx scan store (transfer_entry (l_transfer cur) at) db = (Inr (), posted_db store q db)" "pe_id q = l_id cur"
  shows "\<exists>db'. post scan store jsonb i n cur cause at db = (Inr (), db') \<and> transfers_deferred db' = None"
proof -
  note c = consistentD [OF assms(1)]
  have ok: "lifecycle_ok cur" by (rule stored_ok [OF c(1) assms(2)])
  have log: "event_log (l_status cur) (l_version cur) (events_of db (l_id cur))"
    using c(5) [OF assms(2)] by (simp add: announced_def)
  let ?db = "posted_db store q db"
  obtain nxt where nxt: "Complete cur = Inr nxt" "l_status nxt = StatusCompleted"
    by (rule Complete_Approved [OF ok assms(3) event_log_version(2) [OF log]])
  note step = lifecycle_step.complete [OF nxt(1)]
  note f = lifecycle_step_facts [OF ok step]
  obtain d where d: "CompletedLifecycle nxt at cause = Inr d" "stored_draft d"
    "draft_for CompletedType (l_id nxt) (l_version nxt) d"
    using CompletedLifecycle_stored [OF f(1) nxt(2) _ assms(5,4)] assms(6) f(2) by auto
  have same: "stored ?db ls" "fresh_event i n ?db" "events_of ?db = events_of db"
    using c(1) stored_cong [of ?db db ls] assms(8) by (simp_all add: posted_db_def fresh_event_def events_of_def fun_eq_iff)
  obtain row where run: "tx_bind (StoreLifecycleTransitionTx cur nxt) (\<lambda>_.
      tx_bind (tx_lift (Inr d)) (\<lambda>draft. tx_bind (AddTx jsonb store i n draft) (\<lambda>_. tx_return ()))) ?db =
      (Inr (), ?db\<lparr>transfers := map lifecycle_row (advance cur nxt ls), outbox_events := outbox_events ?db @ [row]\<rparr>)"
    using announce [where store = store, OF assms(7) d(2,3) same(2,1) assms(2) step] log same(3) by auto
  let ?db' = "?db\<lparr>transfers := map lifecycle_row (advance cur nxt ls), outbox_events := outbox_events ?db @ [row]\<rparr>"
  have "post scan store jsonb i n cur cause at db = (Inr (), ?db')"
    using run by (simp add: post_def journalEntry_eq [OF ok assms(3,4)] q(1) nxt(1) d(1) tx_bind_def tx_lift_def)
  moreover have "transfers_deferred ?db' = None"
    by (rule deferred_advance [OF c(1,3) assms(2) f(1,2)])
      (use q(2) in \<open>auto simp: posted_db_def entry_ids_def entry_row_of_def\<close>)
  ultimately show ?thesis by blast
qed

lemma fail_forward:
  assumes "consistent db ls" "cur \<in> set ls" "l_status cur = StatusApproved" "\<not> IsZero at" "isCanonicalUUID cause"
    and "takes_plain jsonb" "fresh_event i n db"
    and e: "PostTx scan store (transfer_entry (l_transfer cur) at) db = (Inl e, db)"
      "errors_Is e (E LedgerRepository ErrInsufficientFunds)"
  shows "\<exists>db'. post scan store jsonb i n cur cause at db = (Inr (), db') \<and> transfers_deferred db' = None"
proof -
  note c = consistentD [OF assms(1)]
  have ok: "lifecycle_ok cur" by (rule stored_ok [OF c(1) assms(2)])
  have log: "event_log (l_status cur) (l_version cur) (events_of db (l_id cur))"
    using c(5) [OF assms(2)] by (simp add: announced_def)
  obtain nxt where nxt: "Fail cur insufficientFundsReason = Inr nxt" "l_status nxt = StatusFailed"
    by (rule Fail_Approved [OF ok assms(3) event_log_version(2) [OF log]])
  note step = lifecycle_step.failure [OF nxt(1)]
  note f = lifecycle_step_facts [OF ok step]
  obtain d where d: "Failed nxt at cause = Inr d" "stored_draft d" "draft_for FailedType (l_id nxt) (l_version nxt) d"
    by (rule Failed_stored [OF f(1) nxt(2) assms(5,4)])
  obtain row where run: "tx_bind (StoreLifecycleTransitionTx cur nxt) (\<lambda>_.
      tx_bind (tx_lift (Inr d)) (\<lambda>draft. tx_bind (AddTx jsonb store i n draft) (\<lambda>_. tx_return ()))) db =
      (Inr (), db\<lparr>transfers := map lifecycle_row (advance cur nxt ls), outbox_events := outbox_events db @ [row]\<rparr>)"
    using announce [where store = store, OF assms(6) d(2,3) assms(7) c(1) assms(2) step log] by auto
  let ?db' = "db\<lparr>transfers := map lifecycle_row (advance cur nxt ls), outbox_events := outbox_events db @ [row]\<rparr>"
  have "post scan store jsonb i n cur cause at db = (Inr (), ?db')"
    using run by (simp add: post_def journalEntry_eq [OF ok assms(3,4)] e nxt(1) d(1) fail_transfer_def tx_bind_def tx_lift_def)
  moreover have "transfers_deferred ?db' = None"
    by (rule deferred_advance [OF c(1,3) assms(2) f(1,2)]) (simp_all add: nxt(2))
  ultimately show ?thesis by blast
qed

lemma post_forward:
  assumes "consistent db ls" "cur \<in> set ls" "l_status cur = StatusApproved" "\<not> IsZero at" "isCanonicalUUID cause"
    and "in_calendar (t_requestedAt (l_transfer cur))" "room db (l_transfer cur)" "takes_plain jsonb" "fresh_event i n db"
  shows "\<exists>db'. post scan store jsonb i n cur cause at db = (Inr (), db') \<and> transfers_deferred db' = None"
proof -
  note c = consistentD [OF assms(1)]
  have "transfer_ok (l_transfer cur)" using stored_ok [OF c(1) assms(2)] by (simp add: lifecycle_ok_def)
  moreover have "l_id cur \<notin> entry_ids db" using c(4) [OF assms(2)] assms(3) by (simp add: booked_def)
  ultimately have "if funded db (l_transfer cur) then \<exists>q. prepareEntry scan (transfer_entry (l_transfer cur) at) = Inr q \<and>
      PostTx scan store (transfer_entry (l_transfer cur) at) db = (Inr (), posted_db store q db) \<and> pe_id q = l_id cur
    else \<exists>e. PostTx scan store (transfer_entry (l_transfer cur) at) db = (Inl e, db) \<and>
      errors_Is e (E LedgerRepository ErrInsufficientFunds)"
    by (rule PostTx_room [OF _ assms(4) c(2) _ assms(7)])
  then show ?thesis
    using complete_forward [OF assms(1-6,8,9)] fail_forward [OF assms(1-5,8,9)] by (auto split: if_splits)
qed

text \<open>The handler around it, for an event that it has not seen.\<close>

lemma settle_forward:
  assumes "consistent db ls" "cur \<in> set ls" "scan j = Some (l_id cur)" "\<not> conflict cur"
    and "NewEnvelope (en_eventID e) (en_draft e) = Inr e" "(transaction_consumerName, en_eventID e) \<notin> reserved db"
    and "\<not> ignore \<Longrightarrow> l_status cur = StatusApproved \<and> \<not> IsZero now \<and> in_calendar (t_requestedAt (l_transfer cur)) \<and>
      room db (l_transfer cur) \<and> takes_plain jsonb \<and> fresh_event i n db"
  shows "\<exists>db'. tx_bind (ReserveTx transaction_consumerName e) (\<lambda>reserved.
       if \<not> reserved then tx_return ()
       else tx_bind (LoadLifecycleForUpdateTx scan j) (\<lambda>current.
         if conflict current then tx_lift (fail TransferRepository ErrStateConflict)
         else if ignore then tx_return ()
         else post scan store jsonb i n current (en_eventID e) now)) db = (Inr (), db') \<and>
     transfers_deferred db' = None"
proof -
  let ?db = "db\<lparr>consumer_inbox := consumer_inbox db @ [new_inbox_row (clock db) transaction_consumerName e]\<rparr>"
  have name: "validConsumerName transaction_consumerName" by code_simp
  have reserve: "ReserveTx transaction_consumerName e db = (Inr True, ?db)"
    using ReserveTx_eq [OF name assms(5)] assms(6) by simp
  have c1: "consistent ?db ls" using assms(1) by simp
  have load: "LoadLifecycleForUpdateTx scan j ?db = (Inr cur, ?db)"
    by (rule Load_row [where scan = scan, OF consistentD(1) [OF c1] assms(2,3)])
  have "\<exists>db'. (if ignore then tx_return () else post scan store jsonb i n cur (en_eventID e) now) ?db = (Inr (), db') \<and>
    transfers_deferred db' = None"
  proof (cases ignore)
    case True
    then show ?thesis using consistentD(3) [OF c1] by (simp add: tx_return_def)
  next
    case False
    have "isCanonicalUUID (en_eventID e)"
      using assms(5) by (simp add: NewEnvelope_Inr) (metis canonical_fst_normalizeUUID envelope.select_convs(1))
    with False assms(7) post_forward [OF c1 assms(2)] show ?thesis by simp
  qed
  then show ?thesis using assms(4) by (auto simp: tx_bind_def reserve load)
qed

end

end
