(* ===== verification/Review_Forward.thy ===== *)
theory Review_Forward
  imports Transfer_Forward
begin

text \<open>
  The undisturbed runs before the settlement: an authorized request is accepted, an accepted one is assessed, and
  one that waits for review is decided.
\<close>

section \<open>Assessment\<close>

text \<open>No assessment and no review case of the transfer exists, and none was caused by the event.\<close>

definition unassessed :: "uuid \<Rightarrow> Lifecycle \<Rightarrow> database \<Rightarrow> bool" where
  "unassessed cause cur db \<longleftrightarrow>
     l_id cur \<notin> ra_transfer_id ` set (transfer_risk_assessments db) \<and>
     cause \<notin> ra_causation_event_id ` set (transfer_risk_assessments db) \<and>
     l_id cur \<notin> rc_transfer_id ` set (transfer_review_cases db)"

lemma unassessed_frame [simp]:
  "unassessed cause cur (db\<lparr>consumer_inbox := x\<rparr>) = unassessed cause cur db"
  "unassessed cause cur (db\<lparr>transfers := y\<rparr>) = unassessed cause cur db"
  by (simp_all add: unassessed_def)

abbreviation input_members :: "Input \<Rightarrow> (string \<times> jvalue) list" where
  "input_members input \<equiv>
     [(''amount_minor'', JInt (sint (minorUnits (in_Amount input)))),
      (''currency'', JString (currency_String (currency (in_Amount input)))),
      (''velocity_transfer_count'', JInt (sint (in_VelocityTransferCount input))),
      (''velocity_degraded'', JBool (in_VelocityDegraded input))]"

lemma input_object:
  shows "plain (JObject (input_members input))" "fits 3 (JObject (input_members input))"
    "jbound (JObject (input_members input)) \<le> 32768"
proof -
  have "length (int_text (sint (minorUnits (in_Amount input)))) \<le> 20"
    "length (int_text (sint (in_VelocityTransferCount input))) \<le> 20" by (rule length_int_text, simp)+
  then show "plain (JObject (input_members input))" "fits 3 (JObject (input_members input))"
    "jbound (JObject (input_members input)) \<le> 32768"
    using currency_length [of "currency (in_Amount input)"] by (simp_all add: currency_ascii)
qed

lemma risk_transition_forward:
  assumes "lifecycle_ok cur" "l_status cur = StatusPendingRisk" "d \<noteq> DecisionUnknown"
  obtains nxt where "risk_transition cur d = Inr nxt"
proof -
  have v: "l_version cur \<noteq> MaxInt64" using assms(1,2) by (auto simp: lifecycle_ok_def MaxInt64_def)
  have "\<exists>nxt. transition cur s [] [] = Inr nxt" if "s \<in> {StatusApproved, StatusReviewRequired, StatusDeclined}" for s
    using transition_enabled [OF assms(1) v, of s "[]" "[]"] that assms(2) by auto
  then have "\<exists>nxt. risk_transition cur d = Inr nxt"
    using assms(2,3) by (cases d) (simp_all add: Approve_def RequireReview_def Decline_def)
  with that show thesis by blast
qed


lemma signals_array:
  assumes "Evaluate p input = Inr ev"
  shows "plain (JArray (map signalPayload (ev_signals ev)))" "fits 3 (JArray (map signalPayload (ev_signals ev)))"
    "jbound (JArray (map signalPayload (ev_signals ev))) \<le> 32768"
proof -
  have id: "isCanonicalUUID (t_id (l_transfer sample_pending))" by code_simp
  note o = assessed_object [OF id assms]
  from o(1) show "plain (JArray (map signalPayload (ev_signals ev)))" by simp
  from o(2) have "fits 2 (JArray (map signalPayload (ev_signals ev)))" by simp
  then show "fits 3 (JArray (map signalPayload (ev_signals ev)))" by (rule fits_mono) simp
  from o(3) show "jbound (JArray (map signalPayload (ev_signals ev))) \<le> 32768" by simp
qed

lemma insertRiskAssessment_forward:
  assumes "takes_plain jsonb" "Evaluate p input = Inr ev" "2 \<le> sint (l_version nxt)"
    and "l_id cur \<in> tr_id ` set (transfers db)" "unassessed cause cur db"
  obtains a where "insertRiskAssessment jsonb store cur nxt ev (json_print (JObject (input_members input)))
      (json_print (JArray (map signalPayload (ev_signals ev)))) cause at db =
    (Inr (), db\<lparr>transfer_risk_assessments := transfer_risk_assessments db @ [a]\<rparr>)"
    "ra_transfer_id a = l_id cur" "ra_lifecycle_version a = l_version nxt"
proof -
  obtain i where i: "jsonb (json_print (JObject (input_members input))) = Inr i" "take 1 i = ''{''" "len i \<le> max_payload_octets"
    using assms(1) input_object [of input] unfolding takes_plain_def by fastforce
  obtain g where g: "jsonb (json_print (JArray (map signalPayload (ev_signals ev)))) = Inr g" "take 1 g = ''[''"
    "len g \<le> max_payload_octets"
    using assms(1) signals_array [OF assms(2)] unfolding takes_plain_def by fastforce
  note e = Evaluate_score [OF assms(2)] and v = Evaluate_small(2) [OF assms(2)]
  have "sint (word_of_int (ev_score ev) :: int16) = ev_score ev" using e by (simp add: sint_sbintrunc' signed_take_bit_int_eq_self)
  moreover have "decision_String (ev_decision ev) \<in> {''approve'', ''review'', ''decline''}"
    using e by (cases "ev_decision ev") auto
  moreover have "sql_visible 64 (ev_policyVersion ev)"
    using v by (simp add: risk_validPolicyVersion_def sql_visible_def maxPolicyVersionBytes_def Suc_le_eq)
  moreover have "(l_id cur, l_version nxt) \<notin> (\<lambda>x. (ra_transfer_id x, ra_lifecycle_version x)) ` set (transfer_risk_assessments db)"
    using assms(5) by (auto simp: unassessed_def)
  ultimately show thesis
    using that i g assms(3-5) e
    by (simp add: insertRiskAssessment_def insert_assessment_row_def constrained_pass tx_bind_def tx_lift_def
        max_jsonb_octets_def max_payload_octets_def unassessed_def)
qed


lemma insertReviewCase_forward:
  assumes "2 \<le> sint (l_version nxt)" "l_id cur \<in> tr_id ` set (transfers db)"
    and "(l_id cur, l_version nxt) \<in> (\<lambda>x. (ra_transfer_id x, ra_lifecycle_version x)) ` set (transfer_risk_assessments db)"
    and "l_id cur \<notin> rc_transfer_id ` set (transfer_review_cases db)"
  obtains c where "insertReviewCase store cur nxt at db =
    (Inr (), db\<lparr>transfer_review_cases := transfer_review_cases db @ [c]\<rparr>)"
    "rc_assessment_lifecycle_version c = l_version nxt"
  using assms that
  by (simp add: insertReviewCase_def insert_review_row_def constrained_pass review_checks_def)

context uuid_scanner
begin

lemma StoreRiskAssessmentTx_forward:
  assumes "stored db ls" "cur \<in> set ls" "l_status cur = StatusPendingRisk"
    and "risk_transition cur (ev_decision ev) = Inr nxt" "Evaluate p input = Inr ev" "in_Amount input = t_amount (l_transfer cur)"
    and "ev_policyVersion ev = l_riskPolicyVersion cur" "isCanonicalUUID cause" "\<not> IsZero at" "takes_plain jsonb"
      "unassessed cause cur db"
  obtains a cs where "StoreRiskAssessmentTx scan store jsonb cur nxt input ev cause at db =
    (Inr (), db\<lparr>transfers := map lifecycle_row (advance cur nxt ls),
       transfer_risk_assessments := transfer_risk_assessments db @ [a],
       transfer_review_cases := transfer_review_cases db @ cs\<rparr>)"
    "\<forall>c \<in> set cs. rc_assessment_lifecycle_version c = l_version nxt"
proof -
  note ok = stored_ok [OF assms(1,2)] and step = risk_transition_step [OF assms(4)] and st = risk_transition_status [OF assms(4)]
  note f = lifecycle_step_facts [OF ok step]
  have one: "l_version cur = 1" using ok assms(3) by (auto simp: lifecycle_ok_def int64_eq_iff)
  have "\<not> in_VelocityTransferCount input <s 0" using assms(5) by (auto simp: Evaluate_def split: option.splits if_splits)
  then have prep: "prepareRiskAssessment scan cur nxt input ev cause at =
      Inr (json_print (JObject (input_members input)), json_print (JArray (map signalPayload (ev_signals ev))), cause)"
    using assms(3,6-9) f st
    by (simp add: prepareRiskAssessment_def transfer_parseUUID_def scan_canonical del: json_print.simps)
  have "l_status nxt \<in> {StatusApproved, StatusReviewRequired, StatusDeclined}" using f(5) assms(3) by auto
  then have "l_journalEntryID nxt = l_journalEntryID cur" "l_failureReason nxt = l_failureReason cur"
    using ok f(1) assms(3) by (auto simp: lifecycle_ok_def)
  then have row: "assessed_row nxt (lifecycle_row cur) = lifecycle_row nxt" using f(2,4) by (simp add: assessed_row_lifecycle)
  let ?db1 = "db\<lparr>transfers := map lifecycle_row (advance cur nxt ls)\<rparr>"
  have up: "update_transfer_rows (at_state cur) (assessed_row nxt) db = (Inr 1, ?db1)"
    by (rule update_row [where new = "assessed_row nxt", OF assms(1,2) f(1) row])
  have two: "2 \<le> sint (l_version nxt)" using f(3) one by simp
  have here: "l_id cur \<in> tr_id ` set (transfers ?db1)"
    using imageI [OF assms(2), of l_id] map_id_advance [OF f(2), of ls] by (simp add: image_image) (metis list.set_map)
  have un: "unassessed cause cur ?db1" using assms(11) by simp
  obtain a where a: "insertRiskAssessment jsonb store cur nxt ev (json_print (JObject (input_members input)))
      (json_print (JArray (map signalPayload (ev_signals ev)))) cause at ?db1 =
    (Inr (), ?db1\<lparr>transfer_risk_assessments := transfer_risk_assessments ?db1 @ [a]\<rparr>)"
    "ra_transfer_id a = l_id cur" "ra_lifecycle_version a = l_version nxt"
    by (rule insertRiskAssessment_forward [where store = store, OF assms(10,5) two here un])
  let ?db2 = "?db1\<lparr>transfer_risk_assessments := transfer_risk_assessments ?db1 @ [a]\<rparr>"
  have keys: "l_id cur \<in> tr_id ` set (transfers ?db2)" "l_id cur \<notin> rc_transfer_id ` set (transfer_review_cases ?db2)"
    "(l_id cur, l_version nxt) \<in> (\<lambda>x. (ra_transfer_id x, ra_lifecycle_version x)) ` set (transfer_risk_assessments ?db2)"
    using here a(2,3) assms(11) by (simp_all add: unassessed_def)
  obtain cs where "(if l_status nxt = StatusReviewRequired then insertReviewCase store cur nxt at else tx_return ()) ?db2 =
    (Inr (), ?db2\<lparr>transfer_review_cases := transfer_review_cases ?db2 @ cs\<rparr>)"
    and cs: "\<forall>c \<in> set cs. rc_assessment_lifecycle_version c = l_version nxt"
  proof (cases "l_status nxt = StatusReviewRequired")
    case True
    obtain c where "insertReviewCase store cur nxt at ?db2 = (Inr (), ?db2\<lparr>transfer_review_cases := transfer_review_cases ?db2 @ [c]\<rparr>)"
      "rc_assessment_lifecycle_version c = l_version nxt"
      by (rule insertReviewCase_forward [where store = store and at = at, OF two keys(1,3,2)])
    with that [of "[c]"] True show thesis by simp
  next
    case False
    with that [of "[]"] show thesis by (simp add: tx_return_def)
  qed
  then show thesis
    by (intro that [where a = a and cs = cs] cs)
      (simp add: StoreRiskAssessmentTx_def prep tx_bind_def tx_lift_def up a(1) del: json_print.simps)
qed

lemma envelope_canonical: "NewEnvelope (en_eventID e) (en_draft e) = Inr e \<Longrightarrow> isCanonicalUUID (en_eventID e)"
  by (simp add: NewEnvelope_Inr) (metis canonical_fst_normalizeUUID envelope.select_convs(1))

lemma RiskAssessed_stored:
  assumes "lifecycle_ok l" "matchesRiskDecision (l_status l) (ev_decision ev)" "Evaluate p i = Inr ev"
    "ev_policyVersion ev = l_riskPolicyVersion l" "isCanonicalUUID cause" "\<not> IsZero at"
  obtains d where "RiskAssessed l ev at cause = Inr d" "stored_draft d" "draft_for RiskAssessedType (l_id l) (l_version l) d"
  using transfer_draft_stored [OF transfer_event_types(4) canonical_id [OF assms(1)] lifecycle_ok_version [OF assms(1)] _
      assms(6) assessed_object [OF canonical_id [OF assms(1)] assms(3)]] assms(5) RiskAssessed_total [OF assms] that
  by blast

lemma risk_forward:
  assumes "consistent db ls" "cur \<in> set ls" "matches_request cur requested"
    and "NewEnvelope (en_eventID e) (en_draft e) = Inr e" "(risk_consumerName, en_eventID e) \<notin> reserved db"
    and "Evaluate policy (captureInput velocity cur now) = Inr ev" "po_version policy = l_riskPolicyVersion cur"
    and "\<not> IsZero now" "takes_plain jsonb" "unassessed (en_eventID e) cur db" "fresh_event i n db"
  obtains db' nxt row a cs where "risk_transition cur (ev_decision ev) = Inr nxt"
    "risk_body scan store jsonb i n now velocity policy requested e db = (Inr (), db')" "transfers_deferred db' = None"
    "db' = db\<lparr>consumer_inbox := consumer_inbox db @ [new_inbox_row (clock db) risk_consumerName e],
       transfers := map lifecycle_row (advance cur nxt ls),
       transfer_risk_assessments := transfer_risk_assessments db @ [a],
       transfer_review_cases := transfer_review_cases db @ cs, outbox_events := outbox_events db @ [row]\<rparr>"
    "o_event_id row = i" "o_sequence row = n" "\<forall>c \<in> set cs. rc_assessment_lifecycle_version c = l_version nxt"
proof -
  let ?db = "db\<lparr>consumer_inbox := consumer_inbox db @ [new_inbox_row (clock db) risk_consumerName e]\<rparr>"
  have name: "validConsumerName risk_consumerName" by code_simp
  have reserve: "ReserveTx risk_consumerName e db = (Inr True, ?db)" using ReserveTx_eq [OF name assms(4)] assms(5) by simp
  have c: "consistent ?db ls" using assms(1) by simp
  note ok = stored_ok [OF consistentD(1) [OF c] assms(2)]
  have st: "l_status cur = StatusPendingRisk" and id: "l_id requested = l_id cur"
    using assms(3) by (simp_all add: matches_request_def Let_def)
  have scan: "scan (l_id requested) = Some (l_id cur)" using scan_canonical [OF canonical_id [OF ok]] id by simp
  have load: "LoadLifecycleForUpdateTx scan (l_id requested) ?db = (Inr cur, ?db)"
    by (rule Load_row [where scan = scan, OF consistentD(1) [OF c] assms(2) scan])
  note ev = Evaluate_score [OF assms(6)] and can = envelope_canonical [OF assms(4)]
  obtain nxt where nxt: "risk_transition cur (ev_decision ev) = Inr nxt"
    using risk_transition_forward [OF ok st] ev by metis
  note step = risk_transition_step [OF nxt] and f = lifecycle_step_facts [OF ok risk_transition_step [OF nxt]]
  have pv: "ev_policyVersion ev = l_riskPolicyVersion cur" "ev_policyVersion ev = l_riskPolicyVersion nxt"
    using ev assms(7) f(4) by simp_all
  have amount: "in_Amount (captureInput velocity cur now) = t_amount (l_transfer cur)"
    by (simp add: captureInput_def Let_def split: sum.splits)
  have un: "unassessed (en_eventID e) cur ?db" using assms(10) by simp
  obtain a cs where store: "StoreRiskAssessmentTx scan store jsonb cur nxt (captureInput velocity cur now) ev (en_eventID e) now ?db =
    (Inr (), ?db\<lparr>transfers := map lifecycle_row (advance cur nxt ls),
       transfer_risk_assessments := transfer_risk_assessments ?db @ [a],
       transfer_review_cases := transfer_review_cases ?db @ cs\<rparr>)"
    and cs: "\<forall>c \<in> set cs. rc_assessment_lifecycle_version c = l_version nxt"
    by (rule StoreRiskAssessmentTx_forward [where store = store, OF consistentD(1) [OF c] assms(2) st nxt assms(6) amount pv(1) can
          assms(8,9) un])
  let ?db1 = "?db\<lparr>transfers := map lifecycle_row (advance cur nxt ls),
       transfer_risk_assessments := transfer_risk_assessments ?db @ [a],
       transfer_review_cases := transfer_review_cases ?db @ cs\<rparr>"
  obtain d where d: "RiskAssessed nxt ev now (en_eventID e) = Inr d" "stored_draft d"
    "draft_for RiskAssessedType (l_id nxt) (l_version nxt) d"
    by (rule RiskAssessed_stored [OF f(1) risk_transition_status [OF nxt] assms(6) pv(2) can assms(8)])
  have log: "event_log (l_status cur) (l_version cur) (events_of db (l_id cur))"
    using consistentD(5) [OF assms(1,2)] by (simp add: announced_def)
  have new: "(RiskAssessedType, l_version nxt) \<notin> set (events_of ?db1 (l_id nxt))" "fresh_event i n ?db1"
    using event_log_version(3) [OF log] f(2,3) assms(11) by (simp_all add: events_of_def fresh_event_def)
  obtain ee row where add: "AddTx jsonb store i n d ?db1 = (Inr ee, ?db1\<lparr>outbox_events := outbox_events ?db1 @ [row]\<rparr>)"
    and row: "o_event_id row = i" "o_sequence row = n"
    using AddTx_fresh [where store = store, OF assms(9) d(2,3) new(2,1)] by metis
  have "risk_body scan store jsonb i n now velocity policy requested e db =
      (Inr (), ?db1\<lparr>outbox_events := outbox_events ?db1 @ [row]\<rparr>)"
    using add by (simp add: risk_body_def tx_bind_def reserve load assms(3) Let_def tx_lift_def assms(6) nxt store d(1) tx_return_def)
  moreover have "transfers_deferred (?db1\<lparr>outbox_events := outbox_events ?db1 @ [row]\<rparr>) = None"
    by (rule deferred_advance [OF consistentD(1,3) [OF assms(1)] assms(2) f(1,2)])
      (use f(5) st in \<open>auto simp: entry_ids_def\<close>)
  ultimately show thesis by (rule that [OF nxt]) (simp, rule row(1), rule row(2), rule cs)
qed

section \<open>Decision\<close>

lemma ReviewDecided_stored:
  assumes "lifecycle_ok l" "l_status l = StatusApproved \<or> l_status l = StatusDeclined"
    "subject \<noteq> []" "list_all visible subject" "length subject \<le> 128" "\<not> IsZero at"
  obtains d where "ReviewDecided l subject at = Inr d" "stored_draft d" "draft_for ReviewDecidedType (l_id l) (l_version l) d"
  using transfer_draft_stored [OF transfer_event_types(5) canonical_id [OF assms(1)] lifecycle_ok_version [OF assms(1)] _
      assms(6) decided_object [OF canonical_id [OF assms(1)] assms(4,5)]] ReviewDecided_total [OF assms] that
  by blast

lemma open_rows:
  assumes "cases_ok db ls" "cur \<in> set ls" "l_status cur = StatusReviewRequired"
  obtains c where "filter (\<lambda>r. rc_transfer_id r = l_id cur \<and> rc_status r = ''open'') (transfer_review_cases db) = [c]"
    "rc_transfer_id c = l_id cur" "rc_status c = ''open''" "c \<in> set (transfer_review_cases db)"
proof -
  from assms have "open_case db (l_id cur)" "distinct (map rc_transfer_id (transfer_review_cases db))"
    by (simp_all add: cases_ok_def)
  then obtain c where c: "c \<in> set (transfer_review_cases db)" "rc_transfer_id c = l_id cur" "rc_status c = ''open''"
    by (auto simp: open_case_def)
  have "filter (\<lambda>r. rc_transfer_id r = l_id cur \<and> rc_status r = ''open'') (transfer_review_cases db) = [c]"
    using c distinct_map_eq [OF \<open>distinct (map rc_transfer_id _)\<close>] \<open>distinct (map rc_transfer_id _)\<close>
    by (intro filter_unique) (auto simp: distinct_map)
  with c that show thesis by blast
qed

lemma DecideReviewCaseTx_forward:
  assumes "cases_ok db ls" "cur \<in> set ls" "l_status cur = StatusReviewRequired" "scan j = Some (l_id cur)"
    and "decision = ''approved'' \<or> decision = ''declined''" "audit_validSubject subject"
    and "\<forall>c \<in> set (transfer_review_cases db). 2 \<le> sint (rc_assessment_lifecycle_version c)"
    and "transfer_review_cases db' = transfer_review_cases db"
  obtains cs where "DecideReviewCaseTx scan store j decision subject at db' = (Inr (), db'\<lparr>transfer_review_cases := cs\<rparr>)"
proof -
  let ?hit = "\<lambda>r. rc_transfer_id r = l_id cur \<and> rc_status r = ''open''"
  obtain c where c: "filter ?hit (transfer_review_cases db) = [c]" by (rule open_rows [OF assms(1-3)])
  have "list_all snd (review_checks (decided_row decision subject (store at) r))" if "r \<in> set (transfer_review_cases db)" for r
    using that assms(5-7)
    by (auto simp: review_checks_def decided_row_def sql_visible_def audit_validSubject_def Suc_le_eq)
  then have "update_review_rows ?hit (decided_row decision subject (store at)) db' =
      (Inr 1, db'\<lparr>transfer_review_cases := map (\<lambda>r. if ?hit r then decided_row decision subject (store at) r else r)
        (transfer_review_cases db')\<rparr>)"
    using c by (subst update_review_rows_Inr) (simp add: assms(8))
  moreover have "subject \<noteq> []" using assms(6) by (auto simp: audit_validSubject_def)
  ultimately show thesis
    using assms(4,5) that by (simp add: DecideReviewCaseTx_def tx_bind_def tx_lift_def transfer_parseUUID_def tx_return_def)
qed

lemma AppendReviewDecisionTx_forward:
  assumes "scan j = Some t" "3 \<le> sint v" "decision = ''approved'' \<or> decision = ''declined''" "audit_validSubject subject"
    and "\<not> IsZero at" "t \<in> tr_id ` set (transfers db)" "t \<notin> au_transfer_id ` set (transfer_review_audit_records db)"
  obtains au where "AppendReviewDecisionTx scan store
         \<lparr>rv_TransferID = j, rv_LifecycleVersion = v, rv_Decision = decision, rv_ActorSubject = subject,
          rv_OccurredAt = at\<rparr> db =
      (Inr (), db\<lparr>transfer_review_audit_records := transfer_review_audit_records db @ [au]\<rparr>)"
proof -
  have "validateReviewDecision scan \<lparr>rv_TransferID = j, rv_LifecycleVersion = v, rv_Decision = decision,
      rv_ActorSubject = subject, rv_OccurredAt = at\<rparr> = None"
    using assms(1-5) by (auto simp: validateReviewDecision_def int64_simps)
  moreover have "sql_visible 128 subject" using assms(4) by (simp add: audit_validSubject_def sql_visible_def Suc_le_eq)
  moreover have "(t, v) \<notin> (\<lambda>x. (au_transfer_id x, au_lifecycle_version x)) ` set (transfer_review_audit_records db)"
    using assms(7) by auto
  ultimately show thesis
    using assms(1-3,6) that by (simp add: AppendReviewDecisionTx_def insert_audit_row_def constrained_pass)
qed

lemma decide_forward:
  assumes "consistent db ls" "cur \<in> set ls" "l_status cur = StatusReviewRequired" "scan j = Some (l_id cur)"
    and "decision = case_DecisionApprove \<or> decision = case_DecisionDecline" "audit_validSubject (pr_Subject who)" "\<not> IsZero now"
    and "\<forall>c \<in> set (transfer_review_cases db). 2 \<le> sint (rc_assessment_lifecycle_version c)"
    and "l_id cur \<notin> au_transfer_id ` set (transfer_review_audit_records db)" "takes_plain jsonb" "fresh_event i n db"
  obtains db' nxt row cs au where "(if decision = case_DecisionApprove then Approve cur else Decline cur) = Inr nxt"
    "decide_body scan store jsonb i n now who j decision db = (Inr (), db')" "transfers_deferred db' = None"
    "db' = db\<lparr>transfers := map lifecycle_row (advance cur nxt ls), transfer_review_cases := cs,
       transfer_review_audit_records := transfer_review_audit_records db @ [au], outbox_events := outbox_events db @ [row]\<rparr>"
    "o_event_id row = i" "o_sequence row = n"
proof -
  note c = consistentD [OF assms(1)]
  note ok = stored_ok [OF c(1) assms(2)]
  have log: "event_log (l_status cur) (l_version cur) (events_of db (l_id cur))"
    using c(5) [OF assms(2)] by (simp add: announced_def)
  have two: "l_version cur = 2" using event_log_histories [OF log] assms(3) by auto
  have dec: "decision = ''approved'' \<or> decision = ''declined''"
    using assms(5) by (simp add: case_DecisionApprove_def case_DecisionDecline_def)
  have load: "LoadLifecycleForUpdateTx scan j db = (Inr cur, db)"
    by (rule Load_row [where scan = scan, OF c(1) assms(2,4)])
  obtain nxt where nxt: "(if decision = case_DecisionApprove then Approve cur else Decline cur) = Inr nxt"
    "l_status nxt = StatusApproved \<or> l_status nxt = StatusDeclined"
    using transition_enabled [OF ok event_log_version(2) [OF log], of StatusApproved "[]" "[]"]
      transition_enabled [OF ok event_log_version(2) [OF log], of StatusDeclined "[]" "[]"] assms(3)
    by (cases "decision = case_DecisionApprove") (auto simp: Approve_def Decline_def)
  have step: "lifecycle_step cur nxt" using nxt(1) by (auto intro: lifecycle_step.intros split: if_splits)
  note f = lifecycle_step_facts [OF ok step]
  let ?db1 = "db\<lparr>transfers := map lifecycle_row (advance cur nxt ls)\<rparr>"
  have up: "StoreLifecycleTransitionTx cur nxt db = (Inr (), ?db1)"
    by (rule StoreLifecycleTransitionTx_row [OF c(1) assms(2) f(1,2,4)])
  obtain cs where rc: "DecideReviewCaseTx scan store j decision (pr_Subject who) now ?db1 =
      (Inr (), ?db1\<lparr>transfer_review_cases := cs\<rparr>)"
    using DecideReviewCaseTx_forward [where store = store and at = now and db' = ?db1, OF c(7) assms(2-4) dec assms(6,8)] by auto
  let ?db2 = "?db1\<lparr>transfer_review_cases := cs\<rparr>"
  have here: "l_id cur \<in> tr_id ` set (transfers ?db2)"
    using imageI [OF assms(2), of l_id] map_id_advance [OF f(2), of ls] by (simp add: image_image) (metis list.set_map)
  have fresh: "l_id cur \<notin> au_transfer_id ` set (transfer_review_audit_records ?db2)" using assms(9) by simp
  have three: "3 \<le> sint (l_version nxt)" using f(3) two by simp
  obtain au where au: "AppendReviewDecisionTx scan store
         \<lparr>rv_TransferID = j, rv_LifecycleVersion = l_version nxt, rv_Decision = decision,
          rv_ActorSubject = pr_Subject who, rv_OccurredAt = now\<rparr> ?db2 =
      (Inr (), ?db2\<lparr>transfer_review_audit_records := transfer_review_audit_records db @ [au]\<rparr>)"
    using AppendReviewDecisionTx_forward [where store = store, OF assms(4) three dec assms(6,7) here fresh] by auto
  let ?db3 = "?db2\<lparr>transfer_review_audit_records := transfer_review_audit_records db @ [au]\<rparr>"
  have subject: "pr_Subject who \<noteq> []" "list_all visible (pr_Subject who)" "length (pr_Subject who) \<le> 128"
    using assms(6) by (auto simp: audit_validSubject_def)
  obtain d where d: "ReviewDecided nxt (pr_Subject who) now = Inr d" "stored_draft d"
    "draft_for ReviewDecidedType (l_id nxt) (l_version nxt) d"
    by (rule ReviewDecided_stored [OF f(1) nxt(2) subject assms(7)])
  have new: "(ReviewDecidedType, l_version nxt) \<notin> set (events_of ?db3 (l_id nxt))" "fresh_event i n ?db3"
    using event_log_version(3) [OF log] f(2,3) assms(11) by (simp_all add: events_of_def fresh_event_def)
  obtain ee row where add: "AddTx jsonb store i n d ?db3 = (Inr ee, ?db3\<lparr>outbox_events := outbox_events ?db3 @ [row]\<rparr>)"
    and row: "o_event_id row = i" "o_sequence row = n"
    using AddTx_fresh [where store = store, OF assms(10) d(2,3) new(2,1)] by metis
  have "decide_body scan store jsonb i n now who j decision db = (Inr (), ?db3\<lparr>outbox_events := outbox_events ?db3 @ [row]\<rparr>)"
    using add nxt(1) by (simp add: decide_body_def tx_bind_def load assms(3) tx_lift_def up rc au d(1) tx_return_def)
  moreover have "transfers_deferred (?db3\<lparr>outbox_events := outbox_events ?db3 @ [row]\<rparr>) = None"
    by (rule deferred_advance [OF c(1,3) assms(2) f(1,2)]) (use nxt(2) in \<open>auto simp: entry_ids_def\<close>)
  ultimately show thesis by (rule that [OF nxt(1)]) (simp, rule row(1), rule row(2))
qed

section \<open>Acceptance\<close>

lemma preparePending_forward:
  assumes "lifecycle_ok l" "l_status l = StatusPendingRisk" "in_calendar (t_requestedAt (l_transfer l))"
  obtains p where "preparePendingTransfer scan l = Inr p" "pp_lifecycle p = l"
proof -
  have ids: "isCanonicalUUID (l_id l)" "isCanonicalUUID (t_requesterID (l_transfer l))"
    "isCanonicalUUID (t_sourceAccountID (l_transfer l))" "isCanonicalUUID (t_destinationAccountID (l_transfer l))"
    using assms(1) by (simp_all add: lifecycle_ok_def transfer_ok_def)
  have "NewLifecycle
       \<lparr>lp_Transfer = l_transfer l, lp_Status = l_status l, lp_Version = l_version l,
        lp_RiskPolicyVersion = l_riskPolicyVersion l, lp_JournalEntryID = l_journalEntryID l,
        lp_FailureReason = l_failureReason l\<rparr> = Inr l"
    using NewLifecycle_params [OF assms(1)] by (simp add: lifecycle_params_def)
  with ids Requested_total [OF assms] assms(2) that show thesis
    by (simp add: preparePendingTransfer_def transfer_parseUUID_canonical Let_def)
qed

end

lemma check_records_Inr:
  "check_records code rs = Inr () \<longleftrightarrow>
     (\<forall>r \<in> set rs. ar_status r = ''active'' \<and> ar_accountType r = ''customer'' \<and> ar_currency r = code)"
  by (induction rs) auto

lemma accountsQuery_record:
  assumes "map_of (rev (map (\<lambda>record. (ar_id record, record)) (transfer_accountsQuery ids db))) i = Some r"
  obtains a w where "a \<in> set (accounts db)" "w \<in> set (wallets db)" "a_id a = i" "w_id w = a_wallet_id a"
    "r = \<lparr>ar_id = i, ar_ownerID = w_owner_id w, ar_status = a_status a, ar_accountType = a_account_type a,
      ar_currency = a_currency a\<rparr>"
  using map_of_SomeD [OF assms] that by (auto simp: transfer_accountsQuery_def)

lemma authorized_accounts:
  assumes "fst (authorizeTransferAccounts t a b db) = Inr ()"
  shows "(t_sourceAccountID t, currency_String (currency (t_amount t))) \<in> (\<lambda>a. (a_id a, a_currency a)) ` set (accounts db)"
    and "(t_destinationAccountID t, currency_String (currency (t_amount t))) \<in> (\<lambda>a. (a_id a, a_currency a)) ` set (accounts db)"
proof -
  let ?m = "map_of (rev (map (\<lambda>record. (ar_id record, record)) (transfer_accountsQuery [a, b] db)))"
  from assms obtain s d where r: "?m (t_sourceAccountID t) = Some s" "?m (t_destinationAccountID t) = Some d"
    "check_records (currency_String (currency (t_amount t))) [s, d] = Inr ()"
    by (auto simp: authorizeTransferAccounts_def tx_read_def Let_def simp del: check_records.simps
        split: option.splits if_splits)
  from r(3) have "ar_currency s = currency_String (currency (t_amount t))" "ar_currency d = currency_String (currency (t_amount t))"
    unfolding check_records_Inr by simp_all
  with accountsQuery_record [OF r(1)] accountsQuery_record [OF r(2)]
  show "(t_sourceAccountID t, currency_String (currency (t_amount t))) \<in> (\<lambda>a. (a_id a, a_currency a)) ` set (accounts db)"
    "(t_destinationAccountID t, currency_String (currency (t_amount t))) \<in> (\<lambda>a. (a_id a, a_currency a)) ` set (accounts db)"
    by (metis (mono_tags, lifting) accountRecord.select_convs(5) imageI)+
qed

lemma authorize_recorded:
  "authorizeTransferAccounts (recorded store t) a b db = authorizeTransferAccounts t a b db"
  unfolding authorizeTransferAccounts_def recorded_sels by (rule refl)

lemma deferred_append:
  assumes "transfers_deferred db = None" "transfers db' = transfers db @ [lifecycle_row l]"
    and "accounts db' = accounts db" "entry_ids db \<subseteq> entry_ids db'"
    and "fst (authorizeTransferAccounts (l_transfer l) a b db) = Inr ()" "l_journalEntryID l \<noteq> [] \<Longrightarrow> l_journalEntryID l \<in> entry_ids db'"
  shows "transfers_deferred db' = None"
proof -
  have "list_all snd (transfer_fks db' r)" if "r \<in> set (transfers db)" for r
    by (rule transfer_fks_mono [of db]) (use that assms(1,3,4) in \<open>simp_all add: transfers_deferred_None\<close>)
  moreover have "list_all snd (transfer_fks db' (lifecycle_row l))"
    using authorized_accounts [OF assms(5)] assms(3,6) by (auto simp: transfer_fks_def null_if_empty_def entry_ids_def)
  ultimately show ?thesis by (auto simp: transfers_deferred_None assms(2))
qed

context uuid_scanner
begin

lemma pending_forward:
  assumes "consistent db ls" "lifecycle_ok l" "l_status l = StatusPendingRisk" "in_calendar (t_requestedAt (l_transfer l))"
    and "\<not> IsZero (store (t_requestedAt (l_transfer l)))" "l_id l \<notin> l_id ` set ls" "l_key l \<notin> l_key ` set ls"
    and "fst (authorizeTransferAccounts (l_transfer l) (t_sourceAccountID (l_transfer l)) (t_destinationAccountID (l_transfer l)) db) = Inr ()"
    and "takes_plain jsonb" "fresh_event i n db"
    and "attempts 0 = \<lparr>at_eventID = i, at_sequence = n, at_seen = seen, at_env = quiet\<rparr>" "ctx 0 = None"
  obtains db' row where "CreatePending scan store jsonb ctx attempts l db = (Inr l, db')"
    "db' = db\<lparr>transfers := transfers db @ [lifecycle_row (recorded_lifecycle store l)], outbox_events := outbox_events db @ [row]\<rparr>"
    "o_event_id row = i" "o_sequence row = n"
proof -
  note c = consistentD [OF assms(1)]
  obtain p where p: "preparePendingTransfer scan l = Inr p" "pp_lifecycle p = l"
    by (rule preparePending_forward [OF assms(2-4)])
  note pp = preparePendingTransfer_Inr [OF p(1), unfolded p(2)]
  let ?l = "recorded_lifecycle store l"
  let ?db1 = "db\<lparr>transfers := transfers db @ [lifecycle_row ?l]\<rparr>"
  have "lifecycle_ok ?l" using assms(2,5) by (rule recorded_lifecycle_ok)
  then have ins: "insert_transfer_row (lifecycle_row ?l) db = (Inr (Some (l_id l)), ?db1)"
    using insert_lifecycle_row [OF c(1)] transfer_checks_row assms(6,7) by simp
  have one: "l_version l = 1" using assms(2,3) by (auto simp: lifecycle_ok_def int64_eq_iff)
  have nz: "\<not> IsZero (t_requestedAt (l_transfer l))" using assms(2) by (simp add: lifecycle_ok_def transfer_ok_def)
  have pos: "0 < sint (1 :: int64)" by simp
  note d = transfer_draft_stored [OF transfer_event_types(3) canonical_id [OF assms(2)] pos disjI1 [OF refl] nz
      requested_plain [OF assms(2-4)]]
  have ev: "pp_requestedEvent p = transfer_draft RequestedType (l_id l) 1 [] (t_requestedAt (l_transfer l)) (JObject (requested_members l))"
    using pp(7) Requested_total [OF assms(2-4)] by simp
  have none: "o_aggregate_id e \<noteq> l_id l" if "e \<in> set (outbox_events db)" for e
    using subsetD [OF c(6) imageI [OF that]] assms(6) by metis
  have new: "(RequestedType, 1) \<notin> set (events_of ?db1 (l_id l))" "fresh_event i n ?db1"
    using none assms(10) by (auto simp: events_of_def fresh_event_def)
  obtain ee row where add: "AddTx jsonb store i n (pp_requestedEvent p) ?db1 = (Inr ee, ?db1\<lparr>outbox_events := outbox_events ?db1 @ [row]\<rparr>)"
    and row: "o_event_id row = i" "o_sequence row = n"
    using AddTx_fresh [where store = store, OF assms(9) d(1,2) new(2,1)] unfolding ev by metis
  have auth: "authorizePendingAccounts p ?db1 = (Inr (), ?db1)"
    using assms(8) by (simp add: authorizePendingAccounts_def p(2) pp(5,6) authorize_eq)
  have body: "pending_body store jsonb i n seen p db = (Inr l, ?db1\<lparr>outbox_events := outbox_events ?db1 @ [row]\<rparr>)"
    using new_pending_row_lifecycle [where store = store, OF pp(1-6) [folded p(2)]] add
    by (simp add: pending_body_def reservePendingTransfer_def tx_bind_def ins auth p(2) tx_return_def)
  have "transfers_deferred (?db1\<lparr>outbox_events := outbox_events ?db1 @ [row]\<rparr>) = None"
    by (rule deferred_append [OF c(3), where l = ?l and a = "t_sourceAccountID (l_transfer l)" and
          b = "t_destinationAccountID (l_transfer l)"])
      (use assms(2,3,8) in \<open>simp_all add: recorded_lifecycle_def lifecycle_ok_def authorize_recorded\<close>)
  with body have "createPendingOnce store jsonb i n seen quiet p db = (Inr l, ?db1\<lparr>outbox_events := outbox_events ?db1 @ [row]\<rparr>)"
    unfolding createPendingOnce_def run_deferred_Inr by (simp add: quiet_def)
  then have "CreatePending scan store jsonb ctx attempts l db = (Inr l, ?db1\<lparr>outbox_events := outbox_events ?db1 @ [row]\<rparr>)"
    using assms(11,12) by (simp add: CreatePending_def p(1) transfer_maxTransactionAttempts_def numeral_3_eq_3)
  then show thesis by (rule that) (simp, rule row(1), rule row(2))
qed

end

end
