(* ===== verification/Ledger_Properties.thy ===== *)
theory Ledger_Properties
  imports Ledger_System
begin

text \<open>
  The properties of the ledger and wallet repositories, stated on the code's own operations, and the
  concrete runs that exercise them.
\<close>

section \<open>A small ledger\<close>

text \<open>
  A system account and a customer account in one currency, a deposit, a payment the customer cannot
  make, and the deposit's reversal: the concrete inputs on which the properties are exercised.
\<close>

definition bank_id :: uuid where "bank_id = ''00000000-0000-4000-8000-00000000000a''"
definition alice_id :: uuid where "alice_id = ''00000000-0000-4000-8000-00000000000b''"
definition demo_wallet_id :: uuid where "demo_wallet_id = ''00000000-0000-4000-8000-000000000001''"
definition deposit_id :: uuid where "deposit_id = ''00000000-0000-4000-8000-0000000000e1''"
definition payment_id :: uuid where "payment_id = ''00000000-0000-4000-8000-0000000000e2''"
definition refund_id :: uuid where "refund_id = ''00000000-0000-4000-8000-0000000000e3''"
definition usd :: currency where "usd = Currency (CHR ''U'') (CHR ''S'') (CHR ''D'')"

definition demo_db :: database where
  "demo_db =
     empty_db\<lparr>clock := 5,
      wallets := [\<lparr>w_id = demo_wallet_id, w_owner_id = demo_wallet_id, w_status = ''active'',
        w_created_at = 1, w_updated_at = 1\<rparr>],
      accounts :=
        [\<lparr>a_id = bank_id, a_wallet_id = demo_wallet_id, a_currency = ''USD'', a_status = ''active'',
          a_created_at = 1, a_updated_at = 1, a_account_type = ''system''\<rparr>,
         \<lparr>a_id = alice_id, a_wallet_id = demo_wallet_id, a_currency = ''USD'', a_status = ''active'',
          a_created_at = 1, a_updated_at = 1, a_account_type = ''customer''\<rparr>],
      account_balances :=
        [\<lparr>b_account_id = bank_id, b_currency = ''USD'', b_balance_minor = 0, b_version = 0,
          b_updated_at = 1, b_account_type = ''system''\<rparr>,
         \<lparr>b_account_id = alice_id, b_currency = ''USD'', b_balance_minor = 0, b_version = 0,
          b_updated_at = 1, b_account_type = ''customer''\<rparr>]\<rparr>"

definition demo_posting :: "uuid \<Rightarrow> int64 \<Rightarrow> posting" where
  "demo_posting a m = \<lparr>p_accountID = a, p_amount = \<lparr>minorUnits = m, currency = usd\<rparr>\<rparr>"

definition demo_entry :: "uuid \<Rightarrow> JournalEntryType \<Rightarrow> string \<Rightarrow> int64 \<Rightarrow> JournalEntry" where
  "demo_entry i ty src m =
     \<lparr>je_id = i, je_entryType = ty, je_reversesEntryID = src,
      je_postings = [demo_posting bank_id (- m), demo_posting alice_id m], je_recordedAt = 7\<rparr>"

definition deposit :: JournalEntry where
  "deposit = demo_entry deposit_id JournalEntryTypeStandard [] 100"

definition payment :: JournalEntry where
  "payment = demo_entry payment_id JournalEntryTypeStandard [] (- 150)"

definition refund :: JournalEntry where
  "refund = demo_entry refund_id JournalEntryTypeReversal deposit_id (- 100)"

definition undisturbed :: "JournalEntry \<Rightarrow> (database, unit) tx" where
  "undisturbed = Post reference_scan id (\<lambda>_. None) (\<lambda>_. quiet)"

definition deposited_db :: database where
  "deposited_db = snd (undisturbed deposit demo_db)"

definition refunded_db :: database where
  "refunded_db = snd (undisturbed refund deposited_db)"

lemma demo_init: "ledger_init demo_db"
  by code_simp

lemma deposit_posted: "undisturbed deposit demo_db = (Inr (), deposited_db)"
proof -
  have "fst (undisturbed deposit demo_db) = Inr ()" by code_simp
  then show ?thesis by (simp add: deposited_db_def prod_eq_iff)
qed

lemma refund_posted: "undisturbed refund deposited_db = (Inr (), refunded_db)"
proof -
  have "fst (undisturbed refund deposited_db) = Inr ()" by code_simp
  then show ?thesis by (simp add: refunded_db_def prod_eq_iff)
qed

lemma demo_reachable: "reachable ledger_init (ledger_step reference_scan id) demo_db"
  by (rule reachable.start) (rule demo_init)

lemma deposited_reachable: "reachable ledger_init (ledger_step reference_scan id) deposited_db"
proof (rule reachable.move [OF demo_reachable])
  have "\<not> IsZero (id (je_recordedAt deposit))" by code_simp
  with deposit_posted show "ledger_step reference_scan id demo_db deposited_db"
    unfolding undisturbed_def by (rule ledger_step.post)
qed

lemma refunded_reachable: "reachable ledger_init (ledger_step reference_scan id) refunded_db"
proof (rule reachable.move [OF deposited_reachable])
  have "\<not> IsZero (id (je_recordedAt refund))" by code_simp
  with refund_posted show "ledger_step reference_scan id deposited_db refunded_db"
    unfolding undisturbed_def by (rule ledger_step.post)
qed

lemmas reference_scanner = reference.uuid_scanner_axioms

lemmas demo_schema = uuid_scanner.reachable_ledger(1) [OF reference_scanner demo_reachable]
  and deposited_schema = uuid_scanner.reachable_ledger(1) [OF reference_scanner deposited_reachable]

section \<open>Properties\<close>

text \<open>
  The balance snapshots always agree with the immutable postings. In every reachable database,
  whatever entries were posted and wallets created, and however the driver and the server failed on
  the way, \<open>Reconcile\<close> finds no discrepancy.
\<close>

theorem ledger_reconciles:
  assumes "uuid_scanner scan" "reachable ledger_init (ledger_step scan store) db"
  shows "Reconcile quiet db = (Inr [], db)"
  using no_discrepancies uuid_scanner.reachable_ledger(2) [OF assms]
  by (simp add: Reconcile_def run_tx_quiet tx_read_def)

theorem ledger_reconciles_witness:
  "reachable ledger_init (ledger_step reference_scan id) deposited_db \<and>
   Reconcile quiet deposited_db = (Inr [], deposited_db)"
  using ledger_reconciles [OF reference_scanner deposited_reachable] deposited_reachable by simp

text \<open>
  \<open>Reconcile\<close> is not vacuous: on any database at all it returns one row for each snapshot that
  differs from the sum of its postings and for no other, and changes nothing.
\<close>

theorem Reconcile_reports:
  "\<exists>ds. Reconcile quiet db = (Inr ds, db) \<and>
     bd_AccountID ` set ds =
       b_account_id ` {b \<in> set (account_balances db).
         sint (b_balance_minor b) \<noteq> ledger_total (b_account_id b) (b_currency b) db}"
proof -
  have "bd_AccountID ` set (selectBalanceDiscrepancies db) =
      b_account_id ` {b \<in> set (account_balances db).
        sint (b_balance_minor b) \<noteq> ledger_total (b_account_id b) (b_currency b) db}"
    by (auto simp: selectBalanceDiscrepancies_def ledger_minor_text image_image)
  then show ?thesis by (simp add: Reconcile_def run_tx_quiet tx_read_def)
qed

text \<open>
  Money is conserved. In every reachable database the balances of all accounts of a currency sum
  to zero over the integers, and no customer account is negative.
\<close>

theorem ledger_conserves:
  assumes "uuid_scanner scan" "reachable ledger_init (ledger_step scan store) db"
  shows "currency_supply code db = 0 \<and>
    list_all (\<lambda>b. b_account_type b = ''system'' \<or> 0 \<le> sint (b_balance_minor b)) (account_balances db)"
  using uuid_scanner.reachable_ledger(1,4) [OF assms]
  by (auto simp: schema_defs balance_checks_def list_all_iff)

theorem ledger_conserves_witness:
  "map (\<lambda>b. sint (b_balance_minor b)) (account_balances deposited_db) = [- 100, 100] \<and>
   currency_supply ''USD'' deposited_db = 0"
proof -
  have "map (\<lambda>b. sint (b_balance_minor b)) (account_balances deposited_db) = [- 100, 100]" by code_simp
  then show ?thesis using ledger_conserves [OF reference_scanner deposited_reachable] by simp
qed

text \<open>
  C16: \<open>Post\<close> does exactly what the ledger promises. Undisturbed, it succeeds if and only if the entry
  is well formed and postable (its identifier is new, each of its accounts exists in its currency
  and can settle its net change without overflow or overdraft, and a reversal inverts a stored entry
  that has none), and then it appends the entry and its postings and moves each account's balance by
  its net change, raising the account's version by one.
\<close>

theorem Post_exact:
  assumes "uuid_scanner scan" "schema_ok db"
  shows "Post scan store (\<lambda>_. None) (\<lambda>_. quiet) entry db = (Inr (), db') \<longleftrightarrow>
    (\<exists>p. prepareEntry scan entry = Inr p \<and> postable db p \<and> db' = posted_db store p db)"
  using Post_Inr [OF assms] Post_after_transient [OF assms, of _ _ 0 "\<lambda>_. quiet"] by fastforce

theorem Post_exact_witness:
  "\<exists>p. prepareEntry reference_scan deposit = Inr p \<and> postable demo_db p \<and>
     deposited_db = posted_db id p demo_db"
  using Post_exact [OF reference_scanner demo_schema, of id deposit deposited_db] deposit_posted
  by (simp add: undisturbed_def)

text \<open>
  A failed \<open>PostTx\<close> leaves the caller's transaction as it found it, so that a caller may go on in
  the same transaction (as the transfer repository does to record a failed transfer); a successful
  one has the full effect.
\<close>

theorem PostTx_all_or_nothing:
  assumes "uuid_scanner scan" "schema_ok db"
  shows "case PostTx scan store entry db of
      (Inl e, db') \<Rightarrow> db' = db
    | (Inr u, db') \<Rightarrow> \<exists>p. prepareEntry scan entry = Inr p \<and> postable db p \<and> db' = posted_db store p db"
proof (cases "prepareEntry scan entry")
  case (Inl e)
  then show ?thesis by (simp add: PostTx_def)
next
  case (Inr p)
  note ok = uuid_scanner.prepareEntry_ok [OF assms(1) Inr]
  show ?thesis
  proof (cases "postPrepared store p db")
    case (Pair r db')
    show ?thesis
    proof (cases r)
      case (Inl e)
      with Pair postPrepared_Inl [OF ok assms(2)] \<open>prepareEntry scan entry = Inr p\<close> show ?thesis
        by (auto simp: PostTx_def)
    next
      case (Inr u)
      with Pair have "postPrepared store p db = (Inr (), db')" by simp
      moreover from this have "postable db p \<and> db' = posted_db store p db"
        using postPrepared_Inr [OF ok assms(2)] by blast
      ultimately show ?thesis using \<open>prepareEntry scan entry = Inr p\<close> by (simp add: PostTx_def)
    qed
  qed
qed

theorem PostTx_all_or_nothing_witness:
  "PostTx reference_scan id payment deposited_db =
     (fail LedgerRepository ErrInsufficientFunds, deposited_db)"
proof -
  have "fst (PostTx reference_scan id payment deposited_db) = fail LedgerRepository ErrInsufficientFunds"
    by code_simp
  then show ?thesis
    using PostTx_all_or_nothing [OF reference_scanner deposited_schema, where store = id and entry = payment]
    by (auto simp: prod_eq_iff split: prod.splits sum.splits)
qed

text \<open>
  C17: The retry loop never posts twice. For any sequence of transaction outcomes, a successful \<open>Post\<close>
  has the effect of exactly one posting; a failed one has no effect, except that the effect of
  exactly one posting remains when the server committed and the acknowledgement was lost.
\<close>

theorem Post_at_most_once:
  assumes "uuid_scanner scan" "schema_ok db" "Post scan store ctx env entry db = (r, db')"
  shows "db' = db \<and> r \<noteq> Inr () \<or>
    (\<exists>p. prepareEntry scan entry = Inr p \<and> postable db p \<and> db' = posted_db store p db \<and>
       (r = Inr () \<or> (\<exists>i s. i < 3 \<and> tx_commit (env i) = CommitAckLost s)))"
proof (cases r)
  case (Inl e)
  with assms Post_Inl show ?thesis by blast
next
  case (Inr u)
  with assms Post_Inr [OF assms(1,2)] show ?thesis by auto
qed

definition lossy :: tx_env where
  "lossy = quiet\<lparr>tx_commit := CommitAckLost ''connection reset''\<rparr>"

theorem Post_at_most_once_witness:
  "\<exists>p. Post reference_scan id (\<lambda>_. None) (\<lambda>_. lossy) deposit demo_db =
      (Inl [Opaque ''connection reset''], deposited_db) \<and>
    prepareEntry reference_scan deposit = Inr p \<and> deposited_db = posted_db id p demo_db"
proof -
  have "Post reference_scan id (\<lambda>_. None) (\<lambda>_. lossy) deposit demo_db =
      (Inl [Opaque ''connection reset''], deposited_db)" "deposited_db \<noteq> demo_db"
    by code_simp+
  then show ?thesis
    using Post_at_most_once [OF reference_scanner demo_schema, where store = id and ctx = "\<lambda>_. None"
        and env = "\<lambda>_. lossy" and entry = deposit]
    by blast
qed

text \<open>
  Serialization failures and deadlocks are absorbed: if the first attempts fail transiently, at
  most two of them, and the next one is undisturbed, a postable entry is posted.
\<close>

theorem Post_retries:
  assumes "uuid_scanner scan" "schema_ok db" "prepareEntry scan entry = Inr p" "postable db p"
    and "k < 3" "\<And>i. i < k \<Longrightarrow> transient (env i)" "env k = quiet"
  shows "Post scan store (\<lambda>_. None) env entry db = (Inr (), posted_db store p db)"
  by (rule Post_after_transient [where k = k and env = env, OF assms(1-5)]) (use assms(6,7) in auto)

definition conflicted :: tx_env where
  "conflicted = quiet\<lparr>tx_stmt := Some [PgError ''40001'' []]\<rparr>"

theorem Post_retries_witness:
  "\<exists>p. prepareEntry reference_scan deposit = Inr p \<and>
     Post reference_scan id (\<lambda>_. None) (\<lambda>i. if i < 2 then conflicted else quiet) deposit demo_db =
       (Inr (), posted_db id p demo_db)"
proof -
  obtain p where p: "prepareEntry reference_scan deposit = Inr p" "postable demo_db p"
    using Post_Inr [OF reference_scanner demo_schema] deposit_posted unfolding undisturbed_def by blast
  have "transient conflicted" by code_simp
  then show ?thesis
    using Post_retries [OF reference_scanner demo_schema p, where k = 2
        and env = "\<lambda>i. if i < 2 then conflicted else quiet" and store = id]
      p(1) by simp
qed

text \<open>
  C22: Overdrafts are refused as such. If every account of a standard entry exists in its currency and
  nothing overflows, then posting it fails with \<open>ErrInsufficientFunds\<close>, without any effect, exactly
  when some customer account would become negative.
\<close>

theorem PostTx_insufficient:
  assumes "uuid_scanner scan" "schema_ok db" "prepareEntry scan entry = Inr p"
    and "pe_reversesID p = None" "pe_id p \<notin> e_id ` set (journal_entries db)"
    and "list_all (\<lambda>c. case row_of (account_balances db) (ac_accountID c) of
           None \<Rightarrow> False | Some b \<Rightarrow> holds b c) (pe_changes p)"
  shows "PostTx scan store entry db = (fail LedgerRepository ErrInsufficientFunds, db) \<longleftrightarrow>
    list_ex (\<lambda>b. b_account_type b = ''customer'' \<and>
      sint (b_balance_minor b) + posted (b_account_id b) (pe_postings p) < 0) (account_balances db)"
proof -
  note ok = uuid_scanner.prepareEntry_ok [OF assms(1,3)]
  have d: "distinct (map b_account_id (account_balances db))" using assms(2) by (simp add: schema_defs)
  have rows: "\<forall>c \<in> set (pe_changes p). \<exists>b. row_of (account_balances db) (ac_accountID c) = Some b \<and> holds b c"
    using assms(6) by (auto simp: list_all_iff split: option.splits)
  have "list_ex (\<lambda>b. b_account_type b = ''customer'' \<and>
      sint (b_balance_minor b) + posted (b_account_id b) (pe_postings p) < 0) (account_balances db) \<longleftrightarrow>
      \<not> affordable db (pe_changes p)"
    using overdrawn_iff [OF ok assms(2) rows] by simp
  moreover have "PostTx scan store entry db = (fail LedgerRepository ErrInsufficientFunds, db)"
    if "\<not> affordable db (pe_changes p)"
    using postPrepared_insufficient [OF ok assms(2,4) rows that] assms(3)
    by (simp add: PostTx_def classifyPostError_def as_PgError_def)
  moreover have "fst (PostTx scan store entry db) = Inr ()" if "affordable db (pe_changes p)"
  proof -
    have "postable db p" using that assms(4,5) by (simp add: postable_def)
    then have "postPrepared store p db = (Inr (), posted_db store p db)"
      using postPrepared_Inr [OF ok assms(2)] by blast
    with assms(3) show ?thesis by (simp add: PostTx_def)
  qed
  ultimately show ?thesis by (cases "affordable db (pe_changes p)") auto
qed

theorem PostTx_insufficient_witness:
  "PostTx reference_scan id payment deposited_db =
     (fail LedgerRepository ErrInsufficientFunds, deposited_db)"
proof -
  let ?p = "projr (prepareEntry reference_scan payment)"
  have "prepareEntry reference_scan payment = Inr ?p" "pe_reversesID ?p = None"
    "pe_id ?p \<notin> e_id ` set (journal_entries deposited_db)"
    "list_all (\<lambda>c. case row_of (account_balances deposited_db) (ac_accountID c) of
           None \<Rightarrow> False | Some b \<Rightarrow> holds b c) (pe_changes ?p)"
    "list_ex (\<lambda>b. b_account_type b = ''customer'' \<and>
      sint (b_balance_minor b) + posted (b_account_id b) (pe_postings ?p) < 0)
      (account_balances deposited_db)"
    by code_simp+
  then show ?thesis
    using PostTx_insufficient [OF reference_scanner deposited_schema, where entry = payment and p = ?p
        and store = id] by blast
qed

text \<open>
  An entry is posted at most once. After a successful \<open>Post\<close> the same entry is refused without
  any effect, and with \<open>ErrAlreadyExists\<close> where a standard entry could still be afforded.
\<close>

theorem Post_idempotent:
  assumes "uuid_scanner scan" "schema_ok db" "Post scan store ctx env entry db = (Inr (), db')"
  shows "\<exists>p. prepareEntry scan entry = Inr p \<and> \<not> postable db' p \<and>
    snd (PostTx scan store entry db') = db' \<and>
    (pe_reversesID p = None \<and> affordable db' (pe_changes p) \<longrightarrow>
      PostTx scan store entry db' =
        (Inl [E LedgerRepository ErrAlreadyExists, PgError ''23505'' ''journal_entries_pkey''], db'))"
proof -
  from Post_Inr [OF assms] obtain p where p: "prepareEntry scan entry = Inr p" "postable db p"
    "db' = posted_db store p db" by blast
  note ok = uuid_scanner.prepareEntry_ok [OF assms(1) p(1)]
  have schema: "schema_ok db'"
    using postPrepared_Inr [OF ok assms(2)] postPrepared_schema p(2,3) assms(2) by blast
  have old: "pe_id p \<in> e_id ` set (journal_entries db')"
    by (simp add: p(3) posted_db_def entry_row_of_def)
  then have np: "\<not> postable db' p" by (simp add: postable_def)
  then have "snd (PostTx scan store entry db') = db'"
    using Post_refused [OF assms(1) schema p(1) np, of store] p(1) by (auto simp: PostTx_def)
  moreover have "PostTx scan store entry db' =
      (Inl [E LedgerRepository ErrAlreadyExists, PgError ''23505'' ''journal_entries_pkey''], db')"
    if "pe_reversesID p = None" "affordable db' (pe_changes p)"
    using postPrepared_exists [OF ok schema that old] p(1)
    by (simp add: PostTx_def classifyPostError_def as_PgError_def unique_violation_def)
  ultimately show ?thesis using p(1) np by (intro exI [of _ p]) simp
qed

theorem Post_idempotent_witness:
  "PostTx reference_scan id deposit deposited_db =
     (Inl [E LedgerRepository ErrAlreadyExists, PgError ''23505'' ''journal_entries_pkey''], deposited_db)"
proof -
  obtain p where p: "prepareEntry reference_scan deposit = Inr p"
    "pe_reversesID p = None \<and> affordable deposited_db (pe_changes p) \<longrightarrow>
      PostTx reference_scan id deposit deposited_db =
        (Inl [E LedgerRepository ErrAlreadyExists, PgError ''23505'' ''journal_entries_pkey''], deposited_db)"
    using Post_idempotent [OF reference_scanner demo_schema deposit_posted [unfolded undisturbed_def]] by blast
  have "pe_reversesID (projr (prepareEntry reference_scan deposit)) = None"
    "affordable deposited_db (pe_changes (projr (prepareEntry reference_scan deposit)))" by code_simp+
  with p show ?thesis by simp
qed

text \<open>
  An entry is reversed at most once. In a reachable database, posting a second reversal of an
  entry fails with \<open>ErrAlreadyReversed\<close> and has no effect, and every stored reversal negates the
  postings of its source one by one.
\<close>

theorem reversed_once:
  assumes "uuid_scanner scan" "reachable ledger_init (ledger_step scan store) db"
    and "r \<in> set (journal_entries db)" "e_reverses_entry_id r = Some src"
    and "prepareEntry scan entry = Inr p" "pe_reversesID p = Some src"
  shows "PostTx scan store entry db = (fail LedgerRepository ErrAlreadyReversed, db) \<and>
    (\<exists>ps. selectPostings (e_id r) db = Inr ps \<and> selectPostings src db = Inr (map negated ps))"
proof -
  note inv = uuid_scanner.reachable_ledger [OF assms(1,2)]
  have "postPrepared store p db = (fail LedgerRepository ErrAlreadyReversed, db)"
    by (rule postPrepared_already_reversed [OF inv(1,3) assms(6,3,4)])
  with assms(5) inv(3) assms(3,4) show ?thesis
    by (auto simp: PostTx_def classifyPostError_def as_PgError_def journal_ok_def journal_entry_ok_iff)
qed

theorem reversed_once_witness:
  "PostTx reference_scan id (refund\<lparr>je_id := payment_id\<rparr>) refunded_db =
     (fail LedgerRepository ErrAlreadyReversed, refunded_db)"
proof -
  let ?e = "refund\<lparr>je_id := payment_id\<rparr>" and ?r = "journal_entries refunded_db ! 1"
  let ?p = "projr (prepareEntry reference_scan ?e)"
  have "?r \<in> set (journal_entries refunded_db)" "e_reverses_entry_id ?r = Some deposit_id"
    "prepareEntry reference_scan ?e = Inr ?p" "pe_reversesID ?p = Some deposit_id" by code_simp+
  then show ?thesis
    using reversed_once [OF reference_scanner refunded_reachable, where entry = ?e and p = ?p and r = ?r] by blast
qed

text \<open>
  C28: A reversal undoes its source: after an entry and then its reversal are posted, every account
  has the balance it had before.
\<close>

theorem reversal_undoes:
  assumes "uuid_scanner scan" "schema_ok db"
    and "Post scan store ctx env entry db = (Inr (), db1)"
    and "Post scan store ctx' env' reversal db1 = (Inr (), db2)"
    and "je_entryType reversal = JournalEntryTypeReversal"
    and "scan (je_reversesEntryID reversal) = scan (je_id entry)"
  shows "map (\<lambda>b. (b_account_id b, b_currency b, b_balance_minor b)) (account_balances db2) =
    map (\<lambda>b. (b_account_id b, b_currency b, b_balance_minor b)) (account_balances db)"
proof -
  from Post_Inr [OF assms(1-3)] obtain p where p: "prepareEntry scan entry = Inr p" "postable db p"
    "db1 = posted_db store p db" by blast
  note ok = uuid_scanner.prepareEntry_ok [OF assms(1) p(1)]
  have "schema_ok db1"
    using postPrepared_Inr [OF ok assms(2)] postPrepared_schema p(2,3) assms(2) by blast
  from Post_Inr [OF assms(1) this assms(4)] obtain p' where p': "prepareEntry scan reversal = Inr p'"
    "postable db1 p'" "db2 = posted_db store p' db1" by blast
  have "pe_reversesID p' = Some (pe_id p)"
    using uuid_scanner.prepareEntry_Inr(3) [OF assms(1) p'(1)]
      uuid_scanner.prepareEntry_Inr(2) [OF assms(1) p(1)] assms(5,6)
    by (auto simp: prepareReversesID_Inr)
  with reversal_restores [OF ok uuid_scanner.prepareEntry_ok [OF assms(1) p'(1)] assms(2) p(2)] p(3) p'(2,3)
  show ?thesis by simp
qed

theorem reversal_undoes_witness:
  "undisturbed deposit demo_db = (Inr (), deposited_db) \<and>
   undisturbed refund deposited_db = (Inr (), refunded_db) \<and>
   map b_balance_minor (account_balances refunded_db) = map b_balance_minor (account_balances demo_db)"
proof -
  have "je_entryType refund = JournalEntryTypeReversal"
    "reference_scan (je_reversesEntryID refund) = reference_scan (je_id deposit)" by code_simp+
  from reversal_undoes [OF reference_scanner demo_schema deposit_posted [unfolded undisturbed_def]
      refund_posted [unfolded undisturbed_def] this]
  have "map (snd \<circ> snd) (map (\<lambda>b. (b_account_id b, b_currency b, b_balance_minor b)) (account_balances refunded_db)) =
    map (snd \<circ> snd) (map (\<lambda>b. (b_account_id b, b_currency b, b_balance_minor b)) (account_balances demo_db))"
    by (rule arg_cong)
  then show ?thesis using deposit_posted refund_posted by (simp add: o_def)
qed

text \<open>
  C21: Posting and reading round-trip. An entry with canonical identifiers that was posted to a
  reachable ledger is returned by \<open>Get\<close> as it was given, with the recording time as stored.
\<close>

theorem Post_Get:
  assumes "uuid_scanner scan" "reachable ledger_init (ledger_step scan store) db"
    and "Post scan store ctx env entry db = (Inr (), db')"
    and "canonical_ids entry" "\<not> IsZero (store (je_recordedAt entry))"
  shows "Get scan quiet (je_id entry) db' = (Inr (entry\<lparr>je_recordedAt := store (je_recordedAt entry)\<rparr>), db')"
proof -
  have "reachable ledger_init (ledger_step scan store) db'"
    using assms(2) ledger_step.post [OF assms(3,5)] by (rule reachable.move)
  note inv = uuid_scanner.reachable_ledger [OF assms(1,2)]
    and inv' = uuid_scanner.reachable_ledger [OF assms(1) this]
  from Post_Inr [OF assms(1) inv(1) assms(3)] obtain p where p: "prepareEntry scan entry = Inr p"
    "postable db p" "db' = posted_db store p db" by blast
  have row: "entry_row_of store p \<in> set (journal_entries db')" "e_id (entry_row_of store p) = pe_id p"
    by (simp_all add: p(3) posted_db_def entry_row_of_def)
  have "selectPostings (pe_id p) db' = Inr (map posting_of (pe_postings p))"
    using selectPostings_posted(1) [OF uuid_scanner.prepareEntry_ok [OF assms(1) p(1)] inv(1)] p(2,3)
    by (simp add: postable_def)
  then show ?thesis
    using uuid_scanner.Get_row [OF assms(1) inv'(1,3) row(1)] row(2)
      uuid_scanner.prepareEntry_Inr(2) [OF assms(1) p(1)] entry_of_prepared [OF assms(1) p(1) assms(4)]
    by simp
qed

theorem Post_Get_witness: "Get reference_scan quiet deposit_id deposited_db = (Inr deposit, deposited_db)"
proof -
  have d: "canonical_ids deposit" "\<not> IsZero (id (je_recordedAt deposit))" "je_id deposit = deposit_id"
    "deposit\<lparr>je_recordedAt := id (je_recordedAt deposit)\<rparr> = deposit"
    by code_simp+
  from Post_Get [OF reference_scanner demo_reachable deposit_posted [unfolded undisturbed_def] d(1,2)]
  show ?thesis by (simp only: d)
qed

text \<open>
  No stored entry is ever reported corrupt. In a reachable database \<open>Get\<close> returns a valid entry for
  every stored identifier, and \<open>ErrNotFound\<close> for every other identifier.
\<close>

theorem Get_total:
  assumes "uuid_scanner scan" "reachable ledger_init (ledger_step scan store) db" "scan i = Some u"
  shows "if u \<in> e_id ` set (journal_entries db)
    then \<exists>e. Get scan quiet i db = (Inr e, db) \<and> je_id e = u \<and> entry_ok e
    else Get scan quiet i db = (fail LedgerRepository ErrNotFound, db)"
proof (cases "u \<in> e_id ` set (journal_entries db)")
  case True
  then obtain row where row: "row \<in> set (journal_entries db)" "e_id row = u" by auto
  note inv = uuid_scanner.reachable_ledger [OF assms(1,2)]
  obtain ps where ps: "selectPostings (e_id row) db = Inr ps" "2 \<le> length ps" "length ps \<le> 1024"
    "list_all posting_inv ps" "balanced ps" "isCanonicalUUID u" "\<not> IsZero (e_recorded_at row)"
    using inv(3) row by (auto simp: journal_ok_def journal_entry_ok_iff)
  have "src \<noteq> []" if "e_reverses_entry_id row = Some src" for src
  proof -
    have "src \<in> e_id ` set (journal_entries db)" using inv(1) row(1) that by (auto simp: schema_defs)
    with inv(3) show ?thesis by (auto simp: journal_ok_def journal_entry_ok_iff)
  qed
  then have "entry_ok (entry_of row ps)"
    using ps row(2)
    by (auto simp: entry_ok_def entry_of_def list_all_iff posting_inv_def split: option.splits)
  with uuid_scanner.Get_row [OF assms(1) inv(1,3) row(1) ps(1)] row(2) assms(3) True show ?thesis
    by (auto simp: entry_of_def)
next
  case False
  then have "find (\<lambda>e. e_id e = u) (journal_entries db) = None" by (auto simp: find_None_iff)
  with False assms(3) show ?thesis
    by (simp add: Get_def parseUUID_def run_tx_quiet tx_read_def selectEntry_def)
qed

theorem Get_total_witness:
  "\<exists>e. Get reference_scan quiet refund_id refunded_db = (Inr e, refunded_db) \<and> je_id e = refund_id \<and> entry_ok e"
proof -
  have "reference_scan refund_id = Some refund_id" "refund_id \<in> e_id ` set (journal_entries refunded_db)"
    by code_simp+
  then show ?thesis using Get_total [OF reference_scanner refunded_reachable] by presburger
qed

text \<open>
  C35: Creating a wallet and reading it round-trip: \<open>Get\<close> returns the wallet that \<open>Create\<close> returned. It
  has exactly one active account per requested currency, in the order of the currency codes, each
  with a zero balance at version zero.
\<close>

theorem wallet_Create_Get:
  assumes "uuid_scanner scan" "schema_ok db" "isCanonicalUUID walletID"
    and "wallet_Create scan walletID accountID env ownerID currencies db = (Inr w, db')"
  shows "wallet_Get scan quiet walletID db' = (Inr w, db') \<and> wl_ID w = walletID \<and>
    map (\<lambda>a. currency_String (currency (acct_Balance a))) (wl_Accounts w) =
      sort (map currency_String currencies) \<and>
    list_all (\<lambda>a. minorUnits (acct_Balance a) = 0 \<and> acct_BalanceVersion a = 0 \<and>
      acct_Status a = StatusActive) (wl_Accounts w)"
proof -
  from assms(4) obtain owner codes where c: "normalizeCurrencies currencies = Inr codes"
    "fresh_wallet walletID accountID codes db"
    "w = created_wallet (clock db) walletID accountID owner codes"
    "db' = created_db walletID accountID owner codes db"
    by (auto simp: wallet_Create_Inr [OF assms(2)])
  have codes: "sorted codes" "list_all valid_code codes" "codes = sort (map currency_String currencies)"
    using codes_valid [OF c(1)] c(1) by (auto simp: list_all_iff valid_code_def normalizeCurrencies_Inr)
  have "wallet_Get scan quiet walletID db' = (Inr w, db')"
    using wallet_Get_created [OF assms(2) c(2) codes(1,2)]
      uuid_scanner.scan_canonical [OF assms(1,3)] c(3,4) by blast
  moreover have "map (\<lambda>a. currency_String (currency (acct_Balance a))) (wl_Accounts w) = codes"
    using codes(2) valid_code_parsed
    by (auto simp: c(3) created_wallet_def new_account_def list_all_iff intro: map_idI)
  moreover have "list_all (\<lambda>a. minorUnits (acct_Balance a) = 0 \<and> acct_BalanceVersion a = 0 \<and>
      acct_Status a = StatusActive) (wl_Accounts w)"
    by (simp add: c(3) created_wallet_def new_account_def list_all_iff)
  moreover have "wl_ID w = walletID" by (simp add: c(3) created_wallet_def)
  ultimately show ?thesis using codes(3) by simp
qed

definition eur :: currency where "eur = Currency (CHR ''E'') (CHR ''U'') (CHR ''R'')"

definition new_ids :: "string \<Rightarrow> uuid" where
  "new_ids code = (if code = ''EUR'' then ''00000000-0000-4000-8000-0000000000c1''
     else ''00000000-0000-4000-8000-0000000000c2'')"

definition created :: "Wallet result \<times> database" where
  "created = wallet_Create reference_scan deposit_id new_ids quiet alice_id [usd, eur] deposited_db"

theorem wallet_Create_Get_witness:
  "\<exists>w. fst created = Inr w \<and> wallet_Get reference_scan quiet deposit_id (snd created) = created \<and>
     map (\<lambda>a. currency_String (currency (acct_Balance a))) (wl_Accounts w) = [''EUR'', ''USD'']"
proof -
  let ?w = "projr (fst created)"
  have "fst created = Inr ?w" by code_simp
  then have c: "wallet_Create reference_scan deposit_id new_ids quiet alice_id [usd, eur] deposited_db =
      (Inr ?w, snd created)" by (simp add: prod_eq_iff created_def)
  have "isCanonicalUUID deposit_id" "sort (map currency_String [usd, eur]) = [''EUR'', ''USD'']"
    by code_simp+
  with wallet_Create_Get [OF reference_scanner deposited_schema _ c] c show ?thesis
    by (metis created_def fst_conv)
qed

text \<open>
  \<open>Create\<close> refuses exactly the malformed requests: with fresh generated identifiers and no
  disturbance it succeeds if and only if the owner is a UUID and between one and 32 distinct valid
  currencies are given, and a refused request changes nothing.
\<close>

theorem wallet_Create_total:
  assumes "schema_ok db" "walletID \<notin> w_id ` set (wallets db)"
    and "inj_on accountID (currency_String ` set currencies)"
    and "accountID ` currency_String ` set currencies \<inter> a_id ` set (accounts db) = {}"
  shows "case wallet_Create scan walletID accountID quiet ownerID currencies db of
      (Inr w, db') \<Rightarrow> scan ownerID \<noteq> None \<and> 1 \<le> length currencies \<and> length currencies \<le> 32 \<and>
        list_all currency_valid currencies \<and> distinct currencies
    | (Inl e, db') \<Rightarrow> errors_Is e (E WalletRepository ErrInvalidArgument) \<and> db' = db \<and>
        \<not> (scan ownerID \<noteq> None \<and> 1 \<le> length currencies \<and> length currencies \<le> 32 \<and>
          list_all currency_valid currencies \<and> distinct currencies)"
proof (cases "\<exists>owner codes. scan ownerID = Some owner \<and> normalizeCurrencies currencies = Inr codes")
  case True
  then obtain owner codes where oc: "scan ownerID = Some owner" "normalizeCurrencies currencies = Inr codes"
    by blast
  have codes: "distinct codes" "set codes = currency_String ` set currencies"
    using codes_valid(2) [OF oc(2)] oc(2) by (auto simp: normalizeCurrencies_Inr)
  then have "fresh_wallet walletID accountID codes db"
    using assms(2-4) by (simp add: fresh_wallet_def distinct_map)
  then have "wallet_Create scan walletID accountID quiet ownerID currencies db =
      (Inr (created_wallet (clock db) walletID accountID owner codes),
       created_db walletID accountID owner codes db)"
    using oc by (auto simp: wallet_Create_Inr [OF assms(1)] quiet_def)
  with oc show ?thesis by (auto simp: normalizeCurrencies_Inr)
next
  case False
  have err: "e = [E WalletRepository ErrInvalidArgument]" if "normalizeCurrencies currencies = Inl e" for e
    using that collect_codes_Inl
    by (auto simp: normalizeCurrencies_def result_simps split: if_splits)
  show ?thesis
  proof (cases "scan ownerID")
    case None
    then show ?thesis by (simp add: wallet_Create_def wallet_parseUUID_def errors_Is_def)
  next
    case (Some owner)
    with False obtain e where e: "normalizeCurrencies currencies = Inl e"
      by (cases "normalizeCurrencies currencies") auto
    then have "\<not> (1 \<le> length currencies \<and> length currencies \<le> 32 \<and>
          list_all currency_valid currencies \<and> distinct currencies)"
      by (metis normalizeCurrencies_Inr Inl_Inr_False)
    with Some e err [OF e] show ?thesis
      by (auto simp: wallet_Create_def wallet_parseUUID_def errors_Is_def)
  qed
qed

theorem wallet_Create_total_witness:
  "wallet_Create reference_scan deposit_id new_ids quiet alice_id [usd, usd] deposited_db =
     (fail WalletRepository ErrInvalidArgument, deposited_db)"
proof -
  have "deposit_id \<notin> w_id ` set (wallets deposited_db)"
    "new_ids ` currency_String ` set [usd, usd] \<inter> a_id ` set (accounts deposited_db) = {}"
    "fst (wallet_Create reference_scan deposit_id new_ids quiet alice_id [usd, usd] deposited_db) =
      fail WalletRepository ErrInvalidArgument" by code_simp+
  moreover have "inj_on new_ids (currency_String ` set [usd, usd])" by simp
  ultimately show ?thesis
    using wallet_Create_total [OF deposited_schema, where walletID = deposit_id and accountID = new_ids
        and currencies = "[usd, usd]" and scan = reference_scan and ownerID = alice_id]
    by (auto simp: prod_eq_iff split: prod.splits)
qed

end
