(* ===== verification/Wallet_Run.thy ===== *)
theory Wallet_Run
  imports Review_Forward Ledger_Properties
begin

text \<open>
  Two runs of the whole program on a small bank, the concrete inputs on which the properties are exercised: a
  transfer that the policy approves at once and the worker settles, and one that an analyst decides. The \<open>jsonb\<close>
  column of the runs keeps the text that it is given.
\<close>

section \<open>The bank\<close>

definition bob_id :: uuid where "bob_id = ''00000000-0000-4000-8000-00000000000c''"
definition transfer_id :: uuid where "transfer_id = ''00000000-0000-4000-8000-0000000000a1''"
definition requested_id :: uuid where "requested_id = ''00000000-0000-4000-8000-0000000000d1''"
definition assessed_id :: uuid where "assessed_id = ''00000000-0000-4000-8000-0000000000d2''"
definition decided_id :: uuid where "decided_id = ''00000000-0000-4000-8000-0000000000d3''"
definition completed_id :: uuid where "completed_id = ''00000000-0000-4000-8000-0000000000d4''"

definition bank_db :: database where
  "bank_db =
     demo_db\<lparr>
      accounts := accounts demo_db @
        [\<lparr>a_id = bob_id, a_wallet_id = demo_wallet_id, a_currency = ''USD'', a_status = ''active'',
          a_created_at = 1, a_updated_at = 1, a_account_type = ''customer''\<rparr>],
      account_balances := account_balances demo_db @
        [\<lparr>b_account_id = bob_id, b_currency = ''USD'', b_balance_minor = 0, b_version = 0,
          b_updated_at = 1, b_account_type = ''customer''\<rparr>]\<rparr>"

definition big_deposit :: JournalEntry where
  "big_deposit = demo_entry deposit_id JournalEntryTypeStandard [] 5000"

definition funded_db :: database where
  "funded_db = snd (undisturbed big_deposit bank_db)"

abbreviation run_step :: "database \<Rightarrow> database \<Rightarrow> bool" where
  "run_step \<equiv> system_step reference_scan id Inr"

abbreviation run_reachable :: "database \<Rightarrow> bool" where
  "run_reachable \<equiv> reachable system_init run_step"

lemma bank_init: "system_init bank_db"
proof -
  have "ledger_init bank_db" "transfers bank_db = []" "outbox_events bank_db = []" "transfer_review_cases bank_db = []"
    by code_simp+
  then show ?thesis by (simp add: system_init_def)
qed

lemma big_deposit_posted: "undisturbed big_deposit bank_db = (Inr (), funded_db)"
proof -
  have "fst (undisturbed big_deposit bank_db) = Inr ()" by code_simp
  then show ?thesis by (simp add: funded_db_def prod_eq_iff)
qed

lemma funded_step: "run_step bank_db funded_db"
proof (rule system_step.post)
  show "Post reference_scan id (\<lambda>_. None) (\<lambda>_. quiet) big_deposit bank_db = (Inr (), funded_db)"
    using big_deposit_posted by (simp add: undisturbed_def)
  show "\<not> IsZero (id (je_recordedAt big_deposit))" by code_simp
  have "transfers bank_db = []" by code_simp
  then show "i \<notin> tr_id ` set (transfers bank_db)" for i by simp
qed

lemma funded_reachable: "run_reachable funded_db"
  proof (rule reachable.move)
  show "run_reachable bank_db" by (rule reachable.start) (rule bank_init)
qed (rule funded_step)

lemma funded_code [code]:
  "funded db t \<longleftrightarrow> (\<forall>c \<in> transfer_changes t. case row_of (account_balances db) (ac_accountID c) of
     None \<Rightarrow> False | Some b \<Rightarrow> accepts b c)"
  by (auto simp: funded_def split: option.splits)

lemma room_code [code]:
  "room db t \<longleftrightarrow> (\<forall>c \<in> transfer_changes t. case row_of (account_balances db) (ac_accountID c) of
     None \<Rightarrow> False | Some b \<Rightarrow> holds b c)"
  by (auto simp: room_def split: option.splits)

text \<open>The stored lifecycles are determined by the rows.\<close>

lemma stored_determined:
  assumes "stored db ls'" "transfers db = map lifecycle_row ls" "list_all lifecycle_ok ls"
  shows "ls' = ls"
proof -
  have "map (lifecycleRecord_lifecycle \<circ> lifecycle_row) ls' = map (lifecycleRecord_lifecycle \<circ> lifecycle_row) ls"
    using assms(1,2) by (metis map_map storedD(1))
  moreover have "map (lifecycleRecord_lifecycle \<circ> lifecycle_row) xs = map Inr xs" if "list_all lifecycle_ok xs" for xs
    using that lifecycleRecord_row by (auto simp: list_all_iff)
  ultimately have "map Inr ls' = (map Inr ls :: Lifecycle result list)" using assms(3) storedD(2) [OF assms(1)] by simp
  then show ?thesis by (rule map_injective) simp
qed

lemma run_consistent:
  assumes "run_reachable db" "transfers db = map lifecycle_row ls" "list_all lifecycle_ok ls"
  shows "consistent db ls"
proof -
  from reference.wallet.reachable_inv [OF assms(1)] obtain ls' where c: "consistent db ls'"
    by (auto simp: wallet_inv_def system_inv_def)
  with stored_determined [OF consistentD(1) [OF c] assms(2,3)] show ?thesis by simp
qed

section \<open>Acceptance\<close>

definition run_transfer :: "int64 \<Rightarrow> Transfer" where
  "run_transfer amount =
     \<lparr>t_id = transfer_id, t_idempotencyKey = ''order-1'', t_requesterID = demo_wallet_id, t_sourceAccountID = alice_id,
      t_destinationAccountID = bob_id, t_amount = \<lparr>minorUnits = amount, currency = usd\<rparr>, t_requestedAt = 9\<rparr>"

definition run_lifecycle :: "int64 \<Rightarrow> Status \<Rightarrow> int64 \<Rightarrow> Lifecycle" where
  "run_lifecycle amount s v =
     \<lparr>l_transfer = run_transfer amount, l_status = s, l_version = v, l_riskPolicyVersion = ''v1'',
      l_journalEntryID = [], l_failureReason = []\<rparr>"

definition run_attempts :: "nat \<Rightarrow> attempt" where
  "run_attempts = (\<lambda>_. \<lparr>at_eventID = requested_id, at_sequence = 1, at_seen = True, at_env = quiet\<rparr>)"

definition run_accept :: "int64 \<Rightarrow> (database, Lifecycle) tx" where
  "run_accept amount =
     CreatePending reference_scan id Inr (\<lambda>_. None) run_attempts (run_lifecycle amount StatusPendingRisk 1)"

definition pending_db :: "int64 \<Rightarrow> database" where
  "pending_db amount = snd (run_accept amount funded_db)"

lemma run_ok:
  assumes "amount \<in> {500, 1500}"
  shows "lifecycle_ok (run_lifecycle amount StatusPendingRisk 1)"
proof -
  have "lifecycle_validate (run_lifecycle 500 StatusPendingRisk 1) = None"
    "lifecycle_validate (run_lifecycle 1500 StatusPendingRisk 1) = None" by code_simp+
  with assms show ?thesis by (auto simp: lifecycle_validate_None)
qed

lemma run_authorized:
  assumes "amount \<in> {500, 1500}"
  shows "fst (authorizeTransferAccounts (run_transfer amount) alice_id bob_id funded_db) = Inr ()"
proof -
  have "fst (authorizeTransferAccounts (run_transfer 500) alice_id bob_id funded_db) = Inr ()"
    "fst (authorizeTransferAccounts (run_transfer 1500) alice_id bob_id funded_db) = Inr ()" by code_simp+
  with assms show ?thesis by auto
qed

lemma funded_db_empty:
  "transfers funded_db = []" "outbox_events funded_db = []" "consumer_inbox funded_db = []"
  "transfer_risk_assessments funded_db = []" "transfer_review_cases funded_db = []" "transfer_review_audit_records funded_db = []"
  "entry_ids funded_db = {deposit_id}"
  by (code_simp, code_simp, code_simp, code_simp, code_simp, code_simp, simp add: entry_ids_def, code_simp)

lemma recorded_id [simp]: "recorded_lifecycle id l = l"
  by (simp add: recorded_lifecycle_def recorded_def)

lemma run_sels [simp]:
  "l_transfer (run_lifecycle amount s v) = run_transfer amount" "l_status (run_lifecycle amount s v) = s"
  "l_version (run_lifecycle amount s v) = v" "l_riskPolicyVersion (run_lifecycle amount s v) = ''v1''"
  "t_id (run_transfer amount) = transfer_id" "t_requestedAt (run_transfer amount) = 9"
  "t_sourceAccountID (run_transfer amount) = alice_id" "t_destinationAccountID (run_transfer amount) = bob_id"
  by (simp_all add: run_lifecycle_def run_transfer_def)

lemma run_constants:
  "isCanonicalUUID requested_id" "isCanonicalUUID assessed_id" "isCanonicalUUID decided_id" "isCanonicalUUID completed_id"
  "isCanonicalUUID transfer_id"
  "\<not> IsZero 9" "\<not> IsZero 10" "\<not> IsZero 11" "in_calendar 9" "transfer_id \<noteq> deposit_id" "requested_id \<noteq> assessed_id" "requested_id \<noteq> decided_id"
  "assessed_id \<noteq> decided_id" "requested_id \<noteq> completed_id" "assessed_id \<noteq> completed_id" "decided_id \<noteq> completed_id"
  by code_simp+

lemma pending_run:
  assumes "amount \<in> {500, 1500}"
  obtains row where "run_accept amount funded_db = (Inr (run_lifecycle amount StatusPendingRisk 1), pending_db amount)"
    "pending_db amount = funded_db\<lparr>transfers := map lifecycle_row [run_lifecycle amount StatusPendingRisk 1], outbox_events := [row]\<rparr>"
    "o_event_id row = requested_id" "o_sequence row = 1"
proof -
  have c: "consistent funded_db []" by (rule run_consistent [OF funded_reachable]) (simp_all add: funded_db_empty)
  have "fresh_event requested_id 1 funded_db" by (simp add: fresh_event_def run_constants funded_db_empty)
  then obtain db' row where "run_accept amount funded_db = (Inr (run_lifecycle amount StatusPendingRisk 1), db')"
    "db' = funded_db\<lparr>transfers := transfers funded_db @ [lifecycle_row (run_lifecycle amount StatusPendingRisk 1)],
       outbox_events := outbox_events funded_db @ [row]\<rparr>" "o_event_id row = requested_id" "o_sequence row = 1"
    using reference.pending_forward [where store = id and attempts = run_attempts and ctx = "\<lambda>_. None" and i = requested_id and n = 1 and seen = True
        and jsonb = Inr, OF c run_ok [OF assms]] run_authorized [OF assms]
    by (auto simp: run_accept_def run_attempts_def takes_plain_text run_constants)
  with that show thesis by (auto simp: pending_db_def funded_db_empty)
qed

lemma pending_reachable:
  assumes "amount \<in> {500, 1500}"
  shows "run_reachable (pending_db amount)"
proof (rule reachable.move [OF funded_reachable])
  obtain row where "run_accept amount funded_db = (Inr (run_lifecycle amount StatusPendingRisk 1), pending_db amount)"
    by (rule pending_run [OF assms])
  then show "run_step funded_db (pending_db amount)"
    unfolding run_accept_def by (rule system_step.create_pending) (simp_all add: run_constants funded_db_empty)
qed

section \<open>Assessment\<close>

lemma envelope_of_draft:
  assumes "stored_draft d" "isCanonicalUUID i"
  shows "NewEnvelope i d = Inr \<lparr>en_eventID = i, en_draft = d\<rparr>"
  using assms by (auto simp: stored_draft_def NewEnvelope_Inr NewDraft_Inr normalizeUUID_canonical)

definition requested_event :: "int64 \<Rightarrow> envelope" where
  "requested_event amount =
     \<lparr>en_eventID = requested_id,
      en_draft = transfer_draft RequestedType transfer_id 1 [] 9
        (JObject (requested_members (run_lifecycle amount StatusPendingRisk 1)))\<rparr>"

definition run_risk :: riskHandler where
  "run_risk = \<lparr>rh_policies = [''v1'' \<mapsto> sample_policy], rh_velocity = noopVelocityObserver\<rparr>"

definition run_assess :: "int64 \<Rightarrow> (database, unit) tx" where
  "run_assess amount = risk_Handle reference_scan id Inr assessed_id 2 quiet 10 run_risk (requested_event amount)"

definition assessed_db :: "int64 \<Rightarrow> database" where
  "assessed_db amount = snd (run_assess amount (pending_db amount))"

definition run_status :: "int64 \<Rightarrow> Status" where
  "run_status amount = (if amount = 500 then StatusApproved else StatusReviewRequired)"

lemma run_handler_quiet:
  "run_handler quiet body db = (Inr x, db') \<longleftrightarrow> body db = (Inr x, db') \<and> transfers_deferred db' = None"
  unfolding run_handler_def run_deferred_Inr by (simp add: quiet_def)

lemma run_evaluated:
  assumes "amount \<in> {500, 1500}"
  obtains ev where "Evaluate sample_policy (captureInput noopVelocityObserver (run_lifecycle amount StatusPendingRisk 1) 10) = Inr ev"
    "risk_transition (run_lifecycle amount StatusPendingRisk 1) (ev_decision ev) = Inr (run_lifecycle amount (run_status amount) 2)"
    "ev_policyVersion ev = ''v1''" "ev_decision ev = (if amount = 500 then DecisionApprove else DecisionReview)"
proof -
  have "Evaluate sample_policy (captureInput noopVelocityObserver (run_lifecycle 500 StatusPendingRisk 1) 10) =
      Inr (newEvaluation ''v1'' 0 DecisionApprove [])" by code_simp
  moreover have "Evaluate sample_policy (captureInput noopVelocityObserver (run_lifecycle 1500 StatusPendingRisk 1) 10) =
      Inr sample_evaluation" by code_simp
  moreover have "risk_transition (run_lifecycle 500 StatusPendingRisk 1) DecisionApprove = Inr (run_lifecycle 500 StatusApproved 2)"
    "risk_transition (run_lifecycle 1500 StatusPendingRisk 1) DecisionReview = Inr (run_lifecycle 1500 StatusReviewRequired 2)"
    by code_simp+
  ultimately show thesis using assms that
    by (auto simp: run_status_def newEvaluation_def sample_evaluation_def)
qed

lemma requested_event_facts:
  assumes "amount \<in> {500, 1500}"
  shows "ParseRequested (requested_event amount) =
      Inr ((run_lifecycle amount StatusPendingRisk 1)\<lparr>l_transfer := (run_transfer amount)\<lparr>t_idempotencyKey := ''event-request''\<rparr>\<rparr>)"
    and "NewEnvelope (en_eventID (requested_event amount)) (en_draft (requested_event amount)) = Inr (requested_event amount)"
proof -
  let ?l = "run_lifecycle amount StatusPendingRisk 1"
  note ok = run_ok [OF assms]
  have cal: "in_calendar (t_requestedAt (l_transfer ?l))" by (simp add: run_constants)
  show "ParseRequested (requested_event amount) =
      Inr (?l\<lparr>l_transfer := (run_transfer amount)\<lparr>t_idempotencyKey := ''event-request''\<rparr>\<rparr>)"
    using ParseRequested_draft [OF ok _ cal, of requested_id] by (simp add: requested_event_def)
  have "stored_draft (en_draft (requested_event amount))"
    using transfer_draft_stored(1) [OF transfer_event_types(3) run_constants(5) _ _ run_constants(6) requested_plain [OF ok _ cal]]
    by (simp add: requested_event_def)
  from envelope_of_draft [OF this run_constants(1)]
  show "NewEnvelope (en_eventID (requested_event amount)) (en_draft (requested_event amount)) = Inr (requested_event amount)"
    by (simp add: requested_event_def)
qed

lemma assessed_run:
  assumes "amount \<in> {500, 1500}"
  obtains rx ry a cs where "run_assess amount (pending_db amount) = (Inr (), assessed_db amount)"
    "assessed_db amount = funded_db\<lparr>
       consumer_inbox := [new_inbox_row (clock funded_db) risk_consumerName (requested_event amount)],
       transfers := map lifecycle_row [run_lifecycle amount (run_status amount) 2], transfer_risk_assessments := [a],
       transfer_review_cases := cs, outbox_events := [rx, ry]\<rparr>"
    "o_event_id rx = requested_id" "o_sequence rx = 1" "o_event_id ry = assessed_id" "o_sequence ry = 2"
    "\<forall>c \<in> set cs. rc_assessment_lifecycle_version c = 2"
proof -
  let ?l = "run_lifecycle amount StatusPendingRisk 1" and ?e = "requested_event amount"
  let ?r = "?l\<lparr>l_transfer := (run_transfer amount)\<lparr>t_idempotencyKey := ''event-request''\<rparr>\<rparr>"
  obtain rx where p: "pending_db amount = funded_db\<lparr>transfers := map lifecycle_row [?l], outbox_events := [rx]\<rparr>"
    "o_event_id rx = requested_id" "o_sequence rx = 1" by (rule pending_run [OF assms])
  have c: "consistent (pending_db amount) [?l]"
    by (rule run_consistent [OF pending_reachable [OF assms]]) (simp_all add: p(1) run_ok [OF assms])
  obtain ev where ev: "Evaluate sample_policy (captureInput noopVelocityObserver ?l 10) = Inr ev"
    "risk_transition ?l (ev_decision ev) = Inr (run_lifecycle amount (run_status amount) 2)"
    by (rule run_evaluated [OF assms])
  have m: "matches_request ?l ?r" by (simp add: matches_request_def)
  have v: "po_version sample_policy = l_riskPolicyVersion ?l" by (simp add: sample_policy_def)
  have new: "(risk_consumerName, en_eventID ?e) \<notin> reserved (pending_db amount)" "unassessed (en_eventID ?e) ?l (pending_db amount)"
    "fresh_event assessed_id 2 (pending_db amount)"
    by (simp_all add: p reserved_def funded_db_empty unassessed_def fresh_event_def run_constants run_constants(11) [symmetric])
  obtain db' nxt ry a cs where r: "risk_transition ?l (ev_decision ev) = Inr nxt"
    "risk_body reference_scan id Inr assessed_id 2 10 noopVelocityObserver sample_policy ?r ?e (pending_db amount) = (Inr (), db')"
    "transfers_deferred db' = None"
    "db' = (pending_db amount)\<lparr>consumer_inbox := consumer_inbox (pending_db amount) @
         [new_inbox_row (clock (pending_db amount)) risk_consumerName ?e],
       transfers := map lifecycle_row (advance ?l nxt [?l]),
       transfer_risk_assessments := transfer_risk_assessments (pending_db amount) @ [a],
       transfer_review_cases := transfer_review_cases (pending_db amount) @ cs,
       outbox_events := outbox_events (pending_db amount) @ [ry]\<rparr>"
    "o_event_id ry = assessed_id" "o_sequence ry = 2" "\<forall>c \<in> set cs. rc_assessment_lifecycle_version c = l_version nxt"
    by (rule reference.risk_forward [where store = id and i = assessed_id and n = 2, OF c _ m requested_event_facts(2) [OF assms] new(1)
          ev(1) v run_constants(7) takes_plain_text new(2,3)]) simp
  have run: "run_assess amount (pending_db amount) = (Inr (), db')"
    using r(2,3) requested_event_facts(1) [OF assms]
    by (simp add: run_assess_def risk_Handle_def run_risk_def run_handler_quiet)
  have nxt: "nxt = run_lifecycle amount (run_status amount) 2" using r(1) ev(2) by simp
  have db': "assessed_db amount = db'" by (simp add: assessed_db_def run)
  show thesis
  proof (rule that)
    show "run_assess amount (pending_db amount) = (Inr (), assessed_db amount)" by (simp add: run db')
    show "assessed_db amount = funded_db\<lparr>
       consumer_inbox := [new_inbox_row (clock funded_db) risk_consumerName (requested_event amount)],
       transfers := map lifecycle_row [run_lifecycle amount (run_status amount) 2], transfer_risk_assessments := [a],
       transfer_review_cases := cs, outbox_events := [rx, ry]\<rparr>"
      unfolding db' r(4) p(1) nxt by (simp add: funded_db_empty advance_def)
    show "\<forall>c \<in> set cs. rc_assessment_lifecycle_version c = 2" using r(7) by (simp add: nxt)
  qed (rule p(2,3) r(5,6))+
qed

lemma assessed_reachable:
  assumes "amount \<in> {500, 1500}"
  shows "run_reachable (assessed_db amount)"
proof (rule reachable.move [OF pending_reachable [OF assms]])
  obtain r where "run_assess amount (pending_db amount) = (Inr (), assessed_db amount)" by (rule assessed_run [OF assms])
  then show "run_step (pending_db amount) (assessed_db amount)" unfolding run_assess_def by (rule system_step.assess)
qed

lemma run_status_ok:
  assumes "amount \<in> {500, 1500}"
  shows "lifecycle_ok (run_lifecycle amount (run_status amount) 2)"
proof -
  have "lifecycle_validate (run_lifecycle 500 StatusApproved 2) = None"
    "lifecycle_validate (run_lifecycle 1500 StatusReviewRequired 2) = None" by code_simp+
  with assms show ?thesis by (auto simp: lifecycle_validate_None run_status_def)
qed

lemma assessed_consistent:
  assumes "amount \<in> {500, 1500}"
  shows "consistent (assessed_db amount) [run_lifecycle amount (run_status amount) 2]"
proof (rule run_consistent [OF assessed_reachable [OF assms]])
  show "transfers (assessed_db amount) = map lifecycle_row [run_lifecycle amount (run_status amount) 2]"
    by (rule assessed_run [OF assms]) simp
  show "list_all lifecycle_ok [run_lifecycle amount (run_status amount) 2]" using run_status_ok [OF assms] by simp
qed

section \<open>Settlement of the approved transfer\<close>

definition assessed_event :: envelope where
  "assessed_event =
     \<lparr>en_eventID = assessed_id,
      en_draft = transfer_draft RiskAssessedType transfer_id 2 requested_id 10
        (JObject (assessed_members (run_lifecycle 500 StatusApproved 2) (newEvaluation ''v1'' 0 DecisionApprove [])))\<rparr>"

lemma approved_evaluation:
  "Evaluate sample_policy (captureInput noopVelocityObserver (run_lifecycle 500 StatusPendingRisk 1) 10) =
     Inr (newEvaluation ''v1'' 0 DecisionApprove [])"
  by code_simp

lemma assessed_event_facts:
  shows "ParseRiskAssessed assessed_event =
      Inr \<lparr>as_transferID = transfer_id, as_riskPolicyVersion = ''v1'', as_decision = DecisionApprove\<rparr>"
    and "NewEnvelope (en_eventID assessed_event) (en_draft assessed_event) = Inr assessed_event"
    and "dr_eventType (en_draft assessed_event) = RiskAssessedType" "dr_aggregateVersion (en_draft assessed_event) = 2"
    and "en_eventID assessed_event = assessed_id"
proof -
  let ?l = "run_lifecycle 500 StatusApproved 2" and ?ev = "newEvaluation ''v1'' 0 DecisionApprove []"
  have ok: "lifecycle_ok ?l" using run_status_ok [of 500] by (simp add: run_status_def)
  show "ParseRiskAssessed assessed_event =
      Inr \<lparr>as_transferID = transfer_id, as_riskPolicyVersion = ''v1'', as_decision = DecisionApprove\<rparr>"
    using ParseRiskAssessed_draft [OF ok _ approved_evaluation _ run_constants(1), of assessed_id 10]
    by (simp add: assessed_event_def newEvaluation_def)
  have id: "isCanonicalUUID (l_id ?l)" by (simp add: run_constants)
  have "stored_draft (en_draft assessed_event)"
    using transfer_draft_stored(1) [OF transfer_event_types(4) run_constants(5) _ disjI2 [OF run_constants(1)] run_constants(7)
        assessed_object [OF id approved_evaluation], of 2]
    by (simp add: assessed_event_def)
  from envelope_of_draft [OF this run_constants(2)]
  show "NewEnvelope (en_eventID assessed_event) (en_draft assessed_event) = Inr assessed_event" by (simp add: assessed_event_def)
  show "dr_eventType (en_draft assessed_event) = RiskAssessedType" "dr_aggregateVersion (en_draft assessed_event) = 2"
    "en_eventID assessed_event = assessed_id"
    by (simp_all add: assessed_event_def transfer_draft_def)
qed

lemma approved_premises:
  "(transaction_consumerName, assessed_id) \<notin> reserved (assessed_db 500)" "fresh_event completed_id 3 (assessed_db 500)"
  "room (assessed_db 500) (run_transfer 500)" "funded (assessed_db 500) (run_transfer 500)"
proof -
  obtain rx ry a cs where db: "assessed_db 500 = funded_db\<lparr>
       consumer_inbox := [new_inbox_row (clock funded_db) risk_consumerName (requested_event 500)],
       transfers := map lifecycle_row [run_lifecycle 500 (run_status 500) 2], transfer_risk_assessments := [a],
       transfer_review_cases := cs, outbox_events := [rx, ry]\<rparr>"
    "o_event_id rx = requested_id" "o_sequence rx = 1" "o_event_id ry = assessed_id" "o_sequence ry = 2"
    by (rule assessed_run [of 500]) simp_all
  show "(transaction_consumerName, assessed_id) \<notin> reserved (assessed_db 500)"
    by (simp add: db reserved_def new_inbox_row_def risk_consumerName_def transaction_consumerName_def)
  show "fresh_event completed_id 3 (assessed_db 500)"
    by (simp add: db fresh_event_def run_constants run_constants(14,15) [symmetric])
  have "room funded_db (run_transfer 500)" "funded funded_db (run_transfer 500)" by code_simp+
  then show "room (assessed_db 500) (run_transfer 500)" "funded (assessed_db 500) (run_transfer 500)"
    by (simp_all add: db room_def funded_def)
qed

end
