(* ===== verification/Wallet_Properties.thy ===== *)
theory Wallet_Properties
  imports Wallet_Run
begin

text \<open>
  The properties of the program as a whole: what every reachable database satisfies, how a stored transfer may
  change, and what the operations on transfers do.
\<close>

section \<open>Settlement of the example\<close>

definition run_settle :: "(database, unit) tx" where
  "run_settle = transaction_Handle reference_scan id Inr completed_id 3 quiet 11 assessed_event"

definition settled_db :: database where
  "settled_db = snd (run_settle (assessed_db 500))"

text \<open>The event tells the transaction worker to post the lifecycle that it names.\<close>

definition instructs :: "envelope \<Rightarrow> string \<Rightarrow> Lifecycle \<Rightarrow> bool" where
  "instructs e i cur \<longleftrightarrow>
     dr_aggregateVersion (en_draft e) = l_version cur \<and>
     (if dr_eventType (en_draft e) = ReviewDecidedType
      then ParseReviewDecided e = Inr \<lparr>rd_transferID = i, rd_decision = ''approved''\<rparr>
      else ParseRiskAssessed e =
        Inr \<lparr>as_transferID = i, as_riskPolicyVersion = l_riskPolicyVersion cur, as_decision = DecisionApprove\<rparr>)"

lemma settlement_progress_of:
  assumes "stored db ls" "settlement scan store now cur db db' ls" "l_status cur = StatusApproved"
  shows "if funded db (l_transfer cur)
    then progress db' = (progress db)(l_id cur \<mapsto> (StatusCompleted, sint (l_version cur) + 1)) \<and>
      balances db' = map (moved (l_transfer cur)) (account_balances db) \<and>
      posted_of db' (l_id cur) = movements (l_transfer cur)
    else progress db' = (progress db)(l_id cur \<mapsto> (StatusFailed, sint (l_version cur) + 1)) \<and> balances db' = balances db \<and>
      posted_of db' = posted_of db"
proof -
  from assms(2) obtain nxt where n: "consistent db' (advance cur nxt ls)" "cur \<in> set ls" "lifecycle_step cur nxt"
    and m: "if funded db (l_transfer cur) then l_status nxt = StatusCompleted \<and>
        balances db' = map (moved (l_transfer cur)) (account_balances db) \<and> posted_of db' (l_id cur) = movements (l_transfer cur)
      else l_status nxt = StatusFailed \<and> same_ledger db db'"
    by (auto simp: settlement_def stepped_def split: if_splits)
  note ok = stored_ok [OF assms(1) n(2)]
  have "sint (l_version nxt) = sint (l_version cur) + 1" using ok n(3) by (rule lifecycle_stepE)
  then have p: "progress db' = (progress db)(l_id cur \<mapsto> (l_status nxt, sint (l_version cur) + 1))"
    using progress_stored [OF assms(1)] progress_stored [OF consistentD(1) [OF n(1)]]
      registry_of_advance [OF n(2) lifecycle_step_facts(2) [OF ok n(3)]] by (simp add: spec_of_def)
  have "same_ledger db db' \<Longrightarrow> balances db' = balances db \<and> posted_of db' = posted_of db"
    by (auto simp: same_ledger_def balances_def posted_of_def)
  with m p show ?thesis by (auto split: if_splits)
qed

context uuid_scanner
begin

lemma reachable_consistent:
  assumes "reachable system_init (system_step scan store jsonb) db"
  obtains ls where "consistent db ls"
  using wallet.reachable_inv [OF assms] by (auto simp: wallet_inv_def system_inv_def)

lemma reachable_wallet:
  assumes "reachable system_init (system_step scan store jsonb) db"
  shows "wallet_inv db" "ledger_inv db" "reachable progress_init progress_step (progress db)"
  using wallet.reachable_inv [OF assms] wallet.reachable_abs [OF assms] by (auto simp: wallet_inv_def system_inv_def)

lemma step_progress:
  "wallet_inv db \<Longrightarrow> system_step scan store jsonb db db' \<Longrightarrow> progress_step (progress db) (progress db')"
  by (rule wallet.sim_step)

lemma transaction_Handle_instructed:
  assumes "instructs e i cur" "l_status cur = StatusApproved"
  obtains conflict where "\<not> conflict cur"
    "transaction_Handle scan store jsonb eventID sequence env now e = run_handler env
      (tx_bind (ReserveTx transaction_consumerName e) (\<lambda>reserved.
        if \<not> reserved then tx_return ()
        else tx_bind (LoadLifecycleForUpdateTx scan i) (\<lambda>current.
          if conflict current then tx_lift (fail TransferRepository ErrStateConflict)
          else if False then tx_return ()
          else post scan store jsonb eventID sequence current (en_eventID e) now)))"
proof (cases "dr_eventType (en_draft e) = ReviewDecidedType")
  case True
  with assms show thesis
    by (intro that [of "\<lambda>current. l_version current \<noteq> dr_aggregateVersion (en_draft e) \<or>
        status_String (l_status current) \<noteq> ''approved''"])
      (simp_all add: instructs_def transaction_Handle_def handleReviewDecision_def decided_body_def fun_eq_iff cong: if_cong)
next
  case False
  with assms show thesis
    by (intro that [of "\<lambda>current. l_version current \<noteq> dr_aggregateVersion (en_draft e) \<or>
        l_riskPolicyVersion current \<noteq> l_riskPolicyVersion cur \<or> l_status current \<noteq> statusForDecision DecisionApprove"])
      (simp_all add: instructs_def transaction_Handle_def assessed_body_def fun_eq_iff cong: if_cong)
qed

lemma settle_progress:
  assumes "reachable system_init (system_step scan store jsonb) db" "LoadLifecycleForUpdateTx scan i db = (Inr cur, db)"
    and "l_status cur = StatusApproved" "instructs e i cur"
    and "NewEnvelope (en_eventID e) (en_draft e) = Inr e" "(transaction_consumerName, en_eventID e) \<notin> reserved db"
    and "\<not> IsZero now" "in_calendar (t_requestedAt (l_transfer cur))" "room db (l_transfer cur)" "takes_plain jsonb"
      "fresh_event eventID sequence db"
  obtains db' ls where "transaction_Handle scan store jsonb eventID sequence quiet now e db = (Inr (), db')"
    "(transaction_consumerName, en_eventID e) \<in> reserved db'" "stored db ls" "settlement scan store now cur db db' ls"
proof -
  from reachable_consistent [OF assms(1)] obtain ls where c: "consistent db ls" .
  note l = Load_Inr [OF consistentD(1) [OF c] assms(2)]
  obtain conflict where h: "\<not> conflict cur" "transaction_Handle scan store jsonb eventID sequence quiet now e = run_handler quiet
      (tx_bind (ReserveTx transaction_consumerName e) (\<lambda>reserved.
        if \<not> reserved then tx_return ()
        else tx_bind (LoadLifecycleForUpdateTx scan i) (\<lambda>current.
          if conflict current then tx_lift (fail TransferRepository ErrStateConflict)
          else if False then tx_return ()
          else post scan store jsonb eventID sequence current (en_eventID e) now)))"
    by (rule transaction_Handle_instructed [OF assms(4,3)])
  from settle_forward [where conflict = conflict and ignore = False and now = now and store = store and jsonb = jsonb
      and i = eventID and n = sequence, OF c l(2,3) h(1) assms(5,6)] assms(3,7-11)
  obtain db' where db': "tx_bind (ReserveTx transaction_consumerName e) (\<lambda>reserved.
        if \<not> reserved then tx_return ()
        else tx_bind (LoadLifecycleForUpdateTx scan i) (\<lambda>current.
          if conflict current then tx_lift (fail TransferRepository ErrStateConflict)
          else if False then tx_return ()
          else post scan store jsonb eventID sequence current (en_eventID e) now)) db = (Inr (), db')"
    "transfers_deferred db' = None" by auto
  from settle_effect [OF c db'(2,1)] assms(6) obtain cur' where e: "scan i = Some (l_id cur')" "cur' \<in> set ls"
    "(transaction_consumerName, en_eventID e) \<in> reserved db'" "settlement scan store now cur' db db' ls" by auto
  have "cur' = cur" using stored_same [OF consistentD(1) [OF c] e(2) l(2)] e(1) l(3) by simp
  with that [of db' ls] e(3,4) db' consistentD(1) [OF c] show thesis by (simp add: h(2) run_handler_quiet)
qed

end

lemma assessed_lifecycle:
  assumes "amount \<in> {500, 1500}"
  shows "LoadLifecycleForUpdateTx reference_scan transfer_id (assessed_db amount) =
    (Inr (run_lifecycle amount (run_status amount) 2), assessed_db amount)"
proof -
  have "reference_scan transfer_id = Some (l_id (run_lifecycle amount (run_status amount) 2))"
    using reference.scan_canonical [OF run_constants(5)] by simp
  from Load_row [where scan = reference_scan, OF consistentD(1) [OF assessed_consistent [OF assms]] _ this] show ?thesis by simp
qed

lemma approved_instructed: "instructs assessed_event transfer_id (run_lifecycle 500 StatusApproved 2)"
  using assessed_event_facts by (simp add: instructs_def event_consts)

lemma approved_lifecycle:
  "LoadLifecycleForUpdateTx reference_scan transfer_id (assessed_db 500) =
     (Inr (run_lifecycle 500 StatusApproved 2), assessed_db 500)"
  using assessed_lifecycle [of 500] by (simp add: run_status_def)

lemma approved_reachable: "run_reachable (assessed_db 500)"
  by (rule assessed_reachable) simp

lemma settled_effect:
  obtains ls where "run_settle (assessed_db 500) = (Inr (), settled_db)" "stored (assessed_db 500) ls"
    "settlement reference_scan id 11 (run_lifecycle 500 StatusApproved 2) (assessed_db 500) settled_db ls"
proof -
  have n: "(transaction_consumerName, en_eventID assessed_event) \<notin> reserved (assessed_db 500)"
    "in_calendar (t_requestedAt (l_transfer (run_lifecycle 500 StatusApproved 2)))"
    "room (assessed_db 500) (l_transfer (run_lifecycle 500 StatusApproved 2))"
    using approved_premises run_constants(9) by (simp_all add: assessed_event_facts(5))
  obtain db' ls where "run_settle (assessed_db 500) = (Inr (), db')" "stored (assessed_db 500) ls"
    "settlement reference_scan id 11 (run_lifecycle 500 StatusApproved 2) (assessed_db 500) db' ls"
    unfolding run_settle_def
    by (rule reference.settle_progress [where eventID = completed_id and sequence = 3, OF approved_reachable approved_lifecycle _
          approved_instructed assessed_event_facts(2) n(1) run_constants(8) n(2,3) takes_plain_text approved_premises(2)]) simp_all
  with that show thesis by (auto simp: settled_db_def)
qed

lemma settled_reachable: "run_reachable settled_db"
proof (rule reachable.move [OF approved_reachable])
  obtain ls where "run_settle (assessed_db 500) = (Inr (), settled_db)" by (rule settled_effect)
  then show "run_step (assessed_db 500) settled_db"
    unfolding run_settle_def by (rule system_step.settle) (simp add: run_constants)
qed

lemma settled_lifecycle:
  obtains l where "LoadLifecycleForUpdateTx reference_scan transfer_id settled_db = (Inr l, settled_db)"
    "l_status l = StatusCompleted" "l_transfer l = run_transfer 500"
proof -
  let ?cur = "run_lifecycle 500 StatusApproved 2"
  obtain ls where e: "stored (assessed_db 500) ls" "settlement reference_scan id 11 ?cur (assessed_db 500) settled_db ls"
    by (rule settled_effect)
  from e(2) approved_premises(4) obtain nxt where n: "consistent settled_db (advance ?cur nxt ls)" "?cur \<in> set ls"
    "lifecycle_step ?cur nxt" "l_status nxt = StatusCompleted"
    by (auto simp: settlement_def stepped_def)
  note f = lifecycle_step_facts [OF stored_ok [OF e(1) n(2)] n(3)]
  have "nxt \<in> set (advance ?cur nxt ls)" using set_advance [OF e(1) n(2)] by simp
  moreover have "reference_scan transfer_id = Some (l_id nxt)"
    using reference.scan_canonical [OF run_constants(5)] f(2) by simp
  ultimately show thesis
    using that [of nxt] Load_row [where scan = reference_scan, OF consistentD(1) [OF n(1)]] n(4) f(2) by simp
qed

lemma settled_progress: "progress settled_db transfer_id = Some (StatusCompleted, 3)"
proof -
  obtain ls where e: "stored (assessed_db 500) ls"
    "settlement reference_scan id 11 (run_lifecycle 500 StatusApproved 2) (assessed_db 500) settled_db ls"
    by (rule settled_effect)
  from settlement_progress_of [OF e] approved_premises(4) show ?thesis by simp
qed

section \<open>Every reachable database\<close>

text \<open>
  C1: Money and status agree. In every reachable database, for every stored transfer as the repository loads it:
  the journal holds an entry with the transfer's identifier exactly when the transfer is completed, and the
  postings under that identifier are exactly the debit of the source and the credit of the destination by the
  transfer's amount, or none at all when it is pending, under review, approved, declined or failed.
  Reachable means: by any sequence of the program's operations (\<open>system_step\<close>) whose callers keep two kinds of identifiers
  apart, which the code does not check. No transfer is accepted for assessment under the identifier of an existing
  journal entry, and no entry is posted through \<open>Post\<close> for another purpose under the identifier of a stored transfer; such an
  entry would be accepted and the claim would fail for that transfer. No time is passed that the database would store
  as Go's zero time.
\<close>

theorem transfer_books:
  assumes "uuid_scanner scan" "reachable system_init (system_step scan store jsonb) db"
    "LoadLifecycleForUpdateTx scan i db = (Inr l, db)"
  shows "posted_of db (l_id l) = (if l_status l = StatusCompleted then movements (l_transfer l) else []) \<and>
    (l_id l \<in> entry_ids db \<longleftrightarrow> l_status l = StatusCompleted)"
proof -
  from uuid_scanner.reachable_consistent [OF assms(1,2)] obtain ls where c: "consistent db ls" .
  from consistentD(4) [OF c Load_Inr(2) [OF consistentD(1) [OF c] assms(3)]] show ?thesis by (simp add: booked_def)
qed

theorem transfer_books_witness:
  "posted_of settled_db transfer_id = [(alice_id, ''USD'', - 500), (bob_id, ''USD'', 500)] \<and> transfer_id \<in> entry_ids settled_db"
proof -
  obtain l where l: "LoadLifecycleForUpdateTx reference_scan transfer_id settled_db = (Inr l, settled_db)"
    "l_status l = StatusCompleted" "l_transfer l = run_transfer 500" by (rule settled_lifecycle)
  have "movements (run_transfer 500) = [(alice_id, ''USD'', - 500), (bob_id, ''USD'', 500)]" by code_simp
  then show ?thesis using transfer_books [OF reference_scanner settled_reachable l(1)] l(2,3) by simp
qed

text \<open>
  C12: The outbox tells the transfer's story. In every reachable database the events announced for a stored
  transfer are, in this order and with consecutive versions, one of the histories that lead to its status, and the
  last of them carries its version. Reachable means reachable by \<open>system_step\<close>, that is, with callers that keep the
  identifiers of transfers and of other journal entries apart.
\<close>

theorem transfer_history:
  assumes "uuid_scanner scan" "reachable system_init (system_step scan store jsonb) db"
    "LoadLifecycleForUpdateTx scan i db = (Inr l, db)"
  shows "events_of db (l_id l) \<in> set (histories (l_status l)) \<and> snd (last (events_of db (l_id l))) = l_version l"
proof -
  from uuid_scanner.reachable_consistent [OF assms(1,2)] obtain ls where c: "consistent db ls" .
  from consistentD(5) [OF c Load_Inr(2) [OF consistentD(1) [OF c] assms(3)]] show ?thesis
    using event_log_histories by (simp add: announced_def)
qed

theorem transfer_history_witness:
  "events_of (assessed_db 1500) transfer_id = [(RequestedType, 1), (RiskAssessedType, 2)]"
proof -
  have r: "run_reachable (assessed_db 1500)" by (rule assessed_reachable) simp
  have l: "LoadLifecycleForUpdateTx reference_scan transfer_id (assessed_db 1500) =
    (Inr (run_lifecycle 1500 StatusReviewRequired 2), assessed_db 1500)"
    using assessed_lifecycle [of 1500] by (simp add: run_status_def)
  show ?thesis using transfer_history [OF reference_scanner r l] by simp
qed

text \<open>
  C13: Review cases and audit records agree with the transfers. In every reachable database a transfer has an open
  review case exactly when it requires review; a transfer never has two cases; and for every closed case there is an
  audit record with the same decision, analyst and time. Reachable means reachable by \<open>system_step\<close>, that is, with callers that keep the
  identifiers of transfers and of other journal entries apart.
\<close>

theorem review_cases_audited:
  assumes "uuid_scanner scan" "reachable system_init (system_step scan store jsonb) db"
  shows "(\<forall>i l. LoadLifecycleForUpdateTx scan i db = (Inr l, db) \<longrightarrow>
      (open_case db (l_id l) \<longleftrightarrow> l_status l = StatusReviewRequired)) \<and>
    distinct (map rc_transfer_id (transfer_review_cases db)) \<and>
    (\<forall>c \<in> set (transfer_review_cases db). rc_status c \<noteq> ''open'' \<longrightarrow>
      (\<exists>a \<in> set (transfer_review_audit_records db). au_transfer_id a = rc_transfer_id c \<and>
        rc_decision c = Some (au_decision a) \<and> rc_decided_by c = Some (au_actor_subject a) \<and>
        rc_decided_at c = Some (au_occurred_at a)))"
proof -
  from uuid_scanner.reachable_consistent [OF assms] obtain ls where c: "consistent db ls" .
  have "open_case db (l_id l) \<longleftrightarrow> l_status l = StatusReviewRequired" if "LoadLifecycleForUpdateTx scan i db = (Inr l, db)" for i l
    using consistentD(7) [OF c] Load_Inr(2) [OF consistentD(1) [OF c] that] by (simp add: cases_ok_def)
  with consistentD(7) [OF c] show ?thesis by (auto simp: cases_ok_def audited_def)
qed

theorem review_cases_audited_witness: "open_case (assessed_db 1500) transfer_id \<and> \<not> open_case (assessed_db 500) transfer_id"
proof -
  have "open_case (assessed_db 1500) transfer_id"
    using review_cases_audited [OF reference_scanner assessed_reachable, of 1500] assessed_lifecycle [of 1500]
    by (force simp: run_status_def)
  moreover have "\<not> open_case (assessed_db 500) transfer_id"
    using review_cases_audited [OF reference_scanner assessed_reachable, of 500] assessed_lifecycle [of 500]
    by (force simp: run_status_def)
  ultimately show ?thesis ..
qed

text \<open>
  C11: The ledger reconciles under the whole program. However transfers are created, assessed, decided and settled,
  wallets opened, entries posted and events published, \<open>Reconcile\<close> finds no discrepancy between the balances and
  the postings, each currency's balances sum to zero, and no customer account is overdrawn. Reachable means reachable by \<open>system_step\<close>, that is, with callers that keep the
  identifiers of transfers and of other journal entries apart.
\<close>

theorem system_reconciles:
  assumes "uuid_scanner scan" "reachable system_init (system_step scan store jsonb) db"
  shows "Reconcile quiet db = (Inr [], db) \<and> currency_supply code db = 0 \<and>
    (\<forall>b \<in> set (account_balances db). b_account_type b = ''system'' \<or> 0 \<le> sint (b_balance_minor b))"
proof -
  note l = uuid_scanner.reachable_wallet(2) [OF assms]
  have "selectBalanceDiscrepancies db = []" using l by (simp add: no_discrepancies ledger_inv_def)
  with l show ?thesis
    by (auto simp: Reconcile_def run_tx_quiet tx_read_def ledger_inv_def schema_defs balance_checks_def)
qed

theorem system_reconciles_witness: "Reconcile quiet settled_db = (Inr [], settled_db)"
  using system_reconciles [OF reference_scanner settled_reachable] by simp

section \<open>How a transfer may change\<close>

text \<open>
  C2: The stored transfers refine the abstract lifecycle. Seen as a map from identifiers to statuses and versions,
  every step of the program from a reachable database changes nothing, adds one transfer that is pending or already
  completed with version 1, or moves one transfer along the abstract lifecycle with the version raised by one;
  the map itself is reachable in that abstract machine. Reachable means reachable by \<open>system_step\<close>, that is, with callers that keep the
  identifiers of transfers and of other journal entries apart.
\<close>

theorem system_refines:
  assumes "uuid_scanner scan" "reachable system_init (system_step scan store jsonb) db" "system_step scan store jsonb db db'"
  shows "progress_step (progress db) (progress db') \<and> reachable progress_init progress_step (progress db)"
  using uuid_scanner.step_progress [OF assms(1) uuid_scanner.reachable_wallet(1) [OF assms(1,2)] assms(3)]
    uuid_scanner.reachable_wallet(3) [OF assms(1,2)] by blast

theorem system_refines_witness: "progress_step (progress bank_db) (progress funded_db)"
  using system_refines [OF reference_scanner reachable.start [where init = system_init and step = run_step, OF bank_init] funded_step] by blast

text \<open>
  C15: A finished transfer stays finished. Once a transfer is completed, declined or failed, no sequence of
  operations changes its status or version again. Reachable means reachable by \<open>system_step\<close>, that is, with callers that keep the
  identifiers of transfers and of other journal entries apart.
\<close>

theorem terminal_forever:
  assumes "uuid_scanner scan" "reachable system_init (system_step scan store jsonb) db"
    "(system_step scan store jsonb)\<^sup>*\<^sup>* db db'" "progress db i = Some (s, v)" "terminal s"
  shows "progress db' i = Some (s, v)"
proof -
  have "progress_step\<^sup>*\<^sup>* (progress db) (progress db')"
    using uuid_scanner.system_steps_progress [OF assms(1,3)] uuid_scanner.reachable_wallet(1) [OF assms(1,2)] by blast
  then show ?thesis
    by (induction rule: rtranclp_induct) (use assms(4,5) progress_step_terminal in blast)+
qed

theorem terminal_forever_witness:
  "progress (settled_db\<lparr>clock := clock settled_db + 99\<rparr>) transfer_id = Some (StatusCompleted, 3)"
proof -
  have step: "run_step\<^sup>*\<^sup>* settled_db (settled_db\<lparr>clock := clock settled_db + 99\<rparr>)"
    by (intro r_into_rtranclp system_step.tick) simp
  have "progress settled_db transfer_id = Some (StatusCompleted, 3)" by (rule settled_progress)
  from terminal_forever [OF reference_scanner settled_reachable step this] show ?thesis by (simp add: terminal_def)
qed

section \<open>The transaction worker\<close>

text \<open>
  C10: An approved transfer is settled. When the worker receives, for the first time, the valid event that
  approves a stored transfer, the handler succeeds, under these conditions: no statement, transaction or commit is
  disturbed; the database is reachable by operations whose callers keep the identifiers of transfers and of other journal entries
  apart (as \<open>system_step\<close> requires; an entry that was posted under the transfer's identifier makes the handler fail
  with \<open>ErrAlreadyExists\<close>); both balances and their versions can represent the changes; the transfer was requested in the
  years 0 to 9999 and the worker's clock does not show the zero time; the generated event has a canonical identifier and, like its
  sequence number, it is not in the outbox yet; and the JSONB column accepts small plain objects. If both accounts can take their changes, the transfer is completed, the source is
  debited and the destination credited by the amount with no other balance touched, and the two postings are
  recorded; otherwise the transfer is failed and no balance and no posting changes.
\<close>

theorem approved_is_settled:
  assumes "uuid_scanner scan" "reachable system_init (system_step scan store jsonb) db"
    and "LoadLifecycleForUpdateTx scan i db = (Inr cur, db)" "l_status cur = StatusApproved" "instructs e i cur"
    and "NewEnvelope (en_eventID e) (en_draft e) = Inr e" "(transaction_consumerName, en_eventID e) \<notin> reserved db"
    and "\<not> IsZero now" "in_calendar (t_requestedAt (l_transfer cur))" "room db (l_transfer cur)" "takes_plain jsonb"
      "fresh_event eventID sequence db"
  shows "\<exists>db'. transaction_Handle scan store jsonb eventID sequence quiet now e db = (Inr (), db') \<and>
    (transaction_consumerName, en_eventID e) \<in> reserved db' \<and>
    (if funded db (l_transfer cur)
     then progress db' = (progress db)(l_id cur \<mapsto> (StatusCompleted, sint (l_version cur) + 1)) \<and>
       balances db' = map (moved (l_transfer cur)) (account_balances db) \<and>
       posted_of db' (l_id cur) = movements (l_transfer cur)
     else progress db' = (progress db)(l_id cur \<mapsto> (StatusFailed, sint (l_version cur) + 1)) \<and>
       balances db' = balances db \<and> posted_of db' = posted_of db)"
proof -
  obtain db' ls where d: "transaction_Handle scan store jsonb eventID sequence quiet now e db = (Inr (), db')"
    "(transaction_consumerName, en_eventID e) \<in> reserved db'" "stored db ls" "settlement scan store now cur db db' ls"
    by (rule uuid_scanner.settle_progress [OF assms])
  from settlement_progress_of [OF d(3,4) assms(4)] d(1,2) show ?thesis by blast
qed

theorem approved_is_settled_witness:
  "\<exists>db'. run_settle (assessed_db 500) = (Inr (), db') \<and>
     balances db' = map (moved (run_transfer 500)) (account_balances (assessed_db 500))"
proof -
  have n: "(transaction_consumerName, en_eventID assessed_event) \<notin> reserved (assessed_db 500)"
    "in_calendar (t_requestedAt (l_transfer (run_lifecycle 500 StatusApproved 2)))"
    "room (assessed_db 500) (l_transfer (run_lifecycle 500 StatusApproved 2))"
    using approved_premises run_constants(9) by (simp_all add: assessed_event_facts(5))
  have st: "l_status (run_lifecycle 500 StatusApproved 2) = StatusApproved" by simp
  from approved_is_settled [where eventID = completed_id and sequence = 3, OF reference_scanner approved_reachable approved_lifecycle st
      approved_instructed assessed_event_facts(2) n(1) run_constants(8) n(2,3) takes_plain_text approved_premises(2)]
    approved_premises(4)
  show ?thesis unfolding run_settle_def by auto
qed

end
