(* ===== verification/Worker_Properties.thy ===== *)
theory Worker_Properties
  imports Wallet_Properties
begin

text \<open>
  What one call of the risk worker, of the transaction worker and of the analyst's use case does to a reachable
  database: nothing at all, or its whole effect. A worker whose call succeeded has recorded the event, and calls for
  a recorded event do nothing, so that redelivery is harmless.
\<close>

section \<open>Effects of the handlers\<close>

lemma stepped_progress:
  assumes "consistent db ls" "stepped ty cur nxt db db' ls" "consistent db' (advance cur nxt ls)"
  shows "progress db' = (progress db)(l_id cur \<mapsto> (l_status nxt, sint (l_version cur) + 1))"
    and "events_of db' (l_id cur) = events_of db (l_id cur) @ [(ty, l_version cur + 1)]"
proof -
  from assms(2) obtain row where s: "cur \<in> set ls" "lifecycle_step cur nxt" "outbox_events db' = outbox_events db @ [row]"
    "o_aggregate_id row = l_id cur" "event_of row = (ty, l_version nxt)" by (auto simp: stepped_def)
  note st = consistentD(1) [OF assms(1)]
  note ok = stored_ok [OF st s(1)]
  note f = lifecycle_step_facts [OF ok s(2)]
  have "sint (l_version nxt) = sint (l_version cur) + 1" using ok s(2) by (rule lifecycle_stepE)
  then show "progress db' = (progress db)(l_id cur \<mapsto> (l_status nxt, sint (l_version cur) + 1))"
    using progress_stored [OF st] progress_stored [OF consistentD(1) [OF assms(3)]] registry_of_advance [OF s(1) f(2)]
    by (simp add: spec_of_def)
  show "events_of db' (l_id cur) = events_of db (l_id cur) @ [(ty, l_version cur + 1)]"
    using s(3-5) f(3) by (simp add: events_of_def)
qed

lemma run_handler_unit:
  "run_handler env body db = (r, db') \<Longrightarrow>
     db' = db \<and> r \<noteq> Inr () \<or> body db = (Inr (), db') \<and> transfers_deferred db' = None"
  using run_handler_effect [of env body db r db'] run_handler_Inr [of env body db "()" db'] by (cases "r = Inr ()") auto

lemma ParseReviewDecided_decision:
  "ParseReviewDecided e = Inr d \<Longrightarrow> rd_decision d = ''approved'' \<or> rd_decision d = ''declined''"
  by (auto simp: ParseReviewDecided_def Let_def result_simps split: if_splits)

lemma status_String_approved: "status_String s = ''approved'' \<longleftrightarrow> s = StatusApproved"
  "status_String s = ''declined'' \<longleftrightarrow> s = StatusDeclined"
  by (cases s; simp)+

lemma statusForDecision_approved: "statusForDecision d = StatusApproved \<longleftrightarrow> d = DecisionApprove"
  by (cases d) simp_all

lemma matchesRiskDecision_status: "matchesRiskDecision s d \<Longrightarrow> s = statusForDecision d"
  by (cases d) simp_all

context uuid_scanner
begin

lemma risk_Handle_effect:
  assumes "consistent db ls" "risk_Handle scan store jsonb eventID sequence env now h e db = (r, db')"
  shows "db' = db \<and> (r = Inr () \<longrightarrow> (risk_consumerName, en_eventID e) \<in> reserved db) \<or>
    (\<exists>requested policy cur nxt ev. ParseRequested e = Inr requested \<and>
      rh_policies h (l_riskPolicyVersion requested) = Some policy \<and>
      stepped RiskAssessedType cur nxt db db' ls \<and> consistent db' (advance cur nxt ls) \<and>
      matches_request cur requested \<and> Evaluate policy (captureInput (rh_velocity h) cur now) = Inr ev \<and>
      matchesRiskDecision (l_status nxt) (ev_decision ev) \<and> (risk_consumerName, en_eventID e) \<notin> reserved db \<and>
      (risk_consumerName, en_eventID e) \<in> reserved db' \<and> same_ledger db db' \<and> inboxed risk_consumerName e db db')"
proof (cases "ParseRequested e")
  case (Inr requested)
  show ?thesis
  proof (cases "rh_policies h (l_riskPolicyVersion requested)")
    case (Some policy)
    let ?b = "risk_body scan store jsonb eventID sequence now (rh_velocity h) policy requested e"
    have h: "run_handler env ?b db = (r, db')" using assms(2) Inr Some by (simp add: risk_Handle_def)
    from run_handler_unit [OF h] show ?thesis
    proof (elim disjE conjE)
      assume "?b db = (Inr (), db')" "transfers_deferred db' = None"
      from risk_body_effect [OF assms(1) this(2,1)] Inr Some show ?thesis by blast
    qed simp
  qed (use assms(2) Inr in \<open>auto simp: risk_Handle_def\<close>)
qed (use assms(2) in \<open>auto simp: risk_Handle_def\<close>)

lemma transaction_Handle_body:
  obtains (parse) err where "transaction_Handle scan store jsonb eventID sequence env now e = (\<lambda>db. (Inl err, db))"
  | (body) i conflict ignore where "transaction_Handle scan store jsonb eventID sequence env now e = run_handler env
      (tx_bind (ReserveTx transaction_consumerName e) (\<lambda>reserved.
        if \<not> reserved then tx_return ()
        else tx_bind (LoadLifecycleForUpdateTx scan i) (\<lambda>current.
          if conflict current then tx_lift (fail TransferRepository ErrStateConflict)
          else if ignore then tx_return ()
          else post scan store jsonb eventID sequence current (en_eventID e) now)))"
    "\<And>cur. \<not> conflict cur \<Longrightarrow> l_version cur = dr_aggregateVersion (en_draft e) \<and>
       (ignore \<longleftrightarrow> l_status cur \<noteq> StatusApproved)"
proof (cases "dr_eventType (en_draft e) = ReviewDecidedType")
  case True
  show thesis
  proof (cases "ParseReviewDecided e")
    case (Inl err)
    with True show thesis
      by (intro parse [of err]) (simp add: transaction_Handle_def handleReviewDecision_def fun_eq_iff)
  next
    case (Inr d)
    show thesis
    proof (rule body)
      show "transaction_Handle scan store jsonb eventID sequence env now e = run_handler env
        (tx_bind (ReserveTx transaction_consumerName e) (\<lambda>reserved.
          if \<not> reserved then tx_return ()
          else tx_bind (LoadLifecycleForUpdateTx scan (rd_transferID d)) (\<lambda>current.
            if (l_version current \<noteq> dr_aggregateVersion (en_draft e) \<or> status_String (l_status current) \<noteq> rd_decision d)
            then tx_lift (fail TransferRepository ErrStateConflict)
            else if rd_decision d = ''declined'' then tx_return ()
            else post scan store jsonb eventID sequence current (en_eventID e) now)))"
        using True Inr by (simp add: transaction_Handle_def handleReviewDecision_def decided_body_def fun_eq_iff cong: if_cong)
    qed (use ParseReviewDecided_decision [OF Inr] in \<open>auto simp: status_String_approved\<close>)
  qed
next
  case False
  show thesis
  proof (cases "ParseRiskAssessed e")
    case (Inl err)
    with False show thesis by (intro parse [of err]) (simp add: transaction_Handle_def fun_eq_iff)
  next
    case (Inr a)
    show thesis
    proof (rule body)
      show "transaction_Handle scan store jsonb eventID sequence env now e = run_handler env
        (tx_bind (ReserveTx transaction_consumerName e) (\<lambda>reserved.
          if \<not> reserved then tx_return ()
          else tx_bind (LoadLifecycleForUpdateTx scan (as_transferID a)) (\<lambda>current.
            if (l_version current \<noteq> dr_aggregateVersion (en_draft e) \<or> l_riskPolicyVersion current \<noteq> as_riskPolicyVersion a \<or>
                l_status current \<noteq> statusForDecision (as_decision a))
            then tx_lift (fail TransferRepository ErrStateConflict)
            else if as_decision a \<noteq> DecisionApprove then tx_return ()
            else post scan store jsonb eventID sequence current (en_eventID e) now)))"
        using False Inr by (simp add: transaction_Handle_def assessed_body_def fun_eq_iff cong: if_cong)
    qed (auto simp: statusForDecision_approved)
  qed
qed

lemma transaction_Handle_effect:
  assumes "consistent db ls" "transaction_Handle scan store jsonb eventID sequence env now e db = (r, db')"
  shows "db' = db \<and> (r = Inr () \<longrightarrow> (transaction_consumerName, en_eventID e) \<in> reserved db) \<or>
    (transaction_consumerName, en_eventID e) \<notin> reserved db \<and> (transaction_consumerName, en_eventID e) \<in> reserved db' \<and>
    inboxed transaction_consumerName e db db' \<and>
    (\<exists>cur \<in> set ls. l_version cur = dr_aggregateVersion (en_draft e) \<and>
       (if l_status cur = StatusApproved then settlement scan store now cur db db' ls
        else db' = db\<lparr>consumer_inbox := consumer_inbox db @ [new_inbox_row (clock db) transaction_consumerName e]\<rparr>))"
proof (cases rule: transaction_Handle_body [where store = store and jsonb = jsonb and eventID = eventID and sequence = sequence
    and env = env and now = now and e = e])
  case (body i conflict ignore)
  from run_handler_unit [OF assms(2) [unfolded body(1)]] show ?thesis
  proof (elim disjE conjE)
    assume "tx_bind (ReserveTx transaction_consumerName e) (\<lambda>reserved.
        if \<not> reserved then tx_return ()
        else tx_bind (LoadLifecycleForUpdateTx scan i) (\<lambda>current.
          if conflict current then tx_lift (fail TransferRepository ErrStateConflict)
          else if ignore then tx_return ()
          else post scan store jsonb eventID sequence current (en_eventID e) now)) db = (Inr (), db')"
      "transfers_deferred db' = None"
    from settle_effect [OF assms(1) this(2,1)] body(2) show ?thesis by (auto split: if_splits)
  qed simp
qed (use assms(2) in auto)

lemma Decide_effect:
  assumes "consistent db ls" "Decide scan store jsonb eventID sequence env now who i decision db = (r, db')"
  shows "db' = db \<and> r \<noteq> Inr () \<or>
    pr_Role who = RoleAnalyst \<and> case_validSubject (pr_Subject who) \<and>
    (decision = case_DecisionApprove \<or> decision = case_DecisionDecline) \<and>
    (\<exists>cur nxt a. scan i = Some (l_id cur) \<and> l_status cur = StatusReviewRequired \<and>
      stepped ReviewDecidedType cur nxt db db' ls \<and> consistent db' (advance cur nxt ls) \<and>
      l_status nxt = (if decision = case_DecisionApprove then StatusApproved else StatusDeclined) \<and>
      transfer_review_audit_records db' = transfer_review_audit_records db @ [a] \<and>
      au_transfer_id a = l_id cur \<and> au_decision a = decision \<and> au_actor_subject a = pr_Subject who \<and>
      au_occurred_at a = store now \<and> same_ledger db db')"
proof (cases "pr_Role who = RoleAnalyst \<and> case_validSubject (pr_Subject who) \<and>
    (decision = case_DecisionApprove \<or> decision = case_DecisionDecline)")
  case True
  then have d: "decision = case_DecisionApprove \<or> decision = case_DecisionDecline" by blast
  have h: "run_handler env (decide_body scan store jsonb eventID sequence now who i decision) db = (r, db')"
    using assms(2) True by (auto simp: Decide_def)
  from run_handler_unit [OF h] show ?thesis
  proof (elim disjE conjE)
    assume "decide_body scan store jsonb eventID sequence now who i decision db = (Inr (), db')" "transfers_deferred db' = None"
    from decide_body_effect [OF assms(1) this(2) d this(1)] True show ?thesis by blast
  qed simp
qed (use assms(2) in \<open>auto simp: Decide_def split: if_splits\<close>)

lemma Load_member:
  assumes "consistent db ls" "cur \<in> set ls" "scan i = Some (l_id cur)"
  shows "LoadLifecycleForUpdateTx scan i db = (Inr cur, db)"
  by (rule Load_row [where scan = scan, OF consistentD(1) [OF assms(1)] assms(2,3)])

lemma Load_own:
  assumes "consistent db ls" "cur \<in> set ls"
  shows "LoadLifecycleForUpdateTx scan (l_id cur) db = (Inr cur, db)"
  by (rule Load_member [OF assms scan_canonical [OF canonical_id [OF stored_ok [OF consistentD(1) [OF assms(1)] assms(2)]]]])

end

lemma consistent_history:
  assumes "consistent db ls" "cur \<in> set ls"
  shows "events_of db (l_id cur) \<in> set (histories (l_status cur))" "snd (last (events_of db (l_id cur))) = l_version cur"
  using consistentD(5) [OF assms] event_log_histories by (auto simp: announced_def)

lemma same_ledger_balances: "same_ledger db db' \<Longrightarrow> balances db' = balances db"
  by (auto simp: same_ledger_def balances_def)

section \<open>Risk assessment\<close>

text \<open>
  C5: The risk worker assesses a transfer exactly once and as the policy says. A call for an event that it has
  recorded changes nothing. Any other call from a reachable database changes nothing and fails, or it has its whole
  effect: the event is a well-formed request of a transfer that is still pending as it was requested, its policy is
  configured and evaluates it, the transfer takes the status of that decision with version 2, the assessment is
  announced after the request, no balance changes, and the event is recorded. Reachable means reachable by \<open>system_step\<close>, that is, with callers that keep the
  identifiers of transfers and of other journal entries apart.
\<close>

theorem assessment_exact:
  assumes "uuid_scanner scan" "reachable system_init (system_step scan store jsonb) db"
    "risk_Handle scan store jsonb eventID sequence env now h e db = (r, db')"
  shows "if (risk_consumerName, en_eventID e) \<in> reserved db then db' = db
    else db' = db \<and> r \<noteq> Inr () \<or>
      (risk_consumerName, en_eventID e) \<in> reserved db' \<and> balances db' = balances db \<and>
      (\<exists>requested policy cur ev. ParseRequested e = Inr requested \<and>
        rh_policies h (l_riskPolicyVersion requested) = Some policy \<and>
        LoadLifecycleForUpdateTx scan (l_id requested) db = (Inr cur, db) \<and> matches_request cur requested \<and>
        Evaluate policy (captureInput (rh_velocity h) cur now) = Inr ev \<and>
        progress db' = (progress db)(l_id cur \<mapsto> (statusForDecision (ev_decision ev), 2)) \<and>
        events_of db' (l_id cur) = [(RequestedType, 1), (RiskAssessedType, 2)])"
proof -
  from uuid_scanner.reachable_consistent [OF assms(1,2)] obtain ls where c: "consistent db ls" .
  from uuid_scanner.risk_Handle_effect [OF assms(1) c assms(3)] show ?thesis
  proof (elim disjE exE conjE)
    fix requested policy cur nxt ev
    assume p: "ParseRequested e = Inr requested" "rh_policies h (l_riskPolicyVersion requested) = Some policy"
      and s: "stepped RiskAssessedType cur nxt db db' ls" "consistent db' (advance cur nxt ls)"
      and m: "matches_request cur requested" "Evaluate policy (captureInput (rh_velocity h) cur now) = Inr ev"
        "matchesRiskDecision (l_status nxt) (ev_decision ev)"
      and n: "(risk_consumerName, en_eventID e) \<notin> reserved db" "(risk_consumerName, en_eventID e) \<in> reserved db'"
      and led: "same_ledger db db'"
    have cur: "cur \<in> set ls" "l_id requested = l_id cur" "l_status cur = StatusPendingRisk"
      using s(1) m(1) by (simp_all add: stepped_def matches_request_def Let_def)
    have v: "l_version cur = 1" "events_of db (l_id cur) = [(RequestedType, 1)]"
      using consistent_history [OF c cur(1)] cur(3) by auto
    have "progress db' = (progress db)(l_id cur \<mapsto> (statusForDecision (ev_decision ev), 2))"
      using stepped_progress(1) [OF c s] matchesRiskDecision_status [OF m(3)] v(1) by simp
    moreover have "events_of db' (l_id cur) = [(RequestedType, 1), (RiskAssessedType, 2)]"
      using stepped_progress(2) [OF c s] v by simp
    moreover have "LoadLifecycleForUpdateTx scan (l_id requested) db = (Inr cur, db)"
      using uuid_scanner.Load_own [OF assms(1) c cur(1)] cur(2) by simp
    ultimately show ?thesis using p m n same_ledger_balances [OF led] by auto
  qed auto
qed

lemma pending_new: "amount \<in> {500, 1500} \<Longrightarrow> (risk_consumerName, i) \<notin> reserved (pending_db amount)"
  by (rule pending_run [of amount]) (simp_all add: reserved_def funded_db_empty)

theorem assessment_exact_witness:
  "progress (assessed_db 1500) transfer_id = Some (StatusReviewRequired, 2) \<and> balances (assessed_db 1500) = balances (pending_db 1500)"
proof -
  have run: "run_assess 1500 (pending_db 1500) = (Inr (), assessed_db 1500)" by (rule assessed_run [of 1500]) simp_all
  have "run_reachable (pending_db 1500)" by (rule pending_reachable) simp
  from assessment_exact [OF reference_scanner this run [unfolded run_assess_def]] pending_new [of 1500] obtain requested policy cur ev
    where a: "balances (assessed_db 1500) = balances (pending_db 1500)" "ParseRequested (requested_event 1500) = Inr requested"
      "rh_policies run_risk (l_riskPolicyVersion requested) = Some policy"
      "LoadLifecycleForUpdateTx reference_scan (l_id requested) (pending_db 1500) = (Inr cur, pending_db 1500)"
      "matches_request cur requested" "Evaluate policy (captureInput (rh_velocity run_risk) cur 10) = Inr ev"
      "progress (assessed_db 1500) = (progress (pending_db 1500))(l_id cur \<mapsto> (statusForDecision (ev_decision ev), 2))"
    by auto
  have "progress (assessed_db 1500) = registry_of [run_lifecycle 1500 (run_status 1500) 2]"
    using progress_stored [OF consistentD(1) [OF assessed_consistent [of 1500]]] by simp
  then have "progress (assessed_db 1500) transfer_id = Some (StatusReviewRequired, 2)"
    by (simp add: registry_of_def spec_of_def run_status_def)
  with a(1) show ?thesis by simp
qed

section \<open>Settlement\<close>

text \<open>
  C3: The transaction worker settles a transfer exactly once. A call for an event that it has recorded changes
  nothing. Any other call from a reachable database changes nothing and fails, or it records the event, whose version
  is that of a stored transfer, and then: an approved transfer whose accounts can take the movement is completed and
  exactly its amount moves between them; an approved transfer whose accounts cannot is failed without any movement;
  for a transfer with another status nothing else changes. Reachable means reachable by \<open>system_step\<close>, that is, with callers that keep the
  identifiers of transfers and of other journal entries apart.
\<close>

theorem settlement_exact:
  assumes "uuid_scanner scan" "reachable system_init (system_step scan store jsonb) db"
    "transaction_Handle scan store jsonb eventID sequence env now e db = (r, db')"
  shows "if (transaction_consumerName, en_eventID e) \<in> reserved db then db' = db
    else db' = db \<and> r \<noteq> Inr () \<or>
      (transaction_consumerName, en_eventID e) \<in> reserved db' \<and>
      (\<exists>i cur. LoadLifecycleForUpdateTx scan i db = (Inr cur, db) \<and> l_version cur = dr_aggregateVersion (en_draft e) \<and>
        (if l_status cur = StatusApproved then
           (if funded db (l_transfer cur)
            then progress db' = (progress db)(l_id cur \<mapsto> (StatusCompleted, sint (l_version cur) + 1)) \<and>
              balances db' = map (moved (l_transfer cur)) (account_balances db) \<and>
              posted_of db' (l_id cur) = movements (l_transfer cur)
            else progress db' = (progress db)(l_id cur \<mapsto> (StatusFailed, sint (l_version cur) + 1)) \<and>
              balances db' = balances db \<and> posted_of db' = posted_of db)
         else db' = db\<lparr>consumer_inbox := consumer_inbox db @ [new_inbox_row (clock db) transaction_consumerName e]\<rparr>))"
proof -
  from uuid_scanner.reachable_consistent [OF assms(1,2)] obtain ls where c: "consistent db ls" .
  from uuid_scanner.transaction_Handle_effect [OF assms(1) c assms(3)] show ?thesis
  proof (elim disjE conjE bexE)
    fix cur
    assume n: "(transaction_consumerName, en_eventID e) \<notin> reserved db" "(transaction_consumerName, en_eventID e) \<in> reserved db'"
      and cur: "cur \<in> set ls" "l_version cur = dr_aggregateVersion (en_draft e)"
      and s: "if l_status cur = StatusApproved then settlement scan store now cur db db' ls
        else db' = db\<lparr>consumer_inbox := consumer_inbox db @ [new_inbox_row (clock db) transaction_consumerName e]\<rparr>"
    note load = uuid_scanner.Load_own [OF assms(1) c cur(1)]
    show ?thesis
    proof (cases "l_status cur = StatusApproved")
      case True
      with s have "settlement scan store now cur db db' ls" by simp
      from settlement_progress_of [OF consistentD(1) [OF c] this True] load cur(2) n True show ?thesis
        by (simp only: if_True if_False simp_thms) (intro disjI2 exI [of _ "l_id cur"] exI [of _ cur], simp)
    qed (use s load cur(2) n in \<open>auto intro!: exI [of _ "l_id cur"] exI [of _ cur]\<close>)
  qed auto
qed

theorem settlement_exact_witness:
  "progress settled_db transfer_id = Some (StatusCompleted, 3) \<and> snd (run_settle settled_db) = settled_db"
proof -
  have run: "run_settle (assessed_db 500) = (Inr (), settled_db)" by (rule settled_effect)
  have new: "(transaction_consumerName, en_eventID assessed_event) \<notin> reserved (assessed_db 500)"
    using approved_premises(1) by (simp add: assessed_event_facts(5))
  from settlement_exact [OF reference_scanner approved_reachable run [unfolded run_settle_def]] new
  have "(transaction_consumerName, en_eventID assessed_event) \<in> reserved settled_db" by simp
  with settlement_exact [OF reference_scanner settled_reachable, where eventID = completed_id and sequence = 3 and env = quiet
      and now = 11 and e = assessed_event] have "snd (run_settle settled_db) = settled_db"
    unfolding run_settle_def by (metis surjective_pairing)
  with settled_progress show ?thesis by simp
qed

section \<open>Decisions\<close>

definition run_analyst :: TrustedPrincipal where
  "run_analyst = \<lparr>pr_Subject = ''analyst-7'', pr_Role = RoleAnalyst\<rparr>"

definition run_decide :: "(database, unit) tx" where
  "run_decide = Decide reference_scan id Inr decided_id 3 quiet 11 run_analyst transfer_id case_DecisionApprove"

definition decided_db :: database where
  "decided_db = snd (run_decide (assessed_db 1500))"

lemma decided_run:
  obtains rx ry rz a cs au where "run_decide (assessed_db 1500) = (Inr (), decided_db)"
    "decided_db = funded_db\<lparr>
       consumer_inbox := [new_inbox_row (clock funded_db) risk_consumerName (requested_event 1500)],
       transfers := map lifecycle_row [run_lifecycle 1500 StatusApproved 3], transfer_risk_assessments := [a],
       transfer_review_cases := cs, transfer_review_audit_records := [au], outbox_events := [rx, ry, rz]\<rparr>"
    "o_event_id rx = requested_id" "o_event_id ry = assessed_id" "o_event_id rz = decided_id" "o_sequence rx = 1"
    "o_sequence ry = 2" "o_sequence rz = 3"
proof -
  let ?l = "run_lifecycle 1500 StatusReviewRequired 2"
  obtain rx ry a cs where d: "assessed_db 1500 = funded_db\<lparr>
       consumer_inbox := [new_inbox_row (clock funded_db) risk_consumerName (requested_event 1500)],
       transfers := map lifecycle_row [run_lifecycle 1500 (run_status 1500) 2], transfer_risk_assessments := [a],
       transfer_review_cases := cs, outbox_events := [rx, ry]\<rparr>"
    "o_event_id rx = requested_id" "o_sequence rx = 1" "o_event_id ry = assessed_id" "o_sequence ry = 2"
    "\<forall>c \<in> set cs. rc_assessment_lifecycle_version c = 2"
    by (rule assessed_run [of 1500]) simp_all
  have c: "consistent (assessed_db 1500) [?l]" using assessed_consistent [of 1500] by (simp add: run_status_def)
  have scan: "reference_scan transfer_id = Some (l_id ?l)" using reference.scan_canonical [OF run_constants(5)] by simp
  have who: "audit_validSubject (pr_Subject run_analyst)" "pr_Role run_analyst = RoleAnalyst" "case_validSubject (pr_Subject run_analyst)"
    by code_simp+
  have v: "\<forall>c \<in> set (transfer_review_cases (assessed_db 1500)). 2 \<le> sint (rc_assessment_lifecycle_version c)"
    "l_id ?l \<notin> au_transfer_id ` set (transfer_review_audit_records (assessed_db 1500))" "fresh_event decided_id 3 (assessed_db 1500)"
    using d(6) by (auto simp: d(1-5) funded_db_empty fresh_event_def run_constants run_constants(12,13) [symmetric])
  have dec: "case_DecisionApprove = case_DecisionApprove \<or> case_DecisionApprove = case_DecisionDecline" by simp
  obtain db' nxt rz cs' au where r: "(if case_DecisionApprove = case_DecisionApprove then Approve ?l else Decline ?l) = Inr nxt"
    "decide_body reference_scan id Inr decided_id 3 11 run_analyst transfer_id case_DecisionApprove (assessed_db 1500) = (Inr (), db')"
    "transfers_deferred db' = None"
    "db' = (assessed_db 1500)\<lparr>transfers := map lifecycle_row (advance ?l nxt [?l]), transfer_review_cases := cs',
       transfer_review_audit_records := transfer_review_audit_records (assessed_db 1500) @ [au],
       outbox_events := outbox_events (assessed_db 1500) @ [rz]\<rparr>"
    "o_event_id rz = decided_id" "o_sequence rz = 3"
    by (rule reference.decide_forward [where store = id and i = decided_id and n = 3, OF c _ _ scan dec who(1) run_constants(8) v(1,2)
          takes_plain_text v(3)]) simp_all
  have "Approve ?l = Inr (run_lifecycle 1500 StatusApproved 3)" by code_simp
  with r(1) have nxt: "nxt = run_lifecycle 1500 StatusApproved 3" by simp
  have run: "run_decide (assessed_db 1500) = (Inr (), db')"
    using r(2,3) who(2,3) by (simp add: run_decide_def Decide_def run_handler_quiet)
  show thesis
  proof (rule that)
    show "run_decide (assessed_db 1500) = (Inr (), decided_db)" by (simp add: decided_db_def run)
    show "decided_db = funded_db\<lparr>
       consumer_inbox := [new_inbox_row (clock funded_db) risk_consumerName (requested_event 1500)],
       transfers := map lifecycle_row [run_lifecycle 1500 StatusApproved 3], transfer_risk_assessments := [a],
       transfer_review_cases := cs', transfer_review_audit_records := [au], outbox_events := [rx, ry, rz]\<rparr>"
      unfolding decided_db_def run snd_conv r(4) nxt by (simp add: d(1) funded_db_empty advance_def)
  qed (rule d r)+
qed

context uuid_scanner
begin

lemma decided_exactly:
  assumes "consistent db ls" "Decide scan store jsonb eventID sequence env now who i decision db = (r, db')"
  shows "db' = db \<and> r \<noteq> Inr () \<or>
    pr_Role who = RoleAnalyst \<and> (decision = case_DecisionApprove \<or> decision = case_DecisionDecline) \<and>
    balances db' = balances db \<and>
    (\<exists>cur a. LoadLifecycleForUpdateTx scan i db = (Inr cur, db) \<and> l_status cur = StatusReviewRequired \<and>
      open_case db (l_id cur) \<and> \<not> open_case db' (l_id cur) \<and>
      progress db' = (progress db)
        (l_id cur \<mapsto> (if decision = case_DecisionApprove then StatusApproved else StatusDeclined, 3)) \<and>
      events_of db' (l_id cur) = [(RequestedType, 1), (RiskAssessedType, 2), (ReviewDecidedType, 3)] \<and>
      transfer_review_audit_records db' = transfer_review_audit_records db @ [a] \<and>
      au_transfer_id a = l_id cur \<and> au_decision a = decision \<and> au_actor_subject a = pr_Subject who \<and>
      au_occurred_at a = store now)"
proof -
  note c = assms(1)
  from Decide_effect [OF assms] show ?thesis
  proof (elim disjE [of "db' = db \<and> r \<noteq> Inr ()"] exE conjE)
    fix cur nxt a
    assume who: "pr_Role who = RoleAnalyst" "decision = case_DecisionApprove \<or> decision = case_DecisionDecline"
      and i: "scan i = Some (l_id cur)" "l_status cur = StatusReviewRequired"
      and s: "stepped ReviewDecidedType cur nxt db db' ls" "consistent db' (advance cur nxt ls)"
      and st: "l_status nxt = (if decision = case_DecisionApprove then StatusApproved else StatusDeclined)"
      and au: "transfer_review_audit_records db' = transfer_review_audit_records db @ [a]" "au_transfer_id a = l_id cur"
        "au_decision a = decision" "au_actor_subject a = pr_Subject who" "au_occurred_at a = store now"
      and led: "same_ledger db db'"
    have cur: "cur \<in> set ls" "lifecycle_step cur nxt" using s(1) by (simp_all add: stepped_def)
    note ok = stored_ok [OF consistentD(1) [OF c] cur(1)]
    note f = lifecycle_step_facts [OF ok cur(2)]
    have v: "l_version cur = 2" "events_of db (l_id cur) = [(RequestedType, 1), (RiskAssessedType, 2)]"
      using consistent_history [OF c cur(1)] i(2) by auto
    have "nxt \<in> set (advance cur nxt ls)" using set_advance [OF consistentD(1) [OF c] cur(1)] by simp
    then have "open_case db' (l_id nxt) \<longleftrightarrow> l_status nxt = StatusReviewRequired"
      using consistentD(7) [OF s(2)] by (simp add: cases_ok_def)
    then have o: "open_case db (l_id cur)" "\<not> open_case db' (l_id cur)"
      using consistentD(7) [OF c] cur(1) i(2) st f(2) by (simp_all add: cases_ok_def)
    have "progress db' = (progress db)
        (l_id cur \<mapsto> (if decision = case_DecisionApprove then StatusApproved else StatusDeclined, 3))"
      using stepped_progress(1) [OF c s] v(1) st by simp
    moreover have "events_of db' (l_id cur) = [(RequestedType, 1), (RiskAssessedType, 2), (ReviewDecidedType, 3)]"
      using stepped_progress(2) [OF c s] v by simp
    moreover note Load_member [OF c cur(1) i(1)]
    ultimately show ?thesis using who i(2) o au same_ledger_balances [OF led] by blast
  qed simp
qed

end

text \<open>
  C4: A decision needs an analyst and an open case, and leaves a complete trace. From a reachable database \<open>Decide\<close>
  changes nothing and fails, or: the principal has the analyst role, the decision is an approval or a decline, the
  transfer was waiting for review, it is now approved or declined accordingly with version 3, its case is closed, an
  audit record with the analyst's subject and the time was appended, the decision is announced after the assessment,
  and no balance changes. Reachable means reachable by \<open>system_step\<close>, that is, with callers that keep the
  identifiers of transfers and of other journal entries apart.
\<close>

theorem decision_exact:
  assumes "uuid_scanner scan" "reachable system_init (system_step scan store jsonb) db"
    "Decide scan store jsonb eventID sequence env now who i decision db = (r, db')"
  shows "db' = db \<and> r \<noteq> Inr () \<or>
    pr_Role who = RoleAnalyst \<and> (decision = case_DecisionApprove \<or> decision = case_DecisionDecline) \<and>
    balances db' = balances db \<and>
    (\<exists>cur a. LoadLifecycleForUpdateTx scan i db = (Inr cur, db) \<and> l_status cur = StatusReviewRequired \<and>
      open_case db (l_id cur) \<and> \<not> open_case db' (l_id cur) \<and>
      progress db' = (progress db)
        (l_id cur \<mapsto> (if decision = case_DecisionApprove then StatusApproved else StatusDeclined, 3)) \<and>
      events_of db' (l_id cur) = [(RequestedType, 1), (RiskAssessedType, 2), (ReviewDecidedType, 3)] \<and>
      transfer_review_audit_records db' = transfer_review_audit_records db @ [a] \<and>
      au_transfer_id a = l_id cur \<and> au_decision a = decision \<and> au_actor_subject a = pr_Subject who \<and>
      au_occurred_at a = store now)"
proof -
  from uuid_scanner.reachable_consistent [OF assms(1,2)] obtain ls where "consistent db ls" .
  from uuid_scanner.decided_exactly [OF assms(1) this assms(3)] show ?thesis .
qed

theorem decision_exact_witness:
  "\<exists>a. transfer_review_audit_records decided_db = [a] \<and> au_actor_subject a = ''analyst-7'' \<and> au_transfer_id a = transfer_id"
proof -
  have run: "run_decide (assessed_db 1500) = (Inr (), decided_db)" by (rule decided_run)
  have r: "run_reachable (assessed_db 1500)" by (rule assessed_reachable) simp
  have load: "LoadLifecycleForUpdateTx reference_scan transfer_id (assessed_db 1500) =
    (Inr (run_lifecycle 1500 StatusReviewRequired 2), assessed_db 1500)"
    using assessed_lifecycle [of 1500] by (simp add: run_status_def)
  have "transfer_review_audit_records (assessed_db 1500) = []"
    by (rule assessed_run [of 1500]) (simp_all add: funded_db_empty)
  with decision_exact [OF reference_scanner r run [unfolded run_decide_def]] load show ?thesis by (auto simp: run_analyst_def)
qed

end
