(* ===== verification/Consume_Loop.thy ===== *)
theory Consume_Loop
  imports Workers
begin

text \<open>
  The consumer loops of the two workers (\<open>consume\<close>, \<open>handleRecord\<close>, \<open>quarantineReason\<close> and \<open>knownEventType\<close> of
  \<open>internal/app/riskworker/run.go\<close> and \<open>internal/app/transactionworker/run.go\<close>). The two files have the same
  text but for the package's error variable, the consumer's name and the event types it handles, which are
  arguments of the definitions here.

  The Kafka client is not modelled: a \<open>poll\<close> is an answer of it, and a \<open>delivery\<close> is a record with what the
  generators, the clock, the server and the broker do while the record is processed. The loop runs over the
  answers of the client; \<open>Polling\<close> is the loop waiting for the next one.
\<close>

record kafkaRecord =
  kr_Topic :: string
  kr_Partition :: int32
  kr_Offset :: int64
  kr_Value :: string

record delivery =
  dl_record :: kafkaRecord
  dl_eventID :: uuid
  dl_sequence :: int64
  dl_env :: tx_env
  dl_now :: gotime
  dl_store :: tx_env
  dl_commit :: commit_outcome

datatype poll = PollCancelled | PollFailed error | PollFetched "delivery list"

datatype consume_outcome = ConsumeStopped | ConsumeFailed error | Polling

record consumer =
  cs_db :: database
  cs_committed :: "kafkaRecord list"

definition ReasonInvalidEnvelope :: string where "ReasonInvalidEnvelope = ''invalid_envelope''"
definition ReasonUnsupportedEventType :: string where "ReasonUnsupportedEventType = ''unsupported_event_type''"

definition knownEventType :: "string \<Rightarrow> bool" where
  "knownEventType eventType \<longleftrightarrow>
     eventType = RequestedType \<or> eventType = RiskAssessedType \<or> eventType = ReviewDecidedType \<or>
     eventType = CompletedType \<or> eventType = FailedType"

definition quarantineReason :: "package \<Rightarrow> error \<Rightarrow> string \<times> bool" where
  "quarantineReason pkg err =
     (if errors_Is err (E Event ErrInvalidEnvelope) then (ReasonInvalidEnvelope, True)
      else if errors_Is err (E pkg ErrUnsupportedEventType) then (ReasonUnsupportedEventType, True)
      else ([], False))"

definition handleRecord ::
  "package \<Rightarrow> (string \<Rightarrow> bool) \<Rightarrow> (envelope \<Rightarrow> (database, unit) tx) \<Rightarrow> string \<Rightarrow> (database, envelope \<times> bool) tx" where
  "handleRecord pkg handles handle payload =
     tx_bind (tx_lift (ParseEnvelope payload)) (\<lambda>envelope.
     if \<not> knownEventType (dr_eventType (en_draft envelope)) then tx_lift (fail pkg ErrUnsupportedEventType)
     else if \<not> handles (dr_eventType (en_draft envelope)) then tx_return (envelope, False)
     else tx_bind (handle envelope) (\<lambda>_. tx_return (envelope, True)))"

text \<open>\<open>client.CommitRecords\<close>: the broker may have committed although the call fails.\<close>

definition CommitRecords :: "commit_outcome \<Rightarrow> kafkaRecord \<Rightarrow> consumer \<Rightarrow> error option \<times> consumer" where
  "CommitRecords outcome r c =
     (case outcome of
        Committed \<Rightarrow> (None, c\<lparr>cs_committed := cs_committed c @ [r]\<rparr>)
      | CommitRefused e \<Rightarrow> (Some e, c)
      | CommitAckLost s \<Rightarrow> (Some [Opaque s], c\<lparr>cs_committed := cs_committed c @ [r]\<rparr>))"

definition quarantine_record :: "string \<Rightarrow> string \<Rightarrow> kafkaRecord \<Rightarrow> quarantineRecord" where
  "quarantine_record consumerName reasonCode r =
     \<lparr>qr_ConsumerName = consumerName, qr_Topic = kr_Topic r, qr_Partition = kr_Partition r,
      qr_Offset = kr_Offset r, qr_ReasonCode = reasonCode, qr_Value = kr_Value r\<rparr>"

definition consume_record ::
  "(string \<Rightarrow> string) \<Rightarrow> package \<Rightarrow> string \<Rightarrow> (string \<Rightarrow> bool) \<Rightarrow> (delivery \<Rightarrow> envelope \<Rightarrow> (database, unit) tx)
     \<Rightarrow> delivery \<Rightarrow> consumer \<Rightarrow> error option \<times> consumer" where
  "consume_record digest pkg consumerName handles handle d c =
     (let r = dl_record d in
      case handleRecord pkg handles (handle d) (kr_Value r) (cs_db c) of
        (Inl err, db) \<Rightarrow>
          (case quarantineReason pkg err of (reasonCode, quarantinable) \<Rightarrow>
             if quarantinable then
               (case quarantine_Store digest (dl_store d) (quarantine_record consumerName reasonCode r) db of
                  (Inl e, db') \<Rightarrow> (Some e, c\<lparr>cs_db := db'\<rparr>)
                | (Inr _, db') \<Rightarrow> CommitRecords (dl_commit d) r (c\<lparr>cs_db := db'\<rparr>))
             else (Some err, c\<lparr>cs_db := db\<rparr>))
      | (Inr _, db) \<Rightarrow> CommitRecords (dl_commit d) r (c\<lparr>cs_db := db\<rparr>))"

fun consume_records ::
  "(delivery \<Rightarrow> consumer \<Rightarrow> error option \<times> consumer) \<Rightarrow> delivery list \<Rightarrow> consumer \<Rightarrow> error option \<times> consumer" where
  "consume_records one [] c = (None, c)"
| "consume_records one (d # ds) c =
     (case one d c of
        (Some e, c') \<Rightarrow> (Some e, c')
      | (None, c') \<Rightarrow> consume_records one ds c')"

fun consume_polls ::
  "(delivery \<Rightarrow> consumer \<Rightarrow> error option \<times> consumer) \<Rightarrow> poll list \<Rightarrow> consumer \<Rightarrow> consume_outcome \<times> consumer" where
  "consume_polls one [] c = (Polling, c)"
| "consume_polls one (PollCancelled # polls) c = (ConsumeStopped, c)"
| "consume_polls one (PollFailed e # polls) c = (ConsumeFailed e, c)"
| "consume_polls one (PollFetched ds # polls) c =
     (case consume_records one ds c of
        (Some e, c') \<Rightarrow> (ConsumeFailed e, c')
      | (None, c') \<Rightarrow> consume_polls one polls c')"

text \<open>The two instances.\<close>

definition risk_handles :: "string \<Rightarrow> bool" where
  "risk_handles eventType \<longleftrightarrow> eventType = RequestedType"

definition transaction_handles :: "string \<Rightarrow> bool" where
  "transaction_handles eventType \<longleftrightarrow> eventType = RiskAssessedType \<or> eventType = ReviewDecidedType"

definition risk_consume ::
  "(string \<Rightarrow> uuid option) \<Rightarrow> (gotime \<Rightarrow> gotime) \<Rightarrow> (string \<Rightarrow> string result) \<Rightarrow> (string \<Rightarrow> string) \<Rightarrow> riskHandler
     \<Rightarrow> poll list \<Rightarrow> consumer \<Rightarrow> consume_outcome \<times> consumer" where
  "risk_consume scan store jsonb digest h =
     consume_polls (consume_record digest RiskWorker risk_consumerName risk_handles
       (\<lambda>d. risk_Handle scan store jsonb (dl_eventID d) (dl_sequence d) (dl_env d) (dl_now d) h))"

definition transaction_consume ::
  "(string \<Rightarrow> uuid option) \<Rightarrow> (gotime \<Rightarrow> gotime) \<Rightarrow> (string \<Rightarrow> string result) \<Rightarrow> (string \<Rightarrow> string)
     \<Rightarrow> poll list \<Rightarrow> consumer \<Rightarrow> consume_outcome \<times> consumer" where
  "transaction_consume scan store jsonb digest =
     consume_polls (consume_record digest TransactionWorker transaction_consumerName transaction_handles
       (\<lambda>d. transaction_Handle scan store jsonb (dl_eventID d) (dl_sequence d) (dl_env d) (dl_now d)))"

end
