(* ===== verification/Consumer_Properties.thy ===== *)
theory Consumer_Properties
  imports Worker_Properties Consume_Loop "HOL-Library.Sublist"
begin

text \<open>
  The consumer loops: records are committed in the order in which they were fetched and without gaps, and the offset
  of a record is committed only after the record was processed, set aside as irrelevant, or quarantined.

  The locale \<open>record_handler\<close> states what the loop relies on of a handler; it holds of the two workers.
\<close>

section \<open>Quarantine\<close>

definition quarantined :: "string \<Rightarrow> kafkaRecord \<Rightarrow> database \<Rightarrow> bool" where
  "quarantined consumerName r db \<longleftrightarrow>
     (consumerName, kr_Topic r, kr_Partition r, kr_Offset r) \<in> quarantine_key ` set (consumer_quarantine db)"

definition accounted :: "string \<Rightarrow> (string \<Rightarrow> bool) \<Rightarrow> kafkaRecord \<Rightarrow> database \<Rightarrow> bool" where
  "accounted consumerName handles r db \<longleftrightarrow>
     quarantined consumerName r db \<or>
     (\<exists>e. ParseEnvelope (kr_Value r) = Inr e \<and> knownEventType (dr_eventType (en_draft e)) \<and>
        (handles (dr_eventType (en_draft e)) \<longrightarrow> (consumerName, en_eventID e) \<in> reserved db))"

text \<open>The inbox and the quarantine only grow.\<close>

definition grows :: "database \<Rightarrow> database \<Rightarrow> bool" where
  "grows db db' \<longleftrightarrow> reserved db \<subseteq> reserved db' \<and> set (consumer_quarantine db) \<subseteq> set (consumer_quarantine db')"

lemma grows_refl [simp]: "grows db db"
  by (simp add: grows_def)

lemma grows_trans: "grows a b \<Longrightarrow> grows b c \<Longrightarrow> grows a c"
  by (auto simp: grows_def)

lemma accounted_grows: "accounted n handles r db \<Longrightarrow> grows db db' \<Longrightarrow> accounted n handles r db'"
  unfolding accounted_def quarantined_def grows_def by blast

lemma quarantine_Store_effect:
  assumes "quarantine_Store digest env (quarantine_record n reason r) db = (x, db')"
  shows "grows db db'" "x = Inr () \<Longrightarrow> quarantined n r db'"
proof -
  let ?row = "new_quarantine_row digest (clock db) (quarantine_record n reason r)"
  have key: "quarantine_key ?row = (n, kr_Topic r, kr_Partition r, kr_Offset r)"
    by (simp add: quarantine_key_def new_quarantine_row_def Let_def quarantine_record_def)
  have body: "grows db db'' \<and> quarantined n r db''" if "insert_quarantine_row ?row db = (Inr u, db'')" for u db''
    using that key
    by (auto simp: insert_quarantine_row_def grows_def quarantined_def reserved_def constrained_Inr result_simps split: if_splits)
  show "grows db db'"
    using assms body by (auto simp: quarantine_Store_def split: option.splits dest!: run_tx_failed)
  show "quarantined n r db'" if "x = Inr ()"
    using assms body that by (auto simp: quarantine_Store_def run_tx_Inr split: option.splits)
qed

section \<open>The loop over a handler\<close>

fun fetched :: "poll \<Rightarrow> delivery list" where
  "fetched (PollFetched ds) = ds"
| "fetched _ = []"

locale record_handler =
  fixes good :: "database \<Rightarrow> bool" and consumerName :: string and handle :: "delivery \<Rightarrow> envelope \<Rightarrow> (database, unit) tx"
    and admissible :: "delivery \<Rightarrow> bool"
  assumes handle_good: "good db \<Longrightarrow> admissible d \<Longrightarrow> handle d e db = (r, db') \<Longrightarrow> good db'"
    and handle_grows: "good db \<Longrightarrow> handle d e db = (r, db') \<Longrightarrow> grows db db'"
    and handle_records: "good db \<Longrightarrow> handle d e db = (Inr (), db') \<Longrightarrow> (consumerName, en_eventID e) \<in> reserved db'"
    and store_good: "good db \<Longrightarrow> quarantine_Store digest env q db = (x, db') \<Longrightarrow> good db'"
begin

text \<open>What one record contributes: the database stays good and grows, and a commit follows an accounted record.\<close>

definition progressed :: "(string \<Rightarrow> bool) \<Rightarrow> consumer \<Rightarrow> kafkaRecord list \<Rightarrow> consumer \<Rightarrow> bool" where
  "progressed handles c rs c' \<longleftrightarrow>
     good (cs_db c') \<and> grows (cs_db c) (cs_db c') \<and> cs_committed c' = cs_committed c @ rs \<and>
     (\<forall>r \<in> set rs. accounted consumerName handles r (cs_db c'))"

lemma progressed_trans:
  "progressed handles a rs b \<Longrightarrow> progressed handles b rs' c \<Longrightarrow> progressed handles a (rs @ rs') c"
  unfolding progressed_def using accounted_grows grows_trans by fastforce

lemma handleRecord_effect:
  assumes "good db" "admissible d" "handleRecord pkg handles (handle d) (kr_Value r) db = (x, db')"
  shows "good db' \<and> grows db db' \<and> (\<forall>y. x = Inr y \<longrightarrow> accounted consumerName handles r db')"
proof (cases "ParseEnvelope (kr_Value r)")
  case (Inl err)
  with assms show ?thesis by (auto simp: handleRecord_def tx_bind_def tx_lift_def)
next
  case (Inr e)
  obtain y db1 where h: "handle d e db = (y, db1)" by fastforce
  note facts = handle_good [OF assms(1,2) h] handle_grows [OF assms(1) h] handle_records [OF assms(1), of d e db1]
  from assms(3) Inr have "x = fail pkg ErrUnsupportedEventType \<and> db' = db \<and> \<not> knownEventType (dr_eventType (en_draft e)) \<or>
      knownEventType (dr_eventType (en_draft e)) \<and> \<not> handles (dr_eventType (en_draft e)) \<and> db' = db \<or>
      knownEventType (dr_eventType (en_draft e)) \<and> db' = db1 \<and> ((\<exists>z. x = Inr z) \<longrightarrow> y = Inr ())"
    by (auto simp: handleRecord_def tx_bind_def tx_lift_def tx_return_def h split: if_splits sum.splits)
  with assms(1) Inr facts h show ?thesis by (auto simp: accounted_def)
qed

lemma CommitRecords_progressed:
  assumes "CommitRecords outcome r c' = (x, c'')" "good (cs_db c')" "grows (cs_db c) (cs_db c')" "cs_committed c' = cs_committed c"
    "accounted consumerName handles r (cs_db c')"
  shows "\<exists>rs. progressed handles c rs c'' \<and> prefix rs [r] \<and> (x = None \<longrightarrow> rs = [r])"
proof (cases outcome)
  case (CommitRefused e)
  with assms show ?thesis by (intro exI [of _ "[]"]) (auto simp: CommitRecords_def progressed_def)
qed (use assms in \<open>auto simp: CommitRecords_def progressed_def intro!: exI [of _ "[r]"]\<close>)

lemma consume_record_progressed:
  assumes "good (cs_db c)" "admissible d" "consume_record digest pkg consumerName handles handle d c = (x, c')"
  shows "\<exists>rs. progressed handles c rs c' \<and> prefix rs [dl_record d] \<and> (x = None \<longrightarrow> rs = [dl_record d])"
proof -
  let ?r = "dl_record d"
  obtain y db where h: "handleRecord pkg handles (handle d) (kr_Value ?r) (cs_db c) = (y, db)" by fastforce
  note e = handleRecord_effect [OF assms(1,2) h]
  have stop: "\<exists>rs. progressed handles c rs (c\<lparr>cs_db := db'\<rparr>) \<and> prefix rs [?r] \<and> (Some err = None \<longrightarrow> rs = [?r])"
    if "good db'" "grows (cs_db c) db'" for db' and err :: error
    using that by (intro exI [of _ "[]"]) (simp add: progressed_def)
  show ?thesis
  proof (cases y)
    case (Inr z)
    with assms(3) h have "CommitRecords (dl_commit d) ?r (c\<lparr>cs_db := db\<rparr>) = (x, c')" by (simp add: consume_record_def)
    from CommitRecords_progressed [OF this, of c handles] e Inr show ?thesis by simp
  next
    case (Inl err)
    obtain reason b where q: "quarantineReason pkg err = (reason, b)" by fastforce
    show ?thesis
    proof (cases b)
      case False
      with assms(3) h Inl q have "x = Some err" "c' = c\<lparr>cs_db := db\<rparr>" by (simp_all add: consume_record_def)
      with stop [of db err] e show ?thesis by simp
    next
      case True
      obtain z db' where s: "quarantine_Store digest (dl_store d) (quarantine_record consumerName reason ?r) db = (z, db')" by fastforce
      note g = store_good [OF _ s] quarantine_Store_effect [OF s]
      have gr: "good db'" "grows (cs_db c) db'" using e g(1,2) grows_trans by blast+
      show ?thesis
      proof (cases z)
        case (Inl err')
        with assms(3) h \<open>y = Inl err\<close> q True s have "x = Some err'" "c' = c\<lparr>cs_db := db'\<rparr>" by (simp_all add: consume_record_def)
        with stop [of db' err'] gr show ?thesis by simp
      next
        case (Inr u)
        with assms(3) h \<open>y = Inl err\<close> q True s have "CommitRecords (dl_commit d) ?r (c\<lparr>cs_db := db'\<rparr>) = (x, c')"
          by (simp add: consume_record_def)
        from CommitRecords_progressed [OF this, of c handles] gr g(3) Inr show ?thesis by (simp add: accounted_def)
      qed
    qed
  qed
qed

lemma consume_records_progressed:
  assumes "good (cs_db c)" "list_all admissible ds"
    "consume_records (consume_record digest pkg consumerName handles handle) ds c = (x, c')"
  shows "\<exists>rs. progressed handles c rs c' \<and> prefix rs (map dl_record ds) \<and> (x = None \<longrightarrow> rs = map dl_record ds)"
  using assms
proof (induction ds arbitrary: c)
  case Nil
  then show ?case by (auto simp: progressed_def)
next
  case (Cons d ds)
  obtain y c1 where one: "consume_record digest pkg consumerName handles handle d c = (y, c1)" by fastforce
  from consume_record_progressed [OF Cons.prems(1) _ one] Cons.prems(2) obtain rs where rs: "progressed handles c rs c1"
    "prefix rs [dl_record d]" "y = None \<longrightarrow> rs = [dl_record d]" by auto
  show ?case
  proof (cases y)
    case (Some e)
    with Cons.prems(3) one have "x = Some e" "c' = c1" by simp_all
    with rs(1,2) show ?thesis by (auto simp: prefix_Cons)
  next
    case None
    with Cons.prems one rs obtain rs' where "progressed handles c1 rs' c'" "prefix rs' (map dl_record ds)"
      "x = None \<longrightarrow> rs' = map dl_record ds" using Cons.IH [of c1] by (auto simp: progressed_def)
    with progressed_trans [OF rs(1) this(1)] rs(3) None show ?thesis by (intro exI [of _ "rs @ rs'"]) simp
  qed
qed

lemma consume_polls_progressed:
  assumes "good (cs_db c)" "list_all (\<lambda>p. list_all admissible (fetched p)) polls"
    "consume_polls (consume_record digest pkg consumerName handles handle) polls c = (out, c')"
  shows "\<exists>rs. progressed handles c rs c' \<and> prefix rs (map dl_record (concat (map fetched polls))) \<and>
    (out = Polling \<longrightarrow> rs = map dl_record (concat (map fetched polls)))"
  using assms
proof (induction polls arbitrary: c)
  case Nil
  then show ?case by (auto simp: progressed_def)
next
  case (Cons p polls)
  show ?case
  proof (cases p)
    case (PollFetched ds)
    obtain y c1 where one: "consume_records (consume_record digest pkg consumerName handles handle) ds c = (y, c1)" by fastforce
    from consume_records_progressed [OF Cons.prems(1) _ one] Cons.prems(2) PollFetched obtain rs where rs: "progressed handles c rs c1"
      "prefix rs (map dl_record ds)" "y = None \<longrightarrow> rs = map dl_record ds" by auto
    show ?thesis
    proof (cases y)
      case (Some e)
      with Cons.prems(3) one PollFetched have "out = ConsumeFailed e" "c' = c1" by simp_all
      with rs(1,2) PollFetched show ?thesis by (auto intro: prefix_prefix)
    next
      case None
      with Cons.prems one rs PollFetched obtain rs' where "progressed handles c1 rs' c'"
        "prefix rs' (map dl_record (concat (map fetched polls)))"
        "out = Polling \<longrightarrow> rs' = map dl_record (concat (map fetched polls))" using Cons.IH [of c1] by (auto simp: progressed_def)
      with progressed_trans [OF rs(1) this(1)] rs(3) None PollFetched show ?thesis by (intro exI [of _ "rs @ rs'"]) simp
    qed
  qed (use Cons.prems in \<open>auto simp: progressed_def\<close>)
qed

end

section \<open>The two workers\<close>

lemma grows_inboxed: "inboxed n e db db' \<Longrightarrow> grows db db'"
  by (auto simp: inboxed_def grows_def reserved_def)

context uuid_scanner
begin

lemma risk_Handle_records:
  assumes "reachable system_init (system_step scan store jsonb) db" "risk_Handle scan store jsonb eventID sequence env now h e db = (r, db')"
  shows "grows db db'" "r = Inr () \<Longrightarrow> (risk_consumerName, en_eventID e) \<in> reserved db'"
proof -
  from reachable_consistent [OF assms(1)] obtain ls where c: "consistent db ls" .
  note e = risk_Handle_effect [OF c assms(2)]
  show "grows db db'" using e grows_inboxed grows_refl by blast
  show "(risk_consumerName, en_eventID e) \<in> reserved db'" if "r = Inr ()" using e that by blast
qed

lemma transaction_Handle_records:
  assumes "reachable system_init (system_step scan store jsonb) db" "transaction_Handle scan store jsonb eventID sequence env now e db = (r, db')"
  shows "grows db db'" "r = Inr () \<Longrightarrow> (transaction_consumerName, en_eventID e) \<in> reserved db'"
proof -
  from reachable_consistent [OF assms(1)] obtain ls where c: "consistent db ls" .
  note e = transaction_Handle_effect [OF c assms(2)]
  show "grows db db'" using e grows_inboxed grows_refl by blast
  show "(transaction_consumerName, en_eventID e) \<in> reserved db'" if "r = Inr ()" using e that by blast
qed

end

sublocale uuid_scanner \<subseteq> risk: record_handler "reachable system_init (system_step scan store jsonb)" risk_consumerName
    "\<lambda>d. risk_Handle scan store jsonb (dl_eventID d) (dl_sequence d) (dl_env d) (dl_now d) h" "\<lambda>d. True"
  for store jsonb h
proof unfold_locales
  fix db d e r db'
  assume r: "reachable system_init (system_step scan store jsonb) db"
  show "reachable system_init (system_step scan store jsonb) db'" "grows db db'"
    if "risk_Handle scan store jsonb (dl_eventID d) (dl_sequence d) (dl_env d) (dl_now d) h e db = (r, db')"
    by (rule reachable.move [OF r system_step.assess [OF that]], rule risk_Handle_records(1) [OF r that])
  show "(risk_consumerName, en_eventID e) \<in> reserved db'"
    if "risk_Handle scan store jsonb (dl_eventID d) (dl_sequence d) (dl_env d) (dl_now d) h e db = (Inr (), db')"
    by (rule risk_Handle_records(2) [OF r that refl])
  show "reachable system_init (system_step scan store jsonb) db'" if "quarantine_Store digest env q db = (x, db')" for digest env q x
    by (rule reachable.move [OF r system_step.quarantine [OF that]])
qed

sublocale uuid_scanner \<subseteq> transaction: record_handler "reachable system_init (system_step scan store jsonb)"
    transaction_consumerName
    "\<lambda>d. transaction_Handle scan store jsonb (dl_eventID d) (dl_sequence d) (dl_env d) (dl_now d)" "\<lambda>d. \<not> IsZero (store (dl_now d))"
  for store jsonb
proof unfold_locales
  fix db d e r db'
  assume r: "reachable system_init (system_step scan store jsonb) db"
  show "reachable system_init (system_step scan store jsonb) db'"
    if "\<not> IsZero (store (dl_now d))"
      "transaction_Handle scan store jsonb (dl_eventID d) (dl_sequence d) (dl_env d) (dl_now d) e db = (r, db')"
    by (rule reachable.move [OF r system_step.settle [OF that(2,1)]])
  show "grows db db'"
    if "transaction_Handle scan store jsonb (dl_eventID d) (dl_sequence d) (dl_env d) (dl_now d) e db = (r, db')"
    by (rule transaction_Handle_records(1) [OF r that])
  show "(transaction_consumerName, en_eventID e) \<in> reserved db'"
    if "transaction_Handle scan store jsonb (dl_eventID d) (dl_sequence d) (dl_env d) (dl_now d) e db = (Inr (), db')"
    by (rule transaction_Handle_records(2) [OF r that refl])
  show "reachable system_init (system_step scan store jsonb) db'" if "quarantine_Store digest env q db = (x, db')" for digest env q x
    by (rule reachable.move [OF r system_step.quarantine [OF that]])
qed

context uuid_scanner
begin

lemma transaction_consume_records:
  assumes "reachable system_init (system_step scan store jsonb) (cs_db c)" "\<forall>p \<in> set polls. \<forall>d \<in> set (fetched p). \<not> IsZero (store (dl_now d))"
    "transaction_consume scan store jsonb digest polls c = (out, c')"
  shows "\<exists>rs. cs_committed c' = cs_committed c @ rs \<and> prefix rs (map dl_record (concat (map fetched polls))) \<and>
    (out = Polling \<longrightarrow> rs = map dl_record (concat (map fetched polls))) \<and>
    (\<forall>r \<in> set rs. accounted transaction_consumerName transaction_handles r (cs_db c'))"
  using transaction.consume_polls_progressed [OF assms(1) _ assms(3) [unfolded transaction_consume_def]] assms(2)
  by (auto simp: transaction.progressed_def list_all_iff)

lemma risk_consume_records:
  assumes "reachable system_init (system_step scan store jsonb) (cs_db c)" "risk_consume scan store jsonb digest h polls c = (out, c')"
  shows "\<exists>rs. cs_committed c' = cs_committed c @ rs \<and> prefix rs (map dl_record (concat (map fetched polls))) \<and>
    (out = Polling \<longrightarrow> rs = map dl_record (concat (map fetched polls))) \<and>
    (\<forall>r \<in> set rs. accounted risk_consumerName risk_handles r (cs_db c'))"
  using risk.consume_polls_progressed [OF assms(1) _ assms(2) [unfolded risk_consume_def]]
  by (auto simp: risk.progressed_def list_all_iff)

end

text \<open>
  C8: The transaction worker loses no record. Whatever the broker, the server and the generators do, the worker
  commits the fetched records in order and without gaps, all of them if it is still polling; and every record that it
  committed is quarantined, or it is a readable event that the worker does not handle, or it is recorded in the inbox,
  that is, its effect is in the database. The worker starts on a reachable database (with callers that keep the identifiers of
  transfers and of other journal entries apart, as \<open>system_step\<close> requires), and its clock never shows a time that is stored as
  the zero time.
\<close>

theorem transaction_records_accounted:
  assumes "uuid_scanner scan" "reachable system_init (system_step scan store jsonb) (cs_db c)"
    "\<forall>p \<in> set polls. \<forall>d \<in> set (fetched p). \<not> IsZero (store (dl_now d))"
    "transaction_consume scan store jsonb digest polls c = (out, c')"
  shows "\<exists>rs. cs_committed c' = cs_committed c @ rs \<and> prefix rs (map dl_record (concat (map fetched polls))) \<and>
    (out = Polling \<longrightarrow> rs = map dl_record (concat (map fetched polls))) \<and>
    (\<forall>r \<in> set rs. accounted transaction_consumerName transaction_handles r (cs_db c'))"
  by (rule uuid_scanner.transaction_consume_records [OF assms])

text \<open>
  The same holds of the risk worker.
\<close>

theorem risk_records_accounted:
  assumes "uuid_scanner scan" "reachable system_init (system_step scan store jsonb) (cs_db c)" "risk_consume scan store jsonb digest h polls c = (out, c')"
  shows "\<exists>rs. cs_committed c' = cs_committed c @ rs \<and> prefix rs (map dl_record (concat (map fetched polls))) \<and>
    (out = Polling \<longrightarrow> rs = map dl_record (concat (map fetched polls))) \<and>
    (\<forall>r \<in> set rs. accounted risk_consumerName risk_handles r (cs_db c'))"
  by (rule uuid_scanner.risk_consume_records [OF assms])

definition broken_record :: kafkaRecord where
  "broken_record = \<lparr>kr_Topic = ''wallet.events.v1'', kr_Partition = 0, kr_Offset = 41, kr_Value = ''{''\<rparr>"

definition broken_delivery :: delivery where
  "broken_delivery =
     \<lparr>dl_record = broken_record, dl_eventID = completed_id, dl_sequence = 3, dl_env = quiet, dl_now = 11, dl_store = quiet,
      dl_commit = Committed\<rparr>"

theorem transaction_records_accounted_witness:
  "\<exists>c'. transaction_consume reference_scan id Inr (\<lambda>_. replicate 32 (CHR 0x00)) [PollFetched [broken_delivery]]
      \<lparr>cs_db = funded_db, cs_committed = []\<rparr> = (Polling, c') \<and> cs_committed c' = [broken_record] \<and>
    quarantined transaction_consumerName broken_record (cs_db c')"
proof -
  let ?run = "transaction_consume reference_scan id Inr (\<lambda>_. replicate 32 (CHR 0x00)) [PollFetched [broken_delivery]]
      \<lparr>cs_db = funded_db, cs_committed = []\<rparr>"
  have "fst ?run = Polling" by code_simp
  then have run: "?run = (Polling, snd ?run)" by (metis surjective_pairing)
  have db: "reachable system_init (system_step reference_scan id Inr) (cs_db \<lparr>cs_db = funded_db, cs_committed = []\<rparr>)"
    using funded_reachable by simp
  have now: "\<forall>p \<in> set [PollFetched [broken_delivery]]. \<forall>d \<in> set (fetched p). \<not> IsZero (id (dl_now d))"
    by (simp add: broken_delivery_def run_constants)
  have bad: "\<nexists>e. ParseEnvelope (kr_Value broken_record) = Inr e"
  proof -
    have "isl (ParseEnvelope (kr_Value broken_record))" by code_simp
    then show ?thesis by auto
  qed
  from transaction_records_accounted [OF reference_scanner db now run] bad show ?thesis
    using run by (auto simp: accounted_def broken_delivery_def)
qed

end
