(* ===== verification/Consumer_Stop.thy ===== *)
theory Consumer_Stop
  imports Consumer_Properties
begin

text \<open>
  A record that the transaction worker cannot pass: an assessment that a later transition of its transfer has
  overtaken. An analyst can decide as soon as the assessment is stored, which may be before the worker has consumed
  the event that announces it.
\<close>

lemma ParseEnvelope_New:
  assumes "ParseEnvelope s = Inr e"
  obtains i d where "NewEnvelope i d = Inr e"
  using assms by (auto simp: ParseEnvelope_def result_simps split: option.splits)

lemma transaction_consumerName_valid: "validConsumerName transaction_consumerName"
  by code_simp

lemma run_handler_refused: "body db = (Inl e, db') \<Longrightarrow> run_handler quiet body db = (Inl e, db)"
  by (simp add: run_handler_def run_deferred_def run_tx_def quiet_def)

lemma assessed_overtaken:
  assumes "NewEnvelope i d = Inr e" "LoadLifecycleForUpdateTx scan (as_transferID a) db = (Inr cur, db)"
    "l_version cur \<noteq> dr_aggregateVersion (en_draft e)" "(transaction_consumerName, en_eventID e) \<notin> reserved db"
  obtains db' where "assessed_body scan store jsonb eventID sequence now a e db = (fail TransferRepository ErrStateConflict, db')"
proof -
  let ?db = "db\<lparr>consumer_inbox := consumer_inbox db @ [new_inbox_row (clock db) transaction_consumerName e]\<rparr>"
  have "LoadLifecycleForUpdateTx scan (as_transferID a) ?db = (Inr cur, ?db)"
    using assms(2) by (auto simp: LoadLifecycleForUpdateTx_def tx_read_def)
  with assms(3,4) show thesis
    by (intro that [of ?db])
      (simp add: assessed_body_def tx_bind_def tx_lift_def ReserveTx_eq [OF transaction_consumerName_valid assms(1)])
qed

text \<open>
  C14: An assessment that has been overtaken stops the transaction worker for good. When the stored version of the transfer
  is not the one that a valid \<open>transfer.risk_assessed\<close> event announces, and the event is not in the worker's inbox, the
  worker refuses the record with a state conflict although every connection works, neither quarantines nor commits
  it, and handles none of the records that follow; nothing has changed, so the next start meets the same record.
\<close>

theorem overtaken_assessment_stops:
  assumes "ParseEnvelope (kr_Value (dl_record d)) = Inr e" "ParseRiskAssessed e = Inr a" "dl_env d = quiet"
    "LoadLifecycleForUpdateTx scan (as_transferID a) (cs_db c) = (Inr cur, cs_db c)"
    "l_version cur \<noteq> dr_aggregateVersion (en_draft e)"
    "(transaction_consumerName, en_eventID e) \<notin> reserved (cs_db c)"
  shows "transaction_consume scan store jsonb digest (PollFetched (d # ds) # polls) c =
    (ConsumeFailed [E TransferRepository ErrStateConflict], c)"
proof -
  have ty: "dr_eventType (en_draft e) = RiskAssessedType"
    using assms(2) by (auto simp: ParseRiskAssessed_def Let_def split: if_splits)
  from assms(1) obtain i x where n: "NewEnvelope i x = Inr e" by (rule ParseEnvelope_New)
  obtain db' where "assessed_body scan store jsonb (dl_eventID d) (dl_sequence d) (dl_now d) a e (cs_db c) =
      (fail TransferRepository ErrStateConflict, db')"
    by (rule assessed_overtaken [OF n assms(4-6)])
  then have h: "transaction_Handle scan store jsonb (dl_eventID d) (dl_sequence d) (dl_env d) (dl_now d) e (cs_db c) =
      (Inl [E TransferRepository ErrStateConflict], cs_db c)"
    using ty assms(2,3) by (simp add: transaction_Handle_def run_handler_refused event_consts)
  have "handleRecord TransactionWorker transaction_handles
      (transaction_Handle scan store jsonb (dl_eventID d) (dl_sequence d) (dl_env d) (dl_now d)) (kr_Value (dl_record d)) (cs_db c) =
      (Inl [E TransferRepository ErrStateConflict], cs_db c)"
    using ty h assms(1) by (simp add: handleRecord_def tx_bind_def tx_lift_def knownEventType_def transaction_handles_def)
  then show ?thesis
    by (simp add: transaction_consume_def consume_record_def Let_def quarantineReason_def errors_Is_def)
qed

definition review_event :: envelope where
  "review_event =
     \<lparr>en_eventID = assessed_id,
      en_draft = transfer_draft RiskAssessedType transfer_id 2 requested_id 10
        (JObject (assessed_members (run_lifecycle 1500 StatusReviewRequired 2) sample_evaluation))\<rparr>"

lemma review_evaluation:
  "Evaluate sample_policy (captureInput noopVelocityObserver (run_lifecycle 1500 StatusPendingRisk 1) 10) = Inr sample_evaluation"
  by code_simp

lemma review_event_parsed:
  "ParseRiskAssessed review_event =
     Inr \<lparr>as_transferID = transfer_id, as_riskPolicyVersion = ''v1'', as_decision = DecisionReview\<rparr>"
proof -
  have ok: "lifecycle_ok (run_lifecycle 1500 StatusReviewRequired 2)" using run_status_ok [of 1500] by (simp add: run_status_def)
  have "ev_policyVersion sample_evaluation = ''v1''" "ev_decision sample_evaluation = DecisionReview" by code_simp+
  then show ?thesis
    using ParseRiskAssessed_draft [OF ok _ review_evaluation _ run_constants(1), of assessed_id 10]
    by (simp add: review_event_def)
qed

lemma review_event_delivered:
  obtains payload where "ParseEnvelope payload = Inr review_event"
proof -
  have id: "isCanonicalUUID (l_id (run_lifecycle 1500 StatusReviewRequired 2))" by (simp add: run_constants)
  have cal: "in_calendar 10" by code_simp
  note o = assessed_object [OF id review_evaluation]
  have "delivered assessed_id (Inr (en_draft review_event)) = Inr review_event"
    using delivered_transfer [OF NewDraft_transfer [OF transfer_event_types(4) run_constants(5) _ disjI2 [OF run_constants(1)]
          run_constants(7) o, of 2] run_constants(2) _ _ o(1,2)] cal
    by (simp add: review_event_def)
  then show thesis using that by (auto simp: delivered_def result_simps)
qed

lemma decided_reachable: "run_reachable decided_db"
proof (rule reachable.move [OF assessed_reachable [of 1500]])
  have "run_decide (assessed_db 1500) = (Inr (), decided_db)" by (rule decided_run)
  then show "run_step (assessed_db 1500) decided_db" unfolding run_decide_def by (rule system_step.decide)
qed simp

lemma decided_tables:
  "transfers decided_db = map lifecycle_row [run_lifecycle 1500 StatusApproved 3]"
  "consumer_inbox decided_db = [new_inbox_row (clock funded_db) risk_consumerName (requested_event 1500)]"
proof -
  obtain rx ry rz a cs au where "run_decide (assessed_db 1500) = (Inr (), decided_db)"
    and db: "decided_db = funded_db\<lparr>
       consumer_inbox := [new_inbox_row (clock funded_db) risk_consumerName (requested_event 1500)],
       transfers := map lifecycle_row [run_lifecycle 1500 StatusApproved 3], transfer_risk_assessments := [a],
       transfer_review_cases := cs, transfer_review_audit_records := [au], outbox_events := [rx, ry, rz]\<rparr>"
    by (rule decided_run)
  show "transfers decided_db = map lifecycle_row [run_lifecycle 1500 StatusApproved 3]"
    "consumer_inbox decided_db = [new_inbox_row (clock funded_db) risk_consumerName (requested_event 1500)]"
    by (subst db, simp)+
qed

lemma decided_lifecycle:
  "LoadLifecycleForUpdateTx reference_scan transfer_id decided_db = (Inr (run_lifecycle 1500 StatusApproved 3), decided_db)"
proof (rule reference.Load_member)
  have "lifecycle_validate (run_lifecycle 1500 StatusApproved 3) = None" by code_simp
  then have "list_all lifecycle_ok [run_lifecycle 1500 StatusApproved 3]" by (simp add: lifecycle_validate_None)
  then show "consistent decided_db [run_lifecycle 1500 StatusApproved 3]"
    by (intro run_consistent decided_reachable decided_tables)
  show "reference_scan transfer_id = Some (l_id (run_lifecycle 1500 StatusApproved 3))"
    using reference.scan_canonical [OF run_constants(5)] by simp
qed simp

theorem overtaken_assessment_stops_witness:
  "\<exists>payload. run_reachable decided_db \<and> ParseEnvelope payload = Inr review_event \<and>
     transaction_consume reference_scan id Inr (\<lambda>_. []) [PollFetched [broken_delivery\<lparr>dl_record := broken_record\<lparr>kr_Value := payload\<rparr>\<rparr>]]
       \<lparr>cs_db = decided_db, cs_committed = []\<rparr> =
     (ConsumeFailed [E TransferRepository ErrStateConflict], \<lparr>cs_db = decided_db, cs_committed = []\<rparr>)"
proof -
  obtain payload where p: "ParseEnvelope payload = Inr review_event" by (rule review_event_delivered)
  have "(transaction_consumerName, en_eventID review_event) \<notin> reserved decided_db"
    by (simp add: reserved_def decided_tables new_inbox_row_def risk_consumerName_def transaction_consumerName_def)
  moreover have "l_version (run_lifecycle 1500 StatusApproved 3) \<noteq> dr_aggregateVersion (en_draft review_event)"
    by (simp add: review_event_def transfer_draft_def)
  ultimately show ?thesis
    using p overtaken_assessment_stops [of "broken_delivery\<lparr>dl_record := broken_record\<lparr>kr_Value := payload\<rparr>\<rparr>" review_event,
        OF _ review_event_parsed, of reference_scan "\<lparr>cs_db = decided_db, cs_committed = []\<rparr>" "run_lifecycle 1500 StatusApproved 3" id Inr
          "\<lambda>_. []" "[]" "[]"] decided_lifecycle decided_reachable
    by (auto simp: broken_delivery_def)
qed

end
