(* ===== verification/Creation_Properties.thy ===== *)
theory Creation_Properties
  imports Worker_Properties
begin

text \<open>
  What creating a transfer does to a reachable database: nothing, and then a success is the replay of a stored
  transfer with the same key and intent; or the whole effect of a new, authorized transfer under an unused key.
\<close>

section \<open>New transfers\<close>

text \<open>
  The requester owns the source account, and both accounts are active customer accounts in the transfer's currency.
\<close>

definition usable :: "string \<Rightarrow> account_row \<Rightarrow> bool" where
  "usable code a \<longleftrightarrow> a_status a = ''active'' \<and> a_account_type a = ''customer'' \<and> a_currency a = code"

definition authorized :: "database \<Rightarrow> Transfer \<Rightarrow> bool" where
  "authorized db t \<longleftrightarrow>
     (let code = currency_String (currency (t_amount t)) in
      (\<exists>a \<in> set (accounts db). \<exists>w \<in> set (wallets db). a_id a = t_sourceAccountID t \<and> w_id w = a_wallet_id a \<and>
         w_owner_id w = t_requesterID t \<and> usable code a) \<and>
      (\<exists>a \<in> set (accounts db). a_id a = t_destinationAccountID t \<and> usable code a))"

lemma authorize_authorized:
  assumes "fst (authorizeTransferAccounts t a b db) = Inr ()"
  shows "authorized db t"
proof -
  let ?m = "map_of (rev (map (\<lambda>record. (ar_id record, record)) (transfer_accountsQuery [a, b] db)))"
  let ?code = "currency_String (currency (t_amount t))"
  from assms obtain s d where r: "?m (t_sourceAccountID t) = Some s" "ar_ownerID s = t_requesterID t"
    "?m (t_destinationAccountID t) = Some d" "check_records ?code [s, d] = Inr ()"
    by (auto simp: authorizeTransferAccounts_def tx_read_def Let_def simp del: check_records.simps
        split: option.splits if_splits)
  have u: "ar_status x = ''active'' \<and> ar_accountType x = ''customer'' \<and> ar_currency x = ?code" if "x \<in> {s, d}" for x
    using r(4) that unfolding check_records_Inr by auto
  obtain x w where "x \<in> set (accounts db)" "w \<in> set (wallets db)" "a_id x = t_sourceAccountID t" "w_id w = a_wallet_id x"
    "s = \<lparr>ar_id = t_sourceAccountID t, ar_ownerID = w_owner_id w, ar_status = a_status x, ar_accountType = a_account_type x,
      ar_currency = a_currency x\<rparr>" by (rule accountsQuery_record [OF r(1)])
  moreover obtain y where "y \<in> set (accounts db)" "a_id y = t_destinationAccountID t" "ar_status d = a_status y"
    "ar_accountType d = a_account_type y" "ar_currency d = a_currency y" by (rule accountsQuery_record [OF r(3)]) simp
  ultimately show ?thesis
    using u [of s] u [of d] r(2) unfolding authorized_def usable_def Let_def by force
qed

lemma progress_append:
  assumes "transfers db' = transfers db @ [lifecycle_row l]" "l_id l \<notin> tr_id ` set (transfers db)" "l_status l \<noteq> StatusUnknown"
  shows "progress db' = (progress db)(l_id l \<mapsto> (l_status l, sint (l_version l)))" "progress db (l_id l) = None"
proof -
  show n: "progress db (l_id l) = None"
    using assms(2) by (simp add: progress_def map_of_eq_None_iff image_image)
  show "progress db' = (progress db)(l_id l \<mapsto> (l_status l, sint (l_version l)))"
    using n lifecycleStatus_String [OF assms(3)]
    by (auto simp: progress_def assms(1) map_add_def fun_eq_iff split: option.splits)
qed

lemma new_events:
  assumes "consistent db ls" "i \<notin> l_id ` set ls" "outbox_events db' = outbox_events db @ [row]" "o_aggregate_id row = i"
  shows "events_of db' i = [event_of row]"
proof -
  have "events_of db i = []" using consistentD(6) [OF assms(1)] assms(2) by (auto simp: events_of_def filter_empty_conv)
  with events_of_append [OF assms(3), of i] assms(4) show ?thesis by simp
qed

section \<open>Acceptance\<close>

context uuid_scanner
begin

lemma CreatePending_effect:
  assumes "CreatePending scan store jsonb ctx attempts l db = (r, db')"
  shows "db' = db \<and> (\<forall>x. r \<noteq> Inr x) \<or>
    (\<exists>p x eventID sequence seen. preparePendingTransfer scan l = Inr p \<and> (\<forall>y. r = Inr y \<longrightarrow> y = x) \<and>
      pending_body store jsonb eventID sequence seen p db = (Inr x, db'))"
proof (cases r)
  case (Inr x)
  with assms show ?thesis by (metis CreatePending_Inr sum.inject(2))
next
  case (Inl e)
  with assms show ?thesis by (metis CreatePending_Inl sum.distinct(1))
qed

lemma Create_effect:
  assumes "Create scan store jsonb ctx attempts t db = (r, db')"
  shows "db' = db \<and> (\<forall>x. r \<noteq> Inr x) \<or>
    (\<exists>p x eventID sequence seen. prepareTransfer scan t = Inr p \<and> (\<forall>y. r = Inr y \<longrightarrow> y = x) \<and>
      create_body scan store jsonb eventID sequence seen p db = (Inr x, db'))"
proof (cases r)
  case (Inr x)
  with assms show ?thesis by (metis Create_Inr sum.inject(2))
next
  case (Inl e)
  with assms show ?thesis by (metis Create_Inl sum.distinct(1))
qed

lemma pending_lifecycle:
  assumes "preparePendingTransfer scan l = Inr p"
  shows "l_status (pp_lifecycle p) = StatusPendingRisk" "l_version (pp_lifecycle p) = 1"
    "l_transfer (pp_lifecycle p) = l_transfer l"
  using preparePendingTransfer_Inr [OF assms] preparePendingTransfer_transfer [OF assms]
  by (auto simp: lifecycle_ok_def int64_eq_iff)

end

text \<open>
  C7: A request is accepted at most once and only when it is authorized. From a reachable database \<open>CreatePending\<close>
  changes nothing, and if it succeeds then, it returns the stored lifecycle of the same requester and idempotency key,
  which has the same accounts and amount; or it accepts the request: the key was unused, the requester owns the source
  account, both accounts are active customer accounts in the currency, the transfer is stored as pending with
  version 1, its request is announced as its first event, and no balance changes. Reachable means reachable by \<open>system_step\<close>, that is, with callers that keep the
  identifiers of transfers and of other journal entries apart.
\<close>

theorem acceptance_exact:
  assumes "uuid_scanner scan" "reachable system_init (system_step scan store jsonb) db"
    "CreatePending scan store jsonb ctx attempts l db = (r, db')"
  shows "db' = db \<and> (\<forall>x. r = Inr x \<longrightarrow> LoadLifecycleForUpdateTx scan (l_id x) db = (Inr x, db) \<and>
      l_key x = l_key l \<and> sameIntent (l_transfer x) (l_transfer l)) \<or>
    l_key l \<notin> transfer_key ` set (transfers db) \<and> authorized db (l_transfer l) \<and> progress db (l_id l) = None \<and>
      progress db' = (progress db)(l_id l \<mapsto> (StatusPendingRisk, 1)) \<and>
      events_of db' (l_id l) = [(RequestedType, 1)] \<and> balances db' = balances db \<and>
      (\<forall>x. r = Inr x \<longrightarrow> l_transfer x = l_transfer l \<and> l_status x = StatusPendingRisk \<and> l_version x = 1)"
proof -
  from uuid_scanner.reachable_consistent [OF assms(1,2)] obtain ls where c: "consistent db ls" .
  note st = consistentD(1) [OF c]
  from uuid_scanner.CreatePending_effect [OF assms(1,3)] show ?thesis
  proof (elim disjE exE conjE)
    fix p x eventID sequence seen
    assume p: "preparePendingTransfer scan l = Inr p" and r: "\<forall>y. r = Inr y \<longrightarrow> y = x"
      and b: "pending_body store jsonb eventID sequence seen p db = (Inr x, db')"
    note l = uuid_scanner.pending_lifecycle [OF assms(1) p]
    from uuid_scanner.pending_body_effect [OF assms(1) st p b] show ?thesis
    proof (elim disjE exE conjE)
      assume "db' = db" "x \<in> set ls" "l_key x = l_key (pp_lifecycle p)" "sameIntent (l_transfer x) (l_transfer (pp_lifecycle p))"
      with r l uuid_scanner.Load_own [OF assms(1) c] show ?thesis by auto
    next
      fix row
      assume x: "x = pp_lifecycle p" "l_id x \<notin> l_id ` set ls" "l_key x \<notin> l_key ` set ls"
        "fst (authorizePendingAccounts p db) = Inr ()"
        and row: "o_aggregate_id row = l_id x" "event_of row = (RequestedType, 1)"
        and db': "db' = db\<lparr>transfers := transfers db @ [lifecycle_row (recorded_lifecycle store x)],
          outbox_events := outbox_events db @ [row]\<rparr>"
      have "authorized db (l_transfer l)"
        using authorize_authorized [of "l_transfer (pp_lifecycle p)"] x(4) l(3) by (simp add: authorizePendingAccounts_def)
      moreover have "progress db' = (progress db)(l_id l \<mapsto> (StatusPendingRisk, 1))" "progress db (l_id l) = None"
        using progress_append [of db' db "recorded_lifecycle store x"] x(1,2) l db' transfer_ids [OF st] by simp_all
      moreover have "events_of db' (l_id l) = [(RequestedType, 1)]"
        using new_events [OF c x(2), of db' row] row x(1) l(3) by (simp add: db')
      moreover have "l_key l \<notin> transfer_key ` set (transfers db)" using x(1,3) l(3) transfer_keys [OF st] by simp
      moreover have "balances db' = balances db" by (simp add: db' balances_def)
      ultimately show ?thesis using r x(1) l by (intro disjI2) auto
    qed
  qed auto
qed

theorem acceptance_exact_witness:
  "progress (pending_db 500) transfer_id = Some (StatusPendingRisk, 1) \<and> snd (run_accept 500 (pending_db 500)) = pending_db 500"
proof -
  let ?l = "run_lifecycle 500 StatusPendingRisk 1"
  have run: "run_accept 500 funded_db = (Inr ?l, pending_db 500)" by (rule pending_run [of 500]) simp_all
  obtain row where "pending_db 500 = funded_db\<lparr>transfers := map lifecycle_row [?l], outbox_events := [row]\<rparr>"
    by (rule pending_run [of 500]) simp_all
  then have "transfers (pending_db 500) = [lifecycle_row ?l]" by simp
  moreover have "transfer_key (lifecycle_row ?l) = l_key ?l" by (simp add: transfer_key_def)
  ultimately have used: "l_key ?l \<in> transfer_key ` set (transfers (pending_db 500))" and new: "pending_db 500 \<noteq> funded_db"
    using funded_db_empty(1) by auto
  have "run_reachable (pending_db 500)" by (rule pending_reachable) simp
  note again = acceptance_exact [OF reference_scanner this, where ctx = "\<lambda>_. None" and attempts = run_attempts and l = ?l]
  have "snd (run_accept 500 (pending_db 500)) = pending_db 500"
    using again used unfolding run_accept_def by (metis surjective_pairing)
  moreover have "progress (pending_db 500) transfer_id = Some (StatusPendingRisk, 1)"
    using acceptance_exact [OF reference_scanner funded_reachable run [unfolded run_accept_def]] new by simp
  ultimately show ?thesis by simp
qed

section \<open>Direct transfers\<close>

lemma prepareTransfer_validated:
  "prepareTransfer scan t = Inr p \<Longrightarrow> NewTransfer (transfer_params t) = Inr (pt_transfer p)"
  by (auto simp: prepareTransfer_def transfer_params_def result_simps)

context uuid_scanner
begin

lemma direct_posting:
  assumes "prepareTransfer scan t = Inr p" "prepareEntry scan (pt_entry p) = Inr q" "affordable db (pe_changes q)"
  shows "funded db (pt_transfer p)" "balances (posted_db store q db) = map (moved (pt_transfer p)) (account_balances db)"
proof -
  note pt = prepareTransfer_Inr [OF assms(1)]
  have "\<not> IsZero (t_requestedAt (pt_transfer p))" using pt(1) by (simp add: transfer_ok_def)
  then obtain q' where "prepareEntry scan (pt_entry p) = Inr q'" "set (pe_changes q') = transfer_changes (pt_transfer p)"
    unfolding pt(6) by (rule prepareEntry_transfer [OF pt(1)])
  with assms(2) have ch: "set (pe_changes q) = transfer_changes (pt_transfer p)" by simp
  show "funded db (pt_transfer p)" using funded_iff [OF ch] assms(3) by simp
  show "balances (posted_db store q db) = map (moved (pt_transfer p)) (account_balances db)"
    using balances_posted [OF prepareEntry_ok [OF assms(2)] ch] pt(1) by (simp add: transfer_ok_def)
qed

end

text \<open>
  C6: A direct transfer happens at most once and completely. From a reachable database \<open>Create\<close> changes nothing, and
  if it succeeds then, it returns the intent of the stored transfer of the same requester and idempotency key, which has
  the same accounts and amount; or it executes the validated request: the key was unused, the request is authorized,
  the accounts can take the movement, exactly the amount moves, the transfer is stored as completed with version 1,
  and its completion is announced as its only event. Reachable means reachable by \<open>system_step\<close>, that is, with callers that keep the
  identifiers of transfers and of other journal entries apart.
\<close>

theorem direct_exact:
  assumes "uuid_scanner scan" "reachable system_init (system_step scan store jsonb) db"
    "Create scan store jsonb ctx attempts t db = (r, db')"
  shows "db' = db \<and> (\<forall>x. r = Inr x \<longrightarrow>
      (\<exists>cur u. LoadLifecycleForUpdateTx scan (l_id cur) db = (Inr cur, db) \<and> l_transfer cur = x \<and>
        NewTransfer (transfer_params t) = Inr u \<and> l_key cur = (t_requesterID u, t_idempotencyKey u) \<and> sameIntent x u)) \<or>
    (\<exists>u. NewTransfer (transfer_params t) = Inr u \<and> (\<forall>x. r = Inr x \<longrightarrow> x = u) \<and>
      (t_requesterID u, t_idempotencyKey u) \<notin> transfer_key ` set (transfers db) \<and> authorized db u \<and> funded db u \<and>
      progress db (t_id u) = None \<and> progress db' = (progress db)(t_id u \<mapsto> (StatusCompleted, 1)) \<and>
      balances db' = map (moved u) (account_balances db) \<and> posted_of db' (t_id u) = movements u \<and>
      events_of db' (t_id u) = [(CompletedType, 1)])"
proof -
  from uuid_scanner.reachable_consistent [OF assms(1,2)] obtain ls where c: "consistent db ls" .
  note st = consistentD(1,2) [OF c]
  from uuid_scanner.Create_effect [OF assms(1,3)] show ?thesis
  proof (elim disjE exE conjE)
    fix p x eventID sequence seen
    assume p: "prepareTransfer scan t = Inr p" and r: "\<forall>y. r = Inr y \<longrightarrow> y = x"
      and b: "create_body scan store jsonb eventID sequence seen p db = (Inr x, db')"
    note pt = uuid_scanner.prepareTransfer_Inr [OF assms(1) p]
    note u = prepareTransfer_validated [OF p]
    from uuid_scanner.create_body_effect [OF assms(1) st p b] show ?thesis
    proof (elim disjE bexE exE conjE)
      fix l
      assume "db' = db" "l \<in> set ls" "x = l_transfer l" "l_key l = (t_requesterID (pt_transfer p), t_idempotencyKey (pt_transfer p))"
        "sameIntent x (pt_transfer p)"
      with r u uuid_scanner.Load_own [OF assms(1) c, of l] show ?thesis by (intro disjI1 conjI allI impI exI [of _ l]) auto
    next
      fix row q
      assume x: "x = pt_transfer p" "t_id x \<notin> l_id ` set ls" "(t_requesterID x, t_idempotencyKey x) \<notin> l_key ` set ls"
        "fst (authorizeAccounts p db) = Inr ()"
        and row: "o_aggregate_id row = t_id x" "event_of row = (CompletedType, 1)"
        and q: "prepareEntry scan (pt_entry p) = Inr q" "affordable db (pe_changes q)"
        and db': "db' = (posted_db store q db)\<lparr>
          transfers := transfers db @ [lifecycle_row (completed_lifecycle (recorded store x))],
          outbox_events := outbox_events db @ [row]\<rparr>" "posted_of db' (t_id x) = movements x"
      have "authorized db x" using authorize_authorized [of "pt_transfer p"] x(1,4) by (simp add: authorizeAccounts_def)
      moreover have "progress db' = (progress db)(t_id x \<mapsto> (StatusCompleted, 1))" "progress db (t_id x) = None"
        using progress_append [of db' db "completed_lifecycle (recorded store x)"] x(2) db'(1) transfer_ids [OF st(1)] by simp_all
      moreover have "events_of db' (t_id x) = [(CompletedType, 1)]"
        using new_events [OF c x(2), of db' row] row by (simp add: db'(1) posted_db_def)
      moreover have "(t_requesterID x, t_idempotencyKey x) \<notin> transfer_key ` set (transfers db)"
        using x(3) transfer_keys [OF st(1)] by simp
      moreover have "funded db x" "balances db' = map (moved x) (account_balances db)"
        using uuid_scanner.direct_posting [OF assms(1) p q] x(1) by (simp_all add: db'(1))
      ultimately show ?thesis using r x(1) u db'(2) by (intro disjI2 exI [of _ x]) auto
    qed
  qed auto
qed

text \<open>A direct request under the key of a transfer that is still pending is answered with that transfer, unexecuted.\<close>

theorem direct_exact_witness:
  "snd (Create reference_scan id Inr (\<lambda>_. None) run_attempts (run_transfer 500) (pending_db 500)) = pending_db 500"
proof -
  let ?l = "run_lifecycle 500 StatusPendingRisk 1"
  obtain row where "pending_db 500 = funded_db\<lparr>transfers := map lifecycle_row [?l], outbox_events := [row]\<rparr>"
    by (rule pending_run [of 500]) simp_all
  then have "transfers (pending_db 500) = [lifecycle_row ?l]" by simp
  moreover have "transfer_key (lifecycle_row ?l) = l_key ?l" by (simp add: transfer_key_def)
  ultimately have used: "l_key ?l \<in> transfer_key ` set (transfers (pending_db 500))" by simp
  have "transfer_ok (run_transfer 500)" using run_ok [of 500] by (simp add: lifecycle_ok_def)
  from NewTransfer_params [OF this] have v: "NewTransfer (transfer_params (run_transfer 500)) = Inr (run_transfer 500)" .
  have "run_reachable (pending_db 500)" by (rule pending_reachable) simp
  from direct_exact [OF reference_scanner this surjective_pairing, where ctx = "\<lambda>_. None" and attempts = run_attempts
      and t = "run_transfer 500"] v used show ?thesis by auto
qed

end
