(* ===== verification/Rate_Limiter.thy ===== *)
theory Rate_Limiter
  imports Results "HOL-Library.AList"
begin

text \<open>
  The limiter of analyst commands (\<open>internal/adapter/http/reviewdecision/ratelimit.go\<close>): one token bucket per
  verified subject, forgotten when idle, with a bound on the number of subjects.

  The buckets are those of \<open>golang.org/x/time/rate\<close>, which is not in the repository: \<open>newLimiter rate burst\<close> and
  \<open>allowN limiter now\<close> are arguments, the rate being given per minute. \<open>order\<close> is the order in which the runtime
  iterates over the map of entries. The mutex makes each call one step; since a call reads the clock before it takes
  the mutex, the calls of a run may carry their times out of order.
\<close>

section \<open>The code\<close>

definition maxRateLimitPerMinute :: int64 where "maxRateLimitPerMinute = 600"
definition maxTrackedPrincipals :: nat where "maxTrackedPrincipals = 10000"
definition principalIdleTTL :: int where "principalIdleTTL = 15 * 60 * 1000000000"

record 'b rateLimitEntry =
  re_limiter :: 'b
  re_lastSeen :: gotime

record 'b rateLimiter =
  rl_rate :: int64
  rl_burst :: int64
  rl_entries :: "(string \<times> 'b rateLimitEntry) list"
  rl_nextGC :: gotime

definition NewPrincipalRateLimiter :: "int64 \<Rightarrow> 'b rateLimiter result" where
  "NewPrincipalRateLimiter perMinute =
     (if perMinute <s 1 \<or> maxRateLimitPerMinute <s perMinute then fail ReviewDecision ErrInvalidRateLimit
      else Inr \<lparr>rl_rate = perMinute, rl_burst = (if perMinute = 1 then 1 else 2), rl_entries = [], rl_nextGC = 0\<rparr>)"

definition removeIdle :: "gotime \<Rightarrow> (string \<times> 'b rateLimitEntry) list \<Rightarrow> (string \<times> 'b rateLimitEntry) list" where
  "removeIdle now entries = filter (\<lambda>(subject, entry). \<not> principalIdleTTL \<le> now - re_lastSeen entry) entries"

fun oldest_of :: "(string \<times> 'b rateLimitEntry) list \<Rightarrow> string list \<Rightarrow> string \<Rightarrow> gotime \<Rightarrow> string" where
  "oldest_of entries [] oldestSubject oldestSeen = oldestSubject"
| "oldest_of entries (subject # order) oldestSubject oldestSeen =
     (case map_of entries subject of
        None \<Rightarrow> oldest_of entries order oldestSubject oldestSeen
      | Some entry \<Rightarrow>
          if oldestSubject = [] \<or> re_lastSeen entry < oldestSeen
          then oldest_of entries order subject (re_lastSeen entry)
          else oldest_of entries order oldestSubject oldestSeen)"

definition removeOldest :: "string list \<Rightarrow> (string \<times> 'b rateLimitEntry) list \<Rightarrow> (string \<times> 'b rateLimitEntry) list" where
  "removeOldest order entries = AList.delete (oldest_of entries order [] 0) entries"

definition collected :: "gotime \<Rightarrow> 'b rateLimiter \<Rightarrow> 'b rateLimiter" where
  "collected now l =
     (if \<not> now < rl_nextGC l
      then l\<lparr>rl_entries := removeIdle now (rl_entries l), rl_nextGC := now + principalIdleTTL\<rparr>
      else l)"

definition Allow ::
  "(int64 \<Rightarrow> int64 \<Rightarrow> 'b) \<Rightarrow> ('b \<Rightarrow> gotime \<Rightarrow> bool \<times> 'b) \<Rightarrow> gotime \<Rightarrow> string list \<Rightarrow> string \<Rightarrow> 'b rateLimiter
     \<Rightarrow> bool \<times> 'b rateLimiter" where
  "Allow newLimiter allowN now order subject l =
     (if subject = [] then (False, l)
      else
        let l = collected now l in
        case (case map_of (rl_entries l) subject of
                Some entry \<Rightarrow> (rl_entries l, re_limiter entry)
              | None \<Rightarrow>
                  (if length (rl_entries l) = maxTrackedPrincipals then removeOldest order (rl_entries l) else rl_entries l,
                   newLimiter (rl_rate l) (rl_burst l))) of
          (entries, limiter) \<Rightarrow>
            (case allowN limiter now of
               (ok, limiter) \<Rightarrow>
                 (ok, l\<lparr>rl_entries := AList.update subject \<lparr>re_limiter = limiter, re_lastSeen = now\<rparr> entries\<rparr>)))"

record rate_call =
  ca_now :: gotime
  ca_order :: "string list"
  ca_subject :: string

fun run_limiter ::
  "(int64 \<Rightarrow> int64 \<Rightarrow> 'b) \<Rightarrow> ('b \<Rightarrow> gotime \<Rightarrow> bool \<times> 'b) \<Rightarrow> rate_call list \<Rightarrow> 'b rateLimiter
     \<Rightarrow> bool list \<times> 'b rateLimiter" where
  "run_limiter newLimiter allowN [] l = ([], l)"
| "run_limiter newLimiter allowN (c # cs) l =
     (case Allow newLimiter allowN (ca_now c) (ca_order c) (ca_subject c) l of
        (ok, l') \<Rightarrow> (case run_limiter newLimiter allowN cs l' of (oks, l'') \<Rightarrow> (ok # oks, l'')))"

section \<open>The bound on tracked subjects\<close>

definition limiter_inv :: "'b rateLimiter \<Rightarrow> bool" where
  "limiter_inv l \<longleftrightarrow> distinct (map fst (rl_entries l)) \<and> [] \<notin> fst ` set (rl_entries l) \<and>
     length (rl_entries l) \<le> maxTrackedPrincipals"

lemma removeIdle_keys:
  "distinct (map fst es) \<Longrightarrow> distinct (map fst (removeIdle now es))" "fst ` set (removeIdle now es) \<subseteq> fst ` set es"
  "length (removeIdle now es) \<le> length es"
  by (auto simp: removeIdle_def distinct_map_filter)

lemma oldest_of_key:
  assumes "[] \<notin> fst ` set es" "oldest = [] \<or> oldest \<in> fst ` set es" "oldest \<noteq> [] \<or> (\<exists>s \<in> set order. s \<in> fst ` set es)"
  shows "oldest_of es order oldest seen \<in> fst ` set es"
  using assms(2,3)
proof (induction order arbitrary: oldest seen)
  case (Cons s order)
  show ?case
  proof (cases "map_of es s")
    case None
    then have "s \<notin> fst ` set es" by (simp add: map_of_eq_None_iff)
    with Cons None show ?thesis by auto
  next
    case (Some e)
    then have "s \<in> fst ` set es" using map_of_SomeD by force
    moreover from this have "s \<noteq> []" using assms(1) by metis
    ultimately show ?thesis using Cons.IH Cons.prems(1) Some by auto
  qed
qed auto

lemma removeOldest_shrinks:
  assumes "[] \<notin> fst ` set es" "es \<noteq> []" "set order = fst ` set es"
  shows "length (removeOldest order es) < length es"
proof -
  have "oldest_of es order [] 0 \<in> fst ` set es"
    using assms by (intro oldest_of_key) (auto simp: neq_Nil_conv)
  then have "filter (\<lambda>(k', _). oldest_of es order [] 0 \<noteq> k') es \<noteq> es"
    by (auto simp: filter_id_conv)
  then show ?thesis
    unfolding removeOldest_def AList.delete_eq using length_filter_le by (metis (no_types, lifting) le_neq_implies_less length_filter_less filter_id_conv)
qed

lemma removeOldest_keys:
  "distinct (map fst es) \<Longrightarrow> distinct (map fst (removeOldest order es))"
  "fst ` set (removeOldest order es) \<subseteq> fst ` set es"
  by (auto simp: removeOldest_def AList.delete_eq distinct_map_filter)

lemma collected_sels [simp]: "rl_rate (collected now l) = rl_rate l" "rl_burst (collected now l) = rl_burst l"
  by (simp_all add: collected_def)

lemma collected_inv: "limiter_inv l \<Longrightarrow> limiter_inv (collected now l)"
  using removeIdle_keys [where es = "rl_entries l" and now = now] by (auto simp: limiter_inv_def collected_def)

lemma length_update: "k \<in> fst ` set es \<Longrightarrow> length (AList.update k v es) = length es"
  "k \<notin> fst ` set es \<Longrightarrow> length (AList.update k v es) = Suc (length es)"
  by (induction es) auto

lemma fst_update: "fst ` set (AList.update k v es) = insert k (fst ` set es)"
  using AList.dom_update [of k v es] by (simp add: AList.dom_update dom_map_of_conv_image_fst)

lemma Allow_inv:
  assumes "limiter_inv l" "Allow newLimiter allowN now order subject l = (ok, l')"
    "set order = fst ` set (rl_entries (collected now l))"
  shows "limiter_inv l'"
proof (cases "subject = []")
  case False
  let ?es = "rl_entries (collected now l)"
  have c: "distinct (map fst ?es)" "[] \<notin> fst ` set ?es" "length ?es \<le> maxTrackedPrincipals"
    using collected_inv [OF assms(1)] by (auto simp: limiter_inv_def)
  obtain es b where es: "rl_entries l' = AList.update subject b es"
    "es = ?es \<and> subject \<in> fst ` set ?es \<or> subject \<notin> fst ` set ?es \<and>
      es = (if length ?es = maxTrackedPrincipals then removeOldest order ?es else ?es)"
  proof (cases "map_of ?es subject")
    case None
    with assms(2) False that show thesis
      by (auto simp: Allow_def Let_def map_of_eq_None_iff split: prod.splits)
  next
    case (Some e)
    then have "subject \<in> fst ` set ?es" by (metis map_of_eq_None_iff option.distinct(1))
    with Some assms(2) False that show thesis by (auto simp: Allow_def Let_def split: prod.splits)
  qed
  have "length (AList.update subject b es) \<le> maxTrackedPrincipals"
    using es(2)
  proof (elim disjE conjE)
    assume n: "subject \<notin> fst ` set ?es" and e: "es = (if length ?es = maxTrackedPrincipals then removeOldest order ?es else ?es)"
    have "?es \<noteq> []" if "length ?es = maxTrackedPrincipals" using that by (auto simp: maxTrackedPrincipals_def)
    then have "length es < maxTrackedPrincipals"
      using removeOldest_shrinks [OF c(2) _ assms(3)] c(3) e by (auto split: if_splits)
    moreover have "subject \<notin> fst ` set es" using n e removeOldest_keys(2) [where es = ?es and order = order] by (auto split: if_splits)
    ultimately show ?thesis by (simp add: length_update)
  qed (use c in \<open>simp add: length_update\<close>)
  moreover have "distinct (map fst es)" "fst ` set es \<subseteq> fst ` set ?es"
    using es(2) c(1) removeOldest_keys [where es = ?es and order = order] by (auto split: if_splits)
  ultimately show ?thesis
    using c(2) False by (auto simp: limiter_inv_def es(1) fst_update AList.distinct_update)
qed (use assms in \<open>simp add: Allow_def\<close>)

section \<open>Each subject has its own bucket\<close>

fun bucket_run :: "('b \<Rightarrow> gotime \<Rightarrow> bool \<times> 'b) \<Rightarrow> 'b \<Rightarrow> gotime list \<Rightarrow> bool list" where
  "bucket_run allowN b [] = []"
| "bucket_run allowN b (t # ts) = (case allowN b t of (ok, b') \<Rightarrow> ok # bucket_run allowN b' ts)"

text \<open>
  The states of a bucket whose last call carried the time \<open>t\<close>. Concurrent calls read the clock before they get the
  mutex, so a call may carry a time before that of an earlier one, by at most \<open>skew\<close>.
\<close>

inductive used_at :: "int \<Rightarrow> 'b \<Rightarrow> ('b \<Rightarrow> gotime \<Rightarrow> bool \<times> 'b) \<Rightarrow> 'b \<Rightarrow> gotime \<Rightarrow> gotime \<Rightarrow> bool" for skew fresh allowN where
  first: "used_at skew fresh allowN (snd (allowN fresh t)) t t"
| again: "used_at skew fresh allowN b t hi \<Longrightarrow> hi \<le> t' + skew \<Longrightarrow> used_at skew fresh allowN (snd (allowN b t')) t' (max hi t')"

text \<open>
  What the limiter relies on: a bucket that was left alone for almost the idle time (less the skew of the clock
  readings) is full again, so it answers as a new one. At the rates and bursts that \<open>NewPrincipalRateLimiter\<close> admits a
  bucket is full after two minutes.
\<close>

locale token_bucket =
  fixes skew :: int and fresh :: 'b and allowN :: "'b \<Rightarrow> gotime \<Rightarrow> bool \<times> 'b"
  assumes skew_nonneg: "0 \<le> skew"
    and refilled: "used_at skew fresh allowN b t hi \<Longrightarrow> hi \<le> now + skew \<Longrightarrow> principalIdleTTL - skew \<le> now - t \<Longrightarrow>
      allowN b now = allowN fresh now"
begin

text \<open>\<open>latest\<close> is the latest time that any call so far has carried.\<close>

definition tracks :: "'b rateLimiter \<Rightarrow> string \<Rightarrow> 'b \<Rightarrow> gotime \<Rightarrow> bool" where
  "tracks l s b latest \<longleftrightarrow>
     (case map_of (rl_entries l) s of
        Some e \<Rightarrow> re_limiter e = b \<and> (\<exists>hi \<le> latest. used_at skew fresh allowN b (re_lastSeen e) hi)
      | None \<Rightarrow> b = fresh \<or> (\<exists>t. \<exists>hi \<le> latest. used_at skew fresh allowN b t hi \<and> principalIdleTTL \<le> latest - t))"

lemma map_of_removeIdle:
  "distinct (map fst es) \<Longrightarrow>
     map_of (removeIdle now es) s =
       (case map_of es s of Some e \<Rightarrow> if principalIdleTTL \<le> now - re_lastSeen e then None else Some e | None \<Rightarrow> None)"
  by (induction es) (auto simp: removeIdle_def map_of_eq_None_iff split: option.splits)

lemma tracks_forgotten:
  "map_of (rl_entries l) s = None \<Longrightarrow> used_at skew fresh allowN b u hi \<Longrightarrow> hi \<le> latest \<Longrightarrow> principalIdleTTL \<le> latest - u \<Longrightarrow>
     tracks l s b latest"
  unfolding tracks_def by auto

lemma tracks_mono: "tracks l s b t \<Longrightarrow> t \<le> t' \<Longrightarrow> tracks l s b t'"
proof (cases "map_of (rl_entries l) s")
  case None
  assume a: "tracks l s b t" "t \<le> t'"
  show ?thesis
  proof (cases "b = fresh")
    case False
    with a None obtain u hi where "hi \<le> t" "used_at skew fresh allowN b u hi" "principalIdleTTL \<le> t - u" by (auto simp: tracks_def)
    with a(2) show ?thesis by (intro tracks_forgotten [OF None, of b u hi]) simp_all
  qed (simp add: tracks_def None)
qed (use order_trans in \<open>fastforce simp: tracks_def\<close>)

lemma tracks_collected:
  assumes "tracks l s b latest" "now \<le> latest" "distinct (map fst (rl_entries l))"
  shows "tracks (collected now l) s b latest"
proof (cases "map_of (rl_entries l) s")
  case None
  then have "map_of (rl_entries (collected now l)) s = None" by (simp add: collected_def map_of_removeIdle [OF assms(3)])
  with None assms(1) show ?thesis by (simp add: tracks_def)
next
  case (Some e)
  then obtain hi where e: "re_limiter e = b" "hi \<le> latest" "used_at skew fresh allowN b (re_lastSeen e) hi"
    using assms(1) by (auto simp: tracks_def)
  have "map_of (rl_entries (collected now l)) s = Some e \<or>
      map_of (rl_entries (collected now l)) s = None \<and> principalIdleTTL \<le> now - re_lastSeen e"
    using Some by (simp add: collected_def map_of_removeIdle [OF assms(3)])
  then show ?thesis
  proof (elim disjE conjE)
    assume n: "map_of (rl_entries (collected now l)) s = None" "principalIdleTTL \<le> now - re_lastSeen e"
    with e assms(2) show ?thesis by (intro tracks_forgotten [OF n(1), of b "re_lastSeen e" hi]) simp_all
  qed (use e in \<open>auto simp: tracks_def\<close>)
qed

text \<open>One call, while there is room for every subject.\<close>

lemma Allow_tracks:
  assumes "tracks l s b t" "t \<le> now + skew" "distinct (map fst (rl_entries l))" "newLimiter (rl_rate l) (rl_burst l) = fresh"
    and "subject \<noteq> []" "s \<noteq> []" "subject \<in> fst ` set (rl_entries (collected now l)) \<or>
      length (rl_entries (collected now l)) \<noteq> maxTrackedPrincipals"
    and "Allow newLimiter allowN now order subject l = (ok, l')"
  shows "if subject = s then ok = fst (allowN b now) \<and> tracks l' s (snd (allowN b now)) (max t now) else tracks l' s b (max t now)"
    and "rl_rate l' = rl_rate l \<and> rl_burst l' = rl_burst l"
    and "fst ` set (rl_entries l') \<subseteq> insert subject (fst ` set (rl_entries l))" "distinct (map fst (rl_entries l'))"
proof -
  let ?l = "collected now l"
  have c: "tracks ?l s b (max t now)"
    by (rule tracks_collected [OF tracks_mono [OF assms(1)] _ assms(3)]) simp_all
  have latest: "max t now \<le> now + skew" using assms(2) skew_nonneg by simp
  have d: "distinct (map fst (rl_entries ?l))" "fst ` set (rl_entries ?l) \<subseteq> fst ` set (rl_entries l)"
    using removeIdle_keys [where es = "rl_entries l" and now = now] assms(3) by (auto simp: collected_def)
  define x where "x = (case map_of (rl_entries ?l) subject of Some e \<Rightarrow> re_limiter e | None \<Rightarrow> fresh)"
  have room: "length (rl_entries ?l) \<noteq> maxTrackedPrincipals" if "map_of (rl_entries ?l) subject = None"
    using that assms(7) by (auto simp: map_of_eq_None_iff)
  have a: "ok = fst (allowN x now)"
    "l' = ?l\<lparr>rl_entries := AList.update subject \<lparr>re_limiter = snd (allowN x now), re_lastSeen = now\<rparr> (rl_entries ?l)\<rparr>"
    using assms(4,5,8) room by (auto simp: Allow_def Let_def x_def split: option.splits prod.splits)
  have m: "map_of (rl_entries l') s =
      (if subject = s then Some \<lparr>re_limiter = snd (allowN x now), re_lastSeen = now\<rparr> else map_of (rl_entries ?l) s)"
    by (simp add: a(2) AList.update_conv)
  show "rl_rate l' = rl_rate l \<and> rl_burst l' = rl_burst l" by (simp add: a(2))
  show "fst ` set (rl_entries l') \<subseteq> insert subject (fst ` set (rl_entries l))" "distinct (map fst (rl_entries l'))"
    using d by (auto simp: a(2) fst_update AList.distinct_update)
  show "if subject = s then ok = fst (allowN b now) \<and> tracks l' s (snd (allowN b now)) (max t now) else tracks l' s b (max t now)"
  proof (cases "subject = s")
    case True
    have "(\<exists>hi \<le> max t now. used_at skew fresh allowN (snd (allowN b now)) now hi) \<and> allowN x now = allowN b now"
    proof (cases "map_of (rl_entries ?l) s")
      case None
      with True have "x = fresh" by (simp add: x_def)
      moreover have "allowN b now = allowN fresh now"
      proof (cases "b = fresh")
        case False
        with c None obtain u hi where "hi \<le> max t now" "used_at skew fresh allowN b u hi" "principalIdleTTL \<le> max t now - u"
          by (auto simp: tracks_def)
        with latest show ?thesis by (intro refilled [of b u hi]) linarith+
      qed simp
      ultimately show ?thesis using used_at.first [of skew fresh allowN now] by (auto intro: exI [of _ now])
    next
      case (Some e)
      with c obtain hi where e: "re_limiter e = b" "hi \<le> max t now" "used_at skew fresh allowN b (re_lastSeen e) hi"
        by (auto simp: tracks_def)
      from used_at.again [OF e(3), of now] e(2) latest
      have "used_at skew fresh allowN (snd (allowN b now)) now (max hi now)" by simp
      moreover have "max hi now \<le> max t now" using e(2) by simp
      ultimately have "\<exists>hi \<le> max t now. used_at skew fresh allowN (snd (allowN b now)) now hi" by blast
      then show ?thesis using Some True e(1) by (simp add: x_def)
    qed
    with True a(1) m show ?thesis by (simp add: tracks_def)
  qed (use m c in \<open>simp add: tracks_def\<close>)
qed

lemma run_isolated:
  assumes "tracks l s b t" "sorted_wrt (\<lambda>u v. u \<le> v + skew) (t # map ca_now cs)" "distinct (map fst (rl_entries l))"
    and "newLimiter (rl_rate l) (rl_burst l) = fresh" "s \<noteq> []"
    and "fst ` set (rl_entries l) \<union> ca_subject ` set cs \<subseteq> S" "finite S" "card S \<le> maxTrackedPrincipals"
  shows "map snd (filter (\<lambda>(c, ok). ca_subject c = s) (zip cs (fst (run_limiter newLimiter allowN cs l)))) =
    bucket_run allowN b (map ca_now (filter (\<lambda>c. ca_subject c = s) cs))"
  using assms(1-4,6)
proof (induction cs arbitrary: l b t)
  case (Cons c cs)
  obtain ok l' where one: "Allow newLimiter allowN (ca_now c) (ca_order c) (ca_subject c) l = (ok, l')" by fastforce
  have t: "t \<le> ca_now c + skew" "sorted_wrt (\<lambda>u v. u \<le> v + skew) (max t (ca_now c) # map ca_now cs)"
    using Cons.prems(2) by auto
  show ?case
  proof (cases "ca_subject c = []")
    case True
    with one have l': "l' = l" by (simp add: Allow_def)
    have "sorted_wrt (\<lambda>u v. u \<le> v + skew) (t # map ca_now cs)" using Cons.prems(2) by auto
    from Cons.IH [OF Cons.prems(1) this Cons.prems(3,4)] Cons.prems(5) one l' True assms(5) show ?thesis
      by (auto split: prod.splits)
  next
    case False
    let ?l = "collected (ca_now c) l"
    have k: "fst ` set (rl_entries ?l) \<subseteq> S" "distinct (map fst (rl_entries ?l))"
      using Cons.prems(3,5) removeIdle_keys [where es = "rl_entries l" and now = "ca_now c"] by (auto simp: collected_def)
    have room: "ca_subject c \<in> fst ` set (rl_entries ?l) \<or> length (rl_entries ?l) \<noteq> maxTrackedPrincipals"
    proof (rule disjCI, rule ccontr)
      assume n: "\<not> length (rl_entries ?l) \<noteq> maxTrackedPrincipals" "ca_subject c \<notin> fst ` set (rl_entries ?l)"
      then have "fst ` set (rl_entries ?l) \<subset> S" using k(1) Cons.prems(5) by auto
      then have "card (fst ` set (rl_entries ?l)) < card S" using assms(7) by (rule psubset_card_mono [rotated])
      moreover have "card (fst ` set (rl_entries ?l)) = length (rl_entries ?l)"
        using distinct_card [OF k(2)] by simp
      ultimately show False using n(1) assms(8) by simp
    qed
    note a = Allow_tracks [OF Cons.prems(1) t(1) Cons.prems(3,4) False assms(5) room one]
    have "newLimiter (rl_rate l') (rl_burst l') = fresh" using a(2) Cons.prems(4) by simp
    moreover have "fst ` set (rl_entries l') \<union> ca_subject ` set cs \<subseteq> S"
      using subset_trans [OF a(3), of S] Cons.prems(5) by simp
    ultimately show ?thesis using Cons.IH [OF _ t(2) a(4)] a(1) one by (auto split: prod.splits if_splits)
  qed
qed simp

end

section \<open>A reference bucket\<close>

text \<open>
  A token bucket in exact arithmetic with the rules of the library: tokens flow in since the last admitted call, at most
  up to the burst; an earlier time than that of the last admitted call brings none; a refusal changes nothing. Tokens
  are counted in units of which a minute's nanoseconds make one.
\<close>

definition minute :: int where "minute = 60 * 1000000000"

definition reference_limiter :: "int64 \<Rightarrow> int64 \<Rightarrow> (int \<times> int) \<times> (int \<times> gotime) option" where
  "reference_limiter rate burst = ((sint rate, sint burst), None)"

fun reference_allow ::
  "(int \<times> int) \<times> (int \<times> gotime) option \<Rightarrow> gotime \<Rightarrow> bool \<times> (int \<times> int) \<times> (int \<times> gotime) option" where
  "reference_allow ((rate, burst), s) now =
     (let tokens = (case s of
            None \<Rightarrow> burst * minute
          | Some (tokens, prev) \<Rightarrow> min (burst * minute) (tokens + (now - min prev now) * rate)) in
      if minute \<le> tokens then (True, (rate, burst), Some (tokens - minute, now))
      else (False, (rate, burst), s))"

lemma reference_used:
  assumes "used_at skew (reference_limiter rate burst) reference_allow b t hi" "1 \<le> sint rate" "1 \<le> sint burst" "0 \<le> skew"
  shows "(\<exists>tokens prev. b = ((sint rate, sint burst), Some (tokens, prev)) \<and> 0 \<le> tokens \<and> prev \<le> hi) \<and> hi \<le> t + skew"
  using assms(1)
proof (induction rule: used_at.induct)
  case (first t)
  then show ?case using assms(3,4) by (simp add: reference_limiter_def Let_def minute_def)
next
  case (again b t hi t')
  then obtain tokens prev where b: "b = ((sint rate, sint burst), Some (tokens, prev))" "0 \<le> tokens" "prev \<le> hi" by auto
  define x where "x = min (sint burst * minute) (tokens + (t' - min prev t') * sint rate)"
  have "reference_allow b t' =
      (if minute \<le> x then (True, (sint rate, sint burst), Some (x - minute, t')) else (False, b))"
    by (simp add: b(1) x_def Let_def)
  then show ?case using b again(2) assms(4) by auto
qed

lemma reference_bucket:
  assumes "1 \<le> sint rate" "1 \<le> sint burst" "sint burst \<le> 2" "0 \<le> skew" "skew \<le> 6 * minute"
  shows "token_bucket skew (reference_limiter rate burst) reference_allow"
proof
  fix b t hi now
  assume u: "used_at skew (reference_limiter rate burst) reference_allow b t hi" and idle: "principalIdleTTL - skew \<le> now - t"
  from reference_used [OF u assms(1,2,4)] obtain tokens prev where
    b: "b = ((sint rate, sint burst), Some (tokens, prev))" "0 \<le> tokens" "prev \<le> t + skew" by force
  have "sint burst * minute \<le> 2 * minute" using assms(3) by (simp add: minute_def)
  also have "\<dots> \<le> (now - prev) * 1" using idle b(3) assms(5) by (simp add: principalIdleTTL_def minute_def)
  finally have m: "sint burst * minute \<le> (now - prev) * 1" .
  then have pos: "0 \<le> now - prev" using assms(2) by (simp add: minute_def)
  note m
  also have "(now - prev) * 1 \<le> (now - min prev now) * sint rate"
    using assms(1) pos by (intro mult_mono) simp_all
  finally have "min (sint burst * minute) (tokens + (now - min prev now) * sint rate) = sint burst * minute" using b(2) by simp
  moreover have "minute \<le> sint burst * minute" using assms(2) by (simp add: minute_def)
  ultimately show "reference_allow b now = reference_allow (reference_limiter rate burst) now"
    by (simp add: b(1) reference_limiter_def)
qed (rule assms(4))

interpretation default_bucket: token_bucket minute "reference_limiter 12 2" reference_allow
  by (rule reference_bucket) (simp_all add: minute_def)

text \<open>
  C23: Analysts are limited independently of each other. As long as at most 10000 subjects appear, and whatever the
  idle collection and the iteration order of the map, the decisions about a subject's commands are exactly those of one
  token bucket of its own, asked with the times of its commands in their order. The times are the clock readings of the
  calls in the order in which they get the mutex; because a call reads the clock before that, they need not be
  sorted, but no reading may be more than \<open>skew\<close> before that of a call that got the mutex earlier, where a bucket that is
  idle for 15 minutes less \<open>skew\<close> must have refilled (for a bucket in exact arithmetic with the admitted rates, \<open>skew\<close> can be six
  minutes).
\<close>

theorem limiter_isolates:
  assumes "NewPrincipalRateLimiter perMinute = Inr l" "token_bucket skew (newLimiter (rl_rate l) (rl_burst l)) allowN"
    "sorted_wrt (\<lambda>earlier later. earlier \<le> later + skew) (map ca_now cs)"
    "card (ca_subject ` set cs) \<le> maxTrackedPrincipals" "s \<noteq> []"
  shows "map snd (filter (\<lambda>(c, ok). ca_subject c = s) (zip cs (fst (run_limiter newLimiter allowN cs l)))) =
    bucket_run allowN (newLimiter (rl_rate l) (rl_burst l)) (map ca_now (filter (\<lambda>c. ca_subject c = s) cs))"
proof -
  have l: "rl_entries l = []" using assms(1) by (auto simp: NewPrincipalRateLimiter_def split: if_splits)
  define t where "t = (case cs of [] \<Rightarrow> 0 | c # _ \<Rightarrow> ca_now c)"
  have t: "sorted_wrt (\<lambda>u v. u \<le> v + skew) (t # map ca_now cs)"
    using assms(3) token_bucket.skew_nonneg [OF assms(2)] by (cases cs) (auto simp: t_def)
  have "token_bucket.tracks skew (newLimiter (rl_rate l) (rl_burst l)) allowN l s (newLimiter (rl_rate l) (rl_burst l)) t"
    by (simp add: token_bucket.tracks_def [OF assms(2)] l)
  from token_bucket.run_isolated [OF assms(2) this t, where newLimiter = newLimiter and S = "ca_subject ` set cs"] assms(4,5)
  show ?thesis by (simp add: l)
qed

text \<open>Among the calls, one by ann gets the mutex after bob's although it read the clock before him.\<close>

definition busy_calls :: "rate_call list" where
  "busy_calls =
     map (\<lambda>(t, s). \<lparr>ca_now = t, ca_order = [], ca_subject = s\<rparr>)
       [(5, ''ann''), (8, ''bob''), (7, ''ann''), (8, ''ann''), (9, ''bob''), (900000000009, ''cy''), (900000000006, ''ann''),
        (1000000000000, ''ann'')]"

theorem limiter_isolates_witness:
  "\<exists>l :: ((int \<times> int) \<times> (int \<times> gotime) option) rateLimiter. NewPrincipalRateLimiter 12 = Inr l \<and>
     map snd (filter (\<lambda>(c, ok). ca_subject c = ''ann'') (zip busy_calls (fst (run_limiter reference_limiter reference_allow busy_calls l)))) =
     [True, True, False, True, True]"
proof -
  let ?l = "\<lparr>rl_rate = 12, rl_burst = 2, rl_entries = [], rl_nextGC = 0\<rparr> :: ((int \<times> int) \<times> (int \<times> gotime) option) rateLimiter"
  have l: "NewPrincipalRateLimiter 12 = Inr ?l" by code_simp
  have b: "token_bucket minute (reference_limiter (rl_rate ?l) (rl_burst ?l)) reference_allow"
    using default_bucket.token_bucket_axioms by simp
  have c: "sorted_wrt (\<lambda>earlier later. earlier \<le> later + minute) (map ca_now busy_calls)"
    "card (ca_subject ` set busy_calls) \<le> maxTrackedPrincipals" "''ann'' \<noteq> []"
    by code_simp+
  have "bucket_run reference_allow (reference_limiter (rl_rate ?l) (rl_burst ?l))
      (map ca_now (filter (\<lambda>c. ca_subject c = ''ann'') busy_calls)) = [True, True, False, True, True]" by code_simp
  with limiter_isolates [where newLimiter = reference_limiter, OF l b c] l show ?thesis by auto
qed

text \<open>
  However many subjects appear, the limiter never tracks more than 10000 of them: each call keeps its invariant.
\<close>

theorem limiter_bounded:
  assumes "limiter_inv l" "set order = fst ` set (rl_entries (collected now l))"
  shows "limiter_inv (snd (Allow newLimiter allowN now order subject l))"
  using Allow_inv [OF assms(1) _ assms(2)] by (metis surjective_pairing)

end
