(* ===== verification/Review_Http.thy ===== *)
theory Review_Http
  imports Workers Rate_Limiter
begin

text \<open>
  Analyst decisions over HTTP: the derivation of a trusted principal from a verified token
  (\<open>internal/identity/oidc/authenticator.go\<close>) and the handler of
  \<open>POST /v1/transfers/{transferID}/review-decision\<close> (\<open>internal/adapter/http/reviewdecision/handler.go\<close>).

  \<open>verify\<close> is the token verifier of the OIDC library: it returns the claims of a valid token as JSON text. Log lines
  have no effect in the model, and missing dependencies are excluded by the types.
\<close>

section \<open>Tokens\<close>

record oidcConfig =
  oc_Issuer :: string
  oc_Audience :: string
  oc_RoleClaim :: string

record Principal =
  op_Subject :: string
  op_Roles :: "string list"

text \<open>The authenticator with the provider that was discovered; the discovery itself may fail.\<close>

record authenticator =
  oa_issuer :: string
  oa_audience :: string
  oa_roleClaim :: string

definition oidc_New :: "(string \<Rightarrow> error option) \<Rightarrow> oidcConfig \<Rightarrow> authenticator result" where
  "oidc_New discover config =
     (let issuer = TrimSpace (oc_Issuer config); audience = TrimSpace (oc_Audience config);
          roleClaim = TrimSpace (oc_RoleClaim config) in
      if issuer = [] \<or> audience = [] \<or> roleClaim = [] then fail Oidc ErrInvalidConfig
      else case discover issuer of
        Some e \<Rightarrow> Inl e
      | None \<Rightarrow> Inr \<lparr>oa_issuer = issuer, oa_audience = audience, oa_roleClaim = roleClaim\<rparr>)"

text \<open>\<open>json.Unmarshal\<close> of an optional raw value into a string and into a slice of strings.\<close>

fun unmarshal_string :: "jvalue option \<Rightarrow> string option" where
  "unmarshal_string None = None"
| "unmarshal_string (Some v) = into_string v []"

fun strings_of :: "jvalue list \<Rightarrow> string list option" where
  "strings_of [] = Some []"
| "strings_of (v # vs) = Option.bind (into_string v []) (\<lambda>s. map_option ((#) s) (strings_of vs))"

fun unmarshal_strings :: "jvalue option \<Rightarrow> string list option" where
  "unmarshal_strings (Some (JArray vs)) = strings_of vs"
| "unmarshal_strings (Some JNull) = Some []"
| "unmarshal_strings _ = None"

text \<open>\<open>token.Claims\<close> into a map: the last of several members with the same name counts.\<close>

definition claims_of :: "string \<Rightarrow> (string \<rightharpoonup> jvalue) option" where
  "claims_of text =
     (case json_decode text of
        Some (JObject kvs) \<Rightarrow> Some (map_of (rev kvs))
      | Some JNull \<Rightarrow> Some Map.empty
      | _ \<Rightarrow> None)"

definition Authenticate :: "(authenticator \<Rightarrow> string \<Rightarrow> string result) \<Rightarrow> authenticator \<Rightarrow> string \<Rightarrow> Principal result" where
  "Authenticate verify a rawToken =
     (if TrimSpace rawToken = [] then fail Oidc ErrInvalidToken
      else case verify a rawToken of
        Inl e \<Rightarrow> Inl (E Oidc ErrInvalidToken # e)
      | Inr text \<Rightarrow>
          (case claims_of text of
             None \<Rightarrow> fail Oidc ErrInvalidToken
           | Some claims \<Rightarrow>
               (case unmarshal_string (claims ''sub'') of
                  None \<Rightarrow> fail Oidc ErrInvalidToken
                | Some subject \<Rightarrow>
                    if TrimSpace subject = [] then fail Oidc ErrInvalidToken
                    else (case unmarshal_strings (claims (oa_roleClaim a)) of
                       None \<Rightarrow> fail Oidc ErrInvalidToken
                     | Some roles \<Rightarrow> Inr \<lparr>op_Subject = subject, op_Roles = roles\<rparr>))))"

section \<open>Requests\<close>

definition maxBodyBytes :: nat where "maxBodyBytes = 4096"

text \<open>\<open>strings.Fields\<close>: no encoding of a space starts inside another code point, so looking at every byte will do.\<close>

function Fields_from :: "string \<Rightarrow> string \<Rightarrow> string list" where
  "Fields_from cur [] = (if cur = [] then [] else [cur])"
| "Fields_from cur (c # cs) =
     (case find (\<lambda>w. prefix w (c # cs)) space_runes of
        None \<Rightarrow> Fields_from (cur @ [c]) cs
      | Some w \<Rightarrow>
          if cur = [] then Fields_from [] (drop (length w - 1) cs) else cur # Fields_from [] (drop (length w - 1) cs))"
  by pat_completeness auto
termination by (relation "measure (\<lambda>(cur, s). length s)") auto

definition Fields :: "string \<Rightarrow> string list" where
  "Fields s = Fields_from [] s"

text \<open>\<open>strings.EqualFold\<close> with \<open>Bearer\<close>: none of its letters folds with a character outside ASCII.\<close>

definition bearerToken :: "string \<Rightarrow> string \<times> bool" where
  "bearerToken v =
     (let parts = Fields v in
      if length parts \<noteq> 2 \<or> ToLower (parts ! 0) \<noteq> ''bearer'' then ([], False) else (parts ! 1, True))"

definition hasRole :: "string list \<Rightarrow> string \<Rightarrow> bool" where
  "hasRole roles target \<longleftrightarrow> target \<in> set roles"

text \<open>
  A body beyond the limit of \<open>MaxBytesReader\<close> never decodes: the reader fails before the end of the body is seen.
\<close>

definition decodeDecision :: "string \<Rightarrow> string option" where
  "decodeDecision body =
     (if maxBodyBytes < length body then None
      else decode_strict [''decision''] (\<lambda>n v p. into_string v p) [] body)"

record response =
  ht_status :: nat
  ht_type :: "string option"
  ht_body :: string

definition writeError :: "nat \<Rightarrow> string \<Rightarrow> response" where
  "writeError status message =
     \<lparr>ht_status = status, ht_type = Some ''application/json'',
      ht_body = json_print (JObject [(''error'', JString message)]) @ [CHR 0x0A]\<rparr>"

definition writeDecisionError :: "error \<Rightarrow> response" where
  "writeDecisionError err =
     (if errors_Is err (E ReviewCase ErrInvalidArgument) then writeError 400 ''invalid review decision''
      else if errors_Is err (E ReviewCase ErrUnauthorized) then writeError 403 ''analyst role is required''
      else if errors_Is err (E TransferRepository ErrNotFound) then writeError 404 ''transfer not found''
      else if errors_Is err (E TransferRepository ErrStateConflict) then writeError 409 ''review case is no longer open''
      else writeError 500 ''internal server error'')"

record request =
  rq_authorization :: string
  rq_transferID :: string
  rq_body :: string

text \<open>
  The handler over its three dependencies: the authenticator, the limiter, whose state is the second component of
  the result, and the use case.
\<close>

definition ServeHTTP ::
  "(string \<Rightarrow> Principal result) \<Rightarrow> (string \<Rightarrow> 'l \<Rightarrow> bool \<times> 'l) \<Rightarrow> (TrustedPrincipal \<Rightarrow> string \<Rightarrow> string \<Rightarrow> (database, unit) tx)
     \<Rightarrow> request \<Rightarrow> 'l \<Rightarrow> database \<Rightarrow> response \<times> 'l \<times> database" where
  "ServeHTTP authenticate allow decide request l db =
     (case bearerToken (rq_authorization request) of (rawToken, ok) \<Rightarrow>
        if \<not> ok then (writeError 401 ''authentication is required'', l, db)
        else case authenticate rawToken of
          Inl err \<Rightarrow>
            if errors_Is err (E Oidc ErrInvalidToken) then (writeError 401 ''authentication failed'', l, db)
            else (writeError 500 ''internal server error'', l, db)
        | Inr who \<Rightarrow>
            if \<not> hasRole (op_Roles who) RoleAnalyst then (writeError 403 ''analyst role is required'', l, db)
            else case allow (op_Subject who) l of (allowed, l) \<Rightarrow>
              if \<not> allowed then (writeError 429 ''review decision rate limit exceeded'', l, db)
              else case decodeDecision (rq_body request) of
                None \<Rightarrow> (writeError 400 ''invalid request body'', l, db)
              | Some decision \<Rightarrow>
                  (case decide \<lparr>pr_Subject = op_Subject who, pr_Role = RoleAnalyst\<rparr> (rq_transferID request) decision db of
                     (Inl err, db') \<Rightarrow> (writeDecisionError err, l, db')
                   | (Inr _, db') \<Rightarrow> (\<lparr>ht_status = 204, ht_type = None, ht_body = []\<rparr>, l, db')))"

end
