(* ===== verification/Http_Properties.thy ===== *)
theory Http_Properties
  imports Review_Http Worker_Properties
begin

text \<open>
  What a request for a decision can do: nothing without a verified analyst's token, an admission by the limiter and a
  well-formed body, and otherwise exactly one decision in the name of the token's subject.
\<close>

lemma Authenticate_Inr:
  assumes "Authenticate verify a token = Inr who"
  obtains payload claims where "verify a token = Inr payload" "claims_of payload = Some claims"
    "unmarshal_string (claims ''sub'') = Some (op_Subject who)" "TrimSpace (op_Subject who) \<noteq> []"
    "unmarshal_strings (claims (oa_roleClaim a)) = Some (op_Roles who)"
  using assms by (auto simp: Authenticate_def split: if_splits sum.splits option.splits)

lemma ServeHTTP_cases:
  assumes "ServeHTTP authenticate allow decide request l db = (resp, l', db')"
  shows "db' = db \<and> ht_status resp \<noteq> 204 \<or>
    (\<exists>token who decision r. bearerToken (rq_authorization request) = (token, True) \<and> authenticate token = Inr who \<and>
      hasRole (op_Roles who) RoleAnalyst \<and> allow (op_Subject who) l = (True, l') \<and>
      decodeDecision (rq_body request) = Some decision \<and>
      decide \<lparr>pr_Subject = op_Subject who, pr_Role = RoleAnalyst\<rparr> (rq_transferID request) decision db = (r, db') \<and>
      (ht_status resp = 204 \<longleftrightarrow> r = Inr ()))"
  using assms
  by (auto simp: ServeHTTP_def writeError_def writeDecisionError_def split: prod.splits if_splits sum.splits option.splits)

lemma Decide_acknowledged:
  assumes "Decide scan store jsonb eventID sequence env now who i decision db = (Inl e, db')" "db' \<noteq> db"
  shows "\<exists>s. tx_commit env = CommitAckLost s"
  using assms by (auto simp: Decide_def split: if_splits dest!: run_handler_Inl)

text \<open>
  C9: Only a verified analyst changes a transfer over HTTP, and the answer tells the truth. From a reachable database a
  request leaves the database as it is and is not answered with 204, or: its bearer token was verified, the roles
  in the token's claims contain the analyst role, the limiter admitted the token's subject, the body is a decision,
  the transfer moved from review to that decision, the one new audit record names the token's subject, and the
  answer is 204 unless the acknowledgement of the commit was lost. Reachable means reachable by \<open>system_step\<close>, that is, with callers that keep the
  identifiers of transfers and of other journal entries apart.
\<close>

theorem decision_request:
  assumes "uuid_scanner scan" "reachable system_init (system_step scan store jsonb) db"
    "ServeHTTP (Authenticate verify a) (Allow newLimiter allowN at order) (Decide scan store jsonb eventID sequence env now)
       request l db = (resp, l', db')"
  shows "db' = db \<and> ht_status resp \<noteq> 204 \<or>
    (\<exists>token payload claims subject roles decision cur entry.
      bearerToken (rq_authorization request) = (token, True) \<and> verify a token = Inr payload \<and> claims_of payload = Some claims \<and>
      unmarshal_string (claims ''sub'') = Some subject \<and> unmarshal_strings (claims (oa_roleClaim a)) = Some roles \<and>
      RoleAnalyst \<in> set roles \<and> fst (Allow newLimiter allowN at order subject l) \<and>
      decodeDecision (rq_body request) = Some decision \<and>
      LoadLifecycleForUpdateTx scan (rq_transferID request) db = (Inr cur, db) \<and> l_status cur = StatusReviewRequired \<and>
      progress db' = (progress db)
        (l_id cur \<mapsto> (if decision = case_DecisionApprove then StatusApproved else StatusDeclined, 3)) \<and>
      transfer_review_audit_records db' = transfer_review_audit_records db @ [entry] \<and>
      au_transfer_id entry = l_id cur \<and> au_actor_subject entry = subject \<and> au_decision entry = decision \<and>
      (ht_status resp = 204 \<or> (\<exists>s. tx_commit env = CommitAckLost s)))"
  using ServeHTTP_cases [OF assms(3)]
proof (elim disjE [of "db' = db \<and> ht_status resp \<noteq> 204"] exE conjE)
  fix token and who :: Principal and decision r
  let ?p = "\<lparr>pr_Subject = op_Subject who, pr_Role = RoleAnalyst\<rparr>"
  assume t: "bearerToken (rq_authorization request) = (token, True)" "Authenticate verify a token = Inr who"
    "hasRole (op_Roles who) RoleAnalyst" "Allow newLimiter allowN at order (op_Subject who) l = (True, l')"
    "decodeDecision (rq_body request) = Some decision"
    and d: "Decide scan store jsonb eventID sequence env now ?p (rq_transferID request) decision db = (r, db')"
    and ok: "ht_status resp = 204 \<longleftrightarrow> r = Inr ()"
  obtain payload claims where c: "verify a token = Inr payload" "claims_of payload = Some claims"
    "unmarshal_string (claims ''sub'') = Some (op_Subject who)" "unmarshal_strings (claims (oa_roleClaim a)) = Some (op_Roles who)"
    by (rule Authenticate_Inr [OF t(2)])
  from uuid_scanner.reachable_consistent [OF assms(1,2)] obtain ls where con: "consistent db ls" .
  show ?thesis
  proof (cases "db' = db")
    case True
    with uuid_scanner.decided_exactly [OF assms(1) con d] ok show ?thesis by auto
  next
    case False
    have ack: "ht_status resp = 204 \<or> (\<exists>s. tx_commit env = CommitAckLost s)"
      using ok d Decide_acknowledged [of scan store jsonb eventID sequence env now ?p "rq_transferID request" decision db _ db'] False
      by (cases r) auto
    from uuid_scanner.decided_exactly [OF assms(1) con d] False obtain cur entry where
      "LoadLifecycleForUpdateTx scan (rq_transferID request) db = (Inr cur, db)" "l_status cur = StatusReviewRequired"
      "progress db' = (progress db)(l_id cur \<mapsto> (if decision = case_DecisionApprove then StatusApproved else StatusDeclined, 3))"
      "transfer_review_audit_records db' = transfer_review_audit_records db @ [entry]"
      "au_transfer_id entry = l_id cur" "au_actor_subject entry = op_Subject who" "au_decision entry = decision" by auto
    with t c ack show ?thesis by (auto simp: hasRole_def)
  qed
qed simp

definition desk_claims :: string where
  "desk_claims = json_print (JObject [(''sub'', JString ''analyst-7''), (''roles'', JArray [JString ''analyst''])])"

definition desk_request :: request where
  "desk_request =
     \<lparr>rq_authorization = ''bearer abc'', rq_transferID = transfer_id,
      rq_body = json_print (JObject [(''decision'', JString ''approved'')])\<rparr>"

definition desk_limiter :: "((int \<times> int) \<times> (int \<times> gotime) option) rateLimiter" where
  "desk_limiter = \<lparr>rl_rate = 12, rl_burst = 2, rl_entries = [], rl_nextGC = 0\<rparr>"

theorem decision_request_witness:
  "\<exists>resp l'. ServeHTTP
       (Authenticate (\<lambda>a token. Inr desk_claims) \<lparr>oa_issuer = ''i'', oa_audience = ''a'', oa_roleClaim = ''roles''\<rparr>)
       (Allow reference_limiter reference_allow 11 []) (Decide reference_scan id Inr decided_id 3 quiet 11)
       desk_request desk_limiter (assessed_db 1500) = (resp, l', decided_db) \<and>
     ht_status resp = 204 \<and> (\<exists>entry. transfer_review_audit_records decided_db = [entry] \<and> au_actor_subject entry = ''analyst-7'')"
proof -
  let ?a = "\<lparr>oa_issuer = ''i'', oa_audience = ''a'', oa_roleClaim = ''roles''\<rparr>"
  let ?auth = "Authenticate (\<lambda>a token. Inr desk_claims) ?a"
  let ?allow = "Allow reference_limiter reference_allow 11 []"
  have b: "bearerToken (rq_authorization desk_request) = (''abc'', True)"
    "?auth ''abc'' = Inr \<lparr>op_Subject = ''analyst-7'', op_Roles = [''analyst'']\<rparr>"
    "decodeDecision (rq_body desk_request) = Some ''approved''" "fst (?allow ''analyst-7'' desk_limiter)"
    by code_simp+
  have d: "Decide reference_scan id Inr decided_id 3 quiet 11 \<lparr>pr_Subject = ''analyst-7'', pr_Role = RoleAnalyst\<rparr> transfer_id ''approved''
      (assessed_db 1500) = (Inr (), decided_db)"
    by (rule decided_run) (simp add: run_decide_def run_analyst_def case_DecisionApprove_def)
  obtain l' where l': "?allow ''analyst-7'' desk_limiter = (True, l')" using b(4) by (cases "?allow ''analyst-7'' desk_limiter") auto
  let ?resp = "\<lparr>ht_status = 204, ht_type = None, ht_body = []\<rparr>"
  have run: "ServeHTTP ?auth ?allow (Decide reference_scan id Inr decided_id 3 quiet 11) desk_request desk_limiter (assessed_db 1500) =
      (?resp, l', decided_db)"
    using b(1-3) l' d by (simp add: ServeHTTP_def hasRole_def RoleAnalyst_def desk_request_def)
  have r: "run_reachable (assessed_db 1500)" by (rule assessed_reachable) simp
  have none: "transfer_review_audit_records (assessed_db 1500) = []"
    by (rule assessed_run [of 1500]) (simp_all add: funded_db_empty)
  have sub: "claims_of desk_claims = Some claims \<Longrightarrow> unmarshal_string (claims ''sub'') = Some s \<Longrightarrow> s = ''analyst-7''" for claims s
  proof -
    have "map_option (\<lambda>m. unmarshal_string (m ''sub'')) (claims_of desk_claims) = Some (Some ''analyst-7'')" by code_simp
    then show "claims_of desk_claims = Some claims \<Longrightarrow> unmarshal_string (claims ''sub'') = Some s \<Longrightarrow> s = ''analyst-7''" by simp
  qed
  from decision_request [OF reference_scanner r run] obtain entry where
    "transfer_review_audit_records decided_db = [entry]" "au_actor_subject entry = ''analyst-7''"
    using sub none by auto
  with run show ?thesis by auto
qed

end
