(* ===== verification/Environment.thy ===== *)
theory Environment
  imports Json_Decode Rfc3339
begin

text \<open>
  Values of environment variables, and the parsers of the standard library that read them: \<open>strconv.ParseInt\<close>,
  \<open>strconv.ParseBool\<close>, \<open>strings.SplitSeq\<close> and \<open>time.ParseDuration\<close>, the last with its computation of fractions in
  double precision. \<open>None\<close> is any parsing error.
\<close>

type_synonym environment = "string \<Rightarrow> string"

section \<open>Integers and booleans\<close>

text \<open>\<open>strconv.ParseInt(s, 10, 64)\<close>\<close>

definition ParseInt :: "string \<Rightarrow> int64 option" where
  "ParseInt s =
     (let digits = (if s \<noteq> [] \<and> (hd s = CHR ''+'' \<or> hd s = CHR ''-'') then drop 1 s else s);
          negative = (s \<noteq> [] \<and> hd s = CHR ''-'') in
      Option.bind (text_digits digits) (\<lambda>n.
        let i = (if negative then - n else n) in
        if in_int64 i then Some (int64_of i) else None))"

definition ParseBool :: "string \<Rightarrow> bool option" where
  "ParseBool s =
     (if s \<in> {''1'', ''t'', ''T'', ''TRUE'', ''true'', ''True''} then Some True
      else if s \<in> {''0'', ''f'', ''F'', ''FALSE'', ''false'', ''False''} then Some False
      else None)"

section \<open>Lists\<close>

definition splitNonempty :: "string \<Rightarrow> string list" where
  "splitNonempty v = filter (\<lambda>part. part \<noteq> []) (map TrimSpace (split_at (CHR '','') v))"

section \<open>Durations\<close>

text \<open>The nearest double, ties to even, of a positive rational \<open>p / q\<close> in the normal range.\<close>

function bits :: "int \<Rightarrow> int" where
  "bits n = (if n \<le> 0 then 0 else 1 + bits (n div 2))"
  by pat_completeness auto
termination by (relation "measure nat") auto

declare bits.simps [simp del]

definition scaled :: "int \<times> int \<Rightarrow> int \<Rightarrow> int \<times> int" where
  "scaled x k = (if 0 \<le> k then (fst x * 2 ^ nat k, snd x) else (fst x, snd x * 2 ^ nat (- k)))"

definition double_of :: "int \<times> int \<Rightarrow> int \<times> int" where
  "double_of x =
     (if fst x = 0 then (0, 1)
      else
        let k0 = 53 - (bits (fst x) - bits (snd x));
            k = (let y = scaled x k0 in if 2 ^ 53 * snd y \<le> fst y then k0 - 1 else k0);
            (a, b) = scaled x k; m = a div b; r = a mod b;
            m' = (if b < 2 * r \<or> 2 * r = b \<and> odd m then m + 1 else m) in
        if 0 \<le> k then (m', 2 ^ nat k) else (m' * 2 ^ nat (- k), 1))"

definition double_mult :: "int \<times> int \<Rightarrow> int \<times> int \<Rightarrow> int \<times> int" where
  "double_mult x y = double_of (fst x * fst y, snd x * snd y)"

definition double_div :: "int \<times> int \<Rightarrow> int \<times> int \<Rightarrow> int \<times> int" where
  "double_div x y = double_of (fst x * snd y, snd x * fst y)"

text \<open>\<open>leadingInt\<close>: \<open>None\<close> on overflow of \<open>1<<63\<close>\<close>

fun leadingInt :: "int \<Rightarrow> string \<Rightarrow> (int \<times> string) option" where
  "leadingInt x [] = Some (x, [])"
| "leadingInt x (c # cs) =
     (if \<not> is_digit c then Some (x, c # cs)
      else if 2 ^ 63 div 10 < x then None
      else let x = x * 10 + digit_value c in
        if 2 ^ 63 < x then None else leadingInt x cs)"

fun leadingFraction :: "int \<Rightarrow> int \<times> int \<Rightarrow> bool \<Rightarrow> string \<Rightarrow> int \<times> (int \<times> int) \<times> string" where
  "leadingFraction x scale overflow [] = (x, scale, [])"
| "leadingFraction x scale overflow (c # cs) =
     (if \<not> is_digit c then (x, scale, c # cs)
      else if overflow then leadingFraction x scale True cs
      else if (2 ^ 63 - 1) div 10 < x then leadingFraction x scale True cs
      else let y = x * 10 + digit_value c in
        if 2 ^ 63 < y then leadingFraction x scale True cs
        else leadingFraction y (double_mult scale (10, 1)) False cs)"

definition unitMap :: "string \<Rightarrow> int option" where
  "unitMap = map_of
     [(''ns'', 1), (''us'', 1000), ([CHR 0xC2, CHR 0xB5, CHR ''s''], 1000), ([CHR 0xCE, CHR 0xBC, CHR ''s''], 1000),
      (''ms'', 1000000), (''s'', 1000000000), (''m'', 60000000000), (''h'', 3600000000000)]"

text \<open>One round of the loop: the value that it adds and the rest of the text.\<close>

definition duration_part :: "string \<Rightarrow> (int \<times> string) option" where
  "duration_part s =
     Option.bind (leadingInt 0 s) (\<lambda>(v, s1).
       let pre = (length s1 \<noteq> length s);
           (f, scale, s2, post) =
             (if s1 \<noteq> [] \<and> hd s1 = CHR ''.''
              then (case leadingFraction 0 (1, 1) False (drop 1 s1) of
                      (f, scale, s2) \<Rightarrow> (f, scale, s2, length s2 \<noteq> length (drop 1 s1)))
              else (0, (1, 1), s1, False));
           u = takeWhile (\<lambda>c. c \<noteq> CHR ''.'' \<and> \<not> is_digit c) s2 in
       if \<not> pre \<and> \<not> post then None
       else Option.bind (unitMap u) (\<lambda>unit.
         if 2 ^ 63 div unit < v then None
         else
           let v = v * unit;
               w = (if f = 0 then v
                    else let x = double_mult (double_of (f, 1)) (double_div (unit, 1) scale) in v + fst x div snd x) in
           if f \<noteq> 0 \<and> 2 ^ 63 < w then None else Some (w, drop (length u) s2)))"

fun duration_parts :: "nat \<Rightarrow> int \<Rightarrow> string \<Rightarrow> int option" where
  "duration_parts fuel d [] = Some d"
| "duration_parts 0 d (c # cs) = None"
| "duration_parts (Suc fuel) d (c # cs) =
     (if \<not> (c = CHR ''.'' \<or> is_digit c) then None
      else Option.bind (duration_part (c # cs)) (\<lambda>(v, rest).
        if 2 ^ 63 < d + v then None else duration_parts fuel (d + v) rest))"

text \<open>Each round consumes a byte at least, so the length of the text is enough.\<close>

definition ParseDuration :: "string \<Rightarrow> int64 option" where
  "ParseDuration s =
     (let neg = (s \<noteq> [] \<and> hd s = CHR ''-'');
          s = (if s \<noteq> [] \<and> (hd s = CHR ''-'' \<or> hd s = CHR ''+'') then drop 1 s else s) in
      if s = ''0'' then Some 0
      else if s = [] then None
      else Option.bind (duration_parts (length s) 0 s) (\<lambda>d.
        if neg then Some (int64_of (- d))
        else if 2 ^ 63 - 1 < d then None
        else Some (int64_of d)))"

lemma duration_example_minutes: "ParseDuration ''1m30s'' = Some 90000000000"
  by code_simp

end
