(* ===== verification/Velocity.thy ===== *)
theory Velocity
  imports Workers "HOL-Library.AList"
begin

text \<open>
  The velocity observer in Redis (\<open>internal/risk/redis/velocity.go\<close>): a sorted set of transfers per source account,
  scored by the millisecond of their observation, from which entries outside the window are removed.

  Redis is not in the repository: the commands of the script are the fields of \<open>redis\<close> (the first argument of \<open>zadd\<close>
  says whether the option NX is given), and \<open>redis_sets\<close> states what its documentation says of them, including that
  a key is deleted when its time to live has passed on the server (\<open>elapse\<close>). The server runs a script atomically;
  \<open>eval_outcome\<close> says whether it ran and whether its reply arrived. A nil observer is excluded by the types.
\<close>

section \<open>The code\<close>

definition velocityKeyPrefix :: string where "velocityKeyPrefix = ''risk:velocity:source-account:''"

record 'r redis =
  zremrangebyscore :: "string \<Rightarrow> int \<Rightarrow> 'r \<Rightarrow> 'r"
  zadd :: "bool \<Rightarrow> string \<Rightarrow> int \<Rightarrow> string \<Rightarrow> 'r \<Rightarrow> 'r"
  pexpire :: "string \<Rightarrow> int \<Rightarrow> 'r \<Rightarrow> 'r"
  zcard :: "string \<Rightarrow> 'r \<Rightarrow> int64"

definition velocityScript :: "'r redis \<Rightarrow> string \<Rightarrow> int \<Rightarrow> int \<Rightarrow> string \<Rightarrow> int \<Rightarrow> 'r \<Rightarrow> int64 \<times> 'r" where
  "velocityScript c key cutoff score m ttl r =
     (let r = zremrangebyscore c key cutoff r;
          r = zadd c True key score m r;
          r = pexpire c key ttl r in
      (zcard c key r, r))"

datatype eval_outcome = Evaluated | EvalFailed error | ReplyLost error

record observer =
  ob_address :: string
  ob_window :: int64

definition Millisecond :: int64 where "Millisecond = 1000000"

definition NewObserver :: "string \<Rightarrow> int64 \<Rightarrow> observer result" where
  "NewObserver address window =
     (let address = TrimSpace address in
      if address = [] \<or> window <s Millisecond then fail RiskRedis ErrInvalidArgument
      else Inr \<lparr>ob_address = address, ob_window = window\<rparr>)"

text \<open>\<open>Time.UnixMilli\<close> and \<open>Duration.Milliseconds\<close>; the Unix epoch is 62135596800 seconds after Go's zero time.\<close>

definition UnixMilli :: "gotime \<Rightarrow> int" where
  "UnixMilli t = (t - 62135596800 * 1000000000) div 1000000"

definition Milliseconds :: "int64 \<Rightarrow> int" where
  "Milliseconds d = sint d div 1000000"

definition Observe ::
  "'r redis \<Rightarrow> eval_outcome \<Rightarrow> observer \<Rightarrow> string \<Rightarrow> string \<Rightarrow> gotime \<Rightarrow> 'r \<Rightarrow> int64 result \<times> 'r" where
  "Observe c outcome o' sourceAccountID transferID observedAt r =
     (if TrimSpace sourceAccountID = [] \<or> TrimSpace transferID = [] \<or> IsZero observedAt
      then (fail RiskRedis ErrInvalidArgument, r)
      else
        let (count, r') = velocityScript c (velocityKeyPrefix @ sourceAccountID) (UnixMilli (observedAt - sint (ob_window o')))
              (UnixMilli observedAt) transferID (Milliseconds (ob_window o')) r in
        case outcome of
          EvalFailed e \<Rightarrow> (Inl e, r)
        | ReplyLost e \<Rightarrow> (Inl e, r')
        | Evaluated \<Rightarrow> if count <s 1 then (fail RiskRedis ErrInvalidArgument, r') else (Inr count, r'))"

text \<open>
  A sequence of observations of one account, by any number of workers, in the order in which the server runs them. Before
  each of them \<open>os_elapsed\<close> milliseconds pass on the server.
\<close>

record observation =
  os_elapsed :: int
  os_transfer :: string
  os_at :: gotime
  os_outcome :: eval_outcome

fun observe_all ::
  "'r redis \<Rightarrow> (int \<Rightarrow> 'r \<Rightarrow> 'r) \<Rightarrow> observer \<Rightarrow> string \<Rightarrow> observation list \<Rightarrow> 'r \<Rightarrow> int64 result list \<times> 'r" where
  "observe_all c elapse w account [] r = ([], r)"
| "observe_all c elapse w account (x # xs) r =
     (case Observe c (os_outcome x) w account (os_transfer x) (os_at x) (elapse (os_elapsed x) r) of
        (n, r') \<Rightarrow> (case observe_all c elapse w account xs r' of (ns, r'') \<Rightarrow> (n # ns, r'')))"

section \<open>The sliding window\<close>

text \<open>
  The specification keeps the whole history of admitted observations and forgets nothing. A transfer is in the window of
  an observation at \<open>t\<close> when it was admitted less than the window's length before, in milliseconds. An observation of a
  transfer that is in the window admits nothing new.
\<close>

definition in_window :: "int64 \<Rightarrow> gotime \<Rightarrow> (string \<times> gotime) list \<Rightarrow> string set" where
  "in_window w t admitted = fst ` set (filter (\<lambda>(i, s). UnixMilli (t - sint w) < UnixMilli s) admitted)"

definition admit :: "int64 \<Rightarrow> string \<Rightarrow> gotime \<Rightarrow> (string \<times> gotime) list \<Rightarrow> (string \<times> gotime) list" where
  "admit w i t admitted = (if i \<in> in_window w t admitted then admitted else (i, t) # admitted)"

fun sliding_counts :: "int64 \<Rightarrow> (string \<times> gotime) list \<Rightarrow> observation list \<Rightarrow> int64 result list" where
  "sliding_counts w admitted [] = []"
| "sliding_counts w admitted (x # xs) =
     (let admitted' = admit w (os_transfer x) (os_at x) admitted in
      case os_outcome x of
        EvalFailed e \<Rightarrow> Inl e # sliding_counts w admitted xs
      | ReplyLost e \<Rightarrow> Inl e # sliding_counts w admitted' xs
      | Evaluated \<Rightarrow> Inr (int64_of (int (card (in_window w (os_at x) admitted')))) # sliding_counts w admitted' xs)"

text \<open>
  The observations carry times that do not decrease, and the server's clock does not run ahead of theirs.
\<close>

fun paced :: "gotime \<Rightarrow> observation list \<Rightarrow> bool" where
  "paced u [] \<longleftrightarrow> True"
| "paced u (x # xs) \<longleftrightarrow>
     u \<le> os_at x \<and> 0 \<le> os_elapsed x \<and> os_elapsed x \<le> UnixMilli (os_at x) - UnixMilli u \<and> paced (os_at x) xs"

text \<open>Scores are double precision, so they are kept exactly up to \<open>2^53\<close>, which milliseconds reach in the year 287396.\<close>

definition exact_score :: "int \<Rightarrow> bool" where
  "exact_score s \<longleftrightarrow> \<bar>s\<bar> \<le> 2 ^ 53"

definition observable :: "int64 \<Rightarrow> observation \<Rightarrow> bool" where
  "observable w x \<longleftrightarrow> TrimSpace (os_transfer x) \<noteq> [] \<and> \<not> IsZero (os_at x) \<and> exact_score (UnixMilli (os_at x)) \<and>
     exact_score (UnixMilli (os_at x - sint w))"

lemma in_window_iff: "i \<in> in_window w t admitted \<longleftrightarrow> (\<exists>s. (i, s) \<in> set admitted \<and> UnixMilli (t - sint w) < UnixMilli s)"
  by (force simp: in_window_def)

lemma card_in_window: "card (in_window w t admitted) \<le> length admitted"
proof -
  have "card (in_window w t admitted) \<le> length (filter (\<lambda>(i, s). UnixMilli (t - sint w) < UnixMilli s) admitted)"
    unfolding in_window_def by (rule order_trans [OF card_image_le card_length]) simp
  also have "\<dots> \<le> length admitted" by (rule length_filter_le)
  finally show ?thesis .
qed

lemma length_admit: "length (admit w i t admitted) \<le> Suc (length admitted)"
  by (simp add: admit_def)

lemma UnixMilli_mono: "s \<le> t \<Longrightarrow> UnixMilli s \<le> UnixMilli t"
  by (simp add: UnixMilli_def zdiv_mono1)

lemma UnixMilli_window: "1000000 dvd d \<Longrightarrow> UnixMilli (t - d) = UnixMilli t - d div 1000000"
  by (elim dvdE) (simp add: UnixMilli_def algebra_simps)

section \<open>What the commands promise\<close>

text \<open>The entries of an account that are still in the window, and after the observation of a transfer.\<close>

definition current :: "int \<Rightarrow> (string \<rightharpoonup> int) \<Rightarrow> (string \<rightharpoonup> int)" where
  "current cutoff s = (\<lambda>m. case s m of None \<Rightarrow> None | Some x \<Rightarrow> if x \<le> cutoff then None else Some x)"

definition observed :: "int \<Rightarrow> int \<Rightarrow> string \<Rightarrow> (string \<rightharpoonup> int) \<Rightarrow> (string \<rightharpoonup> int)" where
  "observed cutoff score m s = (if m \<in> dom (current cutoff s) then current cutoff s else (current cutoff s)(m \<mapsto> score))"

text \<open>
  \<open>view r key\<close> are the members of a set with their scores, \<open>ttl r key\<close> the milliseconds that a key has left to live.
\<close>

locale redis_sets =
  fixes c :: "'r redis" and elapse :: "int \<Rightarrow> 'r \<Rightarrow> 'r" and view :: "'r \<Rightarrow> string \<Rightarrow> string \<rightharpoonup> int"
    and ttl :: "'r \<Rightarrow> string \<Rightarrow> int option"
  assumes view_finite: "finite (dom (view r key))"
    and view_zrem: "exact_score s \<Longrightarrow> view (zremrangebyscore c key s r) =
      (view r)(key := (\<lambda>m. case view r key m of None \<Rightarrow> None | Some x \<Rightarrow> if x \<le> s then None else Some x))"
    and view_zadd: "exact_score s \<Longrightarrow> view (zadd c nx key s m r) =
      (view r)(key := (if nx \<and> m \<in> dom (view r key) then view r key else (view r key)(m \<mapsto> s)))"
    and view_pexpire: "0 < d \<Longrightarrow> view (pexpire c key d r) = view r"
    and zcard_view: "card (dom (view r key)) < 2 ^ 63 \<Longrightarrow> zcard c key r = int64_of (int (card (dom (view r key))))"
    and ttl_other: "key \<noteq> k \<Longrightarrow> ttl (zremrangebyscore c key s r) k = ttl r k"
      "key \<noteq> k \<Longrightarrow> ttl (zadd c nx key s m r) k = ttl r k" "key \<noteq> k \<Longrightarrow> ttl (pexpire c key d r) k = ttl r k"
    and ttl_pexpire: "0 < d \<Longrightarrow> view r key \<noteq> Map.empty \<Longrightarrow> ttl (pexpire c key d r) key = Some d"
    and view_elapse: "0 \<le> d \<Longrightarrow> view (elapse d r) key =
      (case ttl r key of Some x \<Rightarrow> if x \<le> d then Map.empty else view r key | None \<Rightarrow> view r key)"
    and ttl_elapse: "0 \<le> d \<Longrightarrow> ttl (elapse d r) key =
      (case ttl r key of Some x \<Rightarrow> if x \<le> d then None else Some (x - d) | None \<Rightarrow> None)"
begin

lemma script_view:
  assumes "velocityScript c key cutoff score m d r = (count, r')" "exact_score cutoff" "exact_score score" "0 < d"
  shows "view r' = (view r)(key := observed cutoff score m (view r key))"
    and "ttl r' k = (if k = key then Some d else ttl r k)"
    and "card (dom (view r' key)) < 2 ^ 63 \<Longrightarrow> count = int64_of (int (card (dom (view r' key))))"
proof -
  let ?r1 = "zremrangebyscore c key cutoff r"
  let ?r2 = "zadd c True key score m ?r1"
  have r': "r' = pexpire c key d ?r2" "count = zcard c key r'" using assms(1) by (auto simp: velocityScript_def Let_def)
  have v: "view ?r2 = (view r)(key := observed cutoff score m (view r key))"
    by (simp add: view_zrem [OF assms(2)] view_zadd [OF assms(3)] observed_def current_def)
  then show "view r' = (view r)(key := observed cutoff score m (view r key))" by (simp add: r'(1) view_pexpire [OF assms(4)])
  show "card (dom (view r' key)) < 2 ^ 63 \<Longrightarrow> count = int64_of (int (card (dom (view r' key))))" by (simp add: r'(2) zcard_view)
  have "view ?r2 key \<noteq> Map.empty" by (auto simp: v observed_def)
  then show "ttl r' k = (if k = key then Some d else ttl r k)"
    by (simp add: r'(1) ttl_pexpire [OF assms(4)] ttl_other)
qed

text \<open>What a set has to do with the history of its account, when the last observation was at \<open>u\<close>.\<close>

definition mirrors :: "int64 \<Rightarrow> string \<Rightarrow> gotime \<Rightarrow> (string \<times> gotime) list \<Rightarrow> 'r \<Rightarrow> bool" where
  "mirrors w key u admitted r \<longleftrightarrow>
     (\<forall>(i, s) \<in> set admitted. s \<le> u) \<and>
     (\<forall>m x. view r key m = Some x \<longrightarrow> (\<exists>s. (m, s) \<in> set admitted \<and> x = UnixMilli s)) \<and>
     (\<forall>(m, s) \<in> set admitted. UnixMilli (u - sint w) < UnixMilli s \<longrightarrow> view r key m = Some (UnixMilli s)) \<and>
     (\<forall>d. ttl r key = Some d \<longrightarrow> (\<forall>(m, s) \<in> set admitted. UnixMilli s - UnixMilli u + Milliseconds w \<le> d))"

lemma mirrors_elapse:
  assumes "mirrors w key u admitted r" "u \<le> t" "0 \<le> d" "d \<le> UnixMilli t - UnixMilli u" "1000000 dvd sint w"
  shows "mirrors w key t admitted (elapse d r)"
proof -
  have cut: "UnixMilli (v - sint w) = UnixMilli v - Milliseconds w" for v
    using UnixMilli_window [OF assms(5)] by (simp add: Milliseconds_def)
  have m: "s \<le> u" "UnixMilli (u - sint w) < UnixMilli s \<Longrightarrow> view r key i = Some (UnixMilli s)"
    "ttl r key = Some x \<Longrightarrow> UnixMilli s - UnixMilli u + Milliseconds w \<le> x"
    if "(i, s) \<in> set admitted" for i s x
    using that assms(1) unfolding mirrors_def by blast+
  have m': "\<exists>s. (i, s) \<in> set admitted \<and> x = UnixMilli s" if "view r key i = Some x" for i x
    using that assms(1) unfolding mirrors_def by blast
  show ?thesis
  proof (cases "\<exists>x. ttl r key = Some x \<and> x \<le> d")
    case True
    then have gone: "view (elapse d r) key = Map.empty" "ttl (elapse d r) key = None"
      by (auto simp: view_elapse [OF assms(3)] ttl_elapse [OF assms(3)])
    have "s \<le> t \<and> UnixMilli s \<le> UnixMilli (t - sint w)" if "(i, s) \<in> set admitted" for i s
      using True m(1,3) [OF that] assms(2,4) by (fastforce simp: cut)
    then show ?thesis using gone by (fastforce simp: mirrors_def)
  next
    case False
    then have kept: "view (elapse d r) key = view r key"
      "ttl (elapse d r) key = map_option (\<lambda>x. x - d) (ttl r key)"
      by (auto simp: view_elapse [OF assms(3)] ttl_elapse [OF assms(3)] split: option.splits)
    have le: "UnixMilli (u - sint w) \<le> UnixMilli (t - sint w)" using assms(2) by (intro UnixMilli_mono) simp
    have "s \<le> t \<and> (UnixMilli (t - sint w) < UnixMilli s \<longrightarrow> view r key i = Some (UnixMilli s))"
      if "(i, s) \<in> set admitted" for i s
      using m(1,2) [OF that] assms(2) le by simp
    moreover have "UnixMilli s - UnixMilli t + Milliseconds w \<le> x - d" if "(i, s) \<in> set admitted" "ttl r key = Some x" for i s x
      using m(3) [OF that] assms(4) by simp
    ultimately show ?thesis using m' kept unfolding mirrors_def by (auto simp: split_beta)
  qed
qed

lemma mirrors_script:
  assumes "mirrors w key t admitted r" "velocityScript c key (UnixMilli (t - sint w)) (UnixMilli t) i (Milliseconds w) r = (n, r')"
    and "exact_score (UnixMilli (t - sint w))" "exact_score (UnixMilli t)" "0 < Milliseconds w" "1000000 dvd sint w"
  shows "mirrors w key t (admit w i t admitted) r'"
    and "dom (view r' key) = in_window w t (admit w i t admitted)"
proof -
  note v = script_view [OF assms(2,3,4,5)]
  have m: "s \<le> t" "UnixMilli (t - sint w) < UnixMilli s \<Longrightarrow> view r key j = Some (UnixMilli s)" if "(j, s) \<in> set admitted" for j s
    using that assms(1) unfolding mirrors_def by blast+
  have m': "\<exists>s. (j, s) \<in> set admitted \<and> x = UnixMilli s" if "view r key j = Some x" for j x
    using that assms(1) unfolding mirrors_def by blast
  let ?cut = "UnixMilli (t - sint w)"
  have lt: "?cut < UnixMilli t"
    using UnixMilli_window [OF assms(6)] assms(5) by (simp add: Milliseconds_def)
  have old: "current ?cut (view r key) j = Some x \<longleftrightarrow> (\<exists>s. (j, s) \<in> set admitted \<and> ?cut < UnixMilli s \<and> x = UnixMilli s)"
    (is "_ \<longleftrightarrow> ?seen j x") for j x
  proof -
    have "current ?cut (view r key) j = Some x \<longleftrightarrow> view r key j = Some x \<and> ?cut < x"
      by (auto simp: current_def split: option.splits if_splits)
    also have "\<dots> \<longleftrightarrow> ?seen j x" using m(2) [of j] m' [of j x] by metis
    finally show ?thesis .
  qed
  then have "i \<in> dom (current ?cut (view r key)) \<longleftrightarrow> i \<in> in_window w t admitted" by (auto simp: in_window_iff)
  then have new: "view r' key j = Some x \<longleftrightarrow> (\<exists>s. (j, s) \<in> set (admit w i t admitted) \<and> ?cut < UnixMilli s \<and> x = UnixMilli s)" for j x
    using old [of j x] lt by (auto simp: v(1) observed_def admit_def in_window_iff)
  then show "dom (view r' key) = in_window w t (admit w i t admitted)" by (auto simp: in_window_iff)
  have "\<forall>(j, s) \<in> set (admit w i t admitted). s \<le> t" using m(1) by (auto simp: admit_def)
  moreover from this have "\<forall>(j, s) \<in> set (admit w i t admitted). UnixMilli s - UnixMilli t + Milliseconds w \<le> Milliseconds w"
    using UnixMilli_mono by fastforce
  ultimately show "mirrors w key t (admit w i t admitted) r'"
    using new by (auto simp: mirrors_def v(2))
qed

lemma Observe_window:
  assumes "mirrors (ob_window w) (velocityKeyPrefix @ account) (os_at x) admitted r" "observable (ob_window w) x" "TrimSpace account \<noteq> []"
    and "0 < Milliseconds (ob_window w)" "1000000 dvd sint (ob_window w)" "length admitted < 2 ^ 63 - 1"
    and "Observe c (os_outcome x) w account (os_transfer x) (os_at x) r = (n, r')"
  defines "admitted' \<equiv> admit (ob_window w) (os_transfer x) (os_at x) admitted"
  shows "case os_outcome x of
      EvalFailed e \<Rightarrow> n = Inl e \<and> r' = r
    | ReplyLost e \<Rightarrow> n = Inl e \<and> mirrors (ob_window w) (velocityKeyPrefix @ account) (os_at x) admitted' r'
    | Evaluated \<Rightarrow> n = Inr (int64_of (int (card (in_window (ob_window w) (os_at x) admitted')))) \<and>
        mirrors (ob_window w) (velocityKeyPrefix @ account) (os_at x) admitted' r'"
    and "k \<noteq> velocityKeyPrefix @ account \<Longrightarrow> view r' k = view r k \<and> ttl r' k = ttl r k"
proof -
  let ?key = "velocityKeyPrefix @ account" and ?cut = "UnixMilli (os_at x - sint (ob_window w))"
  have x: "TrimSpace (os_transfer x) \<noteq> []" "\<not> IsZero (os_at x)" "exact_score ?cut" "exact_score (UnixMilli (os_at x))"
    using assms(2) by (simp_all add: observable_def)
  obtain n' q where run: "velocityScript c ?key ?cut (UnixMilli (os_at x)) (os_transfer x) (Milliseconds (ob_window w)) r = (n', q)"
    by fastforce
  note v = script_view [OF run x(3,4) assms(4)]
  note s = mirrors_script [OF assms(1) run x(3,4) assms(4,5), folded admitted'_def]
  have obs: "(n, r') = (case os_outcome x of EvalFailed e \<Rightarrow> (Inl e, r) | ReplyLost e \<Rightarrow> (Inl e, q)
      | Evaluated \<Rightarrow> if n' <s 1 then (fail RiskRedis ErrInvalidArgument, q) else (Inr n', q))"
    using assms(3,7) x(1,2) run by (simp add: Observe_def)
  let ?k = "card (in_window (ob_window w) (os_at x) admitted')"
  have "?k \<le> Suc (length admitted)"
    unfolding admitted'_def by (rule order_trans [OF card_in_window length_admit])
  then have small: "?k < 2 ^ 63" using assms(6) by simp
  have "view q ?key \<noteq> Map.empty" by (auto simp: v(1) observed_def)
  then have "0 < ?k" using s(2) view_finite [of q ?key] by (simp flip: s(2) add: card_gt_0_iff)
  then have "\<not> int64_of (int ?k) <s (1 :: int64)"
    using sint_int64_of [of "int ?k"] small by (simp add: int64_simps in_int64_def)
  moreover have "n' = int64_of (int ?k)" using v(3) small by (simp add: s(2))
  ultimately show "case os_outcome x of
      EvalFailed e \<Rightarrow> n = Inl e \<and> r' = r
    | ReplyLost e \<Rightarrow> n = Inl e \<and> mirrors (ob_window w) ?key (os_at x) admitted' r'
    | Evaluated \<Rightarrow> n = Inr (int64_of (int ?k)) \<and> mirrors (ob_window w) ?key (os_at x) admitted' r'"
    using obs s(1) by (auto split: eval_outcome.splits)
  show "k \<noteq> ?key \<Longrightarrow> view r' k = view r k \<and> ttl r' k = ttl r k"
    using obs v(1,2) by (auto split: eval_outcome.splits if_splits)
qed

lemma observe_all_window:
  assumes "TrimSpace account \<noteq> []" "0 < Milliseconds (ob_window w)" "1000000 dvd sint (ob_window w)"
    and "mirrors (ob_window w) (velocityKeyPrefix @ account) u admitted r" "paced u xs"
    and "list_all (observable (ob_window w)) xs" "length admitted + length xs < 2 ^ 63"
  shows "fst (observe_all c elapse w account xs r) = sliding_counts (ob_window w) admitted xs"
  using assms(4-7)
proof (induction xs arbitrary: u admitted r)
  case (Cons x xs)
  let ?r = "elapse (os_elapsed x) r" and ?a = "admit (ob_window w) (os_transfer x) (os_at x) admitted"
  obtain n r' where one: "Observe c (os_outcome x) w account (os_transfer x) (os_at x) ?r = (n, r')" by fastforce
  have p: "u \<le> os_at x" "0 \<le> os_elapsed x" "os_elapsed x \<le> UnixMilli (os_at x) - UnixMilli u" "paced (os_at x) xs"
    and o: "observable (ob_window w) x" "list_all (observable (ob_window w)) xs"
    and l: "length admitted < 2 ^ 63 - 1" "length admitted + length xs < 2 ^ 63" "length ?a + length xs < 2 ^ 63"
    using Cons.prems(2-4) length_admit [of "ob_window w" "os_transfer x" "os_at x" admitted] by simp_all
  note m = mirrors_elapse [OF Cons.prems(1) p(1-3) assms(3)]
  note step = Observe_window(1) [OF m o(1) assms(1-3) l(1) one]
  show ?case
    using step one Cons.IH [OF m p(4) o(2) l(2)] Cons.IH [OF _ p(4) o(2) l(3), of r']
    by (auto simp: Let_def split: eval_outcome.splits prod.splits)
qed simp

lemma observe_all_others:
  assumes "TrimSpace account \<noteq> []" "0 < Milliseconds (ob_window w)" "1000000 dvd sint (ob_window w)"
    and "mirrors (ob_window w) (velocityKeyPrefix @ account) u admitted r" "paced u xs"
    and "list_all (observable (ob_window w)) xs" "length admitted + length xs < 2 ^ 63"
    and "k \<noteq> velocityKeyPrefix @ account" "view r k = view q k" "ttl r k = ttl q k"
  shows "view (snd (observe_all c elapse w account xs r)) k = view (fold (\<lambda>x. elapse (os_elapsed x)) xs q) k"
  using assms(4-7,9,10)
proof (induction xs arbitrary: u admitted r q)
  case (Cons x xs)
  let ?r = "elapse (os_elapsed x) r" and ?a = "admit (ob_window w) (os_transfer x) (os_at x) admitted"
  obtain n r' where one: "Observe c (os_outcome x) w account (os_transfer x) (os_at x) ?r = (n, r')" by fastforce
  have p: "u \<le> os_at x" "0 \<le> os_elapsed x" "os_elapsed x \<le> UnixMilli (os_at x) - UnixMilli u" "paced (os_at x) xs"
    and o: "observable (ob_window w) x" "list_all (observable (ob_window w)) xs"
    and l: "length admitted < 2 ^ 63 - 1" "length admitted + length xs < 2 ^ 63" "length ?a + length xs < 2 ^ 63"
    using Cons.prems(2-4) length_admit [of "ob_window w" "os_transfer x" "os_at x" admitted] by simp_all
  note m = mirrors_elapse [OF Cons.prems(1) p(1-3) assms(3)]
  note step = Observe_window [OF m o(1) assms(1-3) l(1) one]
  have "view r' k = view (elapse (os_elapsed x) q) k" "ttl r' k = ttl (elapse (os_elapsed x) q) k"
    using step(2) [OF assms(8)] Cons.prems(5,6) by (simp_all add: view_elapse [OF p(2)] ttl_elapse [OF p(2)] split: option.splits)
  then show ?case
    using step(1) one Cons.IH [OF m p(4) o(2) l(2)] Cons.IH [OF _ p(4) o(2) l(3), of r']
    by (auto simp: Let_def split: eval_outcome.splits prod.splits)
qed simp

end

section \<open>A reference server\<close>

type_synonym zsets = "string \<Rightarrow> (string \<times> int) list \<times> int option"

definition reference_zset :: "(string \<times> int) list \<Rightarrow> int option \<Rightarrow> (string \<times> int) list \<times> int option" where
  "reference_zset es d = (if es = [] then ([], None) else (es, d))"

definition reference_redis :: "zsets redis" where
  "reference_redis =
     \<lparr>zremrangebyscore = (\<lambda>key s r. r(key := (case r key of (es, d) \<Rightarrow>
        reference_zset (filter (\<lambda>(m, x). \<not> x \<le> s) (AList.clearjunk es)) d))),
      zadd = (\<lambda>nx key s m r. r(key := (case r key of (es, d) \<Rightarrow>
        if nx \<and> m \<in> fst ` set es then (es, d) else (AList.update m s es, d)))),
      pexpire = (\<lambda>key d r. r(key := (case r key of (es, _) \<Rightarrow> reference_zset es (Some d)))),
      zcard = (\<lambda>key r. int64_of (int (length (remdups (map fst (fst (r key)))))))\<rparr>"

definition reference_elapse :: "int \<Rightarrow> zsets \<Rightarrow> zsets" where
  "reference_elapse d r = (\<lambda>key. case r key of
     (es, None) \<Rightarrow> (es, None)
   | (es, Some x) \<Rightarrow> if x \<le> d then ([], None) else (es, Some (x - d)))"

lemma map_of_kept: "map_of (filter (\<lambda>(m, x). \<not> x \<le> s) es) m =
    (case map_of es m of None \<Rightarrow> None | Some x \<Rightarrow> if x \<le> s then None else Some x)"
  if "distinct (map fst es)"
  using that by (induction es) (auto simp: map_of_eq_None_iff split: option.splits)

lemma fst_reference_zset [simp]: "fst (reference_zset es d) = es"
  by (simp add: reference_zset_def)

interpretation reference_redis: redis_sets reference_redis reference_elapse "\<lambda>r key. map_of (fst (r key))" "\<lambda>r key. snd (r key)"
proof
  fix r :: zsets and key k m :: string and s d :: int and nx :: bool
  show "finite (dom (map_of (fst (r key))))" by (rule finite_dom_map_of)
  show "(\<lambda>k. map_of (fst (zremrangebyscore reference_redis key s r k))) =
    (\<lambda>k. map_of (fst (r k)))(key := (\<lambda>m. case map_of (fst (r key)) m of None \<Rightarrow> None | Some x \<Rightarrow> if x \<le> s then None else Some x))"
    by (rule ext) (simp add: reference_redis_def map_of_kept distinct_clearjunk map_of_clearjunk fun_eq_iff split: prod.split)
  show "(\<lambda>k. map_of (fst (zadd reference_redis nx key s m r k))) =
    (\<lambda>k. map_of (fst (r k)))(key :=
      (if nx \<and> m \<in> dom (map_of (fst (r key))) then map_of (fst (r key)) else (map_of (fst (r key)))(m \<mapsto> s)))"
    by (rule ext) (auto simp: reference_redis_def dom_map_of_conv_image_fst AList.update_conv' split: prod.split)
  show "(\<lambda>k. map_of (fst (pexpire reference_redis key d r k))) = (\<lambda>k. map_of (fst (r k)))"
    by (rule ext) (simp add: reference_redis_def split: prod.split)
  show "zcard reference_redis key r = int64_of (int (card (dom (map_of (fst (r key))))))"
    by (simp add: reference_redis_def dom_map_of_conv_image_fst length_remdups_card_conv)
  show "map_of (fst (r key)) \<noteq> Map.empty \<Longrightarrow> snd (pexpire reference_redis key d r key) = Some d"
    by (auto simp: reference_redis_def reference_zset_def split: prod.split)
  show "map_of (fst (reference_elapse d r key)) =
    (case snd (r key) of None \<Rightarrow> map_of (fst (r key)) | Some x \<Rightarrow> if x \<le> d then Map.empty else map_of (fst (r key)))"
    "snd (reference_elapse d r key) = (case snd (r key) of None \<Rightarrow> None | Some x \<Rightarrow> if x \<le> d then None else Some (x - d))"
    by (simp_all add: reference_elapse_def split: prod.split option.split)
qed (simp_all add: reference_redis_def)

section \<open>Counting\<close>

text \<open>
  C24: The velocity is the number of different transfers of the account in a sliding window. For an account without
  entries, whose observations carry times that do not decrease, each answer is the number of different transfers
  that were admitted less than a window before the observation, where an observation admits its transfer unless it is still in
  the window: entries that leave the window are no longer counted, a transfer that is observed again within the window, as
  a redelivered event does, keeps its place and is not counted twice, and one that is observed again after it left the window
  counts again. Times are compared in milliseconds. An observation whose script did not run is not counted later; one
  whose reply was lost is. The expiry of keys never loses an entry that still counts, provided that the window is a whole
  number of milliseconds and that the server's clock does not run ahead of the observation times. The scores have to be
  exact as doubles, and the observations fewer than \<open>2^63\<close>. The sets of other accounts change only by their own expiry.
\<close>

theorem velocity_counts:
  assumes "redis_sets c elapse view ttl" "NewObserver address window = Inr w" "1000000 dvd sint window"
    and "TrimSpace account \<noteq> []" "view r (velocityKeyPrefix @ account) = Map.empty"
    and "paced start xs" "list_all (observable window) xs" "len xs < 2 ^ 63"
  shows "fst (observe_all c elapse w account xs r) = sliding_counts window [] xs \<and>
    (\<forall>k. k \<noteq> velocityKeyPrefix @ account \<longrightarrow>
       view (snd (observe_all c elapse w account xs r)) k = view (fold (\<lambda>x. elapse (os_elapsed x)) xs r) k)"
proof -
  have w: "ob_window w = window" "\<not> window <s Millisecond"
    using assms(2) by (auto simp: NewObserver_def Let_def split: if_splits)
  then have pos: "0 < Milliseconds (ob_window w)"
    by (auto simp: Milliseconds_def Millisecond_def int64_simps pos_imp_zdiv_pos_iff)
  have dvd: "1000000 dvd sint (ob_window w)" and obs: "list_all (observable (ob_window w)) xs" using assms(3,7) w(1) by simp_all
  have m: "redis_sets.mirrors view ttl (ob_window w) (velocityKeyPrefix @ account) start [] r"
    by (simp add: redis_sets.mirrors_def [OF assms(1)] assms(5))
  have l: "length [] + length xs < 2 ^ 63" using assms(8) by simp
  show ?thesis
    using redis_sets.observe_all_window [OF assms(1,4) pos dvd m assms(6) obs l]
      redis_sets.observe_all_others [OF assms(1,4) pos dvd m assms(6) obs l _ refl refl] w(1) by simp
qed

text \<open>
  With a window of one minute: t1, t2, t1 again, t3 with its reply lost, an attempt for t4 that did not run, t4 when the
  first entry is a minute old, t5 when all entries are, t1 once more, and t2 after the key has expired.
\<close>

definition busy_account :: "observation list" where
  "busy_account = map (\<lambda>(d, i, s, out). \<lparr>os_elapsed = d, os_transfer = i, os_at = (63000000000 + s) * 1000000000, os_outcome = out\<rparr>)
     [(0, ''t1'', 0, Evaluated), (5000, ''t2'', 5, Evaluated), (0, ''t1'', 6, Evaluated), (1000, ''t3'', 7, ReplyLost []),
      (0, ''t4'', 8, EvalFailed []), (0, ''t4'', 60, Evaluated), (60000, ''t5'', 120, Evaluated), (30000, ''t1'', 150, Evaluated),
      (61000, ''t2'', 211, Evaluated)]"

theorem velocity_counts_witness:
  "fst (observe_all reference_redis reference_elapse \<lparr>ob_address = ''redis:6379'', ob_window = 60000000000\<rparr> ''acct'' busy_account
       (\<lambda>_. ([], None))) =
     [Inr 1, Inr 2, Inr 2, Inl [], Inl [], Inr 3, Inr 1, Inr 2, Inr 1]"
proof -
  have n: "NewObserver ''redis:6379'' 60000000000 = Inr \<lparr>ob_address = ''redis:6379'', ob_window = 60000000000\<rparr>"
    and a: "TrimSpace ''acct'' \<noteq> []"
    and x: "paced 63000000000000000000 busy_account" "list_all (observable 60000000000) busy_account"
    and l: "len busy_account < 2 ^ 63" and d: "(1000000 :: int) dvd sint (60000000000 :: int64)"
    by code_simp+
  have "sliding_counts 60000000000 [] busy_account = [Inr 1, Inr 2, Inr 2, Inl [], Inl [], Inr 3, Inr 1, Inr 2, Inr 1]" by code_simp
  with velocity_counts [OF reference_redis.redis_sets_axioms n d a _ x l, of "\<lambda>_. ([], None)"] show ?thesis by simp
qed

end
