(* ===== verification/Outbox_Publisher.thy ===== *)
theory Outbox_Publisher
  imports Envelope_Json Outbox_Properties "HOL-Library.Signed_Division"
begin

text \<open>
  The publisher (\<open>internal/outbox/publisher.go\<close>) over the interfaces of \<open>internal/outbox/outbox.go\<close>: its
  configuration, the delay before a retry, one batch, and the polling loop. A log line has no effect
  in the model, and the nil checks of \<open>NewPublisher\<close> are excluded by the types.

  The locale \<open>event_store\<close> states what the publisher relies on of a \<open>Store\<close>; it holds of the
  PostgreSQL repository. Durations are 64-bit words.
\<close>

section \<open>Data\<close>

record message =
  msg_Key :: string
  msg_Value :: string

record publisherConfig =
  pc_BatchSize :: int64
  pc_ClaimLease :: int64
  pc_PollInterval :: int64
  pc_BaseRetryDelay :: int64
  pc_MaxRetryDelay :: int64

record batchResult =
  br_Claimed :: int
  br_Published :: int
  br_Failed :: int

text \<open>The interface \<open>Store\<close>.\<close>

record 'w store =
  st_Claim :: "int64 \<Rightarrow> int64 \<Rightarrow> ('w, claimedEvent list) tx"
  st_MarkPublished :: "string \<Rightarrow> string \<Rightarrow> ('w, unit) tx"
  st_MarkFailed :: "string \<Rightarrow> string \<Rightarrow> int64 \<Rightarrow> string \<Rightarrow> ('w, unit) tx"

definition maxBatchSize :: int where "maxBatchSize = 100"
definition publisher_maxClaimLease :: int where "publisher_maxClaimLease = 15 * 60 * second"
definition publisher_maxRetryDelay :: int where "publisher_maxRetryDelay = 24 * 60 * 60 * second"

section \<open>Configuration and retry delay\<close>

definition validatePublisherConfig :: "publisherConfig \<Rightarrow> error option" where
  "validatePublisherConfig c =
     (if sint (pc_BatchSize c) \<le> 0 \<or> maxBatchSize < sint (pc_BatchSize c)
      then Some [Opaque ''outbox batch size'']
      else if sint (pc_ClaimLease c) < second \<or> publisher_maxClaimLease < sint (pc_ClaimLease c) \<or>
        sint (pc_ClaimLease c) mod second \<noteq> 0
      then Some [Opaque ''outbox claim lease'']
      else if sint (pc_PollInterval c) \<le> 0 then Some [Opaque ''outbox poll interval'']
      else if sint (pc_BaseRetryDelay c) < second \<or> publisher_maxRetryDelay < sint (pc_BaseRetryDelay c) \<or>
        sint (pc_BaseRetryDelay c) mod second \<noteq> 0
      then Some [Opaque ''outbox base retry delay'']
      else if sint (pc_MaxRetryDelay c) < sint (pc_BaseRetryDelay c) \<or>
        publisher_maxRetryDelay < sint (pc_MaxRetryDelay c) \<or> sint (pc_MaxRetryDelay c) mod second \<noteq> 0
      then Some [Opaque ''outbox maximum retry delay'']
      else None)"

fun doubling :: "int64 \<Rightarrow> nat \<Rightarrow> int64 \<Rightarrow> int64" where
  "doubling maxDelay 0 delay = (if delay \<le>s maxDelay then delay else maxDelay)"
| "doubling maxDelay (Suc n) delay =
     (if int64_of (sint maxDelay sdiv 2) \<le>s delay then maxDelay else doubling maxDelay n (delay * 2))"

definition retryDelay :: "publisherConfig \<Rightarrow> int32 \<Rightarrow> int64" where
  "retryDelay c previousFailures =
     doubling (pc_MaxRetryDelay c) (nat (min (sint previousFailures) 62)) (pc_BaseRetryDelay c)"

section \<open>Publication\<close>

text \<open>
  The loop of \<open>PublishBatch\<close> over the claimed events. The state is that of the store and that of the
  broker; \<open>publish\<close> is the producer and \<open>errorText\<close> the message of an error.
\<close>

definition message_of :: "envelope \<Rightarrow> string \<Rightarrow> message" where
  "message_of e encoded =
     \<lparr>msg_Key = dr_aggregateType (en_draft e) @ '':'' @ dr_aggregateID (en_draft e), msg_Value = encoded\<rparr>"

fun publish_each ::
  "publisherConfig \<Rightarrow> 'w store \<Rightarrow> (message \<Rightarrow> ('k, unit) tx) \<Rightarrow> (error \<Rightarrow> string) \<Rightarrow> batchResult \<Rightarrow> claimedEvent list
     \<Rightarrow> 'w \<times> 'k \<Rightarrow> (batchResult \<times> error option) \<times> 'w \<times> 'k" where
  "publish_each c st publish errorText result [] (w, k) = ((result, None), w, k)"
| "publish_each c st publish errorText result (stored # rest) (w, k) =
     (case json_Marshal_envelope (ce_Envelope stored) of
        Inl e \<Rightarrow> ((result, Some e), w, k)
      | Inr encoded \<Rightarrow>
          case publish (message_of (ce_Envelope stored) encoded) k of
            (Inl err, k') \<Rightarrow>
              (case st_MarkFailed st (en_eventID (ce_Envelope stored)) (ce_ClaimToken stored)
                      (retryDelay c (ce_PublishAttempts stored)) (errorText err) w of
                 (Inl markErr, w') \<Rightarrow> ((result, Some (err @ markErr)), w', k')
               | (Inr _, w') \<Rightarrow>
                   publish_each c st publish errorText (result\<lparr>br_Failed := br_Failed result + 1\<rparr>) rest (w', k'))
          | (Inr _, k') \<Rightarrow>
              (case st_MarkPublished st (en_eventID (ce_Envelope stored)) (ce_ClaimToken stored) w of
                 (Inl e, w') \<Rightarrow> ((result, Some e), w', k')
               | (Inr _, w') \<Rightarrow>
                   publish_each c st publish errorText (result\<lparr>br_Published := br_Published result + 1\<rparr>) rest (w', k')))"

definition PublishBatch ::
  "publisherConfig \<Rightarrow> 'w store \<Rightarrow> (message \<Rightarrow> ('k, unit) tx) \<Rightarrow> (error \<Rightarrow> string)
     \<Rightarrow> 'w \<times> 'k \<Rightarrow> (batchResult \<times> error option) \<times> 'w \<times> 'k" where
  "PublishBatch c st publish errorText = (\<lambda>(w, k).
     case st_Claim st (pc_BatchSize c) (pc_ClaimLease c) w of
       (Inl e, w') \<Rightarrow> ((\<lparr>br_Claimed = 0, br_Published = 0, br_Failed = 0\<rparr>, Some e), w', k)
     | (Inr claimed, w') \<Rightarrow>
         publish_each c st publish errorText \<lparr>br_Claimed = len claimed, br_Published = 0, br_Failed = 0\<rparr> claimed (w', k))"

text \<open>
  The polling loop from its \<open>i\<close>-th iteration on: \<open>cancelled i\<close> and \<open>stopped i\<close> say whether the context is
  done when the iteration begins and while it waits for its timer, and the store and the producer
  of an iteration may behave differently from those of another. Every call of the store and of the producer returns
  here, with an error if need be; a loop that is never cancelled does not return, which is the value \<open>None\<close>.
\<close>

partial_function (option) Run ::
  "publisherConfig \<Rightarrow> (nat \<Rightarrow> 'w store) \<Rightarrow> (nat \<Rightarrow> message \<Rightarrow> ('k, unit) tx) \<Rightarrow> (error \<Rightarrow> string)
     \<Rightarrow> (nat \<Rightarrow> bool) \<Rightarrow> (nat \<Rightarrow> bool) \<Rightarrow> nat \<Rightarrow> 'w \<times> 'k \<Rightarrow> (error option \<times> 'w \<times> 'k) option" where
  "Run c st publish errorText cancelled stopped i s =
     (if cancelled i then Some (None, s)
      else case PublishBatch c (st i) (publish i) errorText s of
        ((result, Some e), s') \<Rightarrow> Some (Some e, s')
      | ((result, None), s') \<Rightarrow>
          if 0 < br_Claimed result then Run c st publish errorText cancelled stopped (Suc i) s'
          else if stopped i then Some (None, s')
          else Run c st publish errorText cancelled stopped (Suc i) s')"

declare Run.simps [code]

section \<open>The retry delay\<close>

definition config_ok :: "publisherConfig \<Rightarrow> bool" where
  "config_ok c \<longleftrightarrow> validatePublisherConfig c = None"

lemma config_ok_iff:
  "config_ok c \<longleftrightarrow>
     valid_claim (pc_BatchSize c) (pc_ClaimLease c) \<and> 0 < sint (pc_PollInterval c) \<and>
     second \<le> sint (pc_BaseRetryDelay c) \<and> sint (pc_BaseRetryDelay c) mod second = 0 \<and>
     sint (pc_BaseRetryDelay c) \<le> sint (pc_MaxRetryDelay c) \<and> sint (pc_MaxRetryDelay c) \<le> 86400 * second \<and>
     sint (pc_MaxRetryDelay c) mod second = 0"
  by (auto simp: config_ok_def validatePublisherConfig_def valid_claim_def maxBatchSize_def
      publisher_maxClaimLease_def publisher_maxRetryDelay_def)

text \<open>Doubling does not wrap, and stopping at half of the maximum is the same as cutting the product off.\<close>

lemma sint_half: "0 \<le> sint (m :: int64) \<Longrightarrow> sint (int64_of (sint m sdiv 2)) = sint m div 2"
proof -
  assume "0 \<le> sint m"
  then have "sint m sdiv 2 = sint m div 2" by (cases "sint m = 0") (simp_all add: signed_divide_int_def)
  moreover have "in_int64 (sint m div 2)" using sint_bounds [of m] unfolding in_int64_def by linarith
  ultimately show ?thesis by simp
qed

lemma sint_twice: "0 \<le> sint d \<Longrightarrow> sint d \<le> 86400000000000 \<Longrightarrow> sint (d * 2 :: int64) = 2 * sint d"
proof -
  assume d: "0 \<le> sint d" "sint d \<le> 86400000000000"
  have "sint (d + d) = sint d + sint d" using d by (intro sint_add_exact) (simp add: in_int64_def)
  then show ?thesis by (simp add: mult_2_right)
qed

lemma doubling_eq:
  assumes "1 \<le> sint d" "sint d \<le> sint m" "sint m \<le> 86400000000000" "even (sint m)"
  shows "sint (doubling m n d) = min (sint d * 2 ^ n) (sint m)"
  using assms
proof (induction n arbitrary: d)
  case 0
  then show ?case by (auto simp: word_sle_eq)
next
  case (Suc n)
  show ?case
  proof (cases "sint m div 2 \<le> sint d")
    case True
    then have "sint m \<le> sint d * 2" using Suc.prems(4) by presburger
    also have "... \<le> sint d * 2 ^ Suc n" using Suc.prems(1) by (intro mult_left_mono) simp_all
    finally have "sint m \<le> sint d * 2 ^ Suc n" .
    with True Suc.prems show ?thesis by (simp add: word_sle_eq sint_half)
  next
    case False
    then have "sint (d * 2) = 2 * sint d" "sint (d * 2) \<le> sint m" using Suc.prems by (simp_all add: sint_twice)
    then show ?thesis using False Suc.IH [of "d * 2"] Suc.prems by (simp add: word_sle_eq sint_half)
  qed
qed


lemma retryDelay_eq:
  assumes "config_ok c" "0 \<le> sint n"
  shows "sint (retryDelay c n) =
    min (sint (pc_BaseRetryDelay c) * 2 ^ nat (sint n)) (sint (pc_MaxRetryDelay c))"
proof -
  let ?b = "sint (pc_BaseRetryDelay c)" and ?m = "sint (pc_MaxRetryDelay c)"
  have c: "1000000000 \<le> ?b" "?b \<le> ?m" "?m \<le> 86400000000000" "?m mod 1000000000 = 0"
    using assms(1) by (simp_all add: config_ok_iff second_def)
  have "2 dvd (1000000000 :: int)" "1000000000 dvd ?m" using c(4) by (simp, auto)
  then have "even ?m" by (rule dvd_trans)
  with c have d: "sint (retryDelay c n) = min (?b * 2 ^ nat (min (sint n) 62)) ?m"
    by (simp add: retryDelay_def doubling_eq)
  have big: "?m \<le> ?b * 2 ^ k" if "62 \<le> k" for k
  proof -
    have "(2 :: int) ^ 62 \<le> 2 ^ k" using that by (rule power_increasing) simp
    then have "1000000000 * 2 ^ 62 \<le> ?b * 2 ^ k" using c(1) by (intro mult_mono) simp_all
    with c(3) show ?thesis by simp
  qed
  show ?thesis
  proof (cases "sint n \<le> 62")
    case True
    with d show ?thesis by (simp add: min_def)
  next
    case False
    then have "62 \<le> nat (sint n)" by simp
    with d big [of 62] big [of "nat (sint n)"] False show ?thesis by simp
  qed
qed

lemma retryDelay_valid:
  assumes "config_ok c" "0 \<le> sint n"
  shows "valid_delay (retryDelay c n)"
proof -
  have "(sint (pc_BaseRetryDelay c) * 2 ^ k) mod second = 0" for k
    using assms(1) by (simp add: config_ok_iff mod_mult_left_eq [symmetric])
  moreover have "0 \<le> sint (pc_BaseRetryDelay c)" using assms(1) by (simp add: config_ok_iff second_def)
  ultimately show ?thesis
    using assms(1) unfolding valid_delay_def retryDelay_eq [OF assms] by (auto simp: config_ok_iff min_def second_def)
qed

section \<open>The contract of a store\<close>

definition claim_id :: "claimedEvent \<Rightarrow> string" where
  "claim_id c = en_eventID (ce_Envelope c)"

text \<open>
  What the producer acknowledges: the events of a batch up to the first one that cannot be encoded,
  each with whether its publication was acknowledged.
\<close>

fun deliveries ::
  "(message \<Rightarrow> ('k, unit) tx) \<Rightarrow> claimedEvent list \<Rightarrow> 'k \<Rightarrow> (claimedEvent \<times> bool) list \<times> 'k" where
  "deliveries publish [] k = ([], k)"
| "deliveries publish (c # cs) k =
     (case json_Marshal_envelope (ce_Envelope c) of
        Inl _ \<Rightarrow> ([], k)
      | Inr encoded \<Rightarrow>
          (case publish (message_of (ce_Envelope c) encoded) k of (r, k') \<Rightarrow>
           case deliveries publish cs k' of (acks, k'') \<Rightarrow>
             ((c, case r of Inl _ \<Rightarrow> False | Inr _ \<Rightarrow> True) # acks, k'')))"

text \<open>
  The promises of a \<open>Store\<close> that a publisher relies on: \<open>holder w i\<close> is the token under which the
  unpublished event \<open>i\<close> is leased, and \<open>published w\<close> the identifiers of the published events.
\<close>

locale event_store =
  fixes st :: "'w store"
    and inv :: "'w \<Rightarrow> bool"
    and holder :: "'w \<Rightarrow> string \<Rightarrow> string option"
    and published :: "'w \<Rightarrow> string set"
  assumes claim_leases: "inv w \<Longrightarrow> valid_claim n l \<Longrightarrow>
      \<exists>cs w'. st_Claim st n l w = (Inr cs, w') \<and> inv w' \<and> published w' = published w \<and>
        distinct (map claim_id cs) \<and>
        (\<forall>c \<in> set cs. holder w' (claim_id c) = Some (ce_ClaimToken c) \<and> 0 \<le> sint (ce_PublishAttempts c))"
    and markPublished_holder: "inv w \<Longrightarrow> holder w i = Some t \<Longrightarrow>
      \<exists>w'. st_MarkPublished st i t w = (Inr (), w') \<and> inv w' \<and> published w' = insert i (published w) \<and>
        (\<forall>j. j \<noteq> i \<longrightarrow> holder w' j = holder w j)"
    and markFailed_holder: "inv w \<Longrightarrow> holder w i = Some t \<Longrightarrow> valid_delay d \<Longrightarrow>
      \<exists>w'. st_MarkFailed st i t d s w = (Inr (), w') \<and> inv w' \<and> published w' = published w \<and>
        (\<forall>j. j \<noteq> i \<longrightarrow> holder w' j = holder w j)"
begin

lemma publish_each_deliveries:
  assumes "config_ok c" "inv w" "distinct (map claim_id cs)"
    and "\<forall>e \<in> set cs. holder w (claim_id e) = Some (ce_ClaimToken e) \<and> 0 \<le> sint (ce_PublishAttempts e)"
    and "deliveries publish cs k = (acks, k')"
  shows "\<exists>err w'. publish_each c st publish errorText result cs (w, k) =
      ((result\<lparr>br_Published := br_Published result + len (filter snd acks),
               br_Failed := br_Failed result + len (filter (Not \<circ> snd) acks)\<rparr>, err), w', k') \<and>
    inv w' \<and> published w' = published w \<union> claim_id ` fst ` set (filter snd acks) \<and>
    (err = None \<longleftrightarrow> length acks = length cs)"
  using assms(2-5)
proof (induction cs arbitrary: w k result acks)
  case Nil
  then show ?case by simp
next
  case (Cons e cs)
  show ?case
  proof (cases "json_Marshal_envelope (ce_Envelope e)")
    case (Inl err)
    with Cons.prems show ?thesis by simp
  next
    case (Inr encoded)
    obtain r k1 where r: "publish (message_of (ce_Envelope e) encoded) k = (r, k1)" by fastforce
    obtain acks' where a: "deliveries publish cs k1 = (acks', k')"
      "acks = (e, case r of Inl _ \<Rightarrow> False | Inr _ \<Rightarrow> True) # acks'"
      using Cons.prems(4) Inr r by (auto split: prod.splits)
    have h: "holder w (en_eventID (ce_Envelope e)) = Some (ce_ClaimToken e)" "0 \<le> sint (ce_PublishAttempts e)"
      using Cons.prems(3) by (simp_all add: claim_id_def)
    have rest: "\<forall>x \<in> set cs. holder w' (claim_id x) = Some (ce_ClaimToken x) \<and> 0 \<le> sint (ce_PublishAttempts x)"
      if "\<forall>j. j \<noteq> claim_id e \<longrightarrow> holder w' j = holder w j" for w'
      using that Cons.prems(2,3) by (metis (no_types, lifting) distinct.simps(2) image_eqI list.set_intros(2) list.set_map list.simps(9))
    show ?thesis
    proof (cases r)
      case (Inl err)
      have "valid_delay (retryDelay c (ce_PublishAttempts e))" by (rule retryDelay_valid [OF assms(1) h(2)])
      from markFailed_holder [OF Cons.prems(1) h(1) this] obtain w' where w':
        "st_MarkFailed st (en_eventID (ce_Envelope e)) (ce_ClaimToken e) (retryDelay c (ce_PublishAttempts e)) (errorText err) w = (Inr (), w')"
        "inv w'" "published w' = published w" "\<forall>j. j \<noteq> claim_id e \<longrightarrow> holder w' j = holder w j"
        unfolding claim_id_def by blast
      have d: "distinct (map claim_id cs)" using Cons.prems(2) by simp
      from Cons.IH [OF w'(2) d rest [OF w'(4)] a(1), of "result\<lparr>br_Failed := br_Failed result + 1\<rparr>"]
      show ?thesis using Inr r Inl w' a(2) by (auto simp: \<open>json_Marshal_envelope (ce_Envelope e) = Inr encoded\<close>)
    next
      case (Inr u)
      from markPublished_holder [OF Cons.prems(1) h(1)] obtain w' where w':
        "st_MarkPublished st (en_eventID (ce_Envelope e)) (ce_ClaimToken e) w = (Inr (), w')"
        "inv w'" "published w' = insert (claim_id e) (published w)" "\<forall>j. j \<noteq> claim_id e \<longrightarrow> holder w' j = holder w j"
        unfolding claim_id_def by blast
      have d: "distinct (map claim_id cs)" using Cons.prems(2) by simp
      from Cons.IH [OF w'(2) d rest [OF w'(4)] a(1), of "result\<lparr>br_Published := br_Published result + 1\<rparr>"]
      show ?thesis using r Inr w' a(2) by (auto simp: \<open>json_Marshal_envelope (ce_Envelope e) = Inr encoded\<close>)
    qed
  qed
qed

lemma PublishBatch_deliveries:
  assumes "config_ok c" "inv w"
  shows "\<exists>claimed w1 acks k' err w'. st_Claim st (pc_BatchSize c) (pc_ClaimLease c) w = (Inr claimed, w1) \<and>
    deliveries publish claimed k = (acks, k') \<and>
    PublishBatch c st publish errorText (w, k) =
      ((\<lparr>br_Claimed = len claimed, br_Published = len (filter snd acks),
         br_Failed = len (filter (Not \<circ> snd) acks)\<rparr>, err), w', k') \<and>
    inv w' \<and> published w' = published w \<union> claim_id ` fst ` set (filter snd acks) \<and>
    (err = None \<longleftrightarrow> length acks = length claimed)"
proof -
  have "valid_claim (pc_BatchSize c) (pc_ClaimLease c)" using assms(1) by (simp add: config_ok_iff)
  from claim_leases [OF assms(2) this] obtain cs w1 where cs:
    "st_Claim st (pc_BatchSize c) (pc_ClaimLease c) w = (Inr cs, w1)" "inv w1" "published w1 = published w"
    "distinct (map claim_id cs)"
    "\<forall>e \<in> set cs. holder w1 (claim_id e) = Some (ce_ClaimToken e) \<and> 0 \<le> sint (ce_PublishAttempts e)"
    by blast
  obtain acks k' where a: "deliveries publish cs k = (acks, k')" by fastforce
  from publish_each_deliveries [OF assms(1) cs(2,4,5) a, of errorText "\<lparr>br_Claimed = len cs, br_Published = 0, br_Failed = 0\<rparr>"]
  obtain err w' where "PublishBatch c st publish errorText (w, k) =
      ((\<lparr>br_Claimed = len cs, br_Published = len (filter snd acks),
         br_Failed = len (filter (Not \<circ> snd) acks)\<rparr>, err), w', k')"
    "inv w'" "published w' = published w \<union> claim_id ` fst ` set (filter snd acks)"
    "err = None \<longleftrightarrow> length acks = length cs"
    using cs(1,3) by (auto simp: PublishBatch_def)
  with cs(1) a show ?thesis by blast
qed

end

section \<open>The PostgreSQL outbox as a store\<close>

definition repository_store ::
  "(string \<Rightarrow> uuid option) \<Rightarrow> 8 word list \<Rightarrow> (uuid \<Rightarrow> bool) \<Rightarrow> database store" where
  "repository_store scan bytes locked =
     \<lparr>st_Claim = Claim (Inr bytes) quiet locked, st_MarkPublished = MarkPublished scan quiet,
      st_MarkFailed = MarkFailed scan quiet\<rparr>"

definition outbox_holder :: "database \<Rightarrow> string \<Rightarrow> string option" where
  "outbox_holder db i =
     (case find (\<lambda>e. o_event_id e = i \<and> o_published_at e = None) (outbox_events db) of
        None \<Rightarrow> None | Some e \<Rightarrow> o_claimed_by e)"

definition outbox_published :: "database \<Rightarrow> string set" where
  "outbox_published db = o_event_id ` set (filter (\<lambda>e. o_published_at e \<noteq> None) (outbox_events db))"

lemma find_key: "distinct (map f xs) \<Longrightarrow> x \<in> set xs \<Longrightarrow> P x \<Longrightarrow> find (\<lambda>y. f y = f x \<and> P y) xs = Some x"
  by (induction xs) (auto simp: image_iff)

lemma outbox_holder_Some:
  "outbox_holder db i = Some t \<Longrightarrow> \<exists>e \<in> set (outbox_events db). claimed_as i t e"
  by (auto simp: outbox_holder_def claimed_as_def find_Some_iff split: option.splits)

lemma outbox_holder_row:
  assumes "outbox_ok db" "e \<in> set (outbox_events db)" "o_published_at e = None"
  shows "outbox_holder db (o_event_id e) = o_claimed_by e"
  using find_key [of o_event_id "outbox_events db" e "\<lambda>e. o_published_at e = None"] assms
  by (simp add: outbox_holder_def outbox_ok_def)

lemma outbox_holder_other:
  assumes "\<And>e. same_content e (new e)" "\<And>e. hit e \<Longrightarrow> o_event_id e = i" "j \<noteq> i"
  shows "outbox_holder (updated hit new db) j = outbox_holder db j"
proof -
  let ?f = "\<lambda>e. if hit e then new e else e"
  have "find (\<lambda>e. o_event_id e = j \<and> o_published_at e = None) (map ?f es) =
      find (\<lambda>e. o_event_id e = j \<and> o_published_at e = None) es" for es
  proof (induction es)
    case (Cons e es)
    have "o_event_id (new e) = o_event_id e" using assms(1) [of e] by (simp add: same_content_def)
    with Cons assms(2,3) show ?case by auto
  qed simp
  then show ?thesis by (simp add: outbox_holder_def updated_def)
qed

lemma outbox_published_updated:
  assumes "\<And>e. same_content e (new e)"
  shows "outbox_published (updated hit new db) =
    {o_event_id e | e. e \<in> set (outbox_events db) \<and> o_published_at (if hit e then new e else e) \<noteq> None}"
proof -
  define f where "f = (\<lambda>e. if hit e then new e else e)"
  have id: "o_event_id (f e) = o_event_id e" for e using assms [of e] by (simp add: f_def same_content_def)
  have "set (filter (\<lambda>e. o_published_at e \<noteq> None) (map f es)) = f ` {e \<in> set es. o_published_at (f e) \<noteq> None}" for es
    by auto
  then have "outbox_published (updated hit new db) = o_event_id ` f ` {e \<in> set (outbox_events db). o_published_at (f e) \<noteq> None}"
    unfolding outbox_published_def updated_def f_def [symmetric] by simp
  moreover have "(if hit e then new e else e) = f e" for e by (simp add: f_def)
  ultimately show ?thesis by (auto simp: image_image id)
qed

locale claim_source = uuid_scanner scan
  for scan :: "string \<Rightarrow> uuid option" +
  fixes bytes :: "8 word list"
  assumes random_bytes: "length bytes = 16"
begin

lemma completes:
  assumes "outbox_inv db" "outbox_holder db i = Some t" "valid_delay d"
  shows "MarkPublished scan quiet i t db = (Inr (), updated (claimed_as i t) (published_row (clock db)) db)"
    "MarkFailed scan quiet i t d s db = (Inr (), updated (claimed_as i t)
       (failed_row (clock db) (sint d div second) (sanitizeDiagnostic s)) db)"
    "outbox_inv (updated (claimed_as i t) (published_row (clock db)) db)"
    "outbox_inv (updated (claimed_as i t) (failed_row (clock db) (sint d div second) (sanitizeDiagnostic s)) db)"
proof -
  obtain e where e: "e \<in> set (outbox_events db)" "claimed_as i t e" using outbox_holder_Some [OF assms(2)] by blast
  then have "isCanonicalUUID i" "isCanonicalUUID t"
    using assms(1) by (auto simp: outbox_inv_def row_readable_def claimed_as_def)
  then have p: "parseClaimIdentity scan i t = Inr (i, t)" by (simp add: parseClaimIdentity_Inr scan_canonical)
  have "0 \<le> sint d div second" using assms(3) by (simp add: valid_delay_def second_def pos_imp_zdiv_nonneg_iff)
  then have c: "list_all snd (outbox_checks (published_row (clock db) x))"
      "list_all snd (outbox_checks (failed_row (clock db) (sint d div second) (sanitizeDiagnostic s) x))"
    if "x \<in> set (outbox_events db)" "claimed_as i t x" for x
    using finished_checks [OF assms(1) that] by blast+
  show "MarkPublished scan quiet i t db = (Inr (), updated (claimed_as i t) (published_row (clock db)) db)"
    using exec_one_in_inv [OF assms(1) same_content_rows(3) c(1)] e by (auto simp: MarkPublished_def p)
  show "MarkFailed scan quiet i t d s db = (Inr (), updated (claimed_as i t)
       (failed_row (clock db) (sint d div second) (sanitizeDiagnostic s)) db)"
    using exec_one_in_inv [OF assms(1) same_content_rows(4) c(2)] e assms(3) unfolding valid_delay_iff
    by (auto simp: MarkFailed_def p)
  show "outbox_inv (updated (claimed_as i t) (published_row (clock db)) db)"
    by (rule update_in_inv(2) [OF assms(1) same_content_rows(3) c(1)]) (simp_all add: published_row_def)
  show "outbox_inv (updated (claimed_as i t) (failed_row (clock db) (sint d div second) (sanitizeDiagnostic s)) db)"
    by (rule update_in_inv(2) [OF assms(1) same_content_rows(4) c(2)]) (simp_all add: failed_row_def)
qed

lemma claims:
  assumes "outbox_inv db" "valid_claim n l"
  shows "\<exists>cs db'. Claim (Inr bytes) quiet locked n l db = (Inr cs, db') \<and> outbox_inv db' \<and>
    outbox_published db' = outbox_published db \<and> distinct (map claim_id cs) \<and>
    (\<forall>c \<in> set cs. outbox_holder db' (claim_id c) = Some (ce_ClaimToken c) \<and> 0 \<le> sint (ce_PublishAttempts c))"
proof -
  have ok: "outbox_ok db" using assms(1) by (simp add: outbox_inv_def)
  obtain token where t: "newClaimToken (Inr bytes) = Inr token" using newClaimToken_eq [OF random_bytes] by blast
  have can: "isCanonicalUUID token" using newClaimToken_canonical [OF t] random_bytes by simp
  let ?cs = "claimed_events token locked (sint n) db" and ?ids = "candidate_ids locked (sint n) db"
  let ?db' = "leased_db locked (sint n) token (sint l div second) db"
  have run: "Claim (Inr bytes) quiet locked n l db = (Inr ?cs, ?db')"
    by (simp add: Claim_in_inv [OF assms t] run_tx_quiet)
  have inv: "outbox_inv ?db'" by (rule claimEventsQuery_in_inv(2) [OF assms(1) can])
  have pub: "outbox_published ?db' = outbox_published db"
    unfolding leased_db_def outbox_published_updated [OF same_content_rows(2)]
    by (auto simp: outbox_published_def leased_row_def split: if_splits)
  have id: "claim_id \<circ> row_claim token = o_event_id" by (simp add: fun_eq_iff claim_id_def row_claim_def)
  have "distinct (map o_event_id (filter (\<lambda>e. o_event_id e \<in> ?ids) (outbox_events db)))"
    using ok by (simp add: outbox_ok_def distinct_map_filter)
  then have "distinct (map claim_id (map (row_claim token) (filter (\<lambda>e. o_event_id e \<in> ?ids) (outbox_events db))))"
    by (simp add: id)
  then have dist: "distinct (map claim_id ?cs)"
    unfolding claimed_events_def distinct_map [of claim_id] set_sort distinct_sort .
  have "outbox_holder ?db' (claim_id c) = Some (ce_ClaimToken c) \<and> 0 \<le> sint (ce_PublishAttempts c)" if "c \<in> set ?cs" for c
  proof -
    obtain e where e: "e \<in> set (candidates locked (sint n) db)" "c = row_claim token e"
      using \<open>c \<in> set ?cs\<close> unfolding claimed_events_facts(3) [OF ok] by blast
    then have e': "e \<in> set (outbox_events db)" "o_published_at e = None" "o_event_id e \<in> ?ids"
      using candidates_claimable [OF e(1)] by (simp_all add: claimable_def candidate_ids_def)
    let ?e = "leased_row token (clock db + sint l div second * second) e"
    have "?e \<in> set (outbox_events ?db')"
      using updated_row [OF e'(1)] e'(3) unfolding leased_db_def by (metis (no_types, lifting))
    then have "outbox_holder ?db' (o_event_id ?e) = o_claimed_by ?e"
      using inv e'(2) by (intro outbox_holder_row) (auto simp: outbox_inv_def leased_row_def)
    moreover have "0 \<le> sint (o_publish_attempts e)"
      using ok e'(1) by (auto simp: outbox_ok_def outbox_checks_def)
    ultimately show ?thesis by (simp add: e(2) claim_id_def row_claim_def leased_row_def)
  qed
  with run inv pub dist show ?thesis by blast
qed

end

sublocale claim_source \<subseteq> outbox_store: event_store "repository_store scan bytes locked" outbox_inv outbox_holder outbox_published
  for locked
proof unfold_locales
  fix w :: database and n l :: int64
  assume "outbox_inv w" "valid_claim n l"
  then show "\<exists>cs w'. st_Claim (repository_store scan bytes locked) n l w = (Inr cs, w') \<and> outbox_inv w' \<and>
      outbox_published w' = outbox_published w \<and> distinct (map claim_id cs) \<and>
      (\<forall>c \<in> set cs. outbox_holder w' (claim_id c) = Some (ce_ClaimToken c) \<and> 0 \<le> sint (ce_PublishAttempts c))"
    using claims by (simp add: repository_store_def)
next
  fix w :: database and i t :: string
  assume w: "outbox_inv w" "outbox_holder w i = Some t"
  have d: "valid_delay 0" by (simp add: valid_delay_def second_def)
  let ?w = "updated (claimed_as i t) (published_row (clock w)) w"
  have "outbox_published ?w = insert i (outbox_published w)"
    using outbox_holder_Some [OF w(2)] unfolding outbox_published_updated [OF same_content_rows(3)]
    by (auto simp: outbox_published_def published_row_def claimed_as_def split: if_splits)
  moreover have "outbox_holder ?w j = outbox_holder w j" if "j \<noteq> i" for j
    using that by (intro outbox_holder_other same_content_rows) (simp_all add: claimed_as_def)
  ultimately show "\<exists>w'. st_MarkPublished (repository_store scan bytes locked) i t w = (Inr (), w') \<and> outbox_inv w' \<and>
      outbox_published w' = insert i (outbox_published w) \<and> (\<forall>j. j \<noteq> i \<longrightarrow> outbox_holder w' j = outbox_holder w j)"
    using completes(1,3) [OF w d] by (simp add: repository_store_def)
next
  fix w :: database and i t s :: string and d :: int64
  assume w: "outbox_inv w" "outbox_holder w i = Some t" "valid_delay d"
  let ?w = "updated (claimed_as i t) (failed_row (clock w) (sint d div second) (sanitizeDiagnostic s)) w"
  have "outbox_published ?w = outbox_published w"
    unfolding outbox_published_updated [OF same_content_rows(4)]
    by (auto simp: outbox_published_def failed_row_def claimed_as_def split: if_splits)
  moreover have "outbox_holder ?w j = outbox_holder w j" if "j \<noteq> i" for j
    using that by (intro outbox_holder_other same_content_rows) (simp_all add: claimed_as_def)
  ultimately show "\<exists>w'. st_MarkFailed (repository_store scan bytes locked) i t d s w = (Inr (), w') \<and> outbox_inv w' \<and>
      outbox_published w' = outbox_published w \<and> (\<forall>j. j \<noteq> i \<longrightarrow> outbox_holder w' j = outbox_holder w j)"
    using completes(2,4) [OF w] by (simp add: repository_store_def)
qed

interpretation sample_source: claim_source reference_scan sample_bytes
  by unfold_locales (rule sample_canonical)

context claim_source
begin

lemma PublishBatch_repository:
  assumes "config_ok c" "outbox_inv db"
  shows "\<exists>claimed leased acks k' err db'.
    Claim (Inr bytes) quiet locked (pc_BatchSize c) (pc_ClaimLease c) db = (Inr claimed, leased) \<and>
    deliveries publish claimed k = (acks, k') \<and>
    PublishBatch c (repository_store scan bytes locked) publish errorText (db, k) =
      ((\<lparr>br_Claimed = len claimed, br_Published = len (filter snd acks),
         br_Failed = len (filter (Not \<circ> snd) acks)\<rparr>, err), db', k') \<and>
    outbox_inv db' \<and> outbox_published db' = outbox_published db \<union> claim_id ` fst ` set (filter snd acks) \<and>
    (err = None \<longleftrightarrow> length acks = length claimed)"
  using outbox_store.PublishBatch_deliveries [OF assms, of locked publish k errorText]
  by (simp add: repository_store_def)

end

section \<open>Properties\<close>

text \<open>
  C29: A batch publishes what the broker acknowledged and nothing else. With a valid configuration, an
  undisturbed connection and no other publisher between the transactions of the batch, on every reachable outbox and
  for any behaviour of the producer, the batch
  hands the claimed events to the producer one by one in the order of the claim; exactly the
  acknowledged ones become published, the counters say how many events were claimed, acknowledged
  and refused, and an error is returned if and only if some claimed event could not be encoded.
\<close>

theorem PublishBatch_exact:
  assumes "jsonb_column jsonb" "reachable outbox_init (outbox_move jsonb tz scan) db"
    and "uuid_scanner scan" "length bytes = 16" "validatePublisherConfig c = None"
  shows "\<exists>claimed leased acks k' err db'.
    Claim (Inr bytes) quiet locked (pc_BatchSize c) (pc_ClaimLease c) db = (Inr claimed, leased) \<and>
    deliveries publish claimed k = (acks, k') \<and>
    PublishBatch c (repository_store scan bytes locked) publish errorText (db, k) =
      ((\<lparr>br_Claimed = len claimed, br_Published = len (filter snd acks),
         br_Failed = len (filter (Not \<circ> snd) acks)\<rparr>, err), db', k') \<and>
    outbox_inv db' \<and> outbox_published db' = outbox_published db \<union> claim_id ` fst ` set (filter snd acks) \<and>
    (err = None \<longleftrightarrow> length acks = length claimed)"
proof -
  have src: "claim_source scan bytes" by (intro claim_source.intro claim_source_axioms.intro assms(3,4))
  have inv: "outbox_inv db" by (rule jsonb_column.reachable_outbox [OF assms(1,2)])
  have ok: "config_ok c" using assms(5) by (simp add: config_ok_def)
  show ?thesis by (rule claim_source.PublishBatch_repository [OF src ok inv])
qed

text \<open>
  C30: The retry delay is the base delay doubled per previous failure and cut off at the maximum. The
  64-bit computation neither wraps nor depends on the bound of its loop, and the result is always
  a delay that \<open>MarkFailed\<close> accepts.
\<close>

theorem retryDelay_exponential:
  assumes "validatePublisherConfig c = None" "0 \<le> sint previousFailures"
  shows "sint (retryDelay c previousFailures) =
      min (sint (pc_BaseRetryDelay c) * 2 ^ nat (sint previousFailures)) (sint (pc_MaxRetryDelay c)) \<and>
    valid_delay (retryDelay c previousFailures)"
  using assms retryDelay_eq retryDelay_valid by (simp add: config_ok_def)

definition sample_config :: publisherConfig where
  "sample_config =
     \<lparr>pc_BatchSize = 10, pc_ClaimLease = 60000000000, pc_PollInterval = 1000000000,
      pc_BaseRetryDelay = 1000000000, pc_MaxRetryDelay = 60000000000\<rparr>"

lemma sample_config_valid: "validatePublisherConfig sample_config = None"
  by code_simp

theorem PublishBatch_exact_witness:
  "\<exists>claimed leased acks k' err db'.
    Claim (Inr sample_bytes) quiet (\<lambda>_. False) (pc_BatchSize sample_config) (pc_ClaimLease sample_config) sample_outbox =
      (Inr claimed, leased) \<and>
    deliveries (\<lambda>m log. (Inr (), m # log)) claimed [] = (acks, k') \<and>
    PublishBatch sample_config (repository_store reference_scan sample_bytes (\<lambda>_. False)) (\<lambda>m log. (Inr (), m # log))
      (\<lambda>_. []) (sample_outbox, []) =
      ((\<lparr>br_Claimed = len claimed, br_Published = len (filter snd acks),
         br_Failed = len (filter (Not \<circ> snd) acks)\<rparr>, err), db', k') \<and>
    outbox_inv db' \<and>
    outbox_published db' = outbox_published sample_outbox \<union> claim_id ` fst ` set (filter snd acks) \<and>
    (err = None \<longleftrightarrow> length acks = length claimed)"
  by (rule PublishBatch_exact [OF reference_column sample_reachable(2) reference.uuid_scanner_axioms
        sample_canonical(4) sample_config_valid])

theorem retryDelay_exponential_witness:
  "sint (retryDelay sample_config 3) = 8000000000 \<and> sint (retryDelay sample_config 2147483647) = 60000000000"
proof -
  have s: "0 \<le> sint (3 :: int32)" "0 \<le> sint (2147483647 :: int32)" by code_simp+
  have "sint (retryDelay sample_config 3) =
      min (sint (pc_BaseRetryDelay sample_config) * 2 ^ nat (sint (3 :: int32))) (sint (pc_MaxRetryDelay sample_config))"
    using retryDelay_exponential [OF sample_config_valid s(1)] by (rule conjunct1)
  also have "... = 8000000000" by code_simp
  finally have "sint (retryDelay sample_config 3) = 8000000000" .
  moreover have "sint (retryDelay sample_config 2147483647) = 60000000000" by code_simp
  ultimately show ?thesis by (rule conjI)
qed

end
