(* ===== verification/Process_Config.thy ===== *)
theory Process_Config
  imports Environment Velocity Review_Http Outbox_Publisher Consume_Loop
begin

text \<open>
  The processes: their configuration from the environment and their start, in the packages \<open>walletapi\<close>,
  \<open>riskworker\<close>, \<open>transactionworker\<close> and \<open>outboxpublisher\<close> under \<open>internal/app\<close>, with the Kafka producer
  (\<open>internal/outbox/kafka/producer.go\<close>) and the main function of the risk worker.

  \<open>os.Getenv\<close> is a function that is empty for an unset variable. Connecting to PostgreSQL and Kafka succeeds or fails as
  the record \<open>startup\<close> says; a nil logger is excluded by the types.
\<close>

definition config_error :: "string \<Rightarrow> 'a result" where
  "config_error message = Inl [Opaque message]"

definition or_default :: "string \<Rightarrow> string \<Rightarrow> string" where
  "or_default v d = (let v = TrimSpace v in if v = [] then d else v)"

section \<open>Risk worker\<close>

definition parsePositiveInt64 :: "string \<Rightarrow> string \<Rightarrow> int64 result" where
  "parsePositiveInt64 name v =
     (let v = TrimSpace v in
      if v = [] then config_error (name @ '' is required'')
      else case ParseInt v of
        None \<Rightarrow> config_error (''parsing '' @ name)
      | Some parsed \<Rightarrow> if parsed \<le>s 0 then config_error (''parsing '' @ name) else Inr parsed)"

definition parseNonNegativeInt :: "string \<Rightarrow> string \<Rightarrow> int64 result" where
  "parseNonNegativeInt name v =
     (let v = TrimSpace v in
      if v = [] then Inr 0
      else case ParseInt v of
        None \<Rightarrow> config_error (''parsing '' @ name)
      | Some parsed \<Rightarrow> if parsed <s 0 then config_error (''parsing '' @ name) else Inr parsed)"

text \<open>The parameters of a policy on US dollars.\<close>

definition usd_policy :: "string \<Rightarrow> int64 \<Rightarrow> int64 \<Rightarrow> int64 \<Rightarrow> Policy result" where
  "usd_policy version review decline velocity =
     andThen (ParseCurrency ''USD'') (\<lambda>currency.
     NewPolicy
       \<lparr>pp_Version = version,
        pp_Thresholds =
          [\<lparr>th_Currency = currency, th_ReviewAmountMinor = review, th_DeclineAmountMinor = decline,
            th_VelocityReviewTransferCount = velocity\<rparr>]\<rparr>)"

definition policyFromEnv :: "environment \<Rightarrow> Policy result" where
  "policyFromEnv env =
     (let version = TrimSpace (env ''RISK_POLICY_VERSION'') in
      andThen (parsePositiveInt64 ''RISK_REVIEW_AMOUNT_USD_MINOR'' (env ''RISK_REVIEW_AMOUNT_USD_MINOR'')) (\<lambda>reviewAmount.
      andThen (parsePositiveInt64 ''RISK_DECLINE_AMOUNT_USD_MINOR'' (env ''RISK_DECLINE_AMOUNT_USD_MINOR'')) (\<lambda>declineAmount.
      andThen (parseNonNegativeInt ''RISK_VELOCITY_REVIEW_TRANSFER_COUNT'' (env ''RISK_VELOCITY_REVIEW_TRANSFER_COUNT''))
        (\<lambda>velocityReviewCount.
      usd_policy version reviewAmount declineAmount velocityReviewCount))))"

record policyParam =
  pm_Version :: string
  pm_ReviewUSD :: int64
  pm_DeclineUSD :: int64
  pm_Velocity :: int64

text \<open>\<open>json.Unmarshal\<close>: members that name no field are skipped.\<close>

fun decode_lenient ::
  "string list \<Rightarrow> (string \<Rightarrow> 'v \<Rightarrow> 'p \<Rightarrow> 'p option) \<Rightarrow> (string \<times> 'v) list \<Rightarrow> 'p \<Rightarrow> 'p option" where
  "decode_lenient names put [] p = Some p"
| "decode_lenient names put ((k, v) # kvs) p =
     (case field_of names k of
        None \<Rightarrow> decode_lenient names put kvs p
      | Some n \<Rightarrow> Option.bind (put n v p) (decode_lenient names put kvs))"

definition param_fields :: "string list" where
  "param_fields =
     [''version'', ''review_amount_usd_minor'', ''decline_amount_usd_minor'', ''velocity_review_transfer_count'']"

definition put_param :: "string \<Rightarrow> jvalue \<Rightarrow> policyParam \<Rightarrow> policyParam option" where
  "put_param n v p =
     (if n = ''version'' then map_option (\<lambda>x. p\<lparr>pm_Version := x\<rparr>) (into_string v (pm_Version p))
      else if n = ''review_amount_usd_minor'' then map_option (\<lambda>x. p\<lparr>pm_ReviewUSD := x\<rparr>) (into_int64 v (pm_ReviewUSD p))
      else if n = ''decline_amount_usd_minor'' then map_option (\<lambda>x. p\<lparr>pm_DeclineUSD := x\<rparr>) (into_int64 v (pm_DeclineUSD p))
      else map_option (\<lambda>x. p\<lparr>pm_Velocity := x\<rparr>) (into_int64 v (pm_Velocity p)))"

definition param_of :: "jvalue \<Rightarrow> policyParam option" where
  "param_of v =
     (let zero = \<lparr>pm_Version = [], pm_ReviewUSD = 0, pm_DeclineUSD = 0, pm_Velocity = 0\<rparr> in
      case v of
        JObject kvs \<Rightarrow> decode_lenient param_fields put_param kvs zero
      | JNull \<Rightarrow> Some zero
      | _ \<Rightarrow> None)"

fun all_some :: "'a option list \<Rightarrow> 'a list option" where
  "all_some [] = Some []"
| "all_some (x # xs) = Option.bind x (\<lambda>y. map_option ((#) y) (all_some xs))"

fun policies_of :: "policyParam list \<Rightarrow> Policy list result" where
  "policies_of [] = Inr []"
| "policies_of (p # ps) =
     andThen (usd_policy (pm_Version p) (pm_ReviewUSD p) (pm_DeclineUSD p) (pm_Velocity p)) (\<lambda>policy.
     andThen (policies_of ps) (\<lambda>policies. Inr (policy # policies)))"

definition policiesFromJSON :: "string \<Rightarrow> Policy list result" where
  "policiesFromJSON encoded =
     (case json_decode encoded of
        Some (JArray vs) \<Rightarrow>
          (case all_some (map param_of vs) of
             Some (p # ps) \<Rightarrow> policies_of (p # ps)
           | _ \<Rightarrow> config_error ''parsing RISK_POLICIES_JSON: nonempty policy array required'')
      | _ \<Rightarrow> config_error ''parsing RISK_POLICIES_JSON: nonempty policy array required'')"

definition policiesFromEnv :: "environment \<Rightarrow> Policy list result" where
  "policiesFromEnv env =
     (let encoded = TrimSpace (env ''RISK_POLICIES_JSON'') in
      if encoded \<noteq> [] then policiesFromJSON encoded
      else andThen (policyFromEnv env) (\<lambda>policy. Inr [policy]))"

record velocityConfig =
  vc_RedisAddress :: string
  vc_Window :: int64

definition velocity_Enabled :: "velocityConfig \<Rightarrow> bool" where
  "velocity_Enabled c \<longleftrightarrow> vc_RedisAddress c \<noteq> []"

fun velocityConfigFromEnv :: "environment \<Rightarrow> Policy list \<Rightarrow> velocityConfig result" where
  "velocityConfigFromEnv env [] = Inr \<lparr>vc_RedisAddress = [], vc_Window = 0\<rparr>"
| "velocityConfigFromEnv env (policy # policies) =
     (if \<not> RequiresVelocity policy then velocityConfigFromEnv env policies
      else let address = TrimSpace (env ''REDIS_ADDRESS'') in
        if address = [] then config_error ''REDIS_ADDRESS is required when velocity is enabled''
        else case ParseDuration (TrimSpace (env ''RISK_VELOCITY_WINDOW'')) of
          None \<Rightarrow> config_error ''RISK_VELOCITY_WINDOW''
        | Some window \<Rightarrow>
            if window <s Millisecond then config_error ''RISK_VELOCITY_WINDOW''
            else Inr \<lparr>vc_RedisAddress = address, vc_Window = window\<rparr>)"

record riskConfig =
  rk_DatabaseURL :: string
  rk_KafkaBrokers :: "string list"
  rk_KafkaTopic :: string
  rk_KafkaGroupID :: string
  rk_Policies :: "Policy list"
  rk_Velocity :: velocityConfig

definition defaultTopic :: string where "defaultTopic = ''wallet.events.v1''"

definition risk_ConfigFromEnv :: "environment \<Rightarrow> riskConfig result" where
  "risk_ConfigFromEnv env =
     andThen (policiesFromEnv env) (\<lambda>policies.
     andThen (velocityConfigFromEnv env policies) (\<lambda>velocity.
     Inr \<lparr>rk_DatabaseURL = TrimSpace (env ''DATABASE_URL''), rk_KafkaBrokers = splitNonempty (env ''KAFKA_BROKERS''),
          rk_KafkaTopic = or_default (env ''KAFKA_TOPIC'') defaultTopic,
          rk_KafkaGroupID = or_default (env ''KAFKA_GROUP_ID'') ''intelligent-wallet-ledger-risk-v1'',
          rk_Policies = policies, rk_Velocity = velocity\<rparr>))"

text \<open>What connecting does: each step may fail.\<close>

record startup =
  su_pool :: "error option"
  su_ping :: "error option"
  su_client :: "error option"
  su_kafka :: "error option"

definition started :: "error option \<Rightarrow> unit result" where
  "started e = (case e of None \<Rightarrow> Inr () | Some err \<Rightarrow> Inl err)"

text \<open>The checks and connections before the loop, with the handler that they create.\<close>

definition risk_start :: "startup \<Rightarrow> riskConfig \<Rightarrow> velocity option \<Rightarrow> riskHandler result" where
  "risk_start su config velocity =
     (if rk_DatabaseURL config = [] then config_error ''database URL is required''
      else if rk_KafkaBrokers config = [] then config_error ''kafka brokers are required''
      else if rk_KafkaTopic config = [] then config_error ''kafka topic is required''
      else if rk_KafkaGroupID config = [] then config_error ''kafka group id is required''
      else if velocity_Enabled (rk_Velocity config) \<and> velocity = None then config_error ''velocity observer is required''
      else let v = (case velocity of None \<Rightarrow> noopVelocityObserver | Some v \<Rightarrow> v) in
        andThen (started (su_pool su)) (\<lambda>_.
        andThen (started (su_ping su)) (\<lambda>_.
        andThen (NewHandlerWithPoliciesAndVelocity (rk_Policies config) v) (\<lambda>handler.
        andThen (started (su_client su)) (\<lambda>_.
        andThen (started (su_kafka su)) (\<lambda>_. Inr handler))))))"

definition risk_Run ::
  "(string \<Rightarrow> uuid option) \<Rightarrow> (gotime \<Rightarrow> gotime) \<Rightarrow> (string \<Rightarrow> string result) \<Rightarrow> (string \<Rightarrow> string) \<Rightarrow> startup
     \<Rightarrow> riskConfig \<Rightarrow> velocity option \<Rightarrow> poll list \<Rightarrow> consumer \<Rightarrow> consume_outcome \<times> consumer" where
  "risk_Run scan store jsonb digest su config velocity polls c =
     (case risk_start su config velocity of
        Inl e \<Rightarrow> (ConsumeFailed e, c)
      | Inr handler \<Rightarrow> risk_consume scan store jsonb digest handler polls c)"

text \<open>The main function: the observer is created from the configuration; \<open>observe\<close> is what it answers.\<close>

definition risk_main ::
  "(string \<Rightarrow> uuid option) \<Rightarrow> (gotime \<Rightarrow> gotime) \<Rightarrow> (string \<Rightarrow> string result) \<Rightarrow> (string \<Rightarrow> string) \<Rightarrow> startup
     \<Rightarrow> (observer \<Rightarrow> velocity) \<Rightarrow> environment \<Rightarrow> poll list \<Rightarrow> consumer \<Rightarrow> consume_outcome \<times> consumer" where
  "risk_main scan store jsonb digest su observe env polls c =
     (case risk_ConfigFromEnv env of
        Inl e \<Rightarrow> (ConsumeFailed e, c)
      | Inr config \<Rightarrow>
          if velocity_Enabled (rk_Velocity config) then
            (case NewObserver (vc_RedisAddress (rk_Velocity config)) (vc_Window (rk_Velocity config)) of
               Inl e \<Rightarrow> (ConsumeFailed e, c)
             | Inr o' \<Rightarrow> risk_Run scan store jsonb digest su config (Some (observe o')) polls c)
          else risk_Run scan store jsonb digest su config None polls c)"

section \<open>Transaction worker\<close>

record transactionConfig =
  tc_DatabaseURL :: string
  tc_KafkaBrokers :: "string list"
  tc_KafkaTopic :: string
  tc_KafkaGroupID :: string

definition transaction_ConfigFromEnv :: "environment \<Rightarrow> transactionConfig" where
  "transaction_ConfigFromEnv env =
     \<lparr>tc_DatabaseURL = TrimSpace (env ''DATABASE_URL''), tc_KafkaBrokers = splitNonempty (env ''KAFKA_BROKERS''),
      tc_KafkaTopic = or_default (env ''KAFKA_TOPIC'') defaultTopic,
      tc_KafkaGroupID = or_default (env ''KAFKA_TRANSACTION_GROUP_ID'') ''intelligent-wallet-ledger-transaction-v1''\<rparr>"

definition transaction_start :: "startup \<Rightarrow> transactionConfig \<Rightarrow> unit result" where
  "transaction_start su config =
     (if tc_DatabaseURL config = [] then config_error ''database URL is required''
      else if tc_KafkaBrokers config = [] then config_error ''kafka brokers are required''
      else if tc_KafkaTopic config = [] then config_error ''kafka topic is required''
      else if tc_KafkaGroupID config = [] then config_error ''kafka group id is required''
      else
        andThen (started (su_pool su)) (\<lambda>_.
        andThen (started (su_ping su)) (\<lambda>_.
        andThen (started (su_client su)) (\<lambda>_. started (su_kafka su)))))"

definition transaction_Run ::
  "(string \<Rightarrow> uuid option) \<Rightarrow> (gotime \<Rightarrow> gotime) \<Rightarrow> (string \<Rightarrow> string result) \<Rightarrow> (string \<Rightarrow> string) \<Rightarrow> startup
     \<Rightarrow> transactionConfig \<Rightarrow> poll list \<Rightarrow> consumer \<Rightarrow> consume_outcome \<times> consumer" where
  "transaction_Run scan store jsonb digest su config polls c =
     (case transaction_start su config of
        Inl e \<Rightarrow> (ConsumeFailed e, c)
      | Inr _ \<Rightarrow> transaction_consume scan store jsonb digest polls c)"

definition transaction_main ::
  "(string \<Rightarrow> uuid option) \<Rightarrow> (gotime \<Rightarrow> gotime) \<Rightarrow> (string \<Rightarrow> string result) \<Rightarrow> (string \<Rightarrow> string) \<Rightarrow> startup
     \<Rightarrow> environment \<Rightarrow> poll list \<Rightarrow> consumer \<Rightarrow> consume_outcome \<times> consumer" where
  "transaction_main scan store jsonb digest su env polls c =
     transaction_Run scan store jsonb digest su (transaction_ConfigFromEnv env) polls c"

section \<open>Outbox publisher\<close>

record producerConfig =
  pk_Brokers :: "string list"
  pk_Topic :: string
  pk_ClientID :: string
  pk_DeliveryTimeout :: int64
  pk_MaxBufferedRecords :: int64
  pk_AllowAutoTopicCreation :: bool

definition kafka_maxTopicBytes :: nat where "kafka_maxTopicBytes = 249"
definition maxClientIDBytes :: nat where "maxClientIDBytes = 255"
definition maxBufferedRecords :: int64 where "maxBufferedRecords = 10000"
definition maxDeliveryTimeout :: int64 where "maxDeliveryTimeout = 900000000000"

definition validKafkaName :: "string \<Rightarrow> nat \<Rightarrow> bool" where
  "validKafkaName v maxBytes \<longleftrightarrow> v \<noteq> [] \<and> length v \<le> maxBytes \<and>
     list_all (\<lambda>c. is_lower c \<or> is_upper c \<or> is_digit c \<or> c = CHR ''.'' \<or> c = CHR ''_'' \<or> c = CHR ''-'') v"

fun trimmed_brokers :: "string list \<Rightarrow> string list result" where
  "trimmed_brokers [] = Inr []"
| "trimmed_brokers (broker # brokers) =
     (let broker = TrimSpace broker in
      if broker = [] then config_error ''kafka broker address is required''
      else andThen (trimmed_brokers brokers) (\<lambda>rest. Inr (broker # rest)))"

definition validateProducerConfig :: "producerConfig \<Rightarrow> string list result" where
  "validateProducerConfig config =
     (if pk_Brokers config = [] then config_error ''kafka brokers are required''
      else andThen (trimmed_brokers (pk_Brokers config)) (\<lambda>brokers.
        if \<not> validKafkaName (pk_Topic config) kafka_maxTopicBytes \<or> pk_Topic config = ''.'' \<or> pk_Topic config = ''..''
        then config_error ''kafka topic is invalid''
        else if pk_ClientID config = [] \<or> maxClientIDBytes < length (pk_ClientID config)
        then config_error ''kafka client ID is invalid''
        else if pk_DeliveryTimeout config \<le>s 0 \<or> maxDeliveryTimeout <s pk_DeliveryTimeout config
        then config_error ''kafka delivery timeout''
        else if pk_MaxBufferedRecords config \<le>s 0 \<or> maxBufferedRecords <s pk_MaxBufferedRecords config
        then config_error ''kafka maximum buffered records''
        else Inr brokers))"

record kafkaProducer =
  kp_brokers :: "string list"
  kp_topic :: string

definition NewProducer :: "error option \<Rightarrow> producerConfig \<Rightarrow> kafkaProducer result" where
  "NewProducer clientErr config =
     andThen (validateProducerConfig config) (\<lambda>brokers.
     andThen (started clientErr) (\<lambda>_. Inr \<lparr>kp_brokers = brokers, kp_topic = pk_Topic config\<rparr>))"

text \<open>\<open>produce topic key value\<close> is the synchronous call of the Kafka client.\<close>

definition producer_Publish ::
  "(string \<Rightarrow> string \<Rightarrow> string \<Rightarrow> ('k, unit) tx) \<Rightarrow> kafkaProducer \<Rightarrow> message \<Rightarrow> ('k, unit) tx" where
  "producer_Publish produce p m k =
     (if msg_Key m = [] then (config_error ''kafka message key is required'', k)
      else if msg_Value m = [] then (config_error ''kafka message value is required'', k)
      else produce (kp_topic p) (msg_Key m) (msg_Value m) k)"

definition parseOptionalBool :: "string \<Rightarrow> string \<Rightarrow> bool result" where
  "parseOptionalBool name v =
     (let v = TrimSpace v in
      if v = [] then Inr False
      else case ParseBool v of None \<Rightarrow> config_error (''parsing '' @ name) | Some parsed \<Rightarrow> Inr parsed)"

record outboxConfig =
  ob_DatabaseURL :: string
  ob_KafkaBrokers :: "string list"
  ob_KafkaTopic :: string
  ob_AllowAutoTopicCreation :: bool

definition publisher_ConfigFromEnv :: "environment \<Rightarrow> outboxConfig result" where
  "publisher_ConfigFromEnv env =
     andThen (parseOptionalBool ''KAFKA_ALLOW_AUTO_TOPIC_CREATION'' (env ''KAFKA_ALLOW_AUTO_TOPIC_CREATION''))
       (\<lambda>allowAutoTopicCreation.
     Inr \<lparr>ob_DatabaseURL = TrimSpace (env ''DATABASE_URL''), ob_KafkaBrokers = splitNonempty (env ''KAFKA_BROKERS''),
          ob_KafkaTopic = or_default (env ''KAFKA_TOPIC'') defaultTopic,
          ob_AllowAutoTopicCreation = allowAutoTopicCreation\<rparr>)"

definition defaultPublisherConfig :: publisherConfig where
  "defaultPublisherConfig =
     \<lparr>pc_BatchSize = 100, pc_ClaimLease = 30000000000, pc_PollInterval = 250000000, pc_BaseRetryDelay = 1000000000,
      pc_MaxRetryDelay = 60000000000\<rparr>"

definition producerConfigOf :: "outboxConfig \<Rightarrow> producerConfig" where
  "producerConfigOf config =
     \<lparr>pk_Brokers = ob_KafkaBrokers config, pk_Topic = ob_KafkaTopic config, pk_ClientID = ''intelligent-wallet-ledger-outbox'',
      pk_DeliveryTimeout = 10000000000, pk_MaxBufferedRecords = 100,
      pk_AllowAutoTopicCreation = ob_AllowAutoTopicCreation config\<rparr>"

definition publisher_start :: "startup \<Rightarrow> outboxConfig \<Rightarrow> kafkaProducer result" where
  "publisher_start su config =
     (if ob_DatabaseURL config = [] then config_error ''database URL is required''
      else if ob_KafkaBrokers config = [] then config_error ''kafka brokers are required''
      else
        andThen (started (su_pool su)) (\<lambda>_.
        andThen (started (su_ping su)) (\<lambda>_.
        andThen (NewProducer (su_client su) (producerConfigOf config)) (\<lambda>producer.
        andThen (started (su_kafka su)) (\<lambda>_.
        case validatePublisherConfig defaultPublisherConfig of Some e \<Rightarrow> Inl e | None \<Rightarrow> Inr producer)))))"

text \<open>The process from its start on; \<open>None\<close> is a loop that is never cancelled.\<close>

definition publisher_Run ::
  "startup \<Rightarrow> outboxConfig \<Rightarrow> (nat \<Rightarrow> 'w store) \<Rightarrow> (nat \<Rightarrow> string \<Rightarrow> string \<Rightarrow> string \<Rightarrow> ('k, unit) tx) \<Rightarrow> (error \<Rightarrow> string)
     \<Rightarrow> (nat \<Rightarrow> bool) \<Rightarrow> (nat \<Rightarrow> bool) \<Rightarrow> 'w \<times> 'k \<Rightarrow> (error option \<times> 'w \<times> 'k) option" where
  "publisher_Run su config st produce errorText cancelled stopped s =
     (case publisher_start su config of
        Inl e \<Rightarrow> Some (Some e, s)
      | Inr producer \<Rightarrow>
          Run defaultPublisherConfig st (\<lambda>i. producer_Publish (produce i) producer) errorText cancelled stopped 0 s)"

definition publisher_main ::
  "startup \<Rightarrow> environment \<Rightarrow> (nat \<Rightarrow> 'w store) \<Rightarrow> (nat \<Rightarrow> string \<Rightarrow> string \<Rightarrow> string \<Rightarrow> ('k, unit) tx) \<Rightarrow> (error \<Rightarrow> string)
     \<Rightarrow> (nat \<Rightarrow> bool) \<Rightarrow> (nat \<Rightarrow> bool) \<Rightarrow> 'w \<times> 'k \<Rightarrow> (error option \<times> 'w \<times> 'k) option" where
  "publisher_main su env st produce errorText cancelled stopped s =
     (case publisher_ConfigFromEnv env of
        Inl e \<Rightarrow> Some (Some e, s)
      | Inr config \<Rightarrow> publisher_Run su config st produce errorText cancelled stopped s)"

section \<open>Wallet API\<close>

record walletConfig =
  wc_Address :: string
  wc_DatabaseURL :: string
  wc_OIDC :: oidcConfig
  wc_RateLimit :: int64

definition oidc_Enabled :: "oidcConfig \<Rightarrow> bool" where
  "oidc_Enabled c \<longleftrightarrow> oc_Issuer c \<noteq> [] \<and> oc_Audience c \<noteq> [] \<and> oc_RoleClaim c \<noteq> []"

definition reviewDecisionRateLimit :: "walletConfig \<Rightarrow> int64" where
  "reviewDecisionRateLimit c = (if wc_RateLimit c = 0 then 12 else wc_RateLimit c)"

definition reviewDecisionRateLimitFromEnv :: "environment \<Rightarrow> int64 result" where
  "reviewDecisionRateLimitFromEnv env =
     (let v = TrimSpace (env ''REVIEW_DECISION_RATE_LIMIT_PER_MINUTE'') in
      if v = [] then Inr 12
      else case ParseInt v of
        None \<Rightarrow> config_error ''review decision rate limit''
      | Some limit \<Rightarrow> if limit <s 1 \<or> 600 <s limit then config_error ''review decision rate limit'' else Inr limit)"

definition validateOIDCConfig :: "walletConfig \<Rightarrow> error option" where
  "validateOIDCConfig config =
     (let rateLimit = reviewDecisionRateLimit config in
      if rateLimit <s 1 \<or> 600 <s rateLimit then Some [Opaque ''review decision rate limit'']
      else if oidc_Enabled (wc_OIDC config) then
        (if wc_DatabaseURL config = [] then Some [Opaque ''database URL is required when OIDC is configured''] else None)
      else if oc_Issuer (wc_OIDC config) \<noteq> [] \<or> oc_Audience (wc_OIDC config) \<noteq> [] \<or> oc_RoleClaim (wc_OIDC config) \<noteq> []
      then Some [Opaque ''oidc issuer, audience, and role claim must be configured together'']
      else None)"

definition wallet_ConfigFromEnv :: "environment \<Rightarrow> walletConfig result" where
  "wallet_ConfigFromEnv env =
     andThen (reviewDecisionRateLimitFromEnv env) (\<lambda>rateLimit.
     let config =
       \<lparr>wc_Address = or_default (env ''HTTP_ADDRESS'') '':8080'', wc_DatabaseURL = TrimSpace (env ''DATABASE_URL''),
        wc_OIDC =
          \<lparr>oc_Issuer = TrimSpace (env ''OIDC_ISSUER''), oc_Audience = TrimSpace (env ''OIDC_AUDIENCE''),
           oc_RoleClaim = TrimSpace (env ''OIDC_ROLE_CLAIM'')\<rparr>,
        wc_RateLimit = rateLimit\<rparr> in
     checked (validateOIDCConfig config) config)"

text \<open>
  The dependencies of the decision endpoint; \<open>None\<close> when it is not served. Closing the pool on the error paths
  has no effect in the model, and the other constructors refuse only nil arguments.
\<close>

definition reviewDecisionRoutes ::
  "error option \<Rightarrow> (string \<Rightarrow> error option) \<Rightarrow> walletConfig \<Rightarrow> (authenticator \<times> 'b rateLimiter) option result" where
  "reviewDecisionRoutes pool discover cfg =
     (if \<not> oidc_Enabled (wc_OIDC cfg) then Inr None
      else
        andThen (started pool) (\<lambda>_.
        andThen (oidc_New discover (wc_OIDC cfg)) (\<lambda>authenticator.
        andThen (NewPrincipalRateLimiter (reviewDecisionRateLimit cfg)) (\<lambda>limiter.
        Inr (Some (authenticator, limiter))))))"

definition wallet_start ::
  "error option \<Rightarrow> (string \<Rightarrow> error option) \<Rightarrow> walletConfig \<Rightarrow> (authenticator \<times> 'b rateLimiter) option result" where
  "wallet_start pool discover cfg =
     (if wc_Address cfg = [] then config_error ''HTTP address is required''
      else case validateOIDCConfig cfg of
        Some e \<Rightarrow> Inl e
      | None \<Rightarrow> reviewDecisionRoutes pool discover cfg)"

text \<open>
  How serving ends: the server returns an error, or the process is cancelled and the shutdown succeeds or fails.
  \<open>serve\<close> is the HTTP server on an address with the routes.
\<close>

datatype serving = ServerReturned error | ShutDown "error option"

definition ErrServerClosed :: cause where "ErrServerClosed = Opaque ''http: Server closed''"

definition wallet_Run ::
  "error option \<Rightarrow> (string \<Rightarrow> error option) \<Rightarrow> (string \<Rightarrow> (authenticator \<times> 'b rateLimiter) option \<Rightarrow> serving)
     \<Rightarrow> walletConfig \<Rightarrow> unit result" where
  "wallet_Run pool discover serve cfg =
     andThen (wallet_start pool discover cfg) (\<lambda>routes.
     case serve (wc_Address cfg) routes of
       ServerReturned err \<Rightarrow> if errors_Is err ErrServerClosed then Inr () else Inl err
     | ShutDown None \<Rightarrow> Inr ()
     | ShutDown (Some err) \<Rightarrow> Inl err)"

definition wallet_main ::
  "error option \<Rightarrow> (string \<Rightarrow> error option) \<Rightarrow> (string \<Rightarrow> (authenticator \<times> 'b rateLimiter) option \<Rightarrow> serving)
     \<Rightarrow> environment \<Rightarrow> unit result" where
  "wallet_main pool discover serve env = andThen (wallet_ConfigFromEnv env) (wallet_Run pool discover serve)"

end
