(* ===== verification/Process_Properties.thy ===== *)
theory Process_Properties
  imports Process_Config
begin

text \<open>
  What a loaded configuration guarantees: what the later steps of a start check again cannot fail there.
\<close>

lemma TrimSpace_empty_iff: "TrimSpace (TrimSpace s) = [] \<longleftrightarrow> TrimSpace s = []"
  by simp

lemma policies_of_ok: "policies_of ps = Inr policies \<Longrightarrow> list_all policy_ok policies \<and> length policies = length ps"
  by (induction ps arbitrary: policies) (auto simp: result_simps usd_policy_def NewPolicy_ok)

lemma policiesFromEnv_ok:
  assumes "policiesFromEnv env = Inr policies"
  shows "policies \<noteq> [] \<and> list_all policy_ok policies"
proof (cases "TrimSpace (env ''RISK_POLICIES_JSON'') = []")
  case True
  with assms show ?thesis
    by (auto simp: policiesFromEnv_def policyFromEnv_def Let_def result_simps usd_policy_def NewPolicy_ok)
next
  case False
  with assms show ?thesis
    by (auto simp: policiesFromEnv_def policiesFromJSON_def Let_def config_error_def simp del: policies_of.simps
        split: option.splits jvalue.splits list.splits dest!: policies_of_ok)
qed

lemma velocityConfigFromEnv_Inr:
  assumes "velocityConfigFromEnv env policies = Inr v"
  shows "(velocity_Enabled v \<longleftrightarrow> list_ex RequiresVelocity policies) \<and>
    (velocity_Enabled v \<longrightarrow> vc_RedisAddress v = TrimSpace (env ''REDIS_ADDRESS'') \<and>
       NewObserver (vc_RedisAddress v) (vc_Window v) = Inr \<lparr>ob_address = vc_RedisAddress v, ob_window = vc_Window v\<rparr>)"
  using assms
  by (induction policies)
    (auto simp: velocity_Enabled_def NewObserver_def Let_def config_error_def split: if_splits option.splits)

text \<open>
  C25: A risk worker whose policies count velocity observes it. Every configuration that is loaded from the environment
  has at least one policy, all of them valid; a Redis address is configured exactly when some policy counts transfers,
  and then the observer can be created; so the main function runs the worker with the observer in that case, and with
  none only where no policy asks for a count.
\<close>

theorem risk_config_sound:
  assumes "risk_ConfigFromEnv env = Inr config"
  shows "rk_Policies config \<noteq> [] \<and> list_all policy_ok (rk_Policies config) \<and>
    risk_main scan store jsonb digest su observe env polls c =
      risk_Run scan store jsonb digest su config
        (if list_ex RequiresVelocity (rk_Policies config)
         then Some (observe \<lparr>ob_address = TrimSpace (env ''REDIS_ADDRESS''), ob_window = vc_Window (rk_Velocity config)\<rparr>)
         else None) polls c"
proof -
  from assms have p: "policiesFromEnv env = Inr (rk_Policies config)"
    and v: "velocityConfigFromEnv env (rk_Policies config) = Inr (rk_Velocity config)"
    by (auto simp: risk_ConfigFromEnv_def result_simps)
  with policiesFromEnv_ok [OF p] velocityConfigFromEnv_Inr [OF v] show ?thesis
    by (auto simp: risk_main_def assms)
qed

definition demo_env :: environment where
  "demo_env name =
     (case map_of
        [(''DATABASE_URL'', ''postgres://db''), (''KAFKA_BROKERS'', '' k1:9092, k2:9092 ''), (''RISK_POLICY_VERSION'', ''v1''),
         (''RISK_REVIEW_AMOUNT_USD_MINOR'', ''100000''), (''RISK_DECLINE_AMOUNT_USD_MINOR'', ''500000''),
         (''RISK_VELOCITY_REVIEW_TRANSFER_COUNT'', ''5''), (''REDIS_ADDRESS'', ''redis:6379''), (''RISK_VELOCITY_WINDOW'', ''10m''),
         (''OIDC_ISSUER'', ''https://idp''), (''OIDC_AUDIENCE'', ''wallet''), (''OIDC_ROLE_CLAIM'', ''roles'')] name of
        None \<Rightarrow> [] | Some v \<Rightarrow> v)"

theorem risk_config_sound_witness:
  "\<exists>config. risk_ConfigFromEnv demo_env = Inr config \<and> list_all policy_ok (rk_Policies config) \<and>
     list_ex RequiresVelocity (rk_Policies config)"
proof -
  have "(case risk_ConfigFromEnv demo_env of Inl e \<Rightarrow> False | Inr config \<Rightarrow> list_ex RequiresVelocity (rk_Policies config))"
    by code_simp
  then obtain config where c: "risk_ConfigFromEnv demo_env = Inr config" "list_ex RequiresVelocity (rk_Policies config)"
    by (auto split: sum.splits)
  from risk_config_sound [OF c(1)] c show ?thesis by auto
qed

section \<open>Wallet API\<close>

lemma reviewDecisionRateLimitFromEnv_Inr:
  "reviewDecisionRateLimitFromEnv env = Inr n \<Longrightarrow> 1 \<le> sint n \<and> sint n \<le> 600"
  by (auto simp: reviewDecisionRateLimitFromEnv_def Let_def config_error_def int64_simps split: if_splits option.splits)

lemma NewPrincipalRateLimiter_Inr:
  "1 \<le> sint n \<Longrightarrow> sint n \<le> 600 \<Longrightarrow> NewPrincipalRateLimiter n =
     Inr \<lparr>rl_rate = n, rl_burst = (if n = 1 then 1 else 2), rl_entries = [], rl_nextGC = 0\<rparr>"
  by (simp add: NewPrincipalRateLimiter_def maxRateLimitPerMinute_def int64_simps)

text \<open>
  C26: A loaded configuration starts the wallet API, and the decision endpoint is never served unprotected. Given the
  database and the identity provider can be reached, every configuration that is loaded from the environment starts;
  the decision endpoint is served exactly when issuer, audience and role claim are set, and then with an authenticator
  for exactly these and a limiter at the configured rate; a partial setting is refused when it is loaded. The process
  then ends without an error exactly when the server was closed or shut down in time.
\<close>

theorem wallet_config_sound:
  assumes "wallet_ConfigFromEnv env = Inr cfg"
  shows "let routes = (if oidc_Enabled (wc_OIDC cfg)
        then Some (\<lparr>oa_issuer = TrimSpace (env ''OIDC_ISSUER''), oa_audience = TrimSpace (env ''OIDC_AUDIENCE''),
            oa_roleClaim = TrimSpace (env ''OIDC_ROLE_CLAIM'')\<rparr>,
          \<lparr>rl_rate = wc_RateLimit cfg, rl_burst = (if wc_RateLimit cfg = 1 then 1 else 2), rl_entries = [], rl_nextGC = 0\<rparr>)
        else None) in
    wallet_start None (\<lambda>_. None) cfg = Inr routes \<and>
    (wallet_main None (\<lambda>_. None) serve env = Inr () \<longleftrightarrow>
      (case serve (or_default (env ''HTTP_ADDRESS'') '':8080'') routes of
         ServerReturned err \<Rightarrow> errors_Is err ErrServerClosed | ShutDown err \<Rightarrow> err = None)) \<and>
    (oidc_Enabled (wc_OIDC cfg) \<longleftrightarrow> TrimSpace (env ''OIDC_ISSUER'') \<noteq> []) \<and>
    (oidc_Enabled (wc_OIDC cfg) \<longleftrightarrow> TrimSpace (env ''OIDC_AUDIENCE'') \<noteq> []) \<and>
    (oidc_Enabled (wc_OIDC cfg) \<longleftrightarrow> TrimSpace (env ''OIDC_ROLE_CLAIM'') \<noteq> [])"
proof -
  from assms have r: "1 \<le> sint (wc_RateLimit cfg)" "sint (wc_RateLimit cfg) \<le> 600"
    and o: "wc_OIDC cfg = \<lparr>oc_Issuer = TrimSpace (env ''OIDC_ISSUER''), oc_Audience = TrimSpace (env ''OIDC_AUDIENCE''),
      oc_RoleClaim = TrimSpace (env ''OIDC_ROLE_CLAIM'')\<rparr>"
    and a: "wc_Address cfg = or_default (env ''HTTP_ADDRESS'') '':8080''" and v: "validateOIDCConfig cfg = None"
    by (auto simp: wallet_ConfigFromEnv_def result_simps Let_def checked_def
        dest: reviewDecisionRateLimitFromEnv_Inr split: option.splits if_splits)
  have n: "reviewDecisionRateLimit cfg = wc_RateLimit cfg" using r by (auto simp: reviewDecisionRateLimit_def)
  have s: "oidc_Enabled (wc_OIDC cfg) \<or>
      TrimSpace (env ''OIDC_ISSUER'') = [] \<and> TrimSpace (env ''OIDC_AUDIENCE'') = [] \<and> TrimSpace (env ''OIDC_ROLE_CLAIM'') = []"
    using v o by (auto simp: validateOIDCConfig_def Let_def split: if_splits)
  have ne: "or_default (env ''HTTP_ADDRESS'') '':8080'' \<noteq> []" by (simp add: or_default_def Let_def)
  show ?thesis
  proof (cases "oidc_Enabled (wc_OIDC cfg)")
    case True
    then show ?thesis
      using a v n ne
      by (auto simp: NewPrincipalRateLimiter_Inr [OF r] wallet_start_def wallet_main_def wallet_Run_def assms
          reviewDecisionRoutes_def started_def oidc_New_def Let_def o oidc_Enabled_def split: serving.splits option.splits)
  next
    case False
    with s a v ne show ?thesis
      by (auto simp: wallet_start_def wallet_main_def wallet_Run_def assms reviewDecisionRoutes_def split: serving.splits option.splits)
  qed
qed

theorem wallet_config_sound_witness:
  "\<exists>cfg. wallet_ConfigFromEnv demo_env = Inr cfg \<and> oidc_Enabled (wc_OIDC cfg) \<and>
     (\<exists>routes :: (authenticator \<times> nat rateLimiter). wallet_start None (\<lambda>_. None) cfg = Inr (Some routes))"
proof -
  have "(case wallet_ConfigFromEnv demo_env of Inl e \<Rightarrow> False | Inr cfg \<Rightarrow> oidc_Enabled (wc_OIDC cfg))" by code_simp
  then obtain cfg where c: "wallet_ConfigFromEnv demo_env = Inr cfg" "oidc_Enabled (wc_OIDC cfg)" by (auto split: sum.splits)
  from wallet_config_sound [OF c(1), of "\<lambda>_ _. ShutDown None"] c show ?thesis by (auto simp: Let_def)
qed

section \<open>Outbox publisher\<close>

lemma trimmed_brokers_split: "trimmed_brokers (splitNonempty v) = Inr (splitNonempty v)"
proof -
  have all: "trimmed_brokers bs = Inr bs" if "\<forall>b \<in> set bs. b \<noteq> [] \<and> TrimSpace b = b" for bs
    using that by (induction bs) (auto simp: Let_def)
  show ?thesis unfolding splitNonempty_def by (rule all) auto
qed

text \<open>
  C27: What starts the publisher. With reachable services, a loaded configuration starts it if and only if a database
  and a broker are configured and the topic is a legal Kafka topic name; the built-in settings of the producer and of
  the publisher are always valid.
\<close>

theorem publisher_starts:
  assumes "publisher_ConfigFromEnv env = Inr config"
  shows "publisher_start \<lparr>su_pool = None, su_ping = None, su_client = None, su_kafka = None\<rparr> config =
      Inr \<lparr>kp_brokers = splitNonempty (env ''KAFKA_BROKERS''), kp_topic = or_default (env ''KAFKA_TOPIC'') defaultTopic\<rparr> \<longleftrightarrow>
    TrimSpace (env ''DATABASE_URL'') \<noteq> [] \<and> splitNonempty (env ''KAFKA_BROKERS'') \<noteq> [] \<and>
    validKafkaName (or_default (env ''KAFKA_TOPIC'') defaultTopic) 249 \<and>
    or_default (env ''KAFKA_TOPIC'') defaultTopic \<notin> {''.'', ''..''}"
proof -
  from assms have c: "ob_DatabaseURL config = TrimSpace (env ''DATABASE_URL'')" "ob_KafkaBrokers config = splitNonempty (env ''KAFKA_BROKERS'')"
    "ob_KafkaTopic config = or_default (env ''KAFKA_TOPIC'') defaultTopic"
    by (auto simp: publisher_ConfigFromEnv_def result_simps)
  have d: "validatePublisherConfig defaultPublisherConfig = None" by code_simp
  show ?thesis
    by (auto simp: publisher_start_def c started_def NewProducer_def validateProducerConfig_def producerConfigOf_def
        trimmed_brokers_split d config_error_def kafka_maxTopicBytes_def maxClientIDBytes_def maxDeliveryTimeout_def maxBufferedRecords_def
        int64_simps)
qed

theorem publisher_starts_witness:
  "\<exists>config. publisher_ConfigFromEnv demo_env = Inr config \<and>
     publisher_start \<lparr>su_pool = None, su_ping = None, su_client = None, su_kafka = None\<rparr> config =
       Inr \<lparr>kp_brokers = [''k1:9092'', ''k2:9092''], kp_topic = ''wallet.events.v1''\<rparr>"
proof -
  have "(case publisher_ConfigFromEnv demo_env of Inl e \<Rightarrow> False | Inr config \<Rightarrow> True)" by code_simp
  then obtain config where c: "publisher_ConfigFromEnv demo_env = Inr config" by (auto split: sum.splits)
  have e: "splitNonempty (demo_env ''KAFKA_BROKERS'') = [''k1:9092'', ''k2:9092'']"
    "or_default (demo_env ''KAFKA_TOPIC'') defaultTopic = ''wallet.events.v1''"
    "TrimSpace (demo_env ''DATABASE_URL'') \<noteq> []" "validKafkaName ''wallet.events.v1'' 249" by code_simp+
  from publisher_starts [OF c] c e show ?thesis by simp
qed

end
