(* ===== verification/Publisher_Loop.thy ===== *)
theory Publisher_Loop
  imports Outbox_Publisher
begin

text \<open>
  The polling loop of the publisher: which iteration ends it and with what result, and that it empties the outbox
  before it waits for the first time.
\<close>

section \<open>The iteration that ends the loop\<close>

text \<open>The states of the store and the broker after the first \<open>n\<close> batches.\<close>

fun batches ::
  "publisherConfig \<Rightarrow> (nat \<Rightarrow> 'w store) \<Rightarrow> (nat \<Rightarrow> message \<Rightarrow> ('k, unit) tx) \<Rightarrow> (error \<Rightarrow> string) \<Rightarrow> 'w \<times> 'k \<Rightarrow> nat \<Rightarrow> 'w \<times> 'k" where
  "batches c st publish errorText s 0 = s"
| "batches c st publish errorText s (Suc n) =
     snd (PublishBatch c (st n) (publish n) errorText (batches c st publish errorText s n))"

text \<open>
  How iteration \<open>n\<close> ends the loop, if it does: it is cancelled before its batch, its batch fails, or nothing was claimed
  and it is cancelled while it waits.
\<close>

definition run_end ::
  "publisherConfig \<Rightarrow> (nat \<Rightarrow> 'w store) \<Rightarrow> (nat \<Rightarrow> message \<Rightarrow> ('k, unit) tx) \<Rightarrow> (error \<Rightarrow> string)
     \<Rightarrow> (nat \<Rightarrow> bool) \<Rightarrow> (nat \<Rightarrow> bool) \<Rightarrow> 'w \<times> 'k \<Rightarrow> nat \<Rightarrow> (error option \<times> 'w \<times> 'k) option" where
  "run_end c st publish errorText cancelled stopped s n =
     (let result = fst (PublishBatch c (st n) (publish n) errorText (batches c st publish errorText s n)) in
      if cancelled n then Some (None, batches c st publish errorText s n)
      else if snd result \<noteq> None then Some (snd result, batches c st publish errorText s (Suc n))
      else if br_Claimed (fst result) \<le> 0 \<and> stopped n then Some (None, batches c st publish errorText s (Suc n))
      else None)"

lemma Run_step:
  "Run c st publish errorText cancelled stopped n (batches c st publish errorText s n) =
     (case run_end c st publish errorText cancelled stopped s n of
        Some x \<Rightarrow> Some x
      | None \<Rightarrow> Run c st publish errorText cancelled stopped (Suc n) (batches c st publish errorText s (Suc n)))"
  by (subst Run.simps) (auto simp: run_end_def Let_def split: prod.splits option.splits)

lemma Run_ends:
  assumes "run_end c st publish errorText cancelled stopped s n = Some x" "i \<le> n"
    "\<forall>m. i \<le> m \<and> m < n \<longrightarrow> run_end c st publish errorText cancelled stopped s m = None"
  shows "Run c st publish errorText cancelled stopped i (batches c st publish errorText s i) = Some x"
  using assms(2,3)
proof (induction i rule: inc_induct)
  case base
  then show ?case by (simp add: Run_step assms(1))
next
  case (step i)
  then show ?case by (simp add: Run_step [where n = i])
qed

text \<open>A result of the loop is that of an iteration.\<close>

lemma Run_result:
  assumes "Run c st publish errorText cancelled stopped i t = Some x"
  shows "\<forall>s. t = batches c st publish errorText s i \<longrightarrow>
    (\<exists>n \<ge> i. run_end c st publish errorText cancelled stopped s n = Some x \<and>
      (\<forall>m. i \<le> m \<and> m < n \<longrightarrow> run_end c st publish errorText cancelled stopped s m = None))"
proof (rule Run.raw_induct [OF _ assms])
  fix run :: "publisherConfig \<Rightarrow> (nat \<Rightarrow> 'a store) \<Rightarrow> (nat \<Rightarrow> message \<Rightarrow> ('b, unit) tx) \<Rightarrow> (error \<Rightarrow> string)
     \<Rightarrow> (nat \<Rightarrow> bool) \<Rightarrow> (nat \<Rightarrow> bool) \<Rightarrow> nat \<Rightarrow> 'a \<times> 'b \<Rightarrow> (error option \<times> 'a \<times> 'b) option"
    and c :: publisherConfig and st :: "nat \<Rightarrow> 'a store" and publish :: "nat \<Rightarrow> message \<Rightarrow> ('b, unit) tx"
    and errorText cancelled stopped i t x
  let ?ends = "\<lambda>i x s. \<exists>n \<ge> i. run_end c st publish errorText cancelled stopped s n = Some x \<and>
      (\<forall>m. i \<le> m \<and> m < n \<longrightarrow> run_end c st publish errorText cancelled stopped s m = None)"
  assume IH: "\<And>c st publish errorText cancelled stopped i t x. run c st publish errorText cancelled stopped i t = Some x \<Longrightarrow>
      \<forall>s. t = batches c st publish errorText s i \<longrightarrow> (\<exists>n \<ge> i. run_end c st publish errorText cancelled stopped s n = Some x \<and>
        (\<forall>m. i \<le> m \<and> m < n \<longrightarrow> run_end c st publish errorText cancelled stopped s m = None))"
    and body: "(if cancelled i then Some (None, t)
      else case PublishBatch c (st i) (publish i) errorText t of
        ((result, Some e), s') \<Rightarrow> Some (Some e, s')
      | ((result, None), s') \<Rightarrow>
          if 0 < br_Claimed result then run c st publish errorText cancelled stopped (Suc i) s'
          else if stopped i then Some (None, s')
          else run c st publish errorText cancelled stopped (Suc i) s') = Some x"
  show "\<forall>s. t = batches c st publish errorText s i \<longrightarrow> ?ends i x s"
  proof (intro allI impI)
    fix s
    assume t: "t = batches c st publish errorText s i"
    show "?ends i x s"
    proof (cases "run_end c st publish errorText cancelled stopped s i")
      case None
      with body t have "run c st publish errorText cancelled stopped (Suc i) (batches c st publish errorText s (Suc i)) = Some x"
        by (auto simp: run_end_def Let_def split: prod.splits option.splits if_splits)
      from IH [OF this] have "?ends (Suc i) x s" by blast
      with None show ?thesis by (metis Suc_leD Suc_leI le_neq_implies_less)
    next
      case (Some y)
      with body t have "y = x" by (auto simp: run_end_def Let_def split: prod.splits option.splits if_splits)
      with Some show ?thesis by auto
    qed
  qed
qed

text \<open>
  C38: When the polling loop ends, and with what. Given that each call of the store and of the producer returns, \<open>Run\<close>
  returns exactly if some iteration ends it: the first one that is cancelled before its batch, whose batch fails, or
  that claimed nothing and is cancelled while it waits. Its result is the error of that batch or none, and the store and
  the broker are as the batches up to there left them: no batch is skipped, none is run after an error or a
  cancellation, and the loop does not wait while events are being claimed.
\<close>

theorem Run_exact:
  "Run c st publish errorText cancelled stopped 0 s = Some x \<longleftrightarrow>
     (\<exists>n. run_end c st publish errorText cancelled stopped s n = Some x \<and>
       (\<forall>m < n. run_end c st publish errorText cancelled stopped s m = None))"
proof
  assume "Run c st publish errorText cancelled stopped 0 s = Some x"
  from Run_result [OF this] show "\<exists>n. run_end c st publish errorText cancelled stopped s n = Some x \<and>
       (\<forall>m < n. run_end c st publish errorText cancelled stopped s m = None)" by auto
next
  assume "\<exists>n. run_end c st publish errorText cancelled stopped s n = Some x \<and>
       (\<forall>m < n. run_end c st publish errorText cancelled stopped s m = None)"
  then show "Run c st publish errorText cancelled stopped 0 s = Some x" using Run_ends [where i = 0] by fastforce
qed

definition failing_store :: "nat \<Rightarrow> nat store" where
  "failing_store i =
     \<lparr>st_Claim = (\<lambda>_ _ w. (if i = 0 then Inr [] else Inl [Opaque ''connection refused''], w + 1)),
      st_MarkPublished = (\<lambda>_ _ w. (Inr (), w)), st_MarkFailed = (\<lambda>_ _ _ _ w. (Inr (), w))\<rparr>"

theorem Run_exact_witness:
  "Run sample_config failing_store (\<lambda>_ m log. (Inr (), m # log)) (\<lambda>_. []) (\<lambda>_. False) (\<lambda>_. False) 0 (0, []) =
     Some (Some [Opaque ''connection refused''], 2, [])"
proof -
  let ?outcome = "run_end sample_config failing_store (\<lambda>_ m log. (Inr (), m # log)) (\<lambda>_. []) (\<lambda>_. False) (\<lambda>_. False) (0, [])"
  have "?outcome 0 = None" "?outcome 1 = Some (Some [Opaque ''connection refused''], 2, [])"
    by (simp_all add: run_end_def PublishBatch_def failing_store_def)
  then show ?thesis by (intro Run_exact [THEN iffD2] exI [of _ 1]) simp
qed

section \<open>The loop empties the outbox\<close>

text \<open>What a publisher relies on to make progress: \<open>due w\<close> are the events that can be claimed.\<close>

locale draining_store = event_store +
  fixes due :: "'a \<Rightarrow> string set"
  assumes due_finite: "inv w \<Longrightarrow> finite (due w)"
    and claim_due: "inv w \<Longrightarrow> valid_claim n l \<Longrightarrow> st_Claim st n l w = (Inr cs, w') \<Longrightarrow>
      claim_id ` set cs \<subseteq> due w \<and> due w' = due w - claim_id ` set cs \<and> (cs = [] \<longrightarrow> due w = {}) \<and>
      (\<forall>c \<in> set cs. \<exists>encoded. json_Marshal_envelope (ce_Envelope c) = Inr encoded)"
    and markPublished_due: "inv w \<Longrightarrow> holder w i = Some t \<Longrightarrow> st_MarkPublished st i t w = (Inr (), w') \<Longrightarrow> due w' = due w - {i}"
begin

lemma publish_each_accepted:
  assumes "\<And>m k. \<exists>k'. publish m k = (Inr (), k')" "inv w" "distinct (map claim_id cs)"
    and "\<forall>e \<in> set cs. holder w (claim_id e) = Some (ce_ClaimToken e)"
    and "\<forall>e \<in> set cs. \<exists>encoded. json_Marshal_envelope (ce_Envelope e) = Inr encoded"
  shows "\<exists>result' w' k'. publish_each c st publish errorText result cs (w, k) = ((result', None), w', k') \<and>
    br_Claimed result' = br_Claimed result \<and> inv w' \<and>
    published w' = published w \<union> claim_id ` set cs \<and> due w' = due w - claim_id ` set cs"
  using assms(2-5)
proof (induction cs arbitrary: w k result)
  case (Cons e cs)
  obtain encoded where m: "json_Marshal_envelope (ce_Envelope e) = Inr encoded" using Cons.prems(4) by auto
  obtain k1 where p: "publish (message_of (ce_Envelope e) encoded) k = (Inr (), k1)" using assms(1) by blast
  have h: "holder w (claim_id e) = Some (ce_ClaimToken e)" using Cons.prems(3) by simp
  obtain w1 where w1: "st_MarkPublished st (claim_id e) (ce_ClaimToken e) w = (Inr (), w1)" "inv w1"
    "published w1 = insert (claim_id e) (published w)" "\<forall>j. j \<noteq> claim_id e \<longrightarrow> holder w1 j = holder w j"
    using markPublished_holder [OF Cons.prems(1) h] by blast
  have "\<forall>x \<in> set cs. holder w1 (claim_id x) = Some (ce_ClaimToken x)"
    using w1(4) Cons.prems(2,3) by (metis distinct.simps(2) image_eqI list.set_intros(2) list.set_map list.simps(9))
  from Cons.IH [OF w1(2) _ this, where result = "result\<lparr>br_Published := br_Published result + 1\<rparr>" and k = k1] Cons.prems(2,4) w1(3)
    markPublished_due [OF Cons.prems(1) h w1(1)]
  show ?case using m p w1(1) by (auto simp: claim_id_def [symmetric])
qed simp

lemma PublishBatch_accepted:
  assumes "config_ok c" "\<And>m k. \<exists>k'. publish m k = (Inr (), k')" "inv w"
  shows "\<exists>result ids w' k'. PublishBatch c st publish errorText (w, k) = ((result, None), w', k') \<and> inv w' \<and>
    published w' = published w \<union> ids \<and> ids \<subseteq> due w \<and> due w' = due w - ids \<and>
    (if 0 < br_Claimed result then ids \<noteq> {} else due w = {})"
proof -
  have v: "valid_claim (pc_BatchSize c) (pc_ClaimLease c)" using assms(1) by (simp add: config_ok_iff)
  from claim_leases [OF assms(3) v] obtain cs w1 where cs:
    "st_Claim st (pc_BatchSize c) (pc_ClaimLease c) w = (Inr cs, w1)" "inv w1" "published w1 = published w"
    "distinct (map claim_id cs)" "\<forall>e \<in> set cs. holder w1 (claim_id e) = Some (ce_ClaimToken e)"
    by blast
  note d = claim_due [OF assms(3) v cs(1)]
  have m: "\<forall>e \<in> set cs. \<exists>encoded. json_Marshal_envelope (ce_Envelope e) = Inr encoded" using d by blast
  from publish_each_accepted [where publish = publish, OF assms(2) cs(2,4,5) m,
      where c = c and errorText = errorText and result = "\<lparr>br_Claimed = len cs, br_Published = 0, br_Failed = 0\<rparr>" and k = k]
  obtain result w' k' where "PublishBatch c st publish errorText (w, k) = ((result, None), w', k')"
    "br_Claimed result = len cs" "inv w'" "published w' = published w \<union> claim_id ` set cs" "due w' = due w1 - claim_id ` set cs"
    using cs(1,3) by (auto simp: PublishBatch_def)
  with d show ?thesis by (intro exI [of _ result] exI [of _ "claim_id ` set cs"] exI [of _ w'] exI [of _ k']) auto
qed

end

lemma Run_drains_store:
  assumes "config_ok c" "\<And>i. draining_store (st i) ok holder published due" "\<And>i m k. \<exists>k'. publish i m k = (Inr (), k')" "ok w"
    and "\<And>i. \<not> cancelled i" "\<And>i. stopped i"
  shows "\<exists>w' k'. Run c st publish errorText cancelled stopped i (w, k) = Some (None, w', k') \<and> ok w' \<and>
    published w' = published w \<union> due w \<and> due w' = {}"
  using assms(4)
proof (induction "card (due w)" arbitrary: i w k rule: less_induct)
  case less
  obtain result ids w1 k1 where b: "PublishBatch c (st i) (publish i) errorText (w, k) = ((result, None), w1, k1)" "ok w1"
    "published w1 = published w \<union> ids" "ids \<subseteq> due w" "due w1 = due w - ids"
    "if 0 < br_Claimed result then ids \<noteq> {} else due w = {}"
    using draining_store.PublishBatch_accepted
      [where publish = "publish i", OF assms(2) [of i] assms(1) assms(3) [of i] less.prems, where errorText = errorText and k = k] by blast
  show ?case
  proof (cases "0 < br_Claimed result")
    case True
    have "finite (due w)" by (rule draining_store.due_finite [OF assms(2) [of 0] less.prems])
    moreover have "due w1 \<subset> due w" using b(4-6) True by auto
    ultimately have "card (due w1) < card (due w)" by (rule psubset_card_mono)
    from less.hyps [OF this b(2), of "Suc i" k1] obtain w' k' where
      "Run c st publish errorText cancelled stopped (Suc i) (w1, k1) = Some (None, w', k')" "ok w'"
      "published w' = published w1 \<union> due w1" "due w' = {}" by blast
    then show ?thesis using b True assms(5) by (subst Run.simps) auto
  next
    case False
    then show ?thesis using b assms(5,6) by (subst Run.simps) auto
  qed
qed

section \<open>The PostgreSQL outbox drains\<close>

definition due_events :: "database \<Rightarrow> string set" where
  "due_events db = o_event_id ` {e \<in> set (outbox_events db). claimable (clock db) e}"

definition encodable :: "database \<Rightarrow> bool" where
  "encodable db \<longleftrightarrow> (\<forall>e \<in> set (outbox_events db).
     \<exists>encoded. json_Marshal_envelope \<lparr>en_eventID = o_event_id e, en_draft = row_draft e\<rparr> = Inr encoded)"

lemma encodable_updated:
  assumes "\<And>e. same_content e (new e)"
  shows "encodable (updated hit new db) \<longleftrightarrow> encodable db"
proof -
  define f where "f = (\<lambda>e. if hit e then new e else e)"
  have "o_event_id (f e) = o_event_id e" "row_draft (f e) = row_draft e" for e
    using assms [of e] same_content_draft [OF assms [of e]] by (simp_all add: f_def same_content_def)
  then show ?thesis unfolding encodable_def updated_def f_def [symmetric] by simp
qed

lemma due_updated:
  assumes "\<And>e. same_content e (new e)" "\<And>e. hit e \<Longrightarrow> \<not> claimable (clock db) (new e)"
  shows "due_events (updated hit new db) = o_event_id ` {e \<in> set (outbox_events db). claimable (clock db) e \<and> \<not> hit e}"
  using assms by (force simp: due_events_def updated_def)

context claim_source
begin

lemma claim_drains:
  assumes "outbox_inv db" "encodable db" "valid_claim n l" "Claim (Inr bytes) quiet (\<lambda>_. False) n l db = (Inr cs, db')"
  shows "claim_id ` set cs \<subseteq> due_events db" "due_events db' = due_events db - claim_id ` set cs"
    "cs = [] \<Longrightarrow> due_events db = {}" "encodable db'"
    "\<forall>c \<in> set cs. \<exists>encoded. json_Marshal_envelope (ce_Envelope c) = Inr encoded"
proof -
  have ok: "outbox_ok db" using assms(1) by (simp add: outbox_inv_def)
  obtain token where t: "newClaimToken (Inr bytes) = Inr token" using newClaimToken_eq [OF random_bytes] by blast
  let ?c = "candidates (\<lambda>_. False) (sint n) db" and ?until = "clock db + sint l div second * second"
  have run: "cs = claimed_events token (\<lambda>_. False) (sint n) db" "db' = leased_db (\<lambda>_. False) (sint n) token (sint l div second) db"
    using assms(4) by (simp_all add: Claim_in_inv [OF assms(1,3) t] run_tx_quiet)
  have set: "set cs = row_claim token ` set ?c" unfolding run(1) by (rule claimed_events_facts(3) [OF ok])
  have ids: "claim_id ` set cs = candidate_ids (\<lambda>_. False) (sint n) db"
    unfolding set by (simp add: candidate_ids_def image_image claim_id_def row_claim_def)
  show "claim_id ` set cs \<subseteq> due_events db"
    unfolding ids candidate_ids_def due_events_def using candidates_claimable by fastforce
  have "0 < sint l div second" using assms(3) by (simp add: valid_claim_def second_def pos_imp_zdiv_pos_iff)
  then have "\<not> claimable (clock db) (leased_row token ?until e)" for e
    by (simp add: claimable_def leased_row_def second_def)
  then show "due_events db' = due_events db - claim_id ` set cs"
    unfolding run(2) leased_db_def ids by (subst due_updated [OF same_content_rows(2)]) (auto simp: due_events_def)
  show "encodable db'" unfolding run(2) leased_db_def encodable_updated [OF same_content_rows(2)] by (rule assms(2))
  show "\<forall>c \<in> set cs. \<exists>encoded. json_Marshal_envelope (ce_Envelope c) = Inr encoded"
    unfolding set using assms(2) candidates_claimable by (fastforce simp: encodable_def row_claim_def)
  assume "cs = []"
  then have "?c = []" using set by simp
  moreover have "0 < sint n" using assms(3) by (simp add: valid_claim_def)
  ultimately show "due_events db = {}"
    using candidates_all [of "\<lambda>_. False" "sint n" db] by (auto simp: due_events_def)
qed

end

sublocale claim_source \<subseteq> drain: draining_store "repository_store scan bytes (\<lambda>_. False)" "\<lambda>db. outbox_inv db \<and> encodable db"
  outbox_holder outbox_published due_events
proof unfold_locales
  fix w :: database and n l :: int64
  assume w: "outbox_inv w \<and> encodable w" "valid_claim n l"
  from claims [of w n l "\<lambda>_. False"] w claim_drains(4) [of w n l]
  show "\<exists>cs w'. st_Claim (repository_store scan bytes (\<lambda>_. False)) n l w = (Inr cs, w') \<and> (outbox_inv w' \<and> encodable w') \<and>
      outbox_published w' = outbox_published w \<and> distinct (map claim_id cs) \<and>
      (\<forall>c \<in> set cs. outbox_holder w' (claim_id c) = Some (ce_ClaimToken c) \<and> 0 \<le> sint (ce_PublishAttempts c))"
    by (auto simp: repository_store_def)
next
  fix w :: database and i t :: string
  assume w: "outbox_inv w \<and> encodable w" "outbox_holder w i = Some t"
  have d: "valid_delay 0" by (simp add: valid_delay_def second_def)
  from outbox_store.markPublished_holder [OF conjunct1 [OF w(1)] w(2)] completes(1) [OF conjunct1 [OF w(1)] w(2) d] w(1)
  show "\<exists>w'. st_MarkPublished (repository_store scan bytes (\<lambda>_. False)) i t w = (Inr (), w') \<and> (outbox_inv w' \<and> encodable w') \<and>
      outbox_published w' = insert i (outbox_published w) \<and> (\<forall>j. j \<noteq> i \<longrightarrow> outbox_holder w' j = outbox_holder w j)"
    by (auto simp: repository_store_def encodable_updated [OF same_content_rows(3)])
next
  fix w :: database and i t s :: string and d :: int64
  assume w: "outbox_inv w \<and> encodable w" "outbox_holder w i = Some t" "valid_delay d"
  from outbox_store.markFailed_holder [OF conjunct1 [OF w(1)] w(2,3)] completes(2) [OF conjunct1 [OF w(1)] w(2,3)] w(1)
  show "\<exists>w'. st_MarkFailed (repository_store scan bytes (\<lambda>_. False)) i t d s w = (Inr (), w') \<and> (outbox_inv w' \<and> encodable w') \<and>
      outbox_published w' = outbox_published w \<and> (\<forall>j. j \<noteq> i \<longrightarrow> outbox_holder w' j = outbox_holder w j)"
    by (auto simp: repository_store_def encodable_updated [OF same_content_rows(4)])
next
  show "finite (due_events w)" for w by (simp add: due_events_def)
next
  fix w w' :: database and n l :: int64 and cs
  assume "outbox_inv w \<and> encodable w" "valid_claim n l" "st_Claim (repository_store scan bytes (\<lambda>_. False)) n l w = (Inr cs, w')"
  then show "claim_id ` set cs \<subseteq> due_events w \<and> due_events w' = due_events w - claim_id ` set cs \<and>
      (cs = [] \<longrightarrow> due_events w = {}) \<and> (\<forall>c \<in> set cs. \<exists>encoded. json_Marshal_envelope (ce_Envelope c) = Inr encoded)"
    using claim_drains [of w n l cs w'] by (simp add: repository_store_def)
next
  fix w w' :: database and i t :: string
  assume w: "outbox_inv w \<and> encodable w" "outbox_holder w i = Some t"
    "st_MarkPublished (repository_store scan bytes (\<lambda>_. False)) i t w = (Inr (), w')"
  have ok: "outbox_ok w" using w(1) by (simp add: outbox_inv_def)
  have d: "valid_delay 0" by (simp add: valid_delay_def second_def)
  have w': "w' = updated (claimed_as i t) (published_row (clock w)) w"
    using w(3) completes(1) [OF conjunct1 [OF w(1)] w(2) d] by (simp add: repository_store_def)
  have "claimed_as i t e" if "e \<in> set (outbox_events w)" "claimable (clock w) e" "o_event_id e = i" for e
    using outbox_holder_row [OF ok that(1)] that w(2) by (auto simp: claimed_as_def claimable_def)
  then show "due_events w' = due_events w - {i}"
    unfolding w' by (subst due_updated [OF same_content_rows(3)]) (auto simp: claimable_def published_row_def due_events_def claimed_as_def)
qed

context claim_source
begin

lemma drains: "draining_store (repository_store scan bytes (\<lambda>_. False)) (\<lambda>db. outbox_inv db \<and> encodable db)
    outbox_holder outbox_published due_events"
  by unfold_locales

end

text \<open>
  C39: The publisher empties the outbox before it waits. On every reachable outbox whose events can be encoded, with a
  valid configuration, an undisturbed database that nobody else uses and whose clock stands still meanwhile, sixteen random
  bytes for each claim and a broker that acknowledges every message, a loop that is cancelled when it first waits returns without an error, and
  then exactly the events that were published or due at the start are published and none is due any more.
\<close>

theorem Run_drains:
  assumes "jsonb_column jsonb" "reachable outbox_init (outbox_move jsonb tz scan) db" "encodable db"
    and "uuid_scanner scan" "\<And>i. length (bytes i) = 16" "validatePublisherConfig c = None"
    and "\<And>i m k. \<exists>k'. publish i m k = (Inr (), k')" "\<And>i. \<not> cancelled i" "\<And>i. stopped i"
  shows "\<exists>db' k'. Run c (\<lambda>i. repository_store scan (bytes i) (\<lambda>_. False)) publish errorText cancelled stopped 0 (db, k) =
      Some (None, db', k') \<and>
    outbox_published db' = outbox_published db \<union> due_events db \<and> due_events db' = {}"
proof -
  have "claim_source scan (bytes i)" for i by (intro claim_source.intro claim_source_axioms.intro assms(4,5))
  then have st: "draining_store (repository_store scan (bytes i) (\<lambda>_. False)) (\<lambda>db. outbox_inv db \<and> encodable db)
      outbox_holder outbox_published due_events" for i
    by (rule claim_source.drains)
  have "outbox_inv db" by (rule jsonb_column.reachable_outbox [OF assms(1,2)])
  moreover have "config_ok c" using assms(6) by (simp add: config_ok_def)
  ultimately show ?thesis using Run_drains_store [where publish = publish and cancelled = cancelled and stopped = stopped, OF _ st assms(7) _ assms(8,9)] assms(3) by fast
qed

theorem Run_drains_witness:
  "\<exists>db' k'. Run sample_config (\<lambda>i. repository_store reference_scan sample_bytes (\<lambda>_. False))
      (\<lambda>_ m log. (Inr (), m # log)) (\<lambda>_. []) (\<lambda>_. False) (\<lambda>_. True) 0 (sample_outbox, []) = Some (None, db', k') \<and>
    sample_event_id \<in> outbox_published db' \<and> due_events db' = {}"
proof -
  have "outbox_inv sample_outbox" by (rule jsonb_column.reachable_outbox [OF reference_column sample_reachable(2)])
  then have r: "scanClaimedEvent sample_token e = Inr (row_claim sample_token e)" if "e \<in> set (outbox_events sample_outbox)" for e
    using that by (intro scanClaimedEvent_readable) (simp add: outbox_inv_def)
  have "map (scanClaimedEvent sample_token) (outbox_events sample_outbox) =
      [Inr \<lparr>ce_Envelope = \<lparr>en_eventID = sample_event_id, en_draft = sample_draft\<rparr>, ce_Sequence = 1, ce_PublishAttempts = 0,
        ce_ClaimToken = sample_token\<rparr>]" by code_simp
  with r have "ce_Envelope (row_claim sample_token e) = \<lparr>en_eventID = sample_event_id, en_draft = sample_draft\<rparr>"
    if "e \<in> set (outbox_events sample_outbox)" for e using that by (cases "outbox_events sample_outbox") auto
  moreover have "\<not> isl (json_Marshal_envelope \<lparr>en_eventID = sample_event_id, en_draft = sample_draft\<rparr>)" by code_simp
  then obtain encoded where "json_Marshal_envelope \<lparr>en_eventID = sample_event_id, en_draft = sample_draft\<rparr> = Inr encoded"
    by (rule that [OF sum.collapse(2) [symmetric]])
  ultimately have e: "encodable sample_outbox" by (simp add: encodable_def row_claim_def)
  have d: "sample_event_id \<in> due_events sample_outbox" by code_simp
  show ?thesis
    using Run_drains [where publish = "\<lambda>_ m log. (Inr (), m # log)" and cancelled = "\<lambda>_. False" and stopped = "\<lambda>_. True"
        and bytes = "\<lambda>_. sample_bytes", OF reference_column sample_reachable(2) e reference.uuid_scanner_axioms sample_canonical(4)
        sample_config_valid, of "\<lambda>_. []" "[]"] d by auto
qed

end
