(* ===== verification/Investigator.thy ===== *)
theory Investigator
  imports Results
begin

text \<open>
  Advisory explanations of review cases (\<open>internal/app/investigator/investigator.go\<close>). The provider is an argument; it
  returns a text or an error and has no access to the database. Copies of the slice of signals are the slice itself,
  since nothing mutates it.
\<close>

record iSignal =
  is_Code :: string
  is_Contribution :: int64

record Investigation =
  iv_caseID :: string
  iv_assessmentVersion :: int64
  iv_currency :: string
  iv_amountMinor :: int64
  iv_score :: int64
  iv_signals :: "iSignal list"

definition NewInvestigation ::
  "string \<Rightarrow> int64 \<Rightarrow> string \<Rightarrow> int64 \<Rightarrow> int64 \<Rightarrow> iSignal list \<Rightarrow> Investigation result" where
  "NewInvestigation caseID assessmentVersion code amountMinor score signals =
     (if TrimSpace caseID = [] \<or> assessmentVersion <s 2 \<or> length code \<noteq> 3 \<or> amountMinor \<le>s 0 \<or> score <s 0 \<or> 1000 <s score
      then fail Investigator ErrInvalidArgument
      else if list_ex (\<lambda>signal. TrimSpace (is_Code signal) = [] \<or> is_Contribution signal <s 0) signals
      then fail Investigator ErrInvalidArgument
      else Inr \<lparr>iv_caseID = caseID, iv_assessmentVersion = assessmentVersion, iv_currency = code, iv_amountMinor = amountMinor,
                iv_score = score, iv_signals = signals\<rparr>)"

type_synonym provider = "Investigation \<Rightarrow> string result"

definition service_Explain :: "provider \<Rightarrow> Investigation \<Rightarrow> string result" where
  "service_Explain provider investigation =
     (if iv_caseID investigation = [] then fail Investigator ErrInvalidArgument
      else andThen (provider investigation) (\<lambda>explanation.
        if TrimSpace explanation = [] then fail Investigator ErrInvalidArgument else Inr explanation))"

record mockProvider =
  mk_Explanation :: string
  mk_Err :: "error option"

definition mock_Explain :: "mockProvider \<Rightarrow> provider" where
  "mock_Explain p _ = (case mk_Err p of Some e \<Rightarrow> Inl e | None \<Rightarrow> Inr (mk_Explanation p))"

section \<open>What is disclosed\<close>

text \<open>
  Every investigation that is built satisfies the bounds of the domain, and keeps the facts it was given; the service
  passes on the explanation of the provider for exactly that investigation, unless it is blank.
\<close>

definition investigation_ok :: "Investigation \<Rightarrow> bool" where
  "investigation_ok v \<longleftrightarrow> TrimSpace (iv_caseID v) \<noteq> [] \<and> 2 \<le> sint (iv_assessmentVersion v) \<and> length (iv_currency v) = 3 \<and>
     0 < sint (iv_amountMinor v) \<and> sint (iv_score v) \<in> {0..1000} \<and>
     list_all (\<lambda>s. TrimSpace (is_Code s) \<noteq> [] \<and> 0 \<le> sint (is_Contribution s)) (iv_signals v)"

lemma NewInvestigation_iff:
  "NewInvestigation caseID version code amount score signals = Inr v \<longleftrightarrow> investigation_ok v \<and>
     v = \<lparr>iv_caseID = caseID, iv_assessmentVersion = version, iv_currency = code, iv_amountMinor = amount,
          iv_score = score, iv_signals = signals\<rparr>"
  by (auto simp: NewInvestigation_def investigation_ok_def int64_simps list_all_iff list_ex_iff not_less)
    (metis linorder_not_less)

lemma service_Explain_iff:
  "investigation_ok v \<Longrightarrow> service_Explain provider v = Inr t \<longleftrightarrow> provider v = Inr t \<and> TrimSpace t \<noteq> []"
  by (cases "provider v") (auto simp: service_Explain_def investigation_ok_def result_simps split: if_splits)

end
