(* ===== verification/Http_Server.thy ===== *)
theory Http_Server
  imports Review_Http
begin

text \<open>
  The observed server (\<open>internal/platform/httpserver\<close>): the response writer that remembers the status for the metrics,
  the labels of a request, and the health endpoint. A handler is the sequence of the calls that it makes on its
  response writer; \<open>conn\<close> is the response writer of \<open>net/http\<close>: informational statuses (100 to 199 except 101) are sent
  at once and leave the final status open, of the others the first counts, a write without one sends 200, and so does a
  handler that writes nothing; responses of status 101, 204 and 304 have no body. Statuses below 100 and above 999, for which
  \<open>net/http\<close> panics, are not modelled. Durations, tracing and log lines have no effect here.
\<close>

section \<open>The code\<close>

datatype writer_call = CallWriteHeader nat | CallWrite string

record conn =
  cn_informational :: "nat list"
  cn_status :: "nat option"
  cn_body :: string

definition informational :: "nat \<Rightarrow> bool" where
  "informational status \<longleftrightarrow> 100 \<le> status \<and> status \<le> 199 \<and> status \<noteq> 101"

definition bodyAllowedForStatus :: "nat \<Rightarrow> bool" where
  "bodyAllowedForStatus status \<longleftrightarrow> \<not> (100 \<le> status \<and> status \<le> 199) \<and> status \<noteq> 204 \<and> status \<noteq> 304"

definition conn_WriteHeader :: "nat \<Rightarrow> conn \<Rightarrow> conn" where
  "conn_WriteHeader status c =
     (if cn_status c \<noteq> None then c
      else if informational status then c\<lparr>cn_informational := cn_informational c @ [status]\<rparr>
      else c\<lparr>cn_status := Some status\<rparr>)"

definition conn_Write :: "string \<Rightarrow> conn \<Rightarrow> conn" where
  "conn_Write body c =
     (let c = (if cn_status c = None then conn_WriteHeader 200 c else c) in
      if bodyAllowedForStatus (the (cn_status c)) then c\<lparr>cn_body := cn_body c @ body\<rparr> else c)"

record statusResponseWriter =
  sw_ResponseWriter :: conn
  sw_statusCode :: nat
  sw_wroteHeader :: bool

definition status_WriteHeader :: "nat \<Rightarrow> statusResponseWriter \<Rightarrow> statusResponseWriter" where
  "status_WriteHeader status w =
     (if sw_wroteHeader w then w
      else w\<lparr>sw_statusCode := status, sw_wroteHeader := True, sw_ResponseWriter := conn_WriteHeader status (sw_ResponseWriter w)\<rparr>)"

definition status_Write :: "string \<Rightarrow> statusResponseWriter \<Rightarrow> statusResponseWriter" where
  "status_Write body w =
     (let w = (if \<not> sw_wroteHeader w then status_WriteHeader 200 w else w) in
      w\<lparr>sw_ResponseWriter := conn_Write body (sw_ResponseWriter w)\<rparr>)"

definition writer_status :: "statusResponseWriter \<Rightarrow> nat" where
  "writer_status w = (if \<not> sw_wroteHeader w then 200 else sw_statusCode w)"

fun on_conn :: "writer_call \<Rightarrow> conn \<Rightarrow> conn" where
  "on_conn (CallWriteHeader s) = conn_WriteHeader s"
| "on_conn (CallWrite b) = conn_Write b"

fun on_writer :: "writer_call \<Rightarrow> statusResponseWriter \<Rightarrow> statusResponseWriter" where
  "on_writer (CallWriteHeader s) = status_WriteHeader s"
| "on_writer (CallWrite b) = status_Write b"

text \<open>The metrics: a counter per method, route and status.\<close>

type_synonym labels = "string \<times> string \<times> nat"

definition route_label :: "string \<Rightarrow> string" where
  "route_label pattern = (if pattern = [] then ''unmatched'' else pattern)"

definition instrument ::
  "string \<Rightarrow> string \<Rightarrow> writer_call list \<Rightarrow> (labels \<Rightarrow> nat) \<Rightarrow> conn \<Rightarrow> (labels \<Rightarrow> nat) \<times> conn" where
  "instrument verb pattern handler requests c =
     (let response = fold on_writer handler \<lparr>sw_ResponseWriter = c, sw_statusCode = 0, sw_wroteHeader = False\<rparr>;
          labels = (verb, route_label pattern, writer_status response) in
      (requests(labels := requests labels + 1), sw_ResponseWriter response))"

definition health :: "writer_call list" where
  "health = [CallWriteHeader 200, CallWrite (json_print (JObject [(''status'', JString ''ok'')]) @ [CHR 0x0A])]"

section \<open>Metrics observe and do not interfere\<close>

definition in_step :: "conn \<Rightarrow> statusResponseWriter \<Rightarrow> bool" where
  "in_step c w \<longleftrightarrow> sw_ResponseWriter w = c \<and> (sw_wroteHeader w \<longleftrightarrow> cn_status c \<noteq> None) \<and>
     (\<forall>s. cn_status c = Some s \<longrightarrow> sw_statusCode w = s)"

text \<open>The calls of a handler that sends no informational status.\<close>

fun final_call :: "writer_call \<Rightarrow> bool" where
  "final_call (CallWriteHeader s) \<longleftrightarrow> s = 101 \<or> 200 \<le> s \<and> s \<le> 999"
| "final_call (CallWrite b) \<longleftrightarrow> True"

lemma in_step_call: "in_step c w \<Longrightarrow> final_call x \<Longrightarrow> in_step (on_conn x c) (on_writer x w)"
  by (cases x) (auto simp: in_step_def status_WriteHeader_def status_Write_def conn_WriteHeader_def conn_Write_def Let_def
      informational_def)

lemma in_step_calls: "in_step c w \<Longrightarrow> list_all final_call xs \<Longrightarrow> in_step (fold on_conn xs c) (fold on_writer xs w)"
  by (induction xs arbitrary: c w) (auto intro: in_step_call)

text \<open>
  C40: The metrics report what the client saw and change nothing of it, for every handler that sends final
  statuses only (101 or 200 to 999; the handlers of the repository send no others): on a fresh connection the instrumented
  response is the one that the handler produces alone, and exactly one request is counted, under its method, its route and the
  status that the client received.
\<close>

theorem instrument_transparent:
  assumes "cn_status c = None" "list_all final_call handler"
  shows "instrument verb pattern handler requests c =
    (let direct = fold on_conn handler c;
         labels = (verb, route_label pattern, case cn_status direct of None \<Rightarrow> 200 | Some s \<Rightarrow> s) in
     (requests(labels := requests labels + 1), direct))"
proof -
  let ?w = "\<lparr>sw_ResponseWriter = c, sw_statusCode = 0, sw_wroteHeader = False\<rparr>"
  have "in_step c ?w" using assms(1) by (simp add: in_step_def)
  then have "in_step (fold on_conn handler c) (fold on_writer handler ?w)" using assms(2) by (rule in_step_calls)
  then show ?thesis
    by (auto simp: instrument_def writer_status_def in_step_def Let_def split: option.splits)
qed

theorem instrument_transparent_witness:
  "fst (instrument ''GET'' ''GET /healthz'' health (\<lambda>_. 0) \<lparr>cn_informational = [], cn_status = None, cn_body = []\<rparr>)
     (''GET'', ''GET /healthz'', 200) = 1"
proof -
  have "cn_status \<lparr>cn_informational = [], cn_status = None, cn_body = []\<rparr> = None" "list_all final_call health"
    by (simp_all add: health_def)
  from instrument_transparent [OF this, of "''GET''" "''GET /healthz''" "\<lambda>_. 0"] show ?thesis
    by (simp add: Let_def health_def conn_WriteHeader_def conn_Write_def route_label_def informational_def)
qed

text \<open>
  Without that restriction the wrapper interferes: it takes an informational status for the final one, does not pass the
  final status on, and counts the request under the informational status. A client that would have received the
  handler's status receives 200.
\<close>

lemma informational_hides_status:
  fixes body :: string
  assumes "informational early" "200 \<le> status" "status \<le> 999" "bodyAllowedForStatus status"
    and "cn_status c = None"
  defines "handler \<equiv> [CallWriteHeader early, CallWriteHeader status, CallWrite body]"
  shows "cn_status (fold on_conn handler c) = Some status"
    and "instrument verb pattern handler requests c =
      (requests((verb, route_label pattern, early) := requests (verb, route_label pattern, early) + 1),
       c\<lparr>cn_informational := cn_informational c @ [early], cn_status := Some 200, cn_body := cn_body c @ body\<rparr>)"
proof -
  have n: "\<not> informational status" "\<not> informational 200" "bodyAllowedForStatus 200"
    using assms(2,3) by (auto simp: informational_def bodyAllowedForStatus_def)
  show "cn_status (fold on_conn handler c) = Some status"
    using assms n by (simp add: conn_WriteHeader_def conn_Write_def)
  show "instrument verb pattern handler requests c =
      (requests((verb, route_label pattern, early) := requests (verb, route_label pattern, early) + 1),
       c\<lparr>cn_informational := cn_informational c @ [early], cn_status := Some 200, cn_body := cn_body c @ body\<rparr>)"
    using assms n
    by (simp add: instrument_def status_WriteHeader_def status_Write_def writer_status_def conn_WriteHeader_def conn_Write_def Let_def)
qed

end
