(* ===== verification/Spec2Isabelle.thy ===== *)
theory Spec2Isabelle
  imports Consumer_Stop Creation_Properties Http_Properties Process_Properties Publisher_Loop Investigator Http_Server
begin

text \<open>
  Verification of the intelligent wallet ledger: Go services that keep wallets and a double-entry ledger in
  PostgreSQL, accept transfers, assess their risk, let analysts decide doubtful ones, and settle them, with events
  carried from a transactional outbox over Kafka.

  \<^bold>\<open>The program.\<close> A request creates a row in \<open>transfers\<close> and an event in \<open>outbox_events\<close> in one transaction. The
  outbox publisher leases events and sends them to the broker. The risk worker consumes
  \<open>transfer.requested\<close>, evaluates the policy and approves, declines or opens a review case; an analyst closes a
  review case; the transaction worker consumes \<open>transfer.risk_assessed\<close> and \<open>transfer.review_decided\<close> and posts an
  approved transfer to the ledger, or fails it for insufficient funds. Workers deduplicate events with an inbox row
  in the same transaction and quarantine records they cannot read.

  \<^bold>\<open>How code becomes HOL.\<close> \<open>Prelude\<close> and \<open>Results\<close> fix the representation: \<open>int64\<close> is a 64-bit word read as two's
  complement, a string is its bytes, an instant is a number of nanoseconds, an error is the list of the causes it
  wraps, a fallible function returns a sum, and code inside a transaction is a function on the database that
  returns its result with the database also on error paths. \<open>run_tx\<close>, \<open>run_handler\<close> and \<open>run_deferred\<close> bracket it
  with begin, commit (which may be refused or lose its acknowledgement) and rollback. The tables of \<open>migrations/\<close>
  are lists of rows in one record \<open>database\<close> (\<open>Schema\<close>, \<open>Event_Tables\<close>, \<open>Transfer_Tables\<close>); each statement checks
  the constraints of its table and fails with the SQLSTATE and constraint name of the first violated one.

  \<^bold>\<open>Theories and sources.\<close>
  \<^item> \<open>Uuid\<close>, \<open>Ledger_Domain\<close>, \<open>Transfer_Domain\<close>, \<open>Risk_Domain\<close>: \<open>internal/ledger/domain\<close>,
    \<open>internal/transfer/domain\<close>, \<open>internal/risk/domain\<close>. Exact money, balanced entries and reversals, transfers, the
    lifecycle state machine, and the policy.
  \<^item> \<open>Ledger_Repository\<close>, \<open>Wallet_Repository\<close>: \<open>internal/ledger/postgres\<close>, \<open>internal/wallet/postgres\<close>.
    \<open>Ledger_Posting\<close>, \<open>Ledger_Journal\<close>, \<open>Ledger_Failures\<close>, \<open>Wallet_Accounts\<close>, \<open>Ledger_System\<close> and
    \<open>Ledger_Properties\<close> show what posting does on every branch, that stored entries read back, that the retry loop
    posts at most once, and the invariant of every reachable ledger.
  \<^item> \<open>Json\<close>, \<open>Json_Value\<close>, \<open>Json_Payload\<close>, \<open>Json_Decode\<close>, \<open>Rfc3339\<close>: the parts of \<open>encoding/json\<close> and \<open>time\<close> that
    the events use. \<open>Envelope\<close>, \<open>Envelope_Json\<close>, \<open>Envelope_Parse\<close>, \<open>Transfer_Events\<close>: \<open>internal/event\<close> and
    \<open>internal/transfer/events\<close>, with the round trips of envelopes and payloads.
  \<^item> \<open>Outbox_Repository\<close>, \<open>Outbox_Publisher\<close>: \<open>internal/outbox\<close>; \<open>Outbox_Rows\<close>, \<open>Outbox_System\<close>,
    \<open>Outbox_Properties\<close>: its transition system with separate steps for the report of a success and of a failure, leases
    and fencing, and the publisher over the contract \<open>event_store\<close>. \<open>Publisher_Loop\<close>: which iteration ends the polling loop
    and with what result, and, over the contract \<open>draining_store\<close> that the repository fulfils, that it empties the outbox.
  \<^item> \<open>Consumers\<close>, \<open>Workers\<close>, \<open>Consume_Loop\<close>: \<open>internal/inbox\<close>, \<open>internal/quarantine\<close>, \<open>internal/app/riskworker\<close>
    and \<open>internal/app/transactionworker\<close>.
  \<^item> \<open>Transfer_Repository\<close>, \<open>Review_Case\<close>: \<open>internal/transfer/postgres\<close>, \<open>internal/audit/postgres\<close>,
    \<open>internal/app/reviewcase\<close>.
  \<^item> \<open>Machines\<close>: reachable states, invariants and simulations, interpreted for the lifecycle, the ledger, the outbox
    and the whole program. \<open>Transfer_Rows\<close> to \<open>Wallet_Progress\<close> prove the effect of each operation on transfers
    and the joint invariant of the program (\<open>system_step\<close>); \<open>Transfer_Forward\<close> and \<open>Review_Forward\<close> that undisturbed
    operations succeed; \<open>Wallet_Run\<close> has the concrete runs and \<open>Wallet_Properties\<close> the properties of the program as
    a whole: money, status, events, review cases and audit records agree in every reachable database, the stored
    transfers refine an abstract lifecycle, and approved transfers are settled.
  \<^item> \<open>Worker_Properties\<close>, \<open>Creation_Properties\<close>, \<open>Consumer_Properties\<close>: what one call does from any reachable database,
    on every branch: the two handlers, \<open>Decide\<close>, \<open>CreatePending\<close> and \<open>Create\<close> either leave the database alone or have
    exactly their whole effect, and a consumer commits no record that is not accounted for in the inbox or in the
    quarantine. The last is proved once over \<open>record_handler\<close> and holds of both workers. \<open>Consumer_Stop\<close> shows the
    record that the transaction worker can never pass: an assessment whose transfer was decided before it was consumed.
  \<^item> \<open>Rate_Limiter\<close>, \<open>Review_Http\<close>, \<open>Http_Properties\<close>: \<open>internal/adapter/http/reviewdecision\<close> and
    \<open>internal/identity/oidc\<close>. Each subject has a token bucket of its own, also when concurrent calls get the mutex in another
    order than they read the clock, and only a request with a verified analyst
    token changes a transfer.
  \<^item> \<open>Http_Server\<close>: \<open>internal/platform/httpserver\<close>, the metrics around a handler, which are transparent as long as
    it sends no informational status. \<open>Investigator\<close>: \<open>internal/app/investigator\<close>. \<open>Velocity\<close>: \<open>internal/risk/redis\<close>; its
    counts are those of a sliding window over the whole history of observations.
  \<^item> \<open>Environment\<close>: the parsers of the standard library that configuration uses (integers, booleans, lists, durations).
    \<open>Process_Config\<close>: the configuration and the start of the four processes (\<open>run.go\<close> under \<open>internal/app\<close>, \<open>cmd\<close>) and
    \<open>internal/outbox/kafka\<close>; \<open>Process_Properties\<close>: what a loaded configuration guarantees.

  \<^bold>\<open>What is assumed of code outside the repository.\<close> Each is an argument with a named contract, and each contract
  has an instance in the development.
  \<^item> \<open>scan\<close>, the driver's UUID parser: \<open>uuid_scanner\<close> (a canonical text is accepted as itself, and what is accepted
    prints canonically); instance \<open>reference_scan\<close>.
  \<^item> \<open>store\<close>, what a \<open>timestamptz\<close> column keeps of an instant: arbitrary.
  \<^item> \<open>jsonb\<close>, what the server prints for a stored \<open>JSONB\<close> value: \<open>jsonb_column\<close> where a stored event is read back,
    \<open>takes_plain\<close> where a stored event must be accepted; instances \<open>reference_jsonb\<close> and \<open>Inr\<close>.
  \<^item> The token buckets of \<open>golang.org/x/time/rate\<close>: \<open>token_bucket\<close> (a bucket that was idle for 15 minutes, less
    the \<open>skew\<close> by which concurrent calls may be out of order, answers like a new one); instance \<open>reference_limiter\<close> with \<open>reference_allow\<close>, a bucket in exact arithmetic.
  \<^item> The commands of Redis on sorted sets and the expiry of keys: \<open>redis_sets\<close>; instance \<open>reference_redis\<close> with
    \<open>reference_elapse\<close>.
  \<^item> \<open>conn\<close>, the response writer of \<open>net/http\<close>, is written out as its documentation says, informational statuses included.
  \<^item> \<open>digest\<close>, SHA-256: 32 bytes. Generated identifiers, random bytes, clocks, the velocity observer's answers, the
    rows that other transactions have locked, the answers of the Kafka client and the outcome of each connection and
    commit (\<open>tx_env\<close>, \<open>startup\<close>) and the answer of the token verifier are arguments without a contract, or with freshness as a hypothesis where a result needs it.

  \<^bold>\<open>Concurrency.\<close> A step of the whole program is one transaction; steps interleave in any order. This is what the
  serializable isolation of \<open>Post\<close>, \<open>Create\<close> and \<open>CreatePending\<close> and the row locks of the handlers provide;
  transactions that the server aborts for conflicts are the error outcomes of \<open>tx_env\<close>, and a snapshot that misses a
  concurrently committed row is the argument \<open>seen\<close>. In the steps of the whole program (\<open>system_step\<close>) callers keep
  identifiers apart where the code does not check it: no transfer is accepted for assessment under the identifier of an
  existing journal entry, no entry is posted for another purpose under that of a stored transfer, and no time is passed that is
  stored as the zero time. The theorems about one batch of a publisher have no other publisher between its
  transactions; those about \<open>outbox_step\<close> interleave any number of publishers.

  \<^bold>\<open>Bounds.\<close> Loops over data are structural recursions. The retry loops take the list of the outcomes of their three
  attempts; the publisher's and the consumers' polling loops run over the list of what the outside answers, and their
  termination is stated for such answers; a call to the store or the broker that never returns is not represented. The limiter, the observer and the server are run over lists of calls in the
  order in which the mutex or the server takes them. Of the
  library functions only \<open>time.ParseDuration\<close> has fuel, the length of its text: every round consumes a character.

  \<^bold>\<open>Not modelled.\<close>
  \<^item> Listening, TLS, timeouts and the request multiplexer of \<open>net/http\<close>, tracing, the registration of metrics with
    Prometheus and request log lines (\<open>internal/platform/httpserver/server.go\<close>): calls into libraries that do not touch
    the state of the program. The handlers behind them are modelled as functions of the request.
  \<^item> Signal handling, contexts and deadlines, except as the cancellation of a loop or of a retry and the outcome of a
    connection.
  \<^item> The Kafka client, the verification of tokens and the discovery of an OIDC provider, and the Redis server below its
    contract.
  \<^item> PostgreSQL below the level of statements: isolation and locks as described above, indexes, plans, and the
    constraints that no statement of the program can violate by its construction.
  \<^item> Checks for nil receivers and dependencies, which the types exclude; getters, which are record fields; log lines and
    the wording of wrapped errors, of which the causes are kept.
\<close>

section \<open>A transfer moves its amount\<close>

lemma posted_transfer:
  assumes "transfer_ok t" "uuid_scanner scan"
    and "preparePostings scan (transfer_postings t) = Inr (qs, cs)"
  shows "posted a qs = (if a = t_sourceAccountID t then - units (t_amount t)
    else if a = t_destinationAccountID t then units (t_amount t) else 0)"
proof -
  have ids: "scan (t_sourceAccountID t) = Some (t_sourceAccountID t)"
    "scan (t_destinationAccountID t) = Some (t_destinationAccountID t)"
    and ne: "t_sourceAccountID t \<noteq> t_destinationAccountID t"
    and neg: "sint (- minorUnits (t_amount t)) = - units (t_amount t)"
    using assms(1) uuid_scanner.scan_canonical [OF assms(2)] positive_units [of "t_amount t"]
    by (auto simp: transfer_ok_def sint_minus_nonmin)
  from preparePostings_Inr(1) [OF assms(3)] obtain q1 q2 where q: "qs = [q1, q2]"
    "q1 = prepared_posting (t_sourceAccountID t) (p_amount (transfer_postings t ! 0))"
    "q2 = prepared_posting (t_destinationAccountID t) (p_amount (transfer_postings t ! 1))"
    using ids by (auto simp: transfer_postings_def list_all2_Cons1)
  with ne neg show ?thesis by (auto simp: transfer_postings_def)
qed

text \<open>
  Posting the journal entry of a constructed transfer takes the transfer's amount from the source
  account's balance, adds it to the destination account's balance, and touches no other balance.
\<close>

theorem transfer_moves_amount:
  assumes "uuid_scanner scan" "schema_ok db" "NewTransfer params = Inr t"
    and "transfer_JournalEntry t = Inr entry" "PostTx scan store entry db = (Inr (), db')"
  shows "map (\<lambda>b. (b_account_id b, sint (b_balance_minor b))) (account_balances db') =
    map (\<lambda>b. (b_account_id b, sint (b_balance_minor b) +
      (if b_account_id b = t_sourceAccountID t then - units (t_amount t)
       else if b_account_id b = t_destinationAccountID t then units (t_amount t) else 0)))
      (account_balances db)"
proof -
  have t: "transfer_ok t" by (rule NewTransfer_ok [OF assms(3)])
  have entry: "je_postings entry = transfer_postings t"
    using transfer_JournalEntry_eq [OF t] assms(4) by (auto simp: transfer_entry_def)
  from assms(5) obtain p where p: "prepareEntry scan entry = Inr p"
    "postPrepared store p db = (Inr (), db')"
    by (auto simp: PostTx_def split: sum.splits prod.splits)
  note ok = uuid_scanner.prepareEntry_ok [OF assms(1) p(1)]
  have db': "postable db p" "db' = posted_db store p db"
    using postPrepared_Inr [OF ok assms(2)] p(2) by blast+
  have d: "distinct (map b_account_id (account_balances db))" using assms(2) by (simp add: schema_defs)
  have "preparePostings scan (transfer_postings t) = Inr (pe_postings p, pe_changes p)"
    using uuid_scanner.prepareEntry_Inr(4) [OF assms(1) p(1)] entry by simp
  note moved = posted_transfer [OF t assms(1) this]
  have "affordable db (pe_changes p)" using db'(1) by (simp add: postable_def)
  from settled_balance [OF ok this d] moved show ?thesis
    by (simp add: db'(2) posted_db_def)
qed

definition demo_transfer :: Transfer where
  "demo_transfer =
     \<lparr>t_id = payment_id, t_idempotencyKey = ''k'', t_requesterID = demo_wallet_id,
      t_sourceAccountID = alice_id, t_destinationAccountID = bank_id,
      t_amount = \<lparr>minorUnits = 60, currency = usd\<rparr>, t_requestedAt = 9\<rparr>"

theorem transfer_moves_amount_witness:
  "\<exists>entry. transfer_JournalEntry demo_transfer = Inr entry \<and>
     map (\<lambda>b. (b_account_id b, sint (b_balance_minor b)))
       (account_balances (snd (PostTx reference_scan id entry deposited_db))) =
     [(bank_id, - 40), (alice_id, 40)]"
proof -
  let ?e = "projr (transfer_JournalEntry demo_transfer)"
  have n: "NewTransfer (transfer_params demo_transfer) = Inr demo_transfer"
    and j: "transfer_JournalEntry demo_transfer = Inr ?e"
    and f: "fst (PostTx reference_scan id ?e deposited_db) = Inr ()"
    and b: "map (\<lambda>b. (b_account_id b, sint (b_balance_minor b) +
      (if b_account_id b = t_sourceAccountID demo_transfer then - units (t_amount demo_transfer)
       else if b_account_id b = t_destinationAccountID demo_transfer
       then units (t_amount demo_transfer) else 0))) (account_balances deposited_db) =
      [(bank_id, - 40), (alice_id, 40)]"
    by code_simp+
  have "PostTx reference_scan id ?e deposited_db =
      (Inr (), snd (PostTx reference_scan id ?e deposited_db))"
    using surjective_pairing [of "PostTx reference_scan id ?e deposited_db"] unfolding f .
  note moved = transfer_moves_amount [OF reference_scanner deposited_schema n j this]
  show ?thesis by (rule exI [of _ ?e], rule conjI [OF j trans [OF moved b]])
qed

end
